(* ===== verification/Explorer_Prelude.thy ===== *)
theory Explorer_Prelude
  imports Main "HOL-Library.AList" "HOL-Library.Multiset"
begin

section \<open>Shared notions: lists, maps, tables\<close>

text \<open>
  What every component uses: the theorem collections of the development, lemmas about
  association lists read as tables with a key (the model of an SQL table with a unique key),
  sums over lists, and counting of rows. Nothing here is about one file of the explorer.
\<close>

named_theorems text_simps \<open>computation rules of the text functions\<close>
named_theorems table_simps \<open>lookup and counting after a table update\<close>
named_theorems ledger_simps \<open>balances and nets after a step\<close>

subsection \<open>Lists\<close>

lemma sum_list_map_filter_if:
  "sum_list (map f (filter P xs)) = sum_list (map (\<lambda>x. if P x then f x else (0::'a::comm_monoid_add)) xs)"
  by (induction xs) auto

lemma sum_list_map_add:
  "sum_list (map (\<lambda>x. f x + g x) xs) = sum_list (map f xs) + sum_list (map g xs)"
  for f g :: "'a \<Rightarrow> 'b::comm_monoid_add"
  by (induction xs) (auto simp: ac_simps)

lemma sum_list_map_diff_int:
  "sum_list (map (\<lambda>x. f x - g x) xs) = sum_list (map f xs) - sum_list (map g xs)"
  for f g :: "'a \<Rightarrow> int"
  by (induction xs) auto

lemma take_while_append_hole:
  "list_all P xs \<Longrightarrow> \<not> P y \<Longrightarrow> takeWhile P (xs @ y # ys) = xs"
  by (induction xs) auto

lemma set_map_filter_iff: "y \<in> set (List.map_filter f xs) \<longleftrightarrow> (\<exists>x\<in>set xs. f x = Some y)"
  by (induction xs) (auto simp: List.map_filter_simps split: option.split)

lemma upt_join: "a \<le> b \<Longrightarrow> b \<le> c \<Longrightarrow> [a..<b] @ [b..<c] = [a..<c]"
  using upt_add_eq_append [of a b "c - b"] by simp

lemma map_of_None_iff_key: "map_of xs k = None \<longleftrightarrow> k \<notin> fst ` set xs"
  by (simp add: map_of_eq_None_iff)

subsection \<open>Tables with a unique key\<close>

text \<open>
  A table whose primary key is \<open>k\<close> is an association list with distinct keys. An upsert
  (\<open>INSERT ... ON CONFLICT(key) DO UPDATE\<close>) is \<open>AList.update\<close>, a keyed \<open>DELETE\<close> is
  \<open>AList.delete\<close>, a keyed \<open>SELECT\<close> is \<open>map_of\<close>.
\<close>

definition unique_keys :: "('k \<times> 'v) list \<Rightarrow> bool" where
  "unique_keys t \<longleftrightarrow> distinct (map fst t)"

lemma unique_keys_Nil [simp, intro]: "unique_keys []"
  by (simp add: unique_keys_def)

lemma unique_keys_update [intro]: "unique_keys t \<Longrightarrow> unique_keys (AList.update k v t)"
  unfolding unique_keys_def by (rule distinct_update)

lemma unique_keys_delete [intro]: "unique_keys t \<Longrightarrow> unique_keys (AList.delete k t)"
  unfolding unique_keys_def by (rule distinct_delete)

lemma map_of_update [table_simps]:
  "map_of (AList.update k v t) k' = (if k' = k then Some v else map_of t k')"
  by (simp add: update_conv)

lemma map_of_delete [table_simps]:
  "map_of (AList.delete k t) k' = (if k' = k then None else map_of t k')"
  by (simp add: delete_conv)

text \<open>Rows of a table that satisfy a predicate, as \<open>SELECT COUNT(*) ... WHERE\<close> counts them.\<close>

definition count_rows :: "('k \<times> 'v \<Rightarrow> bool) \<Rightarrow> ('k \<times> 'v) list \<Rightarrow> nat" where
  "count_rows P t = length (filter P t)"

lemma count_rows_Nil [simp]: "count_rows P [] = 0"
  by (simp add: count_rows_def)

lemma count_rows_Cons [simp]: "count_rows P (r # t) = (if P r then Suc (count_rows P t) else count_rows P t)"
  by (simp add: count_rows_def)

text \<open>What one keyed row contributes to a count.\<close>

definition row_counts :: "('k \<times> 'v \<Rightarrow> bool) \<Rightarrow> ('k \<times> 'v) list \<Rightarrow> 'k \<Rightarrow> int" where
  "row_counts P t k = (case map_of t k of None \<Rightarrow> 0 | Some v \<Rightarrow> if P (k, v) then 1 else 0)"

lemma count_rows_update:
  assumes "unique_keys t"
  shows "int (count_rows P (AList.update k v t)) =
           int (count_rows P t) + (if P (k, v) then 1 else 0) - row_counts P t k"
  using assms
proof (induction t)
  case Nil
  then show ?case by (simp add: row_counts_def)
next
  case (Cons r t)
  obtain k' v' where r: "r = (k', v')" by (cases r)
  show ?case
  proof (cases "k' = k")
    case True
    with Cons.prems r show ?thesis by (simp add: row_counts_def)
  next
    case False
    have "row_counts P (r # t) k = row_counts P t k"
      using False r by (simp add: row_counts_def)
    with Cons False r show ?thesis by (auto simp: unique_keys_def)
  qed
qed

lemma count_rows_delete:
  assumes "unique_keys t"
  shows "int (count_rows P (AList.delete k t)) = int (count_rows P t) - row_counts P t k"
  using assms
proof (induction t)
  case Nil
  then show ?case by (simp add: row_counts_def)
next
  case (Cons r t)
  obtain k' v' where r: "r = (k', v')" by (cases r)
  show ?case
  proof (cases "k' = k")
    case True
    with Cons.prems r have "AList.delete k t = t"
      by (auto simp: unique_keys_def intro!: delete_id)
    with True r show ?thesis by (simp add: row_counts_def)
  next
    case False
    have "row_counts P (r # t) k = row_counts P t k"
      using False r by (simp add: row_counts_def)
    with Cons False r show ?thesis by (auto simp: unique_keys_def)
  qed
qed

lemma length_update_key:
  "length (AList.update k v t) = (if k \<in> fst ` set t then length t else Suc (length t))"
  by (induction t) auto

end
