(* ===== verification/Rust_Text.thy ===== *)
theory Rust_Text
  imports Explorer_Prelude "HOL-Library.Sublist"
begin

section \<open>Rust strings and numbers as text\<close>

text \<open>
  What the source uses of the standard library's \<open>str\<close>, \<open>String\<close>, \<open>char\<close> and integer parsing.
  A Rust string is its UTF-8 bytes and HOL's \<open>char\<close> is exactly a byte, so a \<open>&str\<close>, a \<open>String\<close>
  and a \<open>Vec<u8>\<close> are all \<open>char list\<close>, \<open>len()\<close> is \<open>length\<close> and slicing is \<open>take\<close> and \<open>drop\<close>.
  Case folding is written for ASCII, and leaves a byte outside ASCII alone. The strings the
  source folds are hexadecimal, addresses and identifiers; the places where free text is folded
  take the folding as a parameter.
\<close>

type_synonym bytes = "char list"

abbreviation byte_val :: "char \<Rightarrow> nat" where
  "byte_val c \<equiv> of_char c"

subsection \<open>ASCII case\<close>

definition is_upper :: "char \<Rightarrow> bool" where
  "is_upper c \<longleftrightarrow> 65 \<le> byte_val c \<and> byte_val c \<le> 90"

definition is_lower :: "char \<Rightarrow> bool" where
  "is_lower c \<longleftrightarrow> 97 \<le> byte_val c \<and> byte_val c \<le> 122"

definition lower_char :: "char \<Rightarrow> char" where
  "lower_char c = (if is_upper c then char_of (byte_val c + 32) else c)"

definition upper_char :: "char \<Rightarrow> char" where
  "upper_char c = (if is_lower c then char_of (byte_val c - 32) else c)"

definition lower :: "string \<Rightarrow> string" where
  "lower s = map lower_char s"

definition upper :: "string \<Rightarrow> string" where
  "upper s = map upper_char s"

text \<open>\<open>eq_ignore_ascii_case\<close>\<close>

definition eq_ic :: "string \<Rightarrow> string \<Rightarrow> bool" where
  "eq_ic a b \<longleftrightarrow> lower a = lower b"

lemma byte_val_lower_char:
  "byte_val (lower_char c) = (if is_upper c then byte_val c + 32 else byte_val c)"
  by (auto simp: lower_char_def is_upper_def)

lemma byte_val_upper_char:
  "byte_val (upper_char c) = (if is_lower c then byte_val c - 32 else byte_val c)"
proof -
  have "byte_val c < 256" by simp
  then have "byte_val c - 32 < 256" by linarith
  then show ?thesis by (auto simp: upper_char_def)
qed

lemma char_eq_byte_val: "c = d \<longleftrightarrow> byte_val c = byte_val d"
  by simp

lemma lower_char_idem [simp]: "lower_char (lower_char c) = lower_char c"
  by (simp add: char_eq_byte_val byte_val_lower_char is_upper_def del: of_char_eq_iff)

lemma lower_char_upper_char [simp]: "lower_char (upper_char c) = lower_char c"
  by (auto simp: char_eq_byte_val byte_val_lower_char byte_val_upper_char is_upper_def is_lower_def
      simp del: of_char_eq_iff)

lemma lower_idem [simp]: "lower (lower s) = lower s"
  by (simp add: lower_def comp_def)

lemma length_lower [simp]: "length (lower s) = length s"
  by (simp add: lower_def)

lemma lower_append [simp]: "lower (a @ b) = lower a @ lower b"
  by (simp add: lower_def)

lemma lower_Nil [simp]: "lower [] = []"
  by (simp add: lower_def)

lemma lower_Cons [simp]: "lower (c # s) = lower_char c # lower s"
  by (simp add: lower_def)

lemma eq_ic_refl [simp]: "eq_ic a a"
  by (simp add: eq_ic_def)

lemma eq_ic_sym: "eq_ic a b \<longleftrightarrow> eq_ic b a"
  by (auto simp: eq_ic_def)

lemma eq_ic_trans: "eq_ic a b \<Longrightarrow> eq_ic b c \<Longrightarrow> eq_ic a c"
  by (simp add: eq_ic_def)

subsection \<open>Prefixes\<close>

fun strip_prefix :: "string \<Rightarrow> string \<Rightarrow> string option" where
  "strip_prefix [] s = Some s"
| "strip_prefix (p # ps) [] = None"
| "strip_prefix (p # ps) (c # s) = (if p = c then strip_prefix ps s else None)"

text \<open>\<open>s.strip_prefix("0x").unwrap_or(s)\<close>\<close>

definition strip_0x :: "string \<Rightarrow> string" where
  "strip_0x s = (case strip_prefix ''0x'' s of Some r \<Rightarrow> r | None \<Rightarrow> s)"

definition starts_with :: "string \<Rightarrow> string \<Rightarrow> bool" where
  "starts_with p s \<longleftrightarrow> strip_prefix p s \<noteq> None"

text \<open>\<open>s.trim_start_matches(p)\<close>: the prefix is removed as often as it occurs.\<close>

function trim_start_matches :: "string \<Rightarrow> string \<Rightarrow> string" where
  "trim_start_matches p s =
     (case strip_prefix p s of
        Some r \<Rightarrow> if length r < length s then trim_start_matches p r else s
      | None \<Rightarrow> s)"
  by pat_completeness auto
termination
  by (relation "measure (\<lambda>(p, s). length s)") auto

declare trim_start_matches.simps [simp del]

lemma strip_prefix_Some: "strip_prefix p s = Some r \<longleftrightarrow> s = p @ r"
  by (induction p s rule: strip_prefix.induct) auto

lemma strip_prefix_append [simp]: "strip_prefix p (p @ r) = Some r"
  by (simp add: strip_prefix_Some)

lemma starts_with_prefix: "starts_with p s \<longleftrightarrow> prefix p s"
  unfolding starts_with_def prefix_def by (metis not_None_eq strip_prefix_Some)

lemma strip_0x_0x [simp]: "strip_0x (CHR ''0'' # CHR ''x'' # r) = r"
  by (simp add: strip_0x_def)

lemma length_strip_0x: "length (strip_0x s) \<le> length s"
proof (cases "strip_prefix ''0x'' s")
  case (Some r)
  then have "s = ''0x'' @ r" by (simp only: strip_prefix_Some)
  then show ?thesis by simp
qed (simp add: strip_0x_def)

subsection \<open>Characters: UTF-8\<close>

text \<open>
  The characters of a byte string, each as the bytes that encode it (the well-formed byte
  sequences of the Unicode standard); \<open>None\<close> for bytes \<open>str::from_utf8\<close> refuses.
\<close>

definition cont_byte :: "char \<Rightarrow> bool" where
  "cont_byte c \<longleftrightarrow> 128 \<le> byte_val c \<and> byte_val c \<le> 191"

definition utf8_ok2 :: "char \<Rightarrow> char \<Rightarrow> bool" where
  "utf8_ok2 a b \<longleftrightarrow> 194 \<le> byte_val a \<and> byte_val a \<le> 223 \<and> cont_byte b"

definition utf8_ok3 :: "char \<Rightarrow> char \<Rightarrow> char \<Rightarrow> bool" where
  "utf8_ok3 a b c \<longleftrightarrow> 224 \<le> byte_val a \<and> byte_val a \<le> 239 \<and> cont_byte b \<and> cont_byte c
     \<and> (byte_val a = 224 \<longrightarrow> 160 \<le> byte_val b) \<and> (byte_val a = 237 \<longrightarrow> byte_val b \<le> 159)"

definition utf8_ok4 :: "char \<Rightarrow> char \<Rightarrow> char \<Rightarrow> char \<Rightarrow> bool" where
  "utf8_ok4 a b c d \<longleftrightarrow> 240 \<le> byte_val a \<and> byte_val a \<le> 244 \<and> cont_byte b \<and> cont_byte c \<and> cont_byte d
     \<and> (byte_val a = 240 \<longrightarrow> 144 \<le> byte_val b) \<and> (byte_val a = 244 \<longrightarrow> byte_val b \<le> 143)"

fun utf8_head :: "bytes \<Rightarrow> (bytes \<times> bytes) option" where
  "utf8_head [] = None"
| "utf8_head (a # s) =
     (if byte_val a < 128 then Some ([a], s)
      else case s of
        [] \<Rightarrow> None
      | b # s2 \<Rightarrow>
          if utf8_ok2 a b then Some ([a, b], s2)
          else case s2 of
            [] \<Rightarrow> None
          | c # s3 \<Rightarrow>
              if utf8_ok3 a b c then Some ([a, b, c], s3)
              else case s3 of
                [] \<Rightarrow> None
              | d # s4 \<Rightarrow> if utf8_ok4 a b c d then Some ([a, b, c, d], s4) else None)"

lemma utf8_head_Some: "utf8_head s = Some (c, r) \<Longrightarrow> s = c @ r \<and> c \<noteq> []"
  by (cases s) (auto split: if_splits list.splits)

function utf8_chars :: "bytes \<Rightarrow> bytes list option" where
  "utf8_chars s =
     (if s = [] then Some []
      else case utf8_head s of
        None \<Rightarrow> None
      | Some (c, r) \<Rightarrow> map_option (\<lambda>cs. c # cs) (utf8_chars r))"
  by pat_completeness auto
termination
proof (relation "measure length")
  fix s x c r
  assume "utf8_head s = Some x" and "(c, r) = x"
  then have "s = c @ r \<and> c \<noteq> []" using utf8_head_Some [of s c r] by auto
  then show "(r, s) \<in> measure length" by auto
qed simp

declare utf8_chars.simps [simp del]

text \<open>The code point a character's bytes encode.\<close>

fun char_code :: "bytes \<Rightarrow> nat" where
  "char_code [a] = byte_val a"
| "char_code [a, b] = (byte_val a - 192) * 64 + (byte_val b - 128)"
| "char_code [a, b, c] = (byte_val a - 224) * 4096 + (byte_val b - 128) * 64 + (byte_val c - 128)"
| "char_code [a, b, c, d] =
     (byte_val a - 240) * 262144 + (byte_val b - 128) * 4096 + (byte_val c - 128) * 64 + (byte_val d - 128)"
| "char_code _ = 0"

text \<open>\<open>char::is_whitespace\<close> and \<open>char::is_control\<close>, on code points.\<close>

definition ws_code :: "nat \<Rightarrow> bool" where
  "ws_code n \<longleftrightarrow> (9 \<le> n \<and> n \<le> 13) \<or> n = 32 \<or> n = 133 \<or> n = 160 \<or> n = 5760 \<or> (8192 \<le> n \<and> n \<le> 8202)
     \<or> n = 8232 \<or> n = 8233 \<or> n = 8239 \<or> n = 8287 \<or> n = 12288"

definition control_code :: "nat \<Rightarrow> bool" where
  "control_code n \<longleftrightarrow> n \<le> 31 \<or> (127 \<le> n \<and> n \<le> 159)"

abbreviation ws_char :: "bytes \<Rightarrow> bool" where
  "ws_char c \<equiv> ws_code (char_code c)"

definition trim_chars :: "bytes list \<Rightarrow> bytes list" where
  "trim_chars cs = rev (dropWhile ws_char (rev (dropWhile ws_char cs)))"

text \<open>A string's characters; a Rust string is always well formed, so the other case never arises.\<close>

definition chars :: "string \<Rightarrow> bytes list" where
  "chars s = (case utf8_chars s of Some cs \<Rightarrow> cs | None \<Rightarrow> map (\<lambda>c. [c]) s)"

definition trim :: "string \<Rightarrow> string" where
  "trim s = concat (trim_chars (chars s))"

lemma utf8_chars_concat: "utf8_chars s = Some cs \<Longrightarrow> concat cs = s"
proof (induction s arbitrary: cs rule: utf8_chars.induct)
  case (1 s)
  show ?case
  proof (cases "s = []")
    case True
    with "1.prems" show ?thesis by (simp add: utf8_chars.simps)
  next
    case False
    with "1.prems" obtain c r cs' where h: "utf8_head s = Some (c, r)"
      and r: "utf8_chars r = Some cs'" and cs: "cs = c # cs'"
      by (subst (asm) utf8_chars.simps) (auto split: option.splits)
    have "concat cs' = r" by (rule "1.IH" [OF False h refl r])
    then show ?thesis using cs utf8_head_Some [OF h] by simp
  qed
qed

lemma concat_chars [simp]: "concat (chars s) = s"
proof (cases "utf8_chars s")
  case None
  have "concat (map (\<lambda>c. [c]) s) = s" by (induction s) auto
  with None show ?thesis by (simp add: chars_def)
qed (simp add: chars_def utf8_chars_concat)

definition ascii :: "string \<Rightarrow> bool" where
  "ascii s \<longleftrightarrow> (\<forall>c\<in>set s. byte_val c < 128)"

lemma utf8_chars_Nil [simp]: "utf8_chars [] = Some []"
  by (simp add: utf8_chars.simps)

lemma utf8_chars_ascii: "ascii s \<Longrightarrow> utf8_chars s = Some (map (\<lambda>c. [c]) s)"
proof (induction s)
  case (Cons a s)
  then show ?case by (subst utf8_chars.simps) (simp add: ascii_def)
qed simp

lemma chars_ascii: "ascii s \<Longrightarrow> chars s = map (\<lambda>c. [c]) s"
  by (simp add: chars_def utf8_chars_ascii)

lemma dropWhile_none: "list_all (\<lambda>x. \<not> P x) xs \<Longrightarrow> dropWhile P xs = xs"
  by (cases xs) auto

lemma trim_no_ws:
  assumes "ascii s" and "\<forall>c\<in>set s. \<not> ws_code (byte_val c)"
  shows "trim s = s"
proof -
  have *: "list_all (\<lambda>x. \<not> ws_char x) (map (\<lambda>c. [c]) s)"
    using assms(2) by (induction s) auto
  then have **: "list_all (\<lambda>x. \<not> ws_char x) (rev (map (\<lambda>c. [c]) s))"
    by (simp add: list_all_iff)
  have "trim_chars (chars s) = map (\<lambda>c. [c]) s"
    using assms(1) by (simp add: trim_chars_def chars_ascii dropWhile_none [OF *] dropWhile_none [OF **])
  moreover have "concat (map (\<lambda>c. [c]) s) = s" by (induction s) auto
  ultimately show ?thesis by (simp add: trim_def)
qed

subsection \<open>Case and trimming\<close>

lemma lower_char_high: "128 \<le> byte_val c \<Longrightarrow> lower_char c = c"
  by (simp add: lower_char_def is_upper_def)

lemma lower_char_low: "byte_val (lower_char c) < 128 \<longleftrightarrow> byte_val c < 128"
  by (auto simp: byte_val_lower_char is_upper_def)

lemma cont_byte_lower: "cont_byte (lower_char c) = cont_byte c"
  by (cases "byte_val c < 128") (auto simp: cont_byte_def lower_char_high byte_val_lower_char is_upper_def)

lemma utf8_ok_lower:
  "utf8_ok2 (lower_char a) (lower_char b) = utf8_ok2 a b"
  "utf8_ok3 (lower_char a) (lower_char b) (lower_char c) = utf8_ok3 a b c"
  "utf8_ok4 (lower_char a) (lower_char b) (lower_char c) (lower_char d) = utf8_ok4 a b c d"
  by (auto simp: utf8_ok2_def utf8_ok3_def utf8_ok4_def cont_byte_lower byte_val_lower_char is_upper_def cont_byte_def
      split: if_splits)

lemma utf8_head_lower: "utf8_head (lower s) = map_option (map_prod lower lower) (utf8_head s)"
  by (cases s) (auto simp: lower_def lower_char_low utf8_ok_lower split: list.split)

lemma lower_Nil_iff: "lower s = [] \<longleftrightarrow> s = []"
  by (simp add: lower_def)

lemma utf8_chars_lower: "utf8_chars (lower s) = map_option (map lower) (utf8_chars s)"
proof (induction s rule: utf8_chars.induct)
  case (1 s)
  show ?case
  proof (cases "s = [] \<or> utf8_head s = None")
    case True
    then show ?thesis
      by (auto simp: utf8_chars.simps [of s] utf8_chars.simps [of "lower s"] lower_Nil_iff utf8_head_lower)
  next
    case False
    then obtain c r where h: "utf8_head s = Some (c, r)" by auto
    have "utf8_chars (lower r) = map_option (map lower) (utf8_chars r)" by (rule "1.IH") (use False h in auto)
    then show ?thesis using False h
      by (simp add: utf8_chars.simps [of s] utf8_chars.simps [of "lower s"] lower_Nil_iff utf8_head_lower
          option.map_comp comp_def)
  qed
qed

lemma chars_lower: "chars (lower s) = map lower (chars s)"
  by (simp add: chars_def utf8_chars_lower split: option.split) (simp add: lower_def)

lemma byte_val_lower_minus: "128 \<le> k \<Longrightarrow> byte_val (lower_char a) - k = byte_val a - k"
  by (auto simp: byte_val_lower_char is_upper_def)

lemma ws_char_lower: "ws_char (lower c) = ws_char c"
proof (cases c rule: char_code.cases)
  case (1 a)
  then show ?thesis by (auto simp: lower_def byte_val_lower_char ws_code_def is_upper_def)
qed (simp_all add: lower_def byte_val_lower_minus)

lemma lower_trim: "lower (trim s) = trim (lower s)"
proof -
  have [simp]: "ws_char \<circ> lower = ws_char" by (rule ext) (simp add: ws_char_lower)
  have "map lower (trim_chars cs) = trim_chars (map lower cs)" for cs
    by (simp add: trim_chars_def rev_map dropWhile_map)
  moreover have "lower (concat cs) = concat (map lower cs)" for cs by (induction cs) (simp_all add: lower_def)
  ultimately show ?thesis by (simp only: trim_def chars_lower)
qed

end
