(* ===== verification/Rust_Numbers.thy ===== *)
theory Rust_Numbers
  imports Rust_Text
begin

section \<open>Integers, and integers as text\<close>

text \<open>
  Machine integers are \<open>nat\<close> (unsigned) and \<open>int\<close> (signed) with the casts, the checked and the
  saturating operations of the source written out against their bounds. Text: \<open>to_string\<close>,
  \<open>parse\<close>, \<open>from_str_radix\<close> of the standard library, and of \<open>num_bigint::BigInt\<close>, which is \<open>int\<close>.
\<close>

subsection \<open>Widths\<close>

abbreviation U64_MAX :: nat where
  "U64_MAX \<equiv> 18446744073709551615"

abbreviation I64_MAX :: int where
  "I64_MAX \<equiv> 9223372036854775807"

definition is_i64 :: "int \<Rightarrow> bool" where
  "is_i64 i \<longleftrightarrow> - 9223372036854775808 \<le> i \<and> i \<le> I64_MAX"

text \<open>\<open>v as i64\<close> of a \<open>u64\<close>, \<open>v as u64\<close> of an \<open>i64\<close>: the same 64 bits.\<close>

definition i64_of_u64 :: "nat \<Rightarrow> int" where
  "i64_of_u64 n = (if int n \<le> I64_MAX then int n else int n - 18446744073709551616)"

definition u64_of_i64 :: "int \<Rightarrow> nat" where
  "u64_of_i64 i = nat (i mod 18446744073709551616)"

definition saturating_add64 :: "nat \<Rightarrow> nat \<Rightarrow> nat" where
  "saturating_add64 a b = min (a + b) U64_MAX"

definition checked_add64 :: "nat \<Rightarrow> nat \<Rightarrow> nat option" where
  "checked_add64 a b = (if a + b \<le> U64_MAX then Some (a + b) else None)"

text \<open>On unsigned values, \<open>saturating_sub\<close> is \<open>-\<close> on \<open>nat\<close>, and \<open>checked_sub\<close> tells when it stops.\<close>

definition checked_sub :: "nat \<Rightarrow> nat \<Rightarrow> nat option" where
  "checked_sub a b = (if b \<le> a then Some (a - b) else None)"

lemma i64_of_u64_u64_of_i64: "is_i64 i \<Longrightarrow> i64_of_u64 (u64_of_i64 i) = i"
proof -
  assume i: "is_i64 i"
  have "i mod 18446744073709551616 = (if 0 \<le> i then i else i + 18446744073709551616)"
  proof (cases "0 \<le> i")
    case False
    have "(i + 18446744073709551616) mod 18446744073709551616 = i + 18446744073709551616"
      using i False by (intro mod_pos_pos_trivial) (auto simp: is_i64_def)
    then show ?thesis using False by simp
  qed (use i in \<open>auto simp: is_i64_def\<close>)
  with i show ?thesis by (auto simp: is_i64_def i64_of_u64_def u64_of_i64_def)
qed

lemma u64_of_i64_i64_of_u64: "n \<le> U64_MAX \<Longrightarrow> u64_of_i64 (i64_of_u64 n) = n"
  unfolding i64_of_u64_def u64_of_i64_def by auto

lemma is_i64_i64_of_u64: "n \<le> U64_MAX \<Longrightarrow> is_i64 (i64_of_u64 n)"
  unfolding i64_of_u64_def is_i64_def by auto

lemma u64_of_i64_nonneg [simp]: "0 \<le> i \<Longrightarrow> is_i64 i \<Longrightarrow> u64_of_i64 i = nat i"
  unfolding u64_of_i64_def is_i64_def by auto

subsection \<open>Digits\<close>

definition digit_val :: "nat \<Rightarrow> char \<Rightarrow> nat option" where
  "digit_val base c =
     (let n = byte_val c;
          d = (if 48 \<le> n \<and> n \<le> 57 then n - 48
               else if 97 \<le> n \<and> n \<le> 122 then n - 87
               else if 65 \<le> n \<and> n \<le> 90 then n - 55
               else base)
      in if d < base then Some d else None)"

fun digits_val :: "nat \<Rightarrow> nat \<Rightarrow> string \<Rightarrow> nat option" where
  "digits_val base acc [] = Some acc"
| "digits_val base acc (c # s) =
     (case digit_val base c of None \<Rightarrow> None | Some d \<Rightarrow> digits_val base (acc * base + d) s)"

definition digit_char :: "nat \<Rightarrow> char" where
  "digit_char d = (if d < 10 then char_of (48 + d) else char_of (87 + d))"

fun radix_nat :: "nat \<Rightarrow> nat \<Rightarrow> string" where
  "radix_nat base n =
     (if base < 2 then [] else if n < base then [digit_char n] else radix_nat base (n div base) @ [digit_char (n mod base)])"

declare radix_nat.simps [simp del]

abbreviation dec_nat :: "nat \<Rightarrow> string" where
  "dec_nat \<equiv> radix_nat 10"

text \<open>\<open>format!("{n:x}")\<close>\<close>

abbreviation hex_nat :: "nat \<Rightarrow> string" where
  "hex_nat \<equiv> radix_nat 16"

definition dec_int :: "int \<Rightarrow> string" where
  "dec_int i = (if i < 0 then CHR ''-'' # dec_nat (nat (- i)) else dec_nat (nat i))"

lemma byte_val_digit_char: "d < 36 \<Longrightarrow> byte_val (digit_char d) = (if d < 10 then 48 + d else 87 + d)"
  by (auto simp: digit_char_def)

lemma digit_val_digit_char: "d < base \<Longrightarrow> base \<le> 36 \<Longrightarrow> digit_val base (digit_char d) = Some d"
  by (auto simp: digit_val_def byte_val_digit_char Let_def)

lemma digits_val_append:
  "digits_val base acc (s @ t) =
     (case digits_val base acc s of None \<Rightarrow> None | Some a \<Rightarrow> digits_val base a t)"
  by (induction s arbitrary: acc) (auto split: option.splits)

lemma radix_nat_small: "2 \<le> base \<Longrightarrow> n < base \<Longrightarrow> radix_nat base n = [digit_char n]"
  by (simp add: radix_nat.simps)

lemma radix_nat_step:
  "2 \<le> base \<Longrightarrow> base \<le> n \<Longrightarrow> radix_nat base n = radix_nat base (n div base) @ [digit_char (n mod base)]"
  by (subst radix_nat.simps) simp

lemma radix_nat_induct [consumes 1, case_names small step]:
  assumes "2 \<le> base"
    and "\<And>n. n < base \<Longrightarrow> P n"
    and "\<And>n. base \<le> n \<Longrightarrow> P (n div base) \<Longrightarrow> P n"
  shows "P (n::nat)"
proof (induction n rule: less_induct)
  case (less n)
  show ?case
  proof (cases "n < base")
    case False
    then have "n div base < n" using assms(1) by (intro div_less_dividend) auto
    with False less assms(3) show ?thesis by auto
  qed (rule assms(2))
qed

lemma radix_nat_neq_Nil [simp]: "2 \<le> base \<Longrightarrow> radix_nat base n \<noteq> []"
  by (subst radix_nat.simps) auto

lemma digits_val_radix:
  assumes "2 \<le> base" "base \<le> 36"
  shows "digits_val base 0 (radix_nat base n) = Some n"
  using assms(1)
proof (induction n rule: radix_nat_induct)
  case (small n)
  then show ?case using assms by (simp add: radix_nat_small digit_val_digit_char)
next
  case (step n)
  have "n mod base < base" using assms by simp
  then show ?case using step assms
    by (simp add: radix_nat_step digits_val_append digit_val_digit_char)
qed

lemma radix_nat_digits:
  assumes "2 \<le> base"
  shows "c \<in> set (radix_nat base n) \<Longrightarrow> \<exists>d<base. c = digit_char d"
  using assms
proof (induction n rule: radix_nat_induct)
  case (step n)
  then show ?case using assms by (auto simp: radix_nat_step intro: exI [of _ "n mod base"])
next
  case (small n)
  then show ?case using assms by (auto simp: radix_nat_small)
qed

lemma length_radix_le_iff:
  assumes "2 \<le> base"
  shows "n < base ^ length (radix_nat base n)"
  using assms
proof (induction n rule: radix_nat_induct)
  case (step n)
  have "n mod base < base" using assms by simp
  then have "n < n div base * base + base" using div_mult_mod_eq [of n base] by linarith
  also have "\<dots> = Suc (n div base) * base" by simp
  also have "\<dots> \<le> base ^ length (radix_nat base (n div base)) * base"
    using step by (intro mult_le_mono1) simp
  finally show ?case using step assms by (simp add: radix_nat_step mult.commute)
next
  case (small n)
  then show ?case using assms by (simp add: radix_nat_small)
qed

lemma length_radix_ge:
  assumes "2 \<le> base"
  shows "0 < n \<Longrightarrow> base ^ (length (radix_nat base n) - 1) \<le> n"
  using assms
proof (induction n rule: radix_nat_induct)
  case (step n)
  have pos: "0 < n div base" using step assms by (simp add: div_greater_zero_iff)
  then have IH: "base ^ (length (radix_nat base (n div base)) - 1) \<le> n div base" using step by simp
  have "length (radix_nat base (n div base)) \<noteq> 0" using assms by simp
  then have "base ^ length (radix_nat base (n div base)) = base ^ (length (radix_nat base (n div base)) - 1) * base"
    by (metis Suc_diff_1 bot_nat_0.not_eq_extremum power_Suc2)
  also have "\<dots> \<le> n div base * base" using IH by simp
  also have "\<dots> \<le> n" by simp
  finally show ?case using step assms by (simp add: radix_nat_step)
next
  case (small n)
  then show ?case using assms by (simp add: radix_nat_small)
qed

subsection \<open>Numeric order is length, then bytes\<close>

fun lex_less :: "string \<Rightarrow> string \<Rightarrow> bool" where
  "lex_less s [] = False"
| "lex_less [] (d # t) = True"
| "lex_less (c # s) (d # t) = (byte_val c < byte_val d \<or> (c = d \<and> lex_less s t))"

lemma lex_less_snoc:
  "length s = length t \<Longrightarrow>
     lex_less (s @ [c]) (t @ [d]) \<longleftrightarrow> lex_less s t \<or> (s = t \<and> byte_val c < byte_val d)"
  by (induction s t rule: list_induct2) auto

lemma dec_nat_length_mono: "length (dec_nat m) < length (dec_nat n) \<Longrightarrow> m < n"
proof -
  assume len: "length (dec_nat m) < length (dec_nat n)"
  have n: "0 < n"
  proof (rule ccontr)
    assume "\<not> 0 < n"
    then have "length (dec_nat n) = 1" by (simp add: radix_nat_small)
    with len show False by simp
  qed
  have "m < 10 ^ length (dec_nat m)" by (rule length_radix_le_iff) simp
  also have "\<dots> \<le> (10::nat) ^ (length (dec_nat n) - 1)" using len by (intro power_increasing) auto
  also have "\<dots> \<le> n" using n by (intro length_radix_ge) auto
  finally show ?thesis .
qed

lemma dec_nat_inj: "dec_nat m = dec_nat n \<longleftrightarrow> m = n"
proof
  assume "dec_nat m = dec_nat n"
  then have "digits_val 10 0 (dec_nat m) = digits_val 10 0 (dec_nat n)" by simp
  then show "m = n" by (simp add: digits_val_radix)
qed simp

lemma div_mod_10_less:
  "m div 10 < n div 10 \<or> (m div 10 = n div 10 \<and> m mod 10 < n mod 10) \<longleftrightarrow> m < (n::nat)"
proof -
  obtain a b c d where m: "m = 10 * a + b" "b < 10" and n: "n = 10 * c + d" "d < 10"
    by (metis mod_less_divisor mult_div_mod_eq zero_less_numeral)
  have q: "m div 10 = a" "m mod 10 = b" "n div 10 = c" "n mod 10 = d" using m n by simp_all
  show ?thesis unfolding q using m n by linarith
qed

lemma dec_nat_same_length:
  "length (dec_nat m) = length (dec_nat n) \<Longrightarrow> lex_less (dec_nat m) (dec_nat n) \<longleftrightarrow> m < n"
proof (induction m arbitrary: n rule: radix_nat_induct [of 10, consumes 0, case_names two small step])
  case (small m)
  have "n < 10"
  proof (rule ccontr)
    assume "\<not> n < 10"
    then have "length (dec_nat n) = length (dec_nat (n div 10)) + 1" by (simp add: radix_nat_step)
    moreover have "length (dec_nat (n div 10)) \<noteq> 0" by simp
    ultimately show False using small by (simp add: radix_nat_small)
  qed
  with small show ?case by (simp add: radix_nat_small byte_val_digit_char)
next
  case (step m)
  have "10 \<le> n"
  proof (rule ccontr)
    assume "\<not> 10 \<le> n"
    then have "length (dec_nat n) = 1" by (simp add: radix_nat_small)
    moreover have "length (dec_nat m) = length (dec_nat (m div 10)) + 1" using step by (simp add: radix_nat_step)
    moreover have "length (dec_nat (m div 10)) \<noteq> 0" by simp
    ultimately show False using step.prems by simp
  qed
  then have len: "length (dec_nat (m div 10)) = length (dec_nat (n div 10))"
    using step by (simp add: radix_nat_step)
  have "byte_val (digit_char (m mod 10)) < byte_val (digit_char (n mod 10)) \<longleftrightarrow> m mod 10 < n mod 10"
    by (simp add: byte_val_digit_char)
  then have "lex_less (dec_nat m) (dec_nat n) \<longleftrightarrow>
      m div 10 < n div 10 \<or> (m div 10 = n div 10 \<and> m mod 10 < n mod 10)"
    using step.hyps \<open>10 \<le> n\<close> len step.IH [OF len] by (simp add: radix_nat_step lex_less_snoc dec_nat_inj)
  also have "\<dots> \<longleftrightarrow> m < n" by (rule div_mod_10_less)
  finally show ?case .
qed simp

lemma dec_nat_order:
  "(length (dec_nat m) < length (dec_nat n) \<or>
      (length (dec_nat m) = length (dec_nat n) \<and> lex_less (dec_nat m) (dec_nat n))) \<longleftrightarrow> m < n"
proof (cases "length (dec_nat m)" "length (dec_nat n)" rule: linorder_cases)
  case less
  then show ?thesis using dec_nat_length_mono [of m n] by auto
next
  case equal
  then show ?thesis using dec_nat_same_length [of m n] by auto
next
  case greater
  then show ?thesis using dec_nat_length_mono [of n m] by auto
qed

end
