(* ===== verification/Extern.thy ===== *)
theory Extern
  imports Rust_Numbers
begin

section \<open>The documented values of the libraries the source calls\<close>

text \<open>
  The value types and text codecs of the libraries, as their documentation fixes them: integer
  parsing of the standard library, \<open>num_bigint::BigInt\<close> (an integer), \<open>hex::encode\<close> and
  \<open>hex::decode\<close>, and \<open>serde_json::Value\<close>. What a library computes that its documentation does
  not fix as a function (Keccak, RLP, the ABI codec, a node's answers, the clock) is a parameter
  of the definitions that use it, in every theory of the development.
\<close>

subsection \<open>Parsing integers\<close>

text \<open>\<open>u64::from_str_radix\<close>: one optional \<open>+\<close>, at least one digit, no overflow.\<close>

definition strip_plus :: "string \<Rightarrow> string" where
  "strip_plus s = (case s of [] \<Rightarrow> [] | c # r \<Rightarrow> if c = CHR ''+'' then r else s)"

definition u64_from_str_radix :: "nat \<Rightarrow> string \<Rightarrow> nat option" where
  "u64_from_str_radix base s =
     (if strip_plus s = [] then None
      else case digits_val base 0 (strip_plus s) of
        None \<Rightarrow> None
      | Some n \<Rightarrow> if n \<le> U64_MAX then Some n else None)"

text \<open>\<open>str::parse::<i64>\<close>\<close>

definition parse_i64 :: "string \<Rightarrow> int option" where
  "parse_i64 s =
     (case s of
        [] \<Rightarrow> None
      | c # r \<Rightarrow>
          if c = CHR ''-'' then
            (if r = [] then None
             else case digits_val 10 0 r of
               None \<Rightarrow> None
             | Some n \<Rightarrow> if is_i64 (- int n) then Some (- int n) else None)
          else if strip_plus s = [] then None
          else case digits_val 10 0 (strip_plus s) of
            None \<Rightarrow> None
          | Some n \<Rightarrow> if is_i64 (int n) then Some (int n) else None)"

text \<open>
  \<open>BigInt::parse_bytes\<close>: a sign, then digits, the first of which is no underscore; underscores
  after it are skipped.
\<close>

definition biguint_parse :: "nat \<Rightarrow> string \<Rightarrow> nat option" where
  "biguint_parse base s =
     (let t = (case s of
                 c # d # r \<Rightarrow> if c = CHR ''+'' \<and> d \<noteq> CHR ''+'' then d # r else s
               | _ \<Rightarrow> strip_plus s)
      in case t of
           [] \<Rightarrow> None
         | c # r \<Rightarrow> if c = CHR ''_'' then None else digits_val base 0 (filter (\<lambda>c. c \<noteq> CHR ''_'') t))"

definition bigint_parse :: "nat \<Rightarrow> string \<Rightarrow> int option" where
  "bigint_parse base s =
     (case s of
        [] \<Rightarrow> None
      | c # r \<Rightarrow>
          if c = CHR ''-'' then
            map_option (\<lambda>n. - int n)
              (biguint_parse base (if r \<noteq> [] \<and> hd r = CHR ''+'' then s else r))
          else map_option int (biguint_parse base s))"

lemma digit_char_plain:
  "d < 36 \<Longrightarrow> digit_char d \<noteq> CHR ''_'' \<and> digit_char d \<noteq> CHR ''+'' \<and> digit_char d \<noteq> CHR ''-''"
  by (auto simp: char_eq_byte_val byte_val_digit_char simp del: of_char_eq_iff)

lemma dec_nat_plain: "c \<in> set (dec_nat n) \<Longrightarrow> c \<noteq> CHR ''_'' \<and> c \<noteq> CHR ''+'' \<and> c \<noteq> CHR ''-''"
proof -
  assume "c \<in> set (dec_nat n)"
  then obtain d where "d < 10" "c = digit_char d" using radix_nat_digits [of 10 c n] by auto
  then show ?thesis using digit_char_plain [of d] by auto
qed

lemma filter_dec_nat: "filter (\<lambda>c. c \<noteq> CHR ''_'') (dec_nat n) = dec_nat n"
  by (auto simp: filter_id_conv dest: dec_nat_plain)

lemma strip_plus_dec_nat: "strip_plus (dec_nat n) = dec_nat n"
  using dec_nat_plain [of _ n] by (cases "dec_nat n") (auto simp: strip_plus_def)

lemma biguint_parse_dec_nat: "biguint_parse 10 (dec_nat n) = Some n"
proof -
  obtain c r where s: "dec_nat n = c # r"
    using radix_nat_neq_Nil [of 10 n] by (cases "dec_nat n") auto
  have c: "c \<noteq> CHR ''_''" "c \<noteq> CHR ''+''" using dec_nat_plain [of c n] s by auto
  have f: "filter (\<lambda>c. c \<noteq> CHR ''_'') (c # r) = c # r" using filter_dec_nat [of n] s by simp
  have "biguint_parse 10 (c # r) = digits_val 10 0 (c # r)"
    using c f by (cases r) (auto simp: biguint_parse_def strip_plus_def Let_def)
  also have "\<dots> = Some n" using digits_val_radix [of 10 n] s by simp
  finally show ?thesis using s by simp
qed

text \<open>A printed integer reads back, and a leading minus is what a negative one starts with.\<close>

lemma bigint_parse_dec_int: "bigint_parse 10 (dec_int i) = Some i"
proof (cases "i < 0")
  case True
  obtain c r where s: "dec_nat (nat (- i)) = c # r"
    using radix_nat_neq_Nil [of 10 "nat (- i)"] by (cases "dec_nat (nat (- i))") auto
  have "c \<noteq> CHR ''+''" using dec_nat_plain [of c "nat (- i)"] s by auto
  then have "bigint_parse 10 (dec_int i) = map_option (\<lambda>n. - int n) (biguint_parse 10 (dec_nat (nat (- i))))"
    using True s by (simp add: bigint_parse_def dec_int_def)
  then show ?thesis using True by (simp add: biguint_parse_dec_nat)
next
  case False
  obtain c r where s: "dec_nat (nat i) = c # r"
    using radix_nat_neq_Nil [of 10 "nat i"] by (cases "dec_nat (nat i)") auto
  have "c \<noteq> CHR ''-''" using dec_nat_plain [of c "nat i"] s by auto
  then have "bigint_parse 10 (dec_int i) = map_option int (biguint_parse 10 (dec_nat (nat i)))"
    using False s by (simp add: bigint_parse_def dec_int_def)
  then show ?thesis using False by (simp add: biguint_parse_dec_nat)
qed

lemma dec_int_minus: "starts_with ''-'' (dec_int i) \<longleftrightarrow> i < 0"
proof (cases "i < 0")
  case False
  obtain c r where s: "dec_nat (nat i) = c # r"
    using radix_nat_neq_Nil [of 10 "nat i"] by (cases "dec_nat (nat i)") auto
  have "c \<noteq> CHR ''-''" using dec_nat_plain [of c "nat i"] s by auto
  with False s show ?thesis by (simp add: starts_with_def dec_int_def)
qed (simp add: starts_with_def dec_int_def)

lemma parse_i64_dec_int: "is_i64 i \<Longrightarrow> parse_i64 (dec_int i) = Some i"
proof -
  assume i: "is_i64 i"
  show ?thesis
  proof (cases "i < 0")
    case True
    with i show ?thesis by (simp add: parse_i64_def dec_int_def digits_val_radix)
  next
    case False
    obtain c r where s: "dec_nat (nat i) = c # r"
      using radix_nat_neq_Nil [of 10 "nat i"] by (cases "dec_nat (nat i)") auto
    have c: "c \<noteq> CHR ''-''" using dec_nat_plain [of c "nat i"] s by auto
    have p: "strip_plus (c # r) = c # r" using strip_plus_dec_nat [of "nat i"] s by simp
    have d: "digits_val 10 0 (c # r) = Some (nat i)" using digits_val_radix [of 10 "nat i"] s by simp
    show ?thesis using False c p d i by (simp add: parse_i64_def dec_int_def s)
  qed
qed

lemma u64_from_dec_nat: "n \<le> U64_MAX \<Longrightarrow> u64_from_str_radix 10 (dec_nat n) = Some n"
  by (simp add: u64_from_str_radix_def digits_val_radix strip_plus_dec_nat radix_nat_neq_Nil)

lemma u64_from_hex_nat: "n \<le> U64_MAX \<Longrightarrow> u64_from_str_radix 16 (hex_nat n) = Some n"
proof -
  assume n: "n \<le> U64_MAX"
  have "strip_plus (hex_nat n) = hex_nat n"
  proof (cases "hex_nat n")
    case (Cons c r)
    then obtain d where "d < 16" "c = digit_char d" using radix_nat_digits [of 16 c n] by auto
    then have "c \<noteq> CHR ''+''" using digit_char_plain [of d] by auto
    with Cons show ?thesis by (simp add: strip_plus_def)
  qed simp
  with n show ?thesis by (simp add: u64_from_str_radix_def digits_val_radix)
qed

subsection \<open>Hexadecimal\<close>

definition hex_val :: "char \<Rightarrow> nat option" where
  "hex_val c = digit_val 16 c"

definition is_hex_digit :: "char \<Rightarrow> bool" where
  "is_hex_digit c \<longleftrightarrow> hex_val c \<noteq> None"

fun hex_encode :: "bytes \<Rightarrow> string" where
  "hex_encode [] = []"
| "hex_encode (b # bs) = digit_char (byte_val b div 16) # digit_char (byte_val b mod 16) # hex_encode bs"

fun hex_decode :: "string \<Rightarrow> bytes option" where
  "hex_decode [] = Some []"
| "hex_decode [c] = None"
| "hex_decode (c # d # s) =
     (case (hex_val c, hex_val d, hex_decode s) of
        (Some h, Some l, Some bs) \<Rightarrow> Some (char_of (16 * h + l) # bs)
      | _ \<Rightarrow> None)"

lemma hex_val_less: "hex_val c = Some h \<Longrightarrow> h < 16"
  by (auto simp: hex_val_def digit_val_def Let_def split: if_splits)

lemma hex_val_lower_char [simp]: "hex_val (lower_char c) = hex_val c"
  by (auto simp: hex_val_def digit_val_def Let_def byte_val_lower_char is_upper_def)

lemma digit_char_hex_val: "hex_val c = Some h \<Longrightarrow> digit_char h = lower_char c"
proof -
  assume h: "hex_val c = Some h"
  then have "h < 16" by (rule hex_val_less)
  then have "byte_val (digit_char h) = (if h < 10 then 48 + h else 87 + h)"
    by (simp add: byte_val_digit_char)
  moreover have "\<dots> = byte_val (lower_char c)"
    using h by (auto simp: hex_val_def digit_val_def Let_def byte_val_lower_char is_upper_def split: if_splits)
  ultimately show ?thesis by (simp only: char_eq_byte_val)
qed

lemma hex_val_digit_char: "h < 16 \<Longrightarrow> hex_val (digit_char h) = Some h"
  by (simp add: hex_val_def digit_val_digit_char)

lemma hex_decode_encode [simp]: "hex_decode (hex_encode bs) = Some bs"
proof (induction bs)
  case (Cons b bs)
  have "byte_val b div 16 < 16"
    using nat_of_char_less_256 [of b] by (intro less_mult_imp_div_less) simp
  with Cons show ?case by (simp add: hex_val_digit_char)
qed simp

lemma hex_decode_lower [simp]: "hex_decode (lower s) = hex_decode s"
  by (induction s rule: hex_decode.induct) auto

lemma hex_encode_decode: "hex_decode s = Some bs \<Longrightarrow> hex_encode bs = lower s"
proof (induction s arbitrary: bs rule: hex_decode.induct)
  case (3 c d s)
  then obtain h l bs' where hl: "hex_val c = Some h" "hex_val d = Some l"
    and bs': "hex_decode s = Some bs'" and bs: "bs = char_of (16 * h + l) # bs'"
    by (auto split: option.splits)
  have lt: "h < 16" "l < 16" using hl hex_val_less by auto
  then have "byte_val (char_of (16 * h + l)) = 16 * h + l" by simp
  then show ?case using 3 hl bs' bs lt digit_char_hex_val by simp
qed auto

lemma hex_decode_eq_lower: "hex_decode s = Some bs \<Longrightarrow> hex_decode t = Some bs \<Longrightarrow> lower s = lower t"
  by (metis hex_encode_decode)

lemma length_hex_encode [simp]: "length (hex_encode bs) = 2 * length bs"
  by (induction bs) auto

lemma length_hex_decode: "hex_decode s = Some bs \<Longrightarrow> length s = 2 * length bs"
  using hex_encode_decode [of s bs] length_hex_encode [of bs] by simp

lemma hex_encode_append: "hex_encode (a @ b) = hex_encode a @ hex_encode b"
  by (induction a) auto

lemma lower_hex_encode [simp]: "lower (hex_encode bs) = hex_encode bs"
  using hex_encode_decode [OF hex_decode_encode, of bs] by simp

lemma hex_encode_inj: "hex_encode a = hex_encode b \<longleftrightarrow> a = b"
  using hex_decode_encode [of a] hex_decode_encode [of b] by (metis option.inject)

lemma hex_decode_Some_iff: "(\<exists>bs. hex_decode s = Some bs) \<longleftrightarrow> even (length s) \<and> (\<forall>c\<in>set s. is_hex_digit c)"
  by (induction s rule: hex_decode.induct) (auto simp: is_hex_digit_def split: option.splits)

lemma is_hex_digit_plain:
  assumes "is_hex_digit c"
  shows "byte_val c < 128 \<and> \<not> ws_code (byte_val c)"
  using assms by (auto simp: is_hex_digit_def hex_val_def digit_val_def Let_def ws_code_def split: if_splits)

lemma set_hex_encode: "c \<in> set (hex_encode bs) \<Longrightarrow> is_hex_digit c"
  using hex_decode_Some_iff [of "hex_encode bs"] by auto

end
