(* ===== verification/Json.thy ===== *)
theory Json
  imports Extern
begin

section \<open>JSON values\<close>

text \<open>
  \<open>serde_json::Value\<close> and the accessors the source calls on it. A number is an unsigned or a
  negative 64-bit integer, or a float carried as the text it prints as. An object is its list of
  entries; \<open>insert\<close> replaces.
\<close>

datatype jnum = PosInt nat | NegInt int | Float string

datatype json =
    JNull
  | JBool bool
  | JNum jnum
  | JStr string
  | JArr "json list"
  | JObj "(string \<times> json) list"

definition jget :: "string \<Rightarrow> json \<Rightarrow> json option" where
  "jget k v = (case v of JObj o' \<Rightarrow> map_of o' k | _ \<Rightarrow> None)"

text \<open>\<open>value["k"]\<close>: a missing key reads as null.\<close>

definition jidx :: "string \<Rightarrow> json \<Rightarrow> json" where
  "jidx k v = (case jget k v of Some w \<Rightarrow> w | None \<Rightarrow> JNull)"

text \<open>\<open>value["k"] = w\<close>, on an object.\<close>

definition jset :: "string \<Rightarrow> json \<Rightarrow> json \<Rightarrow> json" where
  "jset k w v = (case v of JObj o' \<Rightarrow> JObj (AList.update k w o') | _ \<Rightarrow> JObj [(k, w)])"

definition as_str :: "json \<Rightarrow> string option" where
  "as_str v = (case v of JStr s \<Rightarrow> Some s | _ \<Rightarrow> None)"

definition as_array :: "json \<Rightarrow> json list option" where
  "as_array v = (case v of JArr vs \<Rightarrow> Some vs | _ \<Rightarrow> None)"

definition as_object :: "json \<Rightarrow> (string \<times> json) list option" where
  "as_object v = (case v of JObj o' \<Rightarrow> Some o' | _ \<Rightarrow> None)"

definition as_u64 :: "json \<Rightarrow> nat option" where
  "as_u64 v = (case v of JNum (PosInt n) \<Rightarrow> Some n | _ \<Rightarrow> None)"

definition num_as_i64 :: "jnum \<Rightarrow> int option" where
  "num_as_i64 n = (case n of
     PosInt m \<Rightarrow> if int m \<le> I64_MAX then Some (int m) else None
   | NegInt i \<Rightarrow> Some i
   | Float _ \<Rightarrow> None)"

definition as_i64 :: "json \<Rightarrow> int option" where
  "as_i64 v = (case v of JNum n \<Rightarrow> num_as_i64 n | _ \<Rightarrow> None)"

definition num_to_string :: "jnum \<Rightarrow> string" where
  "num_to_string n = (case n of PosInt m \<Rightarrow> dec_nat m | NegInt i \<Rightarrow> dec_int i | Float t \<Rightarrow> t)"

definition is_null :: "json \<Rightarrow> bool" where
  "is_null v \<longleftrightarrow> v = JNull"

definition is_string :: "json \<Rightarrow> bool" where
  "is_string v \<longleftrightarrow> (case v of JStr _ \<Rightarrow> True | _ \<Rightarrow> False)"

definition is_number :: "json \<Rightarrow> bool" where
  "is_number v \<longleftrightarrow> (case v of JNum _ \<Rightarrow> True | _ \<Rightarrow> False)"

text \<open>\<open>opt.unwrap_or(d)\<close>, \<open>opt.and_then(f)\<close>, \<open>opt.filter(p)\<close>.\<close>

definition unwrap_or :: "'a \<Rightarrow> 'a option \<Rightarrow> 'a" where
  "unwrap_or d x = (case x of Some v \<Rightarrow> v | None \<Rightarrow> d)"

definition opt_filter :: "('a \<Rightarrow> bool) \<Rightarrow> 'a option \<Rightarrow> 'a option" where
  "opt_filter P x = (case x of Some v \<Rightarrow> if P v then Some v else None | None \<Rightarrow> None)"

definition or_else :: "'a option \<Rightarrow> 'a option \<Rightarrow> 'a option" where
  "or_else x y = (case x of Some v \<Rightarrow> Some v | None \<Rightarrow> y)"

text \<open>\<open>value.get("k").and_then(Value::as_str)\<close> and \<open>as_array\<close>\<close>

definition get_str :: "string \<Rightarrow> json \<Rightarrow> string option" where
  "get_str k v = Option.bind (jget k v) as_str"

definition get_array :: "string \<Rightarrow> json \<Rightarrow> json list option" where
  "get_array k v = Option.bind (jget k v) as_array"

lemmas json_access = jget_def jidx_def as_str_def as_array_def as_object_def as_u64_def as_i64_def
  num_as_i64_def get_str_def get_array_def unwrap_or_def opt_filter_def or_else_def is_null_def
  is_string_def is_number_def

lemma unwrap_or_simps [simp]: "unwrap_or d None = d" "unwrap_or d (Some v) = v"
  by (simp_all add: unwrap_or_def)

lemma or_else_simps [simp]: "or_else None y = y" "or_else (Some v) y = Some v"
  by (simp_all add: or_else_def)

lemma opt_filter_Some [simp]: "opt_filter P x = Some v \<longleftrightarrow> x = Some v \<and> P v"
  by (auto simp: opt_filter_def split: option.splits)

lemma jget_jset: "jget k (jset k' w (JObj o')) = (if k = k' then Some w else jget k (JObj o'))"
  by (simp add: jget_def jset_def table_simps)

end
