(* ===== verification/Rpc.thy ===== *)
theory Rpc
  imports Json
begin

section \<open>The JSON-RPC client (\<open>src/rpc.rs\<close>)\<close>

text \<open>
  How the client reads a node's answers: the error a response carries, the demultiplexing of a
  batch by id, the receipts of a block, and the readings of an amount and of an integer field.
  The node and the HTTP transport are a parameter \<open>send\<close> over a state of their own: it is given
  the JSON body of a request and answers with what came back, so it may answer anything, and
  something else each time.
\<close>

subsection \<open>Errors\<close>

record rpc_error =
  err_code :: int
  err_message :: string
  err_data :: "json option"

text \<open>An \<open>anyhow\<close> error, of which the source asks only whether it is an \<open>RpcError\<close>.\<close>

datatype failure = Rpc_Error rpc_error | Other_Error

definition rpc_error_of :: "json \<Rightarrow> rpc_error option" where
  "rpc_error_of response =
     (case opt_filter (\<lambda>e. \<not> is_null e) (jget ''error'' response) of
        None \<Rightarrow> None
      | Some err \<Rightarrow> Some
          \<lparr> err_code = unwrap_or 0 (Option.bind (jget ''code'' err) as_i64),
            err_message = unwrap_or ''unknown'' (get_str ''message'' err),
            err_data = jget ''data'' err \<rparr>)"

text \<open>\<open>body.get_mut("result").map_or(Value::Null, Value::take)\<close>\<close>

definition take_result :: "json \<Rightarrow> json" where
  "take_result body = unwrap_or JNull (jget ''result'' body)"

subsection \<open>Requests\<close>

type_synonym rpc_call = "string \<times> json"

text \<open>
  What a request brings back: a failure of the transport, or a status and a body, \<open>None\<close> when
  the body is no JSON.
\<close>

datatype reply = Send_Failed | Answered nat "json option"

definition too_many_requests :: "reply \<Rightarrow> bool" where
  "too_many_requests r \<longleftrightarrow> (case r of Answered status _ \<Rightarrow> status = 429 | Send_Failed \<Rightarrow> False)"

definition request_body :: "nat \<Rightarrow> rpc_call \<Rightarrow> json" where
  "request_body i c =
     JObj [(''jsonrpc'', JStr ''2.0''), (''id'', JNum (PosInt i)), (''method'', JStr (fst c)), (''params'', snd c)]"

text \<open>\<open>ChainRpc::call\<close>. The status is not looked at: the body of a refusal is read like any other.\<close>

definition rpc_call1 :: "(json \<Rightarrow> 's \<Rightarrow> reply \<times> 's) \<Rightarrow> rpc_call \<Rightarrow> 's \<Rightarrow> (failure + json) \<times> 's" where
  "rpc_call1 send c s =
     (case send (request_body 1 c) s of
        (Answered _ (Some body), s') \<Rightarrow>
          (case rpc_error_of body of
             Some err \<Rightarrow> (Inl (Rpc_Error err), s')
           | None \<Rightarrow> (Inr (take_result body), s'))
      | (_, s') \<Rightarrow> (Inl Other_Error, s'))"

text \<open>
  The answers of a batch, read out of the items by id: an item with no usable id is dropped, of
  two with one id the later stands, and an id no item has is an error of its own.
\<close>

definition index_by_id :: "json list \<Rightarrow> nat \<rightharpoonup> json" where
  "index_by_id items =
     foldl (\<lambda>m item. case Option.bind (jget ''id'' item) as_u64 of
                       Some i \<Rightarrow> m(i \<mapsto> item)
                     | None \<Rightarrow> m) Map.empty items"

definition missing_response :: rpc_error where
  "missing_response =
     \<lparr> err_code = - 32603, err_message = ''no response for batched request'', err_data = None \<rparr>"

definition read_item :: "json option \<Rightarrow> rpc_error + json" where
  "read_item found =
     (case found of
        Some item \<Rightarrow>
          (case rpc_error_of item of
             Some err \<Rightarrow> Inl err
           | None \<Rightarrow> Inr (take_result item))
      | None \<Rightarrow> Inl missing_response)"

definition demux :: "nat \<Rightarrow> json list \<Rightarrow> (rpc_error + json) list" where
  "demux n items = map (\<lambda>i. read_item (index_by_id items (i + 1))) [0..<n]"

text \<open>
  The loop that posts a batch: a paced client asks again for as long as it is answered 429.
  Nothing bounds how often, so not returning is \<open>None\<close>.
\<close>

partial_function (option) post_batch ::
  "bool \<Rightarrow> (json \<Rightarrow> 's \<Rightarrow> reply \<times> 's) \<Rightarrow> json \<Rightarrow> 's \<Rightarrow> (reply \<times> 's) option" where
  "post_batch paced send payload s =
     (case send payload s of
        (r, s') \<Rightarrow>
          if paced \<and> too_many_requests r then post_batch paced send payload s'
          else Some (r, s'))"

definition batch_payload :: "rpc_call list \<Rightarrow> json" where
  "batch_payload calls = JArr (map (\<lambda>(i, c). request_body (i + 1) c) (enumerate 0 calls))"

definition read_batch :: "nat \<Rightarrow> reply \<Rightarrow> failure + (rpc_error + json) list" where
  "read_batch n r =
     (case r of
        Answered _ (Some body) \<Rightarrow>
          (case body of
             JArr items \<Rightarrow> Inr (demux n items)
           | other \<Rightarrow>
               (case rpc_error_of other of
                  Some err \<Rightarrow> Inl (Rpc_Error err)
                | None \<Rightarrow> Inl Other_Error))
      | _ \<Rightarrow> Inl Other_Error)"

definition batch_call ::
  "bool \<Rightarrow> (json \<Rightarrow> 's \<Rightarrow> reply \<times> 's) \<Rightarrow> rpc_call list \<Rightarrow> 's
     \<Rightarrow> ((failure + (rpc_error + json) list) \<times> 's) option" where
  "batch_call paced send calls s =
     (case calls of
        [c] \<Rightarrow>
          (case rpc_call1 send c s of
             (Inr v, s') \<Rightarrow> Some (Inr [Inr v], s')
           | (Inl (Rpc_Error e), s') \<Rightarrow> Some (Inr [Inl e], s')
           | (Inl Other_Error, s') \<Rightarrow> Some (Inl Other_Error, s'))
      | _ \<Rightarrow>
          (case post_batch paced send (batch_payload calls) s of
             None \<Rightarrow> None
           | Some (r, s') \<Rightarrow> Some (read_batch (length calls) r, s')))"

subsection \<open>Pace\<close>

text \<open>\<open>BatchPace\<close>: the instant a batch may leave, and the next one.\<close>

record batch_pace =
  pace_gap :: nat
  pace_next :: nat

definition pace_wait :: "nat \<Rightarrow> batch_pace \<Rightarrow> nat \<times> batch_pace" where
  "pace_wait now p = (let t = max now (pace_next p) in (t, p\<lparr>pace_next := t + pace_gap p\<rparr>))"

text \<open>\<open>retry_after\<close>: the seconds of a 429's header, a minute when it does not say.\<close>

definition retry_after :: "string option \<Rightarrow> nat" where
  "retry_after header = unwrap_or 60 (Option.bind header (u64_from_str_radix 10))"

text \<open>The instants at which successive batches leave, asked for at the instants given.\<close>

fun pace_run :: "batch_pace \<Rightarrow> nat list \<Rightarrow> nat list" where
  "pace_run p [] = []"
| "pace_run p (now # rest) = (case pace_wait now p of (t, p') \<Rightarrow> t # pace_run p' rest)"

subsection \<open>Reading values\<close>

definition hex_to_u64 :: "json \<Rightarrow> nat option" where
  "hex_to_u64 value =
     (case as_str value of
        None \<Rightarrow> None
      | Some s \<Rightarrow>
          (let s = strip_0x s in
           if s = [] then Some 0 else u64_from_str_radix 16 s))"

definition decimal_amount :: "json \<Rightarrow> string" where
  "decimal_amount value =
     (case value of
        JNum n \<Rightarrow> num_to_string n
      | JStr s \<Rightarrow>
          (case strip_prefix ''0x'' s of
             Some hex \<Rightarrow>
               if hex = [] then ''0''
               else (case bigint_parse 16 hex of Some n \<Rightarrow> dec_int n | None \<Rightarrow> s)
           | None \<Rightarrow> s)
      | _ \<Rightarrow> ''0'')"

definition parse_int_any :: "json \<Rightarrow> int" where
  "parse_int_any value =
     (case value of
        JNum n \<Rightarrow> unwrap_or 0 (num_as_i64 n)
      | JStr s0 \<Rightarrow>
          (let s = trim s0 in
           if s = [] then 0
           else (case strip_prefix ''0x'' s of
                   Some hex \<Rightarrow> (case u64_from_str_radix 16 hex of Some v \<Rightarrow> i64_of_u64 v | None \<Rightarrow> 0)
                 | None \<Rightarrow> unwrap_or 0 (parse_i64 s)))
      | _ \<Rightarrow> 0)"

definition int_to_hex_str :: "json \<Rightarrow> string" where
  "int_to_hex_str value =
     (case value of
        JStr s \<Rightarrow> s
      | JNum n \<Rightarrow> ''0x'' @ hex_nat (case n of PosInt m \<Rightarrow> m | _ \<Rightarrow> 0)
      | _ \<Rightarrow> ''0x0'')"

definition str_field :: "json \<Rightarrow> string \<Rightarrow> string" where
  "str_field value key = unwrap_or [] (get_str key value)"

subsection \<open>The calls the explorer makes\<close>

text \<open>Each is one request; a result is kept, turned, or refused after it.\<close>

definition map_call :: "('a \<Rightarrow> failure + 'b) \<Rightarrow> (failure + 'a) \<times> 's \<Rightarrow> (failure + 'b) \<times> 's" where
  "map_call f r = (case r of (Inr v, s) \<Rightarrow> (f v, s) | (Inl e, s) \<Rightarrow> (Inl e, s))"

definition json_params :: "json list \<Rightarrow> json" where
  "json_params ps = JArr ps"

definition hex_quantity :: "nat \<Rightarrow> json" where
  "hex_quantity n = JStr (''0x'' @ hex_nat n)"

definition eth_block_number :: "(json \<Rightarrow> 's \<Rightarrow> reply \<times> 's) \<Rightarrow> 's \<Rightarrow> (failure + nat) \<times> 's" where
  "eth_block_number send s =
     map_call (\<lambda>v. case hex_to_u64 v of Some n \<Rightarrow> Inr n | None \<Rightarrow> Inl Other_Error)
       (rpc_call1 send (''eth_blockNumber'', json_params []) s)"

definition eth_chain_id :: "(json \<Rightarrow> 's \<Rightarrow> reply \<times> 's) \<Rightarrow> 's \<Rightarrow> (failure + nat) \<times> 's" where
  "eth_chain_id send s =
     map_call (\<lambda>v. case hex_to_u64 v of Some n \<Rightarrow> Inr n | None \<Rightarrow> Inl Other_Error)
       (rpc_call1 send (''eth_chainId'', json_params []) s)"

definition eth_get_block_by_number ::
  "(json \<Rightarrow> 's \<Rightarrow> reply \<times> 's) \<Rightarrow> nat \<Rightarrow> bool \<Rightarrow> 's \<Rightarrow> (failure + json option) \<times> 's" where
  "eth_get_block_by_number send num full s =
     map_call (\<lambda>v. Inr (if is_null v then None else Some v))
       (rpc_call1 send (''eth_getBlockByNumber'', json_params [hex_quantity num, JBool full]) s)"

definition eth_get_block_receipts ::
  "(json \<Rightarrow> 's \<Rightarrow> reply \<times> 's) \<Rightarrow> nat \<Rightarrow> 's \<Rightarrow> (failure + json list option) \<times> 's" where
  "eth_get_block_receipts send num s =
     map_call (\<lambda>v. Inr (if is_null v then None else Some (unwrap_or [] (as_array v))))
       (rpc_call1 send (''eth_getBlockReceipts'', json_params [hex_quantity num]) s)"

definition fetch_block_receipts ::
  "bool \<Rightarrow> (json \<Rightarrow> 's \<Rightarrow> reply \<times> 's) \<Rightarrow> nat \<Rightarrow> string list \<Rightarrow> 's
     \<Rightarrow> ((failure + json list option) \<times> 's) option" where
  "fetch_block_receipts paced send num tx_hashes s =
     (if tx_hashes = [] then Some (Inr (Some []), s)
      else
        (let (r, s1) = eth_get_block_receipts send num s;
             calls = map (\<lambda>h. (''eth_getTransactionReceipt'', json_params [JStr h])) tx_hashes;
             fallback =
               (case batch_call paced send calls s1 of
                  None \<Rightarrow> None
                | Some (Inl e, s2) \<Rightarrow> Some (Inl e, s2)
                | Some (Inr results, s2) \<Rightarrow>
                    Some (Inr (Some (List.map_filter
                      (\<lambda>r. case r of Inr v \<Rightarrow> (if is_null v then None else Some v) | Inl _ \<Rightarrow> None) results)), s2))
         in case r of
              Inr (Some receipts) \<Rightarrow> if receipts \<noteq> [] then Some (Inr (Some receipts), s1) else fallback
            | _ \<Rightarrow> fallback))"

text \<open>\<open>eth_getCode\<close> and \<open>eth_getStorageAt\<close>: an answer that is no string, or empty, is \<open>0x\<close>.\<close>

definition string_or_0x :: "json \<Rightarrow> string" where
  "string_or_0x v = unwrap_or ''0x'' (opt_filter (\<lambda>s. s \<noteq> []) (as_str v))"

definition eth_get_code ::
  "(json \<Rightarrow> 's \<Rightarrow> reply \<times> 's) \<Rightarrow> string \<Rightarrow> string \<Rightarrow> 's \<Rightarrow> (failure + string) \<times> 's" where
  "eth_get_code send address block s =
     map_call (\<lambda>v. Inr (string_or_0x v))
       (rpc_call1 send (''eth_getCode'', json_params [JStr address, JStr block]) s)"

definition eth_get_logs :: "(json \<Rightarrow> 's \<Rightarrow> reply \<times> 's) \<Rightarrow> json \<Rightarrow> 's \<Rightarrow> (failure + json list) \<times> 's" where
  "eth_get_logs send log_filter s =
     map_call (\<lambda>v. Inr (unwrap_or [] (as_array v)))
       (rpc_call1 send (''eth_getLogs'', json_params [log_filter]) s)"

definition eth_get_storage_at ::
  "(json \<Rightarrow> 's \<Rightarrow> reply \<times> 's) \<Rightarrow> string \<Rightarrow> string \<Rightarrow> string \<Rightarrow> 's \<Rightarrow> (failure + string) \<times> 's" where
  "eth_get_storage_at send address slot block s =
     map_call (\<lambda>v. Inr (string_or_0x v))
       (rpc_call1 send (''eth_getStorageAt'', json_params [JStr address, JStr slot, JStr block]) s)"

definition try_debug_trace_transaction ::
  "(json \<Rightarrow> 's \<Rightarrow> reply \<times> 's) \<Rightarrow> string \<Rightarrow> 's \<Rightarrow> (failure + json) \<times> 's" where
  "try_debug_trace_transaction send tx_hash s =
     rpc_call1 send (''debug_traceTransaction'',
       json_params [JStr tx_hash, JObj [(''tracer'', JStr ''callTracer'')]]) s"

subsection \<open>The batch contract\<close>

definition item_id :: "json \<Rightarrow> nat option" where
  "item_id item = Option.bind (jget ''id'' item) as_u64"

lemma index_by_id_snoc:
  "index_by_id (items @ [item]) =
     (case item_id item of Some i \<Rightarrow> (index_by_id items)(i \<mapsto> item) | None \<Rightarrow> index_by_id items)"
  by (simp add: index_by_id_def item_id_def split: option.split)

lemma index_by_id_Nil [simp]: "index_by_id [] = Map.empty"
  by (simp add: index_by_id_def)

lemma index_by_id_last:
  assumes "item_id item = Some i" and "\<forall>later\<in>set ys. item_id later \<noteq> Some i"
  shows "index_by_id (xs @ item # ys) i = Some item"
  using assms(2)
proof (induction ys rule: rev_induct)
  case Nil
  then show ?case by (simp add: index_by_id_snoc assms(1))
next
  case (snoc y ys)
  have "index_by_id ((xs @ item # ys) @ [y]) i = index_by_id (xs @ item # ys) i"
    using snoc.prems unfolding index_by_id_snoc by (auto split: option.splits)
  with snoc show ?case by simp
qed

lemma index_by_id_None: "\<forall>item\<in>set items. item_id item \<noteq> Some i \<Longrightarrow> index_by_id items i = None"
proof (induction items rule: rev_induct)
  case (snoc y ys)
  then show ?case by (auto simp: index_by_id_snoc split: option.splits)
qed simp

lemma length_demux [simp]: "length (demux n items) = n"
  by (simp add: demux_def)

lemma read_batch_length: "read_batch n r = Inr rs \<Longrightarrow> length rs = n"
  by (auto simp: read_batch_def split: reply.splits option.splits json.splits)

lemma batch_call_length:
  assumes "batch_call paced send calls s = Some (Inr rs, s')"
  shows "length rs = length calls"
proof (cases "\<exists>c. calls = [c]")
  case True
  with assms show ?thesis
    by (auto simp: batch_call_def split: prod.splits sum.splits failure.splits)
next
  case False
  then have eq: "batch_call paced send calls s =
      (case post_batch paced send (batch_payload calls) s of
         None \<Rightarrow> None | Some (r, s') \<Rightarrow> Some (read_batch (length calls) r, s'))"
    by (auto simp: batch_call_def split: list.splits)
  show ?thesis using assms unfolding eq
    by (auto split: option.splits dest: read_batch_length)
qed

text \<open>
  What the callers of a batch rely on: an answer per call. The node behind it is arbitrary.
\<close>

locale batch_client =
  fixes batch :: "rpc_call list \<Rightarrow> 's \<Rightarrow> ((failure + (rpc_error + json) list) \<times> 's) option"
  assumes batch_length: "batch calls s = Some (Inr rs, s') \<Longrightarrow> length rs = length calls"
begin

lemma batch_nth:
  "batch calls s = Some (Inr rs, s') \<Longrightarrow> i < length calls \<Longrightarrow> \<exists>r. rs ! i = r \<and> r \<in> set rs"
  using batch_length by fastforce

lemma batch_zip:
  "batch calls s = Some (Inr rs, s') \<Longrightarrow> map fst (zip calls rs) = calls \<and> map snd (zip calls rs) = rs"
  using batch_length by fastforce

end

interpretation chain: batch_client "batch_call paced send" for paced send
  by unfold_locales (rule batch_call_length)

lemma demux_nth:
  assumes "length responses = n"
    and ids: "\<And>i. i < n \<Longrightarrow> item_id (responses ! i) = Some (i + 1)"
    and perm: "mset items = mset responses" and i: "i < n"
  shows "demux n items ! i = read_item (Some (responses ! i))"
proof -
  have "responses ! i \<in> set items"
    using perm i assms(1) by (metis nth_mem set_mset_mset)
  then obtain xs ys where items: "items = xs @ responses ! i # ys"
    by (meson split_list)
  have "distinct (map item_id responses)"
    using ids assms(1) by (auto simp: distinct_conv_nth)
  then have "distinct (map item_id items)"
    using perm by (metis mset_eq_imp_distinct_iff mset_map)
  then have "\<forall>later\<in>set ys. item_id later \<noteq> Some (i + 1)"
    using items ids [OF i] by (auto simp: image_iff)
  then have "index_by_id items (i + 1) = Some (responses ! i)"
    unfolding items by (intro index_by_id_last) (auto simp: ids [OF i])
  with i show ?thesis by (simp add: demux_def)
qed

text \<open>
  A batch is answered in request order whatever order the node sends the answers in: if the
  items are the responses to ids 1 to n in any order, the i-th result is read from the response
  to the i-th call, and there are exactly as many results as calls.
\<close>

theorem demux_in_request_order:
  assumes "length responses = n"
    and "\<And>i. i < n \<Longrightarrow> item_id (responses ! i) = Some (i + 1)"
    and "mset items = mset responses"
  shows "demux n items = map (\<lambda>r. read_item (Some r)) responses"
  using assms by (intro nth_equalityI) (auto simp: demux_nth)

definition sample_response :: "nat \<Rightarrow> string \<Rightarrow> json" where
  "sample_response i t = JObj [(''id'', JNum (PosInt i)), (''result'', JStr t)]"

theorem demux_in_request_order_witness:
  "demux 3 [sample_response 2 ''b'', sample_response 3 ''c'', sample_response 1 ''a'']
     = map (\<lambda>r. read_item (Some r)) [sample_response 1 ''a'', sample_response 2 ''b'', sample_response 3 ''c'']"
proof (rule demux_in_request_order)
  show "item_id ([sample_response 1 ''a'', sample_response 2 ''b'', sample_response 3 ''c''] ! i) = Some (i + 1)"
    if "i < 3" for i :: nat
  proof -
    have "i = 0 \<or> i = 1 \<or> i = 2" using that by auto
    then show ?thesis by (auto simp: sample_response_def item_id_def json_access)
  qed
qed (auto simp: add_mset_commute)

text \<open>
  A batch never loses or invents an answer: whenever a batch call succeeds there is one result
  per call, on either of its paths, and a result whose id the node did not answer is the
  client's own error rather than another call's answer.
\<close>

theorem batch_call_complete:
  assumes "batch_call paced send calls s = Some (Inr rs, s')" and "length calls \<noteq> 1"
  shows "length rs = length calls \<and>
    (\<exists>items. rs = demux (length calls) items \<and>
      (\<forall>i < length calls. (\<forall>item\<in>set items. item_id item \<noteq> Some (i + 1)) \<longrightarrow> rs ! i = Inl missing_response))"
proof -
  have "\<not> (\<exists>c. calls = [c])" using assms(2) by auto
  then have "\<exists>items. rs = demux (length calls) items"
    using assms(1) by (auto simp: batch_call_def read_batch_def split: list.splits option.splits reply.splits json.splits)
  then obtain items where rs: "rs = demux (length calls) items" by blast
  have "rs ! i = Inl missing_response"
    if "i < length calls" and "\<forall>item\<in>set items. item_id item \<noteq> Some (i + 1)" for i
    using that index_by_id_None [of items "i + 1"] by (simp add: rs demux_def read_item_def)
  with rs chain.batch_length [OF assms(1)] show ?thesis by blast
qed

definition sample_node :: "json \<Rightarrow> unit \<Rightarrow> reply \<times> unit" where
  "sample_node payload u = (Answered 200 (Some (JArr [sample_response 2 ''b''])), u)"

theorem batch_call_complete_witness:
  "batch_call False sample_node [(''m'', JNull), (''n'', JNull)] () =
     Some (Inr [Inl missing_response, Inr (JStr ''b'')], ()) \<and>
   length [Inl missing_response, Inr (JStr ''b'')] = length [(''m'', JNull), (''n'', JNull)]"
proof -
  have b: "batch_call False sample_node [(''m'', JNull), (''n'', JNull)] () =
     Some (Inr [Inl missing_response, Inr (JStr ''b'')], ())"
    by (simp add: batch_call_def post_batch.simps sample_node_def read_batch_def demux_def upt_rec
        index_by_id_def sample_response_def json_access read_item_def rpc_error_of_def take_result_def)
  show ?thesis using batch_call_complete [OF b] b by simp
qed

subsection \<open>Pace\<close>

lemma pace_run_bounds: "t \<in> set (pace_run p nows) \<Longrightarrow> pace_next p \<le> t"
proof (induction nows arbitrary: p)
  case (Cons now rest)
  let ?p' = "p\<lparr>pace_next := max now (pace_next p) + pace_gap p\<rparr>"
  from Cons.prems have "t = max now (pace_next p) \<or> t \<in> set (pace_run ?p' rest)"
    by (simp add: pace_wait_def Let_def)
  then show ?case
  proof
    assume "t \<in> set (pace_run ?p' rest)"
    then show ?thesis using Cons.IH [of ?p'] by simp
  qed simp
qed simp

text \<open>
  Batches of a paced client, its clones included, leave at least the gap apart, each no earlier
  than it was asked for: the instants at which they leave, in order, are pairwise separated.
\<close>

theorem paced_batches_are_spaced:
  "sorted_wrt (\<lambda>a b. a + pace_gap p \<le> b) (pace_run p nows) \<and>
   list_all2 (\<le>) nows (pace_run p nows)"
proof (induction nows arbitrary: p)
  case (Cons now rest)
  let ?t = "max now (pace_next p)"
  let ?p' = "p\<lparr>pace_next := ?t + pace_gap p\<rparr>"
  have run: "pace_run p (now # rest) = ?t # pace_run ?p' rest"
    by (simp add: pace_wait_def Let_def)
  have "\<forall>b\<in>set (pace_run ?p' rest). ?t + pace_gap p \<le> b"
    using pace_run_bounds [of _ ?p' rest] by auto
  then show ?case using Cons.IH [of ?p'] unfolding run by simp
qed simp

subsection \<open>Reading values\<close>

lemma is_i64_parse_i64: "parse_i64 s = Some i \<Longrightarrow> is_i64 i"
  by (auto simp: parse_i64_def split: list.splits if_splits option.splits)

text \<open>
  What the JSON parser guarantees of a number: an unsigned one fits 64 bits, a negative one is one.
\<close>

definition wf_num :: "jnum \<Rightarrow> bool" where
  "wf_num n \<longleftrightarrow> (case n of PosInt m \<Rightarrow> m \<le> U64_MAX | NegInt i \<Rightarrow> is_i64 i \<and> i < 0 | Float _ \<Rightarrow> True)"

lemma u64_from_str_radix_bound: "u64_from_str_radix base s = Some n \<Longrightarrow> n \<le> U64_MAX"
  by (auto simp: u64_from_str_radix_def split: if_splits option.splits)

lemma parse_int_any_hex:
  "n \<le> U64_MAX \<Longrightarrow> parse_int_any (JStr (''0x'' @ hex_nat n)) = i64_of_u64 n"
proof -
  assume n: "n \<le> U64_MAX"
  have "\<forall>c\<in>set (''0x'' @ hex_nat n). byte_val c < 128 \<and> \<not> ws_code (byte_val c)"
  proof
    fix c assume "c \<in> set (''0x'' @ hex_nat n)"
    then have "c = CHR ''0'' \<or> c = CHR ''x'' \<or> (\<exists>d<16. c = digit_char d)"
      using radix_nat_digits [of 16 c n] by auto
    then show "byte_val c < 128 \<and> \<not> ws_code (byte_val c)"
    proof (elim disjE exE conjE)
      fix d assume "d < 16" "c = digit_char d"
      then show ?thesis using is_hex_digit_plain [of c] hex_val_digit_char [of d]
        by (simp add: is_hex_digit_def)
    qed (simp_all add: ws_code_def)
  qed
  then have "trim (''0x'' @ hex_nat n) = ''0x'' @ hex_nat n"
    by (intro trim_no_ws) (auto simp: ascii_def)
  with n show ?thesis by (simp add: parse_int_any_def Let_def u64_from_hex_nat)
qed

end
