(* ===== verification/Models.thy ===== *)
theory Models
  imports Json
begin

section \<open>Row types (\<open>src/models.rs\<close>)\<close>

text \<open>
  The structs shared by the storage, the indexer and the JSON API, a field for a field, in the
  source's order; a field's name carries its struct's initial. An \<open>i64\<close> is an \<open>int\<close>.
\<close>

record block =
  b_number :: int
  b_hash :: string
  b_parent_hash :: string
  b_timestamp :: int
  b_timestamp_ms :: int
  b_gas_used :: int
  b_gas_limit :: int
  b_base_fee :: string
  b_size :: int
  b_extra_data :: string
  b_epoch :: int
  b_view :: int
  b_proposer :: string
  b_miner :: string
  b_tx_count :: int
  b_created_at :: int

record transaction =
  t_hash :: string
  t_block_number :: int
  t_position :: int
  t_from_addr :: string
  t_to_addr :: "string option"
  t_status :: int
  t_gas_used :: int
  t_base_fee :: string
  t_contract_address :: "string option"
  t_fee_token :: "string option"
  t_fee_amount :: string
  t_input :: string
  t_raw :: "string option"
  t_trace_data :: "string option"
  t_receipt_data :: "string option"
  t_timestamp :: int
  t_created_at :: int

record token_metadata =
  k_address :: string
  k_name :: string
  k_symbol :: string
  k_decimals :: int
  k_currency :: string
  k_total_supply :: string
  k_logo_uri :: string
  k_holder_count :: int
  k_created_at :: int
  k_updated_at :: int

record transfer_event =
  e_id :: int
  e_tx_hash :: string
  e_block_number :: int
  e_log_index :: int
  e_token_addr :: string
  e_from_addr :: string
  e_to_addr :: string
  e_amount :: string
  e_timestamp :: int
  e_created_at :: int

record anchoring_event =
  a_tx_hash :: string
  a_block_number :: int
  a_log_index :: int
  a_timestamp :: int
  a_event :: string
  a_registry_id :: int
  a_record_id :: int
  a_caller :: string

text \<open>\<open>tokens::TokenMeta\<close>, what the node says of a token.\<close>

record token_meta =
  m_address :: string
  m_name :: string
  m_symbol :: string
  m_decimals :: int
  m_currency :: string
  m_total_supply :: string

record block_bundle =
  bundle_block :: block
  bundle_txs :: "transaction list"
  bundle_transfers :: "transfer_event list"
  bundle_anchoring :: "anchoring_event list"
  bundle_tokens :: "token_meta list"

subsection \<open>The live feed's event\<close>

definition STREAM_TX_CAP :: nat where
  "STREAM_TX_CAP = 15"

definition json_int :: "int \<Rightarrow> json" where
  "json_int i = JNum (if 0 \<le> i then PosInt (nat i) else NegInt i)"

definition json_opt :: "string option \<Rightarrow> json" where
  "json_opt x = (case x of Some s \<Rightarrow> JStr s | None \<Rightarrow> JNull)"

definition tx_event_json :: "transaction \<Rightarrow> json" where
  "tx_event_json t = JObj
     [(''hash'', JStr (t_hash t)),
      (''status'', json_int (t_status t)),
      (''from_addr'', JStr (t_from_addr t)),
      (''to_addr'', json_opt (t_to_addr t)),
      (''block_number'', json_int (t_block_number t)),
      (''timestamp'', json_int (t_timestamp t))]"

definition block_event_json :: "block \<Rightarrow> transaction list \<Rightarrow> nat \<Rightarrow> json" where
  "block_event_json blk txs tx_cap = JObj
     [(''type'', JStr ''block''),
      (''block'', JObj
        [(''number'', json_int (b_number blk)),
         (''hash'', JStr (b_hash blk)),
         (''timestamp'', json_int (b_timestamp blk)),
         (''timestamp_ms'', json_int (b_timestamp_ms blk)),
         (''tx_count'', json_int (b_tx_count blk)),
         (''gas_used'', json_int (b_gas_used blk)),
         (''gas_limit'', json_int (b_gas_limit blk)),
         (''txs'', JArr (map tx_event_json (take tx_cap txs)))])]"

end
