(* ===== verification/Address.thy ===== *)
theory Address
  imports Models
begin

section \<open>Addresses and hashes as text (\<open>src/decoder.rs\<close>, \<open>src/db.rs\<close>)\<close>

text \<open>
  EIP-55 checksummed addresses, the shortened form of a hash, and the binary form hashes and
  addresses are stored in. Keccak-256 is a parameter \<open>keccak\<close> everywhere; nothing here depends on
  what it computes.
\<close>

type_synonym keccak = "bytes \<Rightarrow> bytes"

definition keccak_hex :: "keccak \<Rightarrow> bytes \<Rightarrow> string" where
  "keccak_hex keccak input = ''0x'' @ hex_encode (keccak input)"

subsection \<open>Shortened hashes\<close>

text \<open>A byte index a Rust string can be cut at: it is not inside a character.\<close>

definition char_boundary :: "string \<Rightarrow> nat \<Rightarrow> bool" where
  "char_boundary s i \<longleftrightarrow> i = 0 \<or> i = length s \<or> (i < length s \<and> \<not> cont_byte (s ! i))"

definition ellipsis :: string where
  "ellipsis = [char_of (226::nat), char_of (128::nat), char_of (166::nat)]"

text \<open>\<open>None\<close> is the panic of a slice that would cut a character.\<close>

definition truncate_hash :: "string \<Rightarrow> nat \<Rightarrow> nat \<Rightarrow> string option" where
  "truncate_hash h pre suf =
     (if h = [] then Some []
      else if length h > pre + suf + 3 then
        (if char_boundary h (pre + 2) \<and> char_boundary h (length h - suf)
         then Some (take (pre + 2) h @ ellipsis @ drop (length h - suf) h)
         else None)
      else Some h)"

lemma truncate_hash_ascii: "ascii h \<Longrightarrow> truncate_hash h pre suf \<noteq> None"
proof -
  assume "ascii h"
  then have "byte_val (h ! i) < 128" if "i < length h" for i
    using that by (simp add: ascii_def)
  then have "\<not> cont_byte (h ! i)" if "i < length h" for i
    using that by (fastforce simp: cont_byte_def)
  then show ?thesis by (auto simp: truncate_hash_def char_boundary_def)
qed

subsection \<open>Checksummed addresses\<close>

definition is_valid_address :: "string \<Rightarrow> bool" where
  "is_valid_address addr \<longleftrightarrow> (let s = strip_0x addr in length s = 40 \<and> (\<forall>c\<in>set s. is_hex_digit c))"

definition is_alphabetic :: "char \<Rightarrow> bool" where
  "is_alphabetic c \<longleftrightarrow> is_upper c \<or> is_lower c"

definition nibble :: "bytes \<Rightarrow> nat \<Rightarrow> nat" where
  "nibble hash i = (if even i then byte_val (hash ! (i div 2)) div 16 else byte_val (hash ! (i div 2)) mod 16)"

definition checksum_char :: "bytes \<Rightarrow> nat \<times> char \<Rightarrow> char" where
  "checksum_char hash ic =
     (if is_alphabetic (snd ic) \<and> nibble hash (fst ic) \<ge> 8 then upper_char (snd ic) else snd ic)"

definition checksum_address :: "keccak \<Rightarrow> string \<Rightarrow> string" where
  "checksum_address keccak addr =
     (let low = strip_0x (lower (trim addr)) in
      if \<not> is_valid_address low then trim addr
      else ''0x'' @ map (checksum_char (keccak low)) (enumerate 0 low))"

text \<open>The shape of an address as the chain spells it: \<open>0x\<close> and 40 hexadecimal digits.\<close>

definition is_address :: "string \<Rightarrow> bool" where
  "is_address s \<longleftrightarrow> (\<exists>r. s = ''0x'' @ r \<and> length r = 40 \<and> (\<forall>c\<in>set r. is_hex_digit c))"

lemma is_hex_digit_lower_char [simp]: "is_hex_digit (lower_char c) \<longleftrightarrow> is_hex_digit c"
  by (simp add: is_hex_digit_def)

lemma hex_digits_lower: "(\<forall>c\<in>set (lower r). is_hex_digit c) \<longleftrightarrow> (\<forall>c\<in>set r. is_hex_digit c)"
  by (simp add: lower_def)

lemma strip_0x_hex_digits:
  assumes "\<forall>c\<in>set r. is_hex_digit c"
  shows "strip_0x r = r"
proof (cases "strip_prefix ''0x'' r")
  case (Some r')
  then have "r = ''0x'' @ r'" by (simp only: strip_prefix_Some)
  with assms have "is_hex_digit (CHR ''x'')" by simp
  then show ?thesis by (simp add: is_hex_digit_def hex_val_def digit_val_def)
qed (simp add: strip_0x_def)

lemma trim_hex_text:
  assumes "\<forall>c\<in>set r. is_hex_digit c"
  shows "trim (''0x'' @ r) = ''0x'' @ r"
proof (rule trim_no_ws)
  show "ascii (''0x'' @ r)" "\<forall>c\<in>set (''0x'' @ r). \<not> ws_code (byte_val c)"
    using assms is_hex_digit_plain by (auto simp: ascii_def ws_code_def)
qed

lemmas trim_hex_text_Cons = trim_hex_text [simplified]

lemma lower_checksum_char: "lower_char (checksum_char hash (i, c)) = lower_char c"
  by (simp add: checksum_char_def)

lemma lower_map_checksum: "lower (map (checksum_char hash) (enumerate n s)) = lower s"
  by (induction s arbitrary: n) (auto simp: lower_checksum_char)

lemma checksum_address_hex:
  assumes "length r = 40" "\<forall>c\<in>set r. is_hex_digit c"
  shows "checksum_address keccak (''0x'' @ r) =
    ''0x'' @ map (checksum_char (keccak (lower r))) (enumerate 0 (lower r))"
proof -
  have low: "strip_0x (lower (trim (''0x'' @ r))) = lower r"
    unfolding trim_hex_text [OF assms(2)] by (simp add: lower_char_def is_upper_def)
  have "\<forall>c\<in>set (lower r). is_hex_digit c" using assms(2) by (simp only: hex_digits_lower)
  then have "is_valid_address (lower r)"
    using assms(1) strip_0x_hex_digits [of "lower r"] by (simp add: is_valid_address_def)
  then show ?thesis by (simp only: checksum_address_def Let_def low) simp
qed

lemmas checksum_address_hex_Cons = checksum_address_hex [simplified]

lemma is_address_checksum: "is_address s \<Longrightarrow> is_address (checksum_address keccak s)"
proof -
  assume "is_address s"
  then obtain r where s: "s = ''0x'' @ r" and r: "length r = 40" "\<forall>c\<in>set r. is_hex_digit c"
    by (auto simp: is_address_def)
  let ?out = "map (checksum_char (keccak (lower r))) (enumerate 0 (lower r))"
  have "lower ?out = lower r" by (simp add: lower_map_checksum)
  then have "\<forall>c\<in>set ?out. is_hex_digit c" using r(2) hex_digits_lower [of ?out] hex_digits_lower [of r] by simp
  then show ?thesis unfolding s is_address_def using checksum_address_hex [OF r, of keccak] r(1) by auto
qed

lemma lower_checksum_address: "is_address s \<Longrightarrow> lower (checksum_address keccak s) = lower s"
  by (auto simp: is_address_def checksum_address_hex_Cons lower_map_checksum)

lemma checksum_address_case:
  assumes "is_address s" "is_address t" "lower s = lower t"
  shows "checksum_address keccak s = checksum_address keccak t"
proof -
  obtain r where s: "s = ''0x'' @ r" "length r = 40" "\<forall>c\<in>set r. is_hex_digit c"
    using assms(1) by (auto simp: is_address_def)
  obtain q where t: "t = ''0x'' @ q" "length q = 40" "\<forall>c\<in>set q. is_hex_digit c"
    using assms(2) by (auto simp: is_address_def)
  have "lower r = lower q" using assms(3) s(1) t(1) by simp
  with checksum_address_hex [OF s(2,3)] checksum_address_hex [OF t(2,3)] show ?thesis
    unfolding s(1) t(1) by simp
qed

subsection \<open>Binary storage\<close>

definition hex_blob :: "string \<Rightarrow> bytes" where
  "hex_blob s = (case hex_decode (strip_0x s) of Some b \<Rightarrow> b | None \<Rightarrow> s)"

definition blob_hex :: "bytes \<Rightarrow> string" where
  "blob_hex b = ''0x'' @ hex_encode b"

definition blob_addr :: "keccak \<Rightarrow> bytes \<Rightarrow> string" where
  "blob_addr keccak b = checksum_address keccak (blob_hex b)"

lemma hex_blob_blob_hex [simp]: "hex_blob (blob_hex b) = b"
  by (simp add: hex_blob_def blob_hex_def)

lemma is_address_blob_hex: "is_address (blob_hex b) \<longleftrightarrow> length b = 20"
  using set_hex_encode [of _ b] by (auto simp: is_address_def blob_hex_def)

lemma checksum_address_short:
  assumes "length b \<noteq> 20"
  shows "checksum_address keccak (blob_hex b) = blob_hex b"
proof -
  have hex: "\<forall>c\<in>set (hex_encode b). is_hex_digit c" using set_hex_encode by blast
  have low: "strip_0x (lower (trim (blob_hex b))) = hex_encode b"
    unfolding blob_hex_def trim_hex_text [OF hex] by (simp add: lower_char_def is_upper_def)
  have "\<not> is_valid_address (hex_encode b)"
    using assms strip_0x_hex_digits [OF hex] by (simp add: is_valid_address_def)
  then show ?thesis unfolding checksum_address_def Let_def low
    by (simp add: blob_hex_def trim_hex_text_Cons [OF hex])
qed

text \<open>Storing what was read back gives the same bytes, for a blob of any length.\<close>

lemma hex_blob_blob_addr [simp]: "hex_blob (blob_addr keccak b) = b"
proof (cases "length b = 20")
  case True
  let ?c = "checksum_address keccak (blob_hex b)"
  have addr: "is_address (blob_hex b)" using True by (simp add: is_address_blob_hex)
  obtain r where r: "?c = ''0x'' @ r" using is_address_checksum [OF addr] by (auto simp: is_address_def)
  have "lower ?c = lower (blob_hex b)" using addr by (rule lower_checksum_address)
  then have "lower (''0x'' @ r) = lower (''0x'' @ hex_encode b)" unfolding r by (simp only: blob_hex_def)
  then have "lower r = hex_encode b" by simp
  then have "hex_decode r = Some b" by (metis hex_decode_encode hex_decode_lower)
  then show ?thesis unfolding blob_addr_def r by (simp add: hex_blob_def)
next
  case False
  then show ?thesis by (simp add: blob_addr_def checksum_address_short)
qed

text \<open>Two spellings of an address that differ in case are stored as the same bytes.\<close>

lemma hex_blob_case:
  assumes "is_address s" "is_address t" "lower s = lower t"
  shows "hex_blob s = hex_blob t"
proof -
  obtain r q where rq: "s = ''0x'' @ r" "t = ''0x'' @ q" using assms by (auto simp: is_address_def)
  then have "lower r = lower q" using assms(3) by simp
  then have "hex_decode r = hex_decode q" by (metis hex_decode_lower)
  moreover have "hex_decode r \<noteq> None"
    using assms(1) hex_decode_Some_iff [of r] rq(1) by (auto simp: is_address_def)
  ultimately show ?thesis using rq by (auto simp: hex_blob_def)
qed

definition address_from_topic :: "keccak \<Rightarrow> string \<Rightarrow> string" where
  "address_from_topic keccak topic =
     (let hexed = strip_0x topic in checksum_address keccak (drop (length hexed - 40) hexed))"

subsection \<open>Spellings that differ in case\<close>

lemma valid_address_lower:
  assumes "is_valid_address s"
  shows "strip_0x (lower s) = lower (strip_0x s)" and "is_valid_address (lower (strip_0x s))"
proof -
  have hex: "\<forall>c\<in>set (strip_0x s). is_hex_digit c" and len: "length (strip_0x s) = 40"
    using assms by (simp_all add: is_valid_address_def Let_def)
  then have low: "\<forall>c\<in>set (lower (strip_0x s)). is_hex_digit c" by (simp only: hex_digits_lower)
  show "strip_0x (lower s) = lower (strip_0x s)"
  proof (cases "strip_prefix ''0x'' s")
    case None
    then have "strip_0x s = s" by (simp add: strip_0x_def)
    then show ?thesis using strip_0x_hex_digits [of "lower s"] low by simp
  next
    case (Some r)
    then have "s = ''0x'' @ r" by (simp add: strip_prefix_Some)
    then show ?thesis by (simp add: lower_char_def is_upper_def)
  qed
  show "is_valid_address (lower (strip_0x s))"
    using low len strip_0x_hex_digits [of "lower (strip_0x s)"] by (simp add: is_valid_address_def)
qed

text \<open>Whether a text is taken for an address, and which, depends on its letters but not on their case.\<close>

lemma checksum_address_ignores_case:
  assumes "lower a = lower b"
  shows "is_valid_address (checksum_address keccak a) = is_valid_address (checksum_address keccak b)"
    and "is_valid_address (checksum_address keccak a) \<Longrightarrow> checksum_address keccak a = checksum_address keccak b"
proof -
  let ?low = "strip_0x (lower (trim a))"
  have same: "strip_0x (lower (trim b)) = ?low" using assms by (simp add: lower_trim)
  have v: "is_valid_address (trim x) \<Longrightarrow> is_valid_address (strip_0x (lower (trim x)))" for x
    using valid_address_lower [of "trim x"] by simp
  have e: "is_valid_address ?low \<Longrightarrow> checksum_address keccak a = checksum_address keccak b"
    using same by (simp add: checksum_address_def)
  moreover have "\<not> is_valid_address ?low \<Longrightarrow> \<not> is_valid_address (checksum_address keccak a)
      \<and> \<not> is_valid_address (checksum_address keccak b)"
    using same v [of a] v [of b] by (auto simp: checksum_address_def)
  ultimately show "is_valid_address (checksum_address keccak a) = is_valid_address (checksum_address keccak b)"
    and "is_valid_address (checksum_address keccak a) \<Longrightarrow> checksum_address keccak a = checksum_address keccak b"
    by (cases "is_valid_address ?low"; simp)+
qed

text \<open>What is taken for an address once is so again, and is spelled the chain's way.\<close>

lemma is_address_valid: "is_address a \<Longrightarrow> is_valid_address a"
  by (auto simp: is_address_def is_valid_address_def)

lemma valid_checksum_is_address:
  assumes "is_valid_address (checksum_address keccak q)"
  shows "is_address (checksum_address keccak q)"
proof -
  let ?low = "strip_0x (lower (trim q))"
  have "is_valid_address (trim q) \<Longrightarrow> is_valid_address ?low"
    using valid_address_lower [of "trim q"] by simp
  then have c: "checksum_address keccak q = ''0x'' @ map (checksum_char (keccak ?low)) (enumerate 0 ?low)"
    using assms by (auto simp: checksum_address_def Let_def split: if_splits)
  show ?thesis using assms unfolding c is_address_def is_valid_address_def by (simp add: Let_def)
qed

end
