(* ===== verification/Storage.thy ===== *)
theory Storage
  imports Address
begin

section \<open>The storage layer: writes (\<open>src/db.rs\<close>)\<close>

text \<open>
  The SQLite database as the list of rows of each table, and every write of \<open>src/db.rs\<close> as a
  function on it. A table with a primary key is an association list on that key: \<open>INSERT ... ON
  CONFLICT DO UPDATE\<close> is \<open>AList.update\<close>, \<open>DELETE\<close> is \<open>AList.delete\<close>. A column that holds a hash or
  an address as bytes holds them in the field that has its text in the Rust struct, so a stored
  row has the struct's own record type. The clock is the argument \<open>now\<close>. A statement that breaks
  a \<open>UNIQUE\<close> constraint fails, and with it the transaction it is in; a disk that fails is not
  modelled here (\<open>Writer\<close> treats a failed write as an outcome of its own).
\<close>

type_synonym blob = bytes
type_synonym balance_key = "blob \<times> blob"

datatype db_error = Unique_Violation

record database =
  blocks :: "(int \<times> block) list"
  transactions :: "(blob \<times> transaction) list"
  token_metas :: "(blob \<times> token_metadata) list"
  transfer_events :: "transfer_event list"
  transfer_seq :: int
  anchoring_events :: "anchoring_event list"
  kv :: "(string \<times> string \<times> int) list"
  counters :: "(string \<times> int) list"
  token_balances :: "(balance_key \<times> string \<times> int) list"
  genesis_balances :: "(balance_key \<times> string) list"

text \<open>What \<open>CREATE TABLE IF NOT EXISTS\<close> makes of a new file.\<close>

definition empty_database :: database where
  "empty_database =
     \<lparr> blocks = [], transactions = [], token_metas = [], transfer_events = [], transfer_seq = 0,
       anchoring_events = [], kv = [], counters = [], token_balances = [], genesis_balances = [] \<rparr>"

subsection \<open>Counters and the key/value store\<close>

definition seed_counter :: "string \<Rightarrow> nat \<Rightarrow> database \<Rightarrow> database" where
  "seed_counter table n db =
     (case map_of (counters db) table of
        Some _ \<Rightarrow> db
      | None \<Rightarrow> db\<lparr>counters := counters db @ [(table, int n)]\<rparr>)"

definition seed_counters :: "database \<Rightarrow> database" where
  "seed_counters db =
     seed_counter ''transactions'' (length (transactions db))
       (seed_counter ''blocks'' (length (blocks db)) db)"

definition counter :: "database \<Rightarrow> string \<Rightarrow> int" where
  "counter db table = unwrap_or 0 (map_of (counters db) table)"

definition add_to_counter :: "string \<Rightarrow> int \<Rightarrow> database \<Rightarrow> database" where
  "add_to_counter table delta db =
     (if delta = 0 then db
      else db\<lparr>counters := AList.update table (counter db table + delta) (counters db)\<rparr>)"

definition page_offset :: "nat \<Rightarrow> nat \<Rightarrow> int" where
  "page_offset page per_page = int (page - 1) * int per_page"

definition set_kv :: "int \<Rightarrow> string \<Rightarrow> string \<Rightarrow> database \<Rightarrow> database" where
  "set_kv now key value db = db\<lparr>kv := AList.update key (value, now) (kv db)\<rparr>"

definition get_kv :: "database \<Rightarrow> string \<Rightarrow> string option" where
  "get_kv db key = map_option fst (map_of (kv db) key)"

subsection \<open>Blocks\<close>

definition stored_block :: "block \<Rightarrow> block" where
  "stored_block blk = blk
     \<lparr> b_hash := hex_blob (b_hash blk), b_parent_hash := hex_blob (b_parent_hash blk),
       b_proposer := hex_blob (b_proposer blk), b_miner := hex_blob (b_miner blk) \<rparr>"

text \<open>
  \<open>number\<close> is the primary key and \<open>hash\<close> is unique: another block already stored under this hash
  fails the statement. A rewrite replaces every column but \<open>created_at\<close>.
\<close>

definition upsert_block :: "block \<Rightarrow> database \<Rightarrow> db_error + database" where
  "upsert_block blk db =
     (let row = stored_block blk in
      if \<exists>(n, r)\<in>set (blocks db). n \<noteq> b_number blk \<and> b_hash r = b_hash row then Inl Unique_Violation
      else
        (let row' = (case map_of (blocks db) (b_number blk) of
                       Some old \<Rightarrow> row\<lparr>b_created_at := b_created_at old\<rparr>
                     | None \<Rightarrow> row)
         in Inr (db\<lparr>blocks := AList.update (b_number blk) row' (blocks db)\<rparr>)))"

subsection \<open>Transactions\<close>

definition stored_transaction :: "transaction \<Rightarrow> transaction" where
  "stored_transaction tx = tx
     \<lparr> t_hash := hex_blob (t_hash tx), t_from_addr := hex_blob (t_from_addr tx),
       t_to_addr := map_option hex_blob (t_to_addr tx),
       t_contract_address := map_option hex_blob (t_contract_address tx),
       t_fee_token := map_option hex_blob (t_fee_token tx),
       t_raw := map_option hex_blob (t_raw tx) \<rparr>"

text \<open>A rewrite that carries nothing for a blob keeps what is stored (\<open>COALESCE\<close>).\<close>

definition merge_transaction :: "transaction \<Rightarrow> transaction \<Rightarrow> transaction" where
  "merge_transaction old row = row
     \<lparr> t_raw := or_else (t_raw row) (t_raw old),
       t_trace_data := or_else (t_trace_data row) (t_trace_data old),
       t_receipt_data := or_else (t_receipt_data row) (t_receipt_data old),
       t_created_at := t_created_at old \<rparr>"

definition upsert_transaction :: "transaction \<Rightarrow> database \<Rightarrow> database" where
  "upsert_transaction tx db =
     (let row = stored_transaction tx;
          row' = (case map_of (transactions db) (t_hash row) of
                    Some old \<Rightarrow> merge_transaction old row
                  | None \<Rightarrow> row)
      in db\<lparr>transactions := AList.update (t_hash row) row' (transactions db)\<rparr>)"

subsection \<open>Balances\<close>

text \<open>\<open>HOLDING\<close>: \<open>balance NOT LIKE '-%'\<close>\<close>

definition holding :: "string \<Rightarrow> bool" where
  "holding balance \<longleftrightarrow> \<not> starts_with ''-'' balance"

definition bigint :: "string \<Rightarrow> int" where
  "bigint s = unwrap_or 0 (bigint_parse 10 s)"

definition count_holders :: "database \<Rightarrow> blob \<Rightarrow> nat" where
  "count_holders db token =
     count_rows (\<lambda>(k, balance, _). fst k = token \<and> holding balance) (token_balances db)"

definition adjust_balance :: "int \<Rightarrow> string \<Rightarrow> string \<Rightarrow> int \<Rightarrow> database \<Rightarrow> int \<times> database" where
  "adjust_balance now token holder delta db =
     (if delta = 0 then (0, db)
      else
        (let key = (hex_blob token, hex_blob holder);
             current = map_option fst (map_of (token_balances db) key);
             was_holding = (case current of Some b \<Rightarrow> \<not> starts_with ''-'' b | None \<Rightarrow> False);
             new = bigint (unwrap_or ''0'' current) + delta;
             is_holding = (new > 0);
             db' = (if new = 0
                    then db\<lparr>token_balances := AList.delete key (token_balances db)\<rparr>
                    else db\<lparr>token_balances := AList.update key (dec_int new, now) (token_balances db)\<rparr>)
         in (of_bool is_holding - of_bool was_holding, db')))"

text \<open>
  The deltas of a block, netted per (token, holder), in the order the keys are first met. The
  source walks a hash map in whatever order it has; \<open>apply_deltas_any_order\<close> in \<open>Ledger_Writes\<close> shows
  that the order makes no difference.
\<close>

definition add_delta :: "string \<times> string \<Rightarrow> int \<Rightarrow> ((string \<times> string) \<times> int) list \<Rightarrow> ((string \<times> string) \<times> int) list" where
  "add_delta k d ds = AList.update k (unwrap_or 0 (map_of ds k) + d) ds"

definition transfer_deltas :: "transfer_event list \<Rightarrow> ((string \<times> string) \<times> int) list" where
  "transfer_deltas ts =
     fold (\<lambda>t ds. let amount = bigint (e_amount t) in
             add_delta (e_token_addr t, e_to_addr t) amount
               (add_delta (e_token_addr t, e_from_addr t) (- amount) ds)) ts []"

fun apply_deltas ::
  "int \<Rightarrow> ((string \<times> string) \<times> int) list \<Rightarrow> (string \<times> int) list \<Rightarrow> database \<Rightarrow> (string \<times> int) list \<times> database" where
  "apply_deltas now [] moved db = (moved, db)"
| "apply_deltas now (((token, holder), delta) # ds) moved db =
     (let (by, db') = adjust_balance now token holder delta db
      in apply_deltas now ds (AList.update token (unwrap_or 0 (map_of moved token) + by) moved) db')"

definition add_holder_count :: "int \<Rightarrow> string \<times> int \<Rightarrow> database \<Rightarrow> database" where
  "add_holder_count now m db =
     (if snd m = 0 then db
      else (case map_of (token_metas db) (hex_blob (fst m)) of
              None \<Rightarrow> db
            | Some row \<Rightarrow>
                db\<lparr>token_metas := AList.update (hex_blob (fst m))
                     (row\<lparr>k_holder_count := k_holder_count row + snd m, k_updated_at := now\<rparr>) (token_metas db)\<rparr>))"

definition add_to_holder_counts :: "int \<Rightarrow> (string \<times> int) list \<Rightarrow> database \<Rightarrow> database" where
  "add_to_holder_counts now moved db = fold (add_holder_count now) moved db"

definition apply_transfer_balances :: "int \<Rightarrow> transfer_event list \<Rightarrow> database \<Rightarrow> database" where
  "apply_transfer_balances now ts db =
     (let (moved, db') = apply_deltas now (transfer_deltas ts) [] db
      in add_to_holder_counts now moved db')"

subsection \<open>Token metadata\<close>

definition upsert_token_meta :: "int \<Rightarrow> token_meta \<Rightarrow> database \<Rightarrow> database" where
  "upsert_token_meta now meta db =
     (let key = hex_blob (m_address meta);
          row = (case map_of (token_metas db) key of
                   None \<Rightarrow>
                     \<lparr> k_address = key, k_name = m_name meta, k_symbol = m_symbol meta,
                       k_decimals = m_decimals meta, k_currency = m_currency meta,
                       k_total_supply = m_total_supply meta, k_logo_uri = [],
                       k_holder_count = int (count_holders db key), k_created_at = now, k_updated_at = now \<rparr>
                 | Some old \<Rightarrow> old
                     \<lparr> k_name := m_name meta, k_symbol := m_symbol meta, k_decimals := m_decimals meta,
                       k_currency := m_currency meta, k_total_supply := m_total_supply meta,
                       k_updated_at := now \<rparr>)
      in db\<lparr>token_metas := AList.update key row (token_metas db)\<rparr>)"

definition save_token_metadata :: "int \<Rightarrow> token_meta list \<Rightarrow> database \<Rightarrow> database" where
  "save_token_metadata now metas db = fold (upsert_token_meta now) metas db"

subsection \<open>Events\<close>

text \<open>\<open>INSERT OR IGNORE\<close> on \<open>UNIQUE (block_number, log_index)\<close>; the flag says a row was added.\<close>

definition transfer_key :: "transfer_event \<Rightarrow> int \<times> int" where
  "transfer_key e = (e_block_number e, e_log_index e)"

definition stored_transfer :: "int \<Rightarrow> transfer_event \<Rightarrow> transfer_event" where
  "stored_transfer i e = e
     \<lparr> e_id := i, e_tx_hash := hex_blob (e_tx_hash e), e_token_addr := hex_blob (e_token_addr e),
       e_from_addr := hex_blob (e_from_addr e), e_to_addr := hex_blob (e_to_addr e) \<rparr>"

definition insert_transfer :: "transfer_event \<Rightarrow> database \<Rightarrow> bool \<times> database" where
  "insert_transfer e db =
     (if \<exists>r\<in>set (transfer_events db). transfer_key r = transfer_key e then (False, db)
      else (True, db\<lparr>transfer_events := transfer_events db @ [stored_transfer (transfer_seq db + 1) e],
                     transfer_seq := transfer_seq db + 1\<rparr>))"

definition anchoring_key :: "anchoring_event \<Rightarrow> int \<times> int" where
  "anchoring_key e = (a_block_number e, a_log_index e)"

definition stored_anchoring :: "anchoring_event \<Rightarrow> anchoring_event" where
  "stored_anchoring e = e\<lparr>a_tx_hash := hex_blob (a_tx_hash e), a_caller := hex_blob (a_caller e)\<rparr>"

definition insert_anchoring :: "anchoring_event \<Rightarrow> database \<Rightarrow> bool \<times> database" where
  "insert_anchoring e db =
     (if \<exists>r\<in>set (anchoring_events db). anchoring_key r = anchoring_key e then (False, db)
      else (True, db\<lparr>anchoring_events := anchoring_events db @ [stored_anchoring e]\<rparr>))"

subsection \<open>Blocks, whole\<close>

fun insert_transfers :: "transfer_event list \<Rightarrow> database \<Rightarrow> transfer_event list \<times> database" where
  "insert_transfers [] db = ([], db)"
| "insert_transfers (t # ts) db =
     (let (fresh, db1) = insert_transfer t db;
          (rest, db2) = insert_transfers ts db1
      in (if fresh then t # rest else rest, db2))"

definition write_block :: "int \<Rightarrow> block_bundle \<Rightarrow> database \<Rightarrow> db_error + (int \<times> int) \<times> database" where
  "write_block now bundle db =
     (let number = b_number (bundle_block bundle);
          stored = (if number \<in> fst ` set (blocks db) then 1 else 0);
          held = (if bundle_txs bundle = [] then 0
                  else int (count_rows (\<lambda>(_, tx). t_block_number tx = number) (transactions db)))
      in case upsert_block (bundle_block bundle) db of
           Inl e \<Rightarrow> Inl e
         | Inr db1 \<Rightarrow>
             (let db2 = fold upsert_transaction (bundle_txs bundle) db1;
                  (inserted, db3) = insert_transfers (bundle_transfers bundle) db2;
                  db4 = fold (\<lambda>e. snd \<circ> insert_anchoring e) (bundle_anchoring bundle) db3;
                  db5 = fold (upsert_token_meta now) (bundle_tokens bundle) db4;
                  db6 = apply_transfer_balances now inserted db5
              in Inr ((1 - stored, max (int (length (bundle_txs bundle)) - held) 0), db6)))"

fun write_blocks :: "int \<Rightarrow> block_bundle list \<Rightarrow> int \<times> int \<Rightarrow> database \<Rightarrow> db_error + (int \<times> int) \<times> database" where
  "write_blocks now [] counts db = Inr (counts, db)"
| "write_blocks now (bundle # rest) counts db =
     (case write_block now bundle db of
        Inl e \<Rightarrow> Inl e
      | Inr ((new_blocks, new_txs), db') \<Rightarrow> write_blocks now rest (fst counts + new_blocks, snd counts + new_txs) db')"

text \<open>
  One transaction: an error anywhere commits nothing, so the result of a failed save is the error
  alone and the database stays what it was.
\<close>

definition save_block_bundles :: "int \<Rightarrow> block_bundle list \<Rightarrow> database \<Rightarrow> db_error + database" where
  "save_block_bundles now bundles db =
     (if bundles = [] then Inr db
      else (case write_blocks now bundles (0, 0) db of
              Inl e \<Rightarrow> Inl e
            | Inr ((new_blocks, new_txs), db') \<Rightarrow>
                Inr (add_to_counter ''transactions'' new_txs (add_to_counter ''blocks'' new_blocks db'))))"

definition save_block_bundle :: "int \<Rightarrow> block_bundle \<Rightarrow> database \<Rightarrow> db_error + database" where
  "save_block_bundle now bundle db = save_block_bundles now [bundle] db"

subsection \<open>Genesis balances\<close>

definition ZERO_ADDRESS :: string where
  "ZERO_ADDRESS = ''0x0000000000000000000000000000000000000000''"

definition GENESIS_CURSOR :: string where
  "GENESIS_CURSOR = ''genesis_balances_cursor''"

type_synonym holder = "string \<times> string"

definition genesis_cursor :: "database \<Rightarrow> int" where
  "genesis_cursor db = unwrap_or 0 (Option.bind (get_kv db GENESIS_CURSOR) parse_i64)"

definition has_genesis :: "database \<Rightarrow> blob \<Rightarrow> blob \<Rightarrow> bool" where
  "has_genesis db token holder \<longleftrightarrow> map_of (genesis_balances db) (token, holder) \<noteq> None"

text \<open>The holders one transfer row adds: the sender, then the receiver.\<close>

definition push_holder :: "keccak \<Rightarrow> database \<Rightarrow> blob \<Rightarrow> blob \<Rightarrow> holder list \<Rightarrow> holder list" where
  "push_holder keccak db token side holders =
     (if has_genesis db token side then holders
      else
        (let holder = (blob_addr keccak token, blob_addr keccak side) in
         if snd holder \<noteq> ZERO_ADDRESS \<and> holder \<notin> set holders then holders @ [holder] else holders))"

definition push_holders :: "keccak \<Rightarrow> database \<Rightarrow> transfer_event \<Rightarrow> holder list \<Rightarrow> holder list" where
  "push_holders keccak db e holders =
     push_holder keccak db (e_token_addr e) (e_to_addr e)
       (push_holder keccak db (e_token_addr e) (e_from_addr e) holders)"

definition holders_without_genesis_balance ::
  "keccak \<Rightarrow> nat \<Rightarrow> database \<Rightarrow> (int \<times> holder list) option" where
  "holders_without_genesis_balance keccak limit db =
     (let cursor = genesis_cursor db;
          rows = take limit (sort_key e_id (filter (\<lambda>e. e_id e > cursor) (transfer_events db)));
          final = (if rows = [] then cursor else e_id (last rows));
          holders = fold (push_holders keccak db) rows []
      in if final \<noteq> cursor then Some (final, holders) else None)"

fun insert_genesis ::
  "int \<Rightarrow> (holder \<times> string) list \<Rightarrow> (string \<times> int) list \<Rightarrow> database \<Rightarrow> (string \<times> int) list \<times> database" where
  "insert_genesis now [] moved db = (moved, db)"
| "insert_genesis now (((token, holder), balance) # rest) moved db =
     (let key = (hex_blob token, hex_blob holder) in
      case map_of (genesis_balances db) key of
        Some _ \<Rightarrow> insert_genesis now rest moved db
      | None \<Rightarrow>
          (let db1 = db\<lparr>genesis_balances := genesis_balances db @ [(key, balance)]\<rparr>;
               (by, db2) = adjust_balance now token holder (bigint balance) db1
           in insert_genesis now rest (AList.update token (unwrap_or 0 (map_of moved token) + by) moved) db2))"

definition save_genesis_balances :: "int \<Rightarrow> (holder \<times> string) list \<Rightarrow> int \<Rightarrow> database \<Rightarrow> database" where
  "save_genesis_balances now balances cursor db =
     (let (moved, db1) = insert_genesis now balances [] db
      in set_kv now GENESIS_CURSOR (dec_int cursor) (add_to_holder_counts now moved db1))"

subsection \<open>Rebuilding\<close>

definition update_holder_count :: "int \<Rightarrow> string \<Rightarrow> database \<Rightarrow> database" where
  "update_holder_count now token db =
     (let key = hex_blob token in
      case map_of (token_metas db) key of
        None \<Rightarrow> db
      | Some row \<Rightarrow>
          db\<lparr>token_metas := AList.update key
               (row\<lparr>k_holder_count := int (count_holders db key), k_updated_at := now\<rparr>) (token_metas db)\<rparr>)"

definition replay_transfer :: "keccak \<Rightarrow> int \<Rightarrow> transfer_event \<Rightarrow> database \<Rightarrow> database" where
  "replay_transfer keccak now e db =
     (let token = blob_addr keccak (e_token_addr e); amount = bigint (e_amount e)
      in snd (adjust_balance now token (blob_addr keccak (e_to_addr e)) amount
           (snd (adjust_balance now token (blob_addr keccak (e_from_addr e)) (- amount) db))))"

definition replay_genesis :: "keccak \<Rightarrow> int \<Rightarrow> balance_key \<times> string \<Rightarrow> database \<Rightarrow> database" where
  "replay_genesis keccak now g db =
     snd (adjust_balance now (blob_addr keccak (fst (fst g))) (blob_addr keccak (snd (fst g))) (bigint (snd g)) db)"

text \<open>The tokens touched: a set in the source, here each once, in the order first met.\<close>

definition touched_tokens :: "keccak \<Rightarrow> database \<Rightarrow> string list" where
  "touched_tokens keccak db =
     remdups (map (\<lambda>e. blob_addr keccak (e_token_addr e)) (transfer_events db)
              @ map (\<lambda>g. blob_addr keccak (fst (fst g))) (genesis_balances db))"

definition rebuild_token_balances :: "keccak \<Rightarrow> int \<Rightarrow> database \<Rightarrow> database" where
  "rebuild_token_balances keccak now db =
     (let db1 = db\<lparr>token_balances := []\<rparr>;
          db2 = fold (replay_transfer keccak now) (sort_key e_id (transfer_events db)) db1;
          db3 = fold (replay_genesis keccak now) (genesis_balances db) db2
      in fold (update_holder_count now) (touched_tokens keccak db) db3)"

definition sync_holder_counts :: "keccak \<Rightarrow> int \<Rightarrow> database \<Rightarrow> database" where
  "sync_holder_counts keccak now db =
     fold (update_holder_count now)
       (map (blob_addr keccak) (remdups (map (fst \<circ> fst) (token_balances db)))) db"

definition table_has_rows :: "'a list \<Rightarrow> bool" where
  "table_has_rows table \<longleftrightarrow> table \<noteq> []"

end
