(* ===== verification/Ledger.thy ===== *)
theory Ledger
  imports Storage
begin

section \<open>Balances are the ledger of the transfers\<close>

text \<open>
  The specification of the balance tables: a balance is what the stored transfers and the genesis
  balances sum to, a stored balance is never zero, and a token's holder count is the number of
  its balances that are holdings. Every write of \<open>Storage\<close> keeps it, and rebuilding the table
  from the events gives the balances the incremental writes gave.
\<close>

subsection \<open>The specification\<close>

definition bal :: "database \<Rightarrow> balance_key \<Rightarrow> int" where
  "bal db k = (case map_of (token_balances db) k of Some (s, _) \<Rightarrow> bigint s | None \<Rightarrow> 0)"

definition canonical :: "string \<Rightarrow> bool" where
  "canonical s \<longleftrightarrow> (\<exists>i. i \<noteq> 0 \<and> s = dec_int i)"

definition balances_wf :: "database \<Rightarrow> bool" where
  "balances_wf db \<longleftrightarrow> unique_keys (token_balances db) \<and>
     (\<forall>k s u. map_of (token_balances db) k = Some (s, u) \<longrightarrow> canonical s)"

definition transfer_effect :: "transfer_event \<Rightarrow> balance_key \<Rightarrow> int" where
  "transfer_effect e k =
     (if (hex_blob (e_token_addr e), hex_blob (e_to_addr e)) = k then bigint (e_amount e) else 0)
     - (if (hex_blob (e_token_addr e), hex_blob (e_from_addr e)) = k then bigint (e_amount e) else 0)"

text \<open>The same, of a stored row, whose addresses are bytes already.\<close>

definition row_effect :: "transfer_event \<Rightarrow> balance_key \<Rightarrow> int" where
  "row_effect e k =
     (if (e_token_addr e, e_to_addr e) = k then bigint (e_amount e) else 0)
     - (if (e_token_addr e, e_from_addr e) = k then bigint (e_amount e) else 0)"

definition genesis_effect :: "(balance_key \<times> string) list \<Rightarrow> balance_key \<Rightarrow> int" where
  "genesis_effect gs k = (\<Sum>(k', s)\<leftarrow>gs. if k' = k then bigint s else 0)"

definition ledger :: "database \<Rightarrow> balance_key \<Rightarrow> int" where
  "ledger db k = (\<Sum>e\<leftarrow>transfer_events db. row_effect e k) + genesis_effect (genesis_balances db) k"

definition ledger_ok :: "database \<Rightarrow> bool" where
  "ledger_ok db \<longleftrightarrow> balances_wf db \<and> (\<forall>k. bal db k = ledger db k)"

text \<open>Holder counts that are behind the balances by \<open>f\<close>, and counts that are not behind.\<close>

definition counts_behind :: "(blob \<Rightarrow> int) \<Rightarrow> database \<Rightarrow> bool" where
  "counts_behind f db \<longleftrightarrow> unique_keys (token_metas db) \<and>
     (\<forall>token row. map_of (token_metas db) token = Some row \<longrightarrow>
        k_holder_count row + f token = int (count_holders db token))"

definition counts_ok :: "database \<Rightarrow> bool" where
  "counts_ok db \<longleftrightarrow> unique_keys (token_metas db) \<and>
     (\<forall>token row. map_of (token_metas db) token = Some row \<longrightarrow>
        k_holder_count row = int (count_holders db token))"

subsection \<open>One balance\<close>

lemma bigint_dec_int [simp]: "bigint (dec_int i) = i"
  by (simp add: bigint_def bigint_parse_dec_int)

lemma holding_dec_int [simp]: "holding (dec_int i) \<longleftrightarrow> 0 \<le> i"
  by (auto simp: holding_def dec_int_minus)

lemma bigint_zero_text [simp]: "bigint ''0'' = 0"
  by (simp add: bigint_def bigint_parse_def biguint_parse_def strip_plus_def digit_val_def)

lemma canonical_bigint: "canonical s \<Longrightarrow> s = dec_int (bigint s) \<and> bigint s \<noteq> 0"
  by (auto simp: canonical_def)

lemma balances_wf_lookup:
  "balances_wf db \<Longrightarrow> map_of (token_balances db) k = Some (s, u) \<Longrightarrow> s = dec_int (bal db k) \<and> bal db k \<noteq> 0"
  using canonical_bigint [of s] by (cases k) (auto simp: balances_wf_def bal_def)

lemma balances_wf_None:
  "balances_wf db \<Longrightarrow> map_of (token_balances db) k = None \<longleftrightarrow> bal db k = 0"
  by (cases "map_of (token_balances db) k") (auto simp: bal_def dest: balances_wf_lookup)

text \<open>What a table's row for \<open>k\<close> adds to the holders of its token.\<close>

lemma holder_row:
  assumes "balances_wf db"
  shows "row_counts (\<lambda>(k, balance, _). fst k = token \<and> holding balance) (token_balances db) k =
    of_bool (fst k = token \<and> 0 < bal db k)"
proof (cases "map_of (token_balances db) k")
  case None
  then show ?thesis using balances_wf_None [OF assms, of k] by (simp add: row_counts_def)
next
  case (Some r)
  obtain s u where r: "r = (s, u)" by (cases r)
  then have s: "s = dec_int (bal db k)" "bal db k \<noteq> 0"
    using balances_wf_lookup [OF assms] Some by auto
  then have "holding s \<longleftrightarrow> 0 < bal db k" using holding_dec_int [of "bal db k"] by force
  then show ?thesis using Some r by (simp add: row_counts_def)
qed

text \<open>
  One adjustment moves one balance by the delta, keeps the table well formed, and reports exactly
  the holders its token gained or lost.
\<close>

lemma adjust_balance_spec:
  fixes token holder :: string
  assumes wf: "balances_wf db" and adj: "adjust_balance now token holder delta db = (by', db')"
  defines "key \<equiv> (hex_blob token, hex_blob holder)"
  shows "balances_wf db'"
    and "bal db' = (bal db)(key := bal db key + delta)"
    and "int (count_holders db' t) = int (count_holders db t) + (if t = hex_blob token then by' else 0)"
    and "\<exists>bs. db' = db\<lparr>token_balances := bs\<rparr>"
proof -
  let ?P = "\<lambda>t (k, balance, _). fst k = t \<and> holding balance"
  let ?new = "bal db key + delta"
  have cur: "map_option fst (map_of (token_balances db) key) = (if bal db key = 0 then None else Some (dec_int (bal db key)))"
    using balances_wf_lookup [OF wf, of key] balances_wf_None [OF wf, of key]
    by (cases "map_of (token_balances db) key") auto
  have uniq: "unique_keys (token_balances db)" using wf by (simp add: balances_wf_def)
  have eq: "delta \<noteq> 0 \<Longrightarrow>
      by' = of_bool (0 < ?new) - of_bool (0 < bal db key) \<and>
      db' = (if ?new = 0 then db\<lparr>token_balances := AList.delete key (token_balances db)\<rparr>
             else db\<lparr>token_balances := AList.update key (dec_int ?new, now) (token_balances db)\<rparr>)"
    using adj unfolding adjust_balance_def Let_def key_def [symmetric] cur
    by (auto simp: dec_int_minus split: if_splits)
  have P_new: "?new \<noteq> 0 \<Longrightarrow> ?P t (key, dec_int ?new, now) \<longleftrightarrow> fst key = t \<and> 0 < ?new" for t
    by auto
  show "balances_wf db'"
  proof (cases "delta = 0")
    case False
    then show ?thesis using eq [OF False] wf
      by (auto simp: balances_wf_def table_simps canonical_def split: if_splits)
  qed (use adj wf in \<open>simp add: adjust_balance_def\<close>)
  show "bal db' = (bal db)(key := bal db key + delta)"
  proof (cases "delta = 0")
    case False
    then show ?thesis using eq [OF False] by (auto simp: bal_def table_simps fun_eq_iff)
  qed (use adj in \<open>simp add: adjust_balance_def\<close>)
  show "int (count_holders db' t) = int (count_holders db t) + (if t = hex_blob token then by' else 0)"
  proof (cases "delta = 0")
    case False
    note e = eq [OF False]
    have row: "row_counts (?P t) (token_balances db) key = of_bool (fst key = t \<and> 0 < bal db key)"
      by (rule holder_row [OF wf])
    show ?thesis
    proof (cases "?new = 0")
      case True
      then have "count_holders db' t = count_rows (?P t) (AList.delete key (token_balances db))"
        using e by (simp add: count_holders_def)
      then show ?thesis using count_rows_delete [OF uniq, of "?P t" key] row e True
        by (auto simp: count_holders_def key_def)
    next
      case nz: False
      then have "count_holders db' t = count_rows (?P t) (AList.update key (dec_int ?new, now) (token_balances db))"
        using e by (simp add: count_holders_def)
      then show ?thesis
        using count_rows_update [OF uniq, of "?P t" key "(dec_int ?new, now)"] row e P_new [OF nz, of t]
        by (auto simp: count_holders_def key_def)
    qed
  qed (use adj in \<open>simp add: adjust_balance_def\<close>)
  show "\<exists>bs. db' = db\<lparr>token_balances := bs\<rparr>"
  proof (cases "delta = 0")
    case False
    show ?thesis using eq [OF False] by auto
  next
    case True
    then have "db' = db\<lparr>token_balances := token_balances db\<rparr>"
      using adj by (simp add: adjust_balance_def)
    then show ?thesis ..
  qed
qed

subsection \<open>A block's balances\<close>

text \<open>Adding to one key of an accumulator adds to every sum over the keys that counts it.\<close>

lemma sum_accumulate:
  assumes "unique_keys m"
  shows "(\<Sum>(k, v)\<leftarrow>AList.update k0 (unwrap_or 0 (map_of m k0) + d) m. if P k then v else (0::int)) =
         (\<Sum>(k, v)\<leftarrow>m. if P k then v else 0) + (if P k0 then d else 0)"
  using assms
proof (induction m)
  case (Cons r m)
  obtain k v where r: "r = (k, v)" by (cases r)
  show ?case
  proof (cases "k = k0")
    case False
    have "unwrap_or 0 (map_of (r # m) k0) = unwrap_or 0 (map_of m k0)" using False r by simp
    with Cons False r show ?thesis by (simp add: unique_keys_def)
  qed (simp add: r)
qed simp

definition deltas_of :: "((string \<times> string) \<times> int) list \<Rightarrow> balance_key \<Rightarrow> int" where
  "deltas_of ds k = (\<Sum>(th, d)\<leftarrow>ds. if (hex_blob (fst th), hex_blob (snd th)) = k then d else 0)"

definition moved_of :: "(string \<times> int) list \<Rightarrow> blob \<Rightarrow> int" where
  "moved_of moved t = (\<Sum>(token, by)\<leftarrow>moved. if hex_blob token = t then by else 0)"

lemma deltas_of_add_delta:
  "unique_keys ds \<Longrightarrow> deltas_of (add_delta th d ds) k =
     deltas_of ds k + (if (hex_blob (fst th), hex_blob (snd th)) = k then d else 0)"
  unfolding deltas_of_def add_delta_def by (rule sum_accumulate)

lemma moved_of_update:
  "unique_keys moved \<Longrightarrow> moved_of (AList.update token (unwrap_or 0 (map_of moved token) + by) moved) t =
     moved_of moved t + (if hex_blob token = t then by else 0)"
  unfolding moved_of_def by (rule sum_accumulate)

lemma unique_keys_add_delta: "unique_keys ds \<Longrightarrow> unique_keys (add_delta th d ds)"
  unfolding add_delta_def by (rule unique_keys_update)

lemma deltas_of_transfer_deltas: "deltas_of (transfer_deltas ts) k = (\<Sum>e\<leftarrow>ts. transfer_effect e k)"
proof -
  let ?f = "\<lambda>t ds. let amount = bigint (e_amount t) in
      add_delta (e_token_addr t, e_to_addr t) amount (add_delta (e_token_addr t, e_from_addr t) (- amount) ds)"
  have "unique_keys ds \<Longrightarrow> deltas_of (fold ?f ts ds) k = deltas_of ds k + (\<Sum>e\<leftarrow>ts. transfer_effect e k)" for ds
  proof (induction ts arbitrary: ds)
    case (Cons t ts)
    have u: "unique_keys (?f t ds)" using Cons.prems by (auto simp: Let_def intro: unique_keys_add_delta)
    have "deltas_of (?f t ds) k = deltas_of ds k + transfer_effect t k"
      using Cons.prems by (auto simp: Let_def deltas_of_add_delta unique_keys_add_delta transfer_effect_def)
    with Cons.IH [OF u] show ?case by simp
  qed simp
  from this [of "[]"] show ?thesis by (simp add: transfer_deltas_def deltas_of_def)
qed

lemma apply_deltas_spec:
  assumes "balances_wf db" "unique_keys moved" "apply_deltas now ds moved db = (moved', db')"
  shows "balances_wf db' \<and> unique_keys moved' \<and>
    (\<forall>k. bal db' k = bal db k + deltas_of ds k) \<and>
    (\<forall>t. int (count_holders db' t) - moved_of moved' t = int (count_holders db t) - moved_of moved t) \<and>
    (\<exists>bs. db' = db\<lparr>token_balances := bs\<rparr>)"
  using assms
proof (induction now ds moved db rule: apply_deltas.induct)
  case (1 now moved db)
  then have "db' = db\<lparr>token_balances := token_balances db\<rparr>" by simp
  then have "\<exists>bs. db' = db\<lparr>token_balances := bs\<rparr>" ..
  with 1 show ?case by (auto simp: deltas_of_def)
next
  case (2 now token holder delta ds moved db)
  obtain by' db1 where adj: "adjust_balance now token holder delta db = (by', db1)"
    by (cases "adjust_balance now token holder delta db")
  let ?moved1 = "AList.update token (unwrap_or 0 (map_of moved token) + by') moved"
  note sp = adjust_balance_spec [OF "2.prems"(1) adj]
  have rest: "apply_deltas now ds ?moved1 db1 = (moved', db')" using "2.prems"(3) adj by simp
  note ih = "2.IH" [OF adj [symmetric] refl sp(1) unique_keys_update [OF "2.prems"(2)] rest]
  have "bal db' k = bal db k + deltas_of (((token, holder), delta) # ds) k" for k
    using ih sp(2) by (cases k) (auto simp: deltas_of_def)
  moreover have "int (count_holders db' t) - moved_of moved' t = int (count_holders db t) - moved_of moved t" for t
    using ih sp(3) [of t] by (auto simp: moved_of_update [OF "2.prems"(2)])
  moreover have "\<exists>bs. db' = db\<lparr>token_balances := bs\<rparr>" using ih sp(4) by auto
  ultimately show ?case using ih by blast
qed

lemma count_holders_metas [simp]: "count_holders (db\<lparr>token_metas := ms\<rparr>) t = count_holders db t"
  by (simp add: count_holders_def)

lemma add_holder_count_behind:
  assumes "counts_behind f db"
  shows "counts_behind (\<lambda>t. f t - (if hex_blob (fst m) = t then snd m else 0)) (add_holder_count now m db)"
proof (cases "snd m = 0 \<or> map_of (token_metas db) (hex_blob (fst m)) = None")
  case True
  then show ?thesis using assms by (auto simp: add_holder_count_def counts_behind_def split: if_splits)
next
  case False
  then obtain row where row: "map_of (token_metas db) (hex_blob (fst m)) = Some row" and nz: "snd m \<noteq> 0" by auto
  have r: "k_holder_count row + f (hex_blob (fst m)) = int (count_holders db (hex_blob (fst m)))"
    using assms row by (simp add: counts_behind_def)
  show ?thesis using assms row nz r
    by (auto simp: add_holder_count_def counts_behind_def table_simps split: if_splits)
qed

lemma add_holder_count_frame: "\<exists>ms. add_holder_count now m db = db\<lparr>token_metas := ms\<rparr>"
proof (cases "snd m = 0 \<or> map_of (token_metas db) (hex_blob (fst m)) = None")
  case True
  then have "add_holder_count now m db = db\<lparr>token_metas := token_metas db\<rparr>"
    by (auto simp: add_holder_count_def)
  then show ?thesis ..
qed (auto simp: add_holder_count_def)

lemma add_to_holder_counts_behind:
  "counts_behind f db \<Longrightarrow> counts_behind (\<lambda>t. f t - moved_of moved t) (add_to_holder_counts now moved db)"
proof (induction moved arbitrary: f db)
  case (Cons m moved)
  have eq: "(\<lambda>t. f t - (if hex_blob (fst m) = t then snd m else 0) - moved_of moved t) = (\<lambda>t. f t - moved_of (m # moved) t)"
    by (auto simp: moved_of_def fun_eq_iff split: prod.splits)
  show ?case using Cons.IH [OF add_holder_count_behind [OF Cons.prems, of m now]]
    unfolding eq by (simp add: add_to_holder_counts_def)
qed (simp add: add_to_holder_counts_def moved_of_def)

lemma add_to_holder_counts_frame: "\<exists>ms. add_to_holder_counts now moved db = db\<lparr>token_metas := ms\<rparr>"
proof (induction moved arbitrary: db)
  case Nil
  have "add_to_holder_counts now [] db = db\<lparr>token_metas := token_metas db\<rparr>"
    by (simp add: add_to_holder_counts_def)
  then show ?case ..
next
  case (Cons m moved)
  obtain ms where m: "add_holder_count now m db = db\<lparr>token_metas := ms\<rparr>"
    using add_holder_count_frame by blast
  obtain ms' where "add_to_holder_counts now moved (db\<lparr>token_metas := ms\<rparr>) = db\<lparr>token_metas := ms\<rparr>\<lparr>token_metas := ms'\<rparr>"
    using Cons by blast
  then show ?case using m by (auto simp: add_to_holder_counts_def)
qed

lemma balances_wf_metas [simp]: "balances_wf (db\<lparr>token_metas := ms\<rparr>) \<longleftrightarrow> balances_wf db"
  by (simp add: balances_wf_def)

lemma bal_metas [simp]: "bal (db\<lparr>token_metas := ms\<rparr>) = bal db"
  by (simp add: bal_def fun_eq_iff)

text \<open>A block's transfers move the balances by their effects, and the holder counts with them.\<close>

lemma apply_transfer_balances_spec:
  fixes now :: int and ts :: "transfer_event list"
  assumes "balances_wf db" "counts_ok db"
  defines "db' \<equiv> apply_transfer_balances now ts db"
  shows "balances_wf db'" "counts_ok db'" "bal db' k = bal db k + (\<Sum>e\<leftarrow>ts. transfer_effect e k)"
    and "\<exists>bs ms. db' = db\<lparr>token_balances := bs, token_metas := ms\<rparr>"
proof -
  obtain moved db1 where d: "apply_deltas now (transfer_deltas ts) [] db = (moved, db1)"
    by (cases "apply_deltas now (transfer_deltas ts) [] db")
  note sp = apply_deltas_spec [OF assms(1) unique_keys_Nil d]
  then obtain bs where bs: "db1 = db\<lparr>token_balances := bs\<rparr>" by blast
  obtain ms where ms: "add_to_holder_counts now moved db1 = db1\<lparr>token_metas := ms\<rparr>"
    using add_to_holder_counts_frame by blast
  have db': "db' = db1\<lparr>token_metas := ms\<rparr>"
    unfolding db'_def apply_transfer_balances_def d by (simp add: ms)
  show "balances_wf db'" using sp unfolding db' by auto
  show "bal db' k = bal db k + (\<Sum>e\<leftarrow>ts. transfer_effect e k)"
    using sp unfolding db' by (cases k) (auto simp: deltas_of_transfer_deltas)
  show "\<exists>bs ms. db' = db\<lparr>token_balances := bs, token_metas := ms\<rparr>"
    using db' bs by auto
  have "counts_behind (moved_of moved) db1"
    using assms(2) sp bs by (auto simp: counts_behind_def counts_ok_def moved_of_def algebra_simps)
  from add_to_holder_counts_behind [OF this, of moved now]
  have "counts_behind (\<lambda>t. 0) db'" unfolding db' ms [symmetric] by simp
  then show "counts_ok db'" by (simp add: counts_behind_def counts_ok_def)
qed

subsection \<open>A block's other writes\<close>

lemma row_effect_stored [simp]: "row_effect (stored_transfer i e) k = transfer_effect e k"
  by (simp add: row_effect_def transfer_effect_def stored_transfer_def)

lemma transfer_key_stored [simp]: "transfer_key (stored_transfer i e) = transfer_key e"
  by (simp add: transfer_key_def stored_transfer_def)

text \<open>
  The transfers of a block: the rows added have exactly the effects of the transfers reported as
  fresh, and afterwards every one of them is stored under its key.
\<close>

definition inserted_as ::
  "transfer_event list \<Rightarrow> database \<Rightarrow> transfer_event list \<Rightarrow> database \<Rightarrow> transfer_event list \<Rightarrow> int \<Rightarrow> bool" where
  "inserted_as ts db ins db' rows sq \<longleftrightarrow>
     db' = db\<lparr>transfer_events := transfer_events db @ rows, transfer_seq := sq\<rparr> \<and>
     (\<forall>k. (\<Sum>e\<leftarrow>rows. row_effect e k) = (\<Sum>e\<leftarrow>ins. transfer_effect e k)) \<and>
     transfer_key ` set ts \<subseteq> transfer_key ` set (transfer_events db @ rows) \<and>
     map transfer_key rows = map transfer_key ins \<and>
     transfer_key ` set ins \<inter> transfer_key ` set (transfer_events db) = {} \<and>
     distinct (map transfer_key ins) \<and> set ins \<subseteq> set ts"

lemma insert_transfers_spec:
  "insert_transfers ts db = (ins, db') \<Longrightarrow> \<exists>rows sq. inserted_as ts db ins db' rows sq"
proof (induction ts arbitrary: db ins db')
  case Nil
  then have "inserted_as [] db ins db' [] (transfer_seq db)" by (auto simp: inserted_as_def)
  then show ?case by blast
next
  case (Cons t ts)
  show ?case
  proof (cases "\<exists>r\<in>set (transfer_events db). transfer_key r = transfer_key t")
    case True
    then have i: "insert_transfers ts db = (ins, db')"
      using Cons.prems by (auto simp: insert_transfer_def split: prod.splits)
    have t: "transfer_key t \<in> transfer_key ` set (transfer_events db)" using True by (metis imageI)
    obtain rows sq where "inserted_as ts db ins db' rows sq" using Cons.IH [OF i] by blast
    then have "inserted_as (t # ts) db ins db' rows sq"
      unfolding inserted_as_def using t by auto
    then show ?thesis by blast
  next
    case False
    let ?row = "stored_transfer (transfer_seq db + 1) t"
    let ?db1 = "db\<lparr>transfer_events := transfer_events db @ [?row], transfer_seq := transfer_seq db + 1\<rparr>"
    obtain ins1 where i: "insert_transfers ts ?db1 = (ins1, db')" "ins = t # ins1"
      using Cons.prems False by (auto simp: insert_transfer_def split: prod.splits)
    obtain rows sq where r: "inserted_as ts ?db1 ins1 db' rows sq" using Cons.IH [OF i(1)] by blast
    have "inserted_as (t # ts) db ins db' (?row # rows) sq"
      unfolding inserted_as_def
    proof (intro conjI)
      show "db' = db\<lparr>transfer_events := transfer_events db @ ?row # rows, transfer_seq := sq\<rparr>"
        using r by (simp add: inserted_as_def)
      show "\<forall>k. (\<Sum>e\<leftarrow>?row # rows. row_effect e k) = (\<Sum>e\<leftarrow>ins. transfer_effect e k)"
        using r i(2) by (simp add: inserted_as_def)
      show "transfer_key ` set (t # ts) \<subseteq> transfer_key ` set (transfer_events db @ ?row # rows)"
        using r by (auto simp: inserted_as_def)
      show "map transfer_key (?row # rows) = map transfer_key ins"
        using r i(2) by (simp add: inserted_as_def)
      show "transfer_key ` set ins \<inter> transfer_key ` set (transfer_events db) = {}"
        using False r i(2) by (auto simp: inserted_as_def)
      show "distinct (map transfer_key ins)" using r i(2) by (auto simp: inserted_as_def)
      show "set ins \<subseteq> set (t # ts)" using r i(2) by (auto simp: inserted_as_def)
    qed
    then show ?thesis by blast
  qed
qed

lemma upsert_block_frame: "upsert_block blk db = Inr db' \<Longrightarrow> \<exists>bs. db' = db\<lparr>blocks := bs\<rparr>"
  by (auto simp: upsert_block_def Let_def split: if_splits)

lemma upsert_transactions_frame: "\<exists>xs. fold upsert_transaction txs db = db\<lparr>transactions := xs\<rparr>"
proof (induction txs arbitrary: db)
  case Nil
  have "fold upsert_transaction [] db = db\<lparr>transactions := transactions db\<rparr>" by simp
  then show ?case ..
next
  case (Cons tx txs)
  obtain xs where "fold upsert_transaction txs (upsert_transaction tx db) = upsert_transaction tx db\<lparr>transactions := xs\<rparr>"
    using Cons by blast
  then have "fold upsert_transaction (tx # txs) db = db\<lparr>transactions := xs\<rparr>"
    by (simp add: upsert_transaction_def Let_def)
  then show ?case ..
qed

lemma insert_anchorings_frame:
  "\<exists>xs. fold (\<lambda>e. snd \<circ> insert_anchoring e) es db = db\<lparr>anchoring_events := xs\<rparr>"
proof (induction es arbitrary: db)
  case Nil
  have "fold (\<lambda>e. snd \<circ> insert_anchoring e) [] db = db\<lparr>anchoring_events := anchoring_events db\<rparr>" by simp
  then show ?case ..
next
  case (Cons e es)
  obtain ys where ys: "snd (insert_anchoring e db) = db\<lparr>anchoring_events := ys\<rparr>"
  proof (cases "\<exists>r\<in>set (anchoring_events db). anchoring_key r = anchoring_key e")
    case True
    then have "snd (insert_anchoring e db) = db\<lparr>anchoring_events := anchoring_events db\<rparr>"
      by (simp add: insert_anchoring_def)
    then show ?thesis by (rule that)
  qed (auto simp: insert_anchoring_def intro: that)
  obtain xs where "fold (\<lambda>e. snd \<circ> insert_anchoring e) es (db\<lparr>anchoring_events := ys\<rparr>) = db\<lparr>anchoring_events := ys\<rparr>\<lparr>anchoring_events := xs\<rparr>"
    using Cons by blast
  then have "fold (\<lambda>e. snd \<circ> insert_anchoring e) (e # es) db = db\<lparr>anchoring_events := xs\<rparr>"
    using ys by simp
  then show ?case ..
qed

lemma upsert_token_meta_frame: "\<exists>ms. upsert_token_meta now meta db = db\<lparr>token_metas := ms\<rparr>"
  by (auto simp: upsert_token_meta_def Let_def)

lemma upsert_token_metas_frame: "\<exists>ms. fold (upsert_token_meta now) metas db = db\<lparr>token_metas := ms\<rparr>"
proof (induction metas arbitrary: db)
  case Nil
  have "fold (upsert_token_meta now) [] db = db\<lparr>token_metas := token_metas db\<rparr>" by simp
  then show ?case ..
next
  case (Cons meta metas)
  obtain ms where ms: "upsert_token_meta now meta db = db\<lparr>token_metas := ms\<rparr>"
    using upsert_token_meta_frame by blast
  obtain ms' where "fold (upsert_token_meta now) metas (db\<lparr>token_metas := ms\<rparr>) = db\<lparr>token_metas := ms\<rparr>\<lparr>token_metas := ms'\<rparr>"
    using Cons by blast
  then have "fold (upsert_token_meta now) (meta # metas) db = db\<lparr>token_metas := ms'\<rparr>" using ms by simp
  then show ?case ..
qed

text \<open>A new metadata row is born with the holders its balances already give it.\<close>

lemma upsert_token_meta_counts: "counts_ok db \<Longrightarrow> counts_ok (upsert_token_meta now meta db)"
  by (auto simp: counts_ok_def upsert_token_meta_def Let_def table_simps split: option.splits)

lemma upsert_token_metas_counts: "counts_ok db \<Longrightarrow> counts_ok (fold (upsert_token_meta now) metas db)"
  by (induction metas arbitrary: db) (auto simp: upsert_token_meta_counts)

text \<open>What neither the balances nor the ledger read.\<close>

lemma ledger_frame [simp]:
  "bal (db\<lparr>blocks := bs\<rparr>) = bal db" "bal (db\<lparr>transactions := xs\<rparr>) = bal db"
  "bal (db\<lparr>anchoring_events := es\<rparr>) = bal db" "bal (db\<lparr>transfer_events := ts\<rparr>) = bal db"
  "bal (db\<lparr>transfer_seq := q\<rparr>) = bal db" "bal (db\<lparr>kv := m\<rparr>) = bal db" "bal (db\<lparr>counters := c\<rparr>) = bal db"
  "bal (db\<lparr>genesis_balances := gs\<rparr>) = bal db"
  "balances_wf (db\<lparr>blocks := bs\<rparr>) = balances_wf db" "balances_wf (db\<lparr>transactions := xs\<rparr>) = balances_wf db"
  "balances_wf (db\<lparr>anchoring_events := es\<rparr>) = balances_wf db" "balances_wf (db\<lparr>transfer_events := ts\<rparr>) = balances_wf db"
  "balances_wf (db\<lparr>transfer_seq := q\<rparr>) = balances_wf db" "balances_wf (db\<lparr>kv := m\<rparr>) = balances_wf db"
  "balances_wf (db\<lparr>counters := c\<rparr>) = balances_wf db" "balances_wf (db\<lparr>genesis_balances := gs\<rparr>) = balances_wf db"
  "counts_ok (db\<lparr>blocks := bs\<rparr>) = counts_ok db" "counts_ok (db\<lparr>transactions := xs\<rparr>) = counts_ok db"
  "counts_ok (db\<lparr>anchoring_events := es\<rparr>) = counts_ok db" "counts_ok (db\<lparr>transfer_events := ts\<rparr>) = counts_ok db"
  "counts_ok (db\<lparr>transfer_seq := q\<rparr>) = counts_ok db" "counts_ok (db\<lparr>kv := m\<rparr>) = counts_ok db"
  "counts_ok (db\<lparr>counters := c\<rparr>) = counts_ok db" "counts_ok (db\<lparr>genesis_balances := gs\<rparr>) = counts_ok db"
  by (simp_all add: bal_def fun_eq_iff balances_wf_def counts_ok_def count_holders_def)

end
