(* ===== verification/Ledger_Writes.thy ===== *)
theory Ledger_Writes
  imports Ledger
begin

section \<open>Every write keeps the ledger\<close>

text \<open>
  The invariant of \<open>Ledger\<close> through the whole write path: a block, a batch of blocks, token
  metadata, genesis balances, the rebuild and the recount at start. And what makes the path
  restartable: a batch that is written again changes no balance, no event and no counter.
\<close>

subsection \<open>Holders\<close>

text \<open>A token's holders are the accounts with a positive balance.\<close>

lemma count_holders_card:
  assumes "balances_wf db"
  shows "count_holders db token = card {holder. 0 < bal db (token, holder)}"
proof -
  let ?rows = "filter (\<lambda>(k, balance, _). fst k = token \<and> holding balance) (token_balances db)"
  have u: "distinct (map fst (token_balances db))" using assms by (simp add: balances_wf_def unique_keys_def)
  have d: "distinct (map fst ?rows)" using u by (rule distinct_map_filter)
  have mem: "k \<in> fst ` set ?rows \<longleftrightarrow> fst k = token \<and> 0 < bal db k" for k
  proof (cases "map_of (token_balances db) k")
    case None
    have "k \<notin> fst ` set ?rows" using None by (auto simp: map_of_eq_None_iff)
    then show ?thesis using balances_wf_None [OF assms, of k] None by simp
  next
    case (Some r)
    obtain s w where r: "r = (s, w)" by (cases r)
    have s: "s = dec_int (bal db k)" "bal db k \<noteq> 0" using balances_wf_lookup [OF assms, of k s w] Some r by simp_all
    have only: "v = (s, w)" if "(k, v) \<in> set (token_balances db)" for v
      using that Some r map_of_is_SomeI [OF u that] by simp
    have at: "(k, (s, w)) \<in> set (token_balances db)" using Some r by (simp add: map_of_SomeD)
    have "k \<in> fst ` set ?rows \<longleftrightarrow> fst k = token \<and> holding s"
    proof
      assume "k \<in> fst ` set ?rows"
      then obtain v where "(k, v) \<in> set ?rows" by auto
      then show "fst k = token \<and> holding s" using only by auto
    next
      assume "fst k = token \<and> holding s"
      then have "(k, (s, w)) \<in> set ?rows" using at by simp
      then show "k \<in> fst ` set ?rows" by force
    qed
    moreover have "holding s \<longleftrightarrow> 0 < bal db k" using s(2) unfolding s(1) holding_dec_int by linarith
    ultimately show ?thesis by blast
  qed
  have "count_holders db token = card (fst ` set ?rows)"
    unfolding count_holders_def count_rows_def using distinct_card [OF d] by simp
  also have "fst ` set ?rows = Pair token ` {holder. 0 < bal db (token, holder)}"
  proof (rule set_eqI)
    show "k \<in> fst ` set ?rows \<longleftrightarrow> k \<in> Pair token ` {holder. 0 < bal db (token, holder)}" for k
      unfolding mem by (cases k) auto
  qed
  also have "card \<dots> = card {holder. 0 < bal db (token, holder)}" by (rule card_image) (auto intro: inj_onI)
  finally show ?thesis .
qed

text \<open>The hash map of deltas may be walked in any order.\<close>

lemma apply_deltas_any_order:
  assumes wf: "balances_wf db"
    and 1: "apply_deltas now ds [] db = (m1, db1)" and 2: "apply_deltas now ds' [] db = (m2, db2)"
    and perm: "mset ds = mset ds'"
  shows "bal db1 k = bal db2 k" "moved_of m1 t = moved_of m2 t"
proof -
  note s1 = apply_deltas_spec [OF wf unique_keys_Nil 1] and s2 = apply_deltas_spec [OF wf unique_keys_Nil 2]
  have "deltas_of ds k = deltas_of ds' k" for k
    unfolding deltas_of_def sum_mset_sum_list [symmetric] mset_map perm ..
  then have b: "bal db1 k = bal db2 k" for k using s1 s2 by (cases k) simp
  then show "bal db1 k = bal db2 k" .
  have "count_holders db1 t = count_holders db2 t"
    using count_holders_card [of db1 t] count_holders_card [of db2 t] s1 s2 b by simp
  moreover have "int (count_holders db1 t) - moved_of m1 t = int (count_holders db2 t) - moved_of m2 t"
    using s1 s2 by metis
  ultimately show "moved_of m1 t = moved_of m2 t" by simp
qed

subsection \<open>One block\<close>

definition db_ok :: "database \<Rightarrow> bool" where
  "db_ok db \<longleftrightarrow> ledger_ok db \<and> counts_ok db"

text \<open>The stages of \<open>write_block\<close>, named.\<close>

lemma write_block_cases:
  assumes "write_block now bundle db = Inr (counts, db')"
  obtains db1 ins db3 rows sq db5 where
    "upsert_block (bundle_block bundle) db = Inr db1"
    "inserted_as (bundle_transfers bundle) (fold upsert_transaction (bundle_txs bundle) db1) ins db3 rows sq"
    "db5 = fold (upsert_token_meta now) (bundle_tokens bundle)
             (fold (\<lambda>e. snd \<circ> insert_anchoring e) (bundle_anchoring bundle) db3)"
    "db' = apply_transfer_balances now ins db5"
proof -
  obtain db1 where 1: "upsert_block (bundle_block bundle) db = Inr db1"
    using assms by (auto simp: write_block_def Let_def split: sum.splits prod.splits)
  obtain ins db3 where 3: "insert_transfers (bundle_transfers bundle) (fold upsert_transaction (bundle_txs bundle) db1) = (ins, db3)"
    by (cases "insert_transfers (bundle_transfers bundle) (fold upsert_transaction (bundle_txs bundle) db1)")
  obtain rows sq where r: "inserted_as (bundle_transfers bundle) (fold upsert_transaction (bundle_txs bundle) db1) ins db3 rows sq"
    using insert_transfers_spec [OF 3] by blast
  show ?thesis
    by (rule that [OF 1 r refl]) (use assms 1 3 in \<open>simp add: write_block_def Let_def\<close>)
qed

text \<open>What a block's write does to the ledger's tables.\<close>

lemma write_block_ledger:
  assumes "write_block now bundle db = Inr (counts, db')" and ok: "db_ok db"
  shows "db_ok db'"
    and "\<exists>rows. transfer_events db' = transfer_events db @ rows"
    and "genesis_balances db' = genesis_balances db"
    and "transfer_key ` set (bundle_transfers bundle) \<subseteq> transfer_key ` set (transfer_events db')"
proof -
  obtain db1 ins db3 rows sq db5 where
    1: "upsert_block (bundle_block bundle) db = Inr db1"
    and 3: "inserted_as (bundle_transfers bundle) (fold upsert_transaction (bundle_txs bundle) db1) ins db3 rows sq"
    and 5: "db5 = fold (upsert_token_meta now) (bundle_tokens bundle)
             (fold (\<lambda>e. snd \<circ> insert_anchoring e) (bundle_anchoring bundle) db3)"
    and 6: "db' = apply_transfer_balances now ins db5"
    using write_block_cases [OF assms(1)] by metis
  obtain bs where bs: "db1 = db\<lparr>blocks := bs\<rparr>" using upsert_block_frame [OF 1] by blast
  obtain xs where xs: "fold upsert_transaction (bundle_txs bundle) db1 = db1\<lparr>transactions := xs\<rparr>"
    using upsert_transactions_frame by blast
  have db3: "db3 = db\<lparr>blocks := bs, transactions := xs, transfer_events := transfer_events db @ rows, transfer_seq := sq\<rparr>"
    and eff: "\<And>k. (\<Sum>e\<leftarrow>rows. row_effect e k) = (\<Sum>e\<leftarrow>ins. transfer_effect e k)"
    and keys: "transfer_key ` set (bundle_transfers bundle) \<subseteq> transfer_key ` set (transfer_events db @ rows)"
    using 3 bs xs by (auto simp: inserted_as_def)
  obtain as where as: "fold (\<lambda>e. snd \<circ> insert_anchoring e) (bundle_anchoring bundle) db3 = db3\<lparr>anchoring_events := as\<rparr>"
    using insert_anchorings_frame by blast
  obtain ms where ms: "db5 = db3\<lparr>anchoring_events := as, token_metas := ms\<rparr>"
    using upsert_token_metas_frame 5 as by metis
  have wf5: "balances_wf db5" using ok unfolding ms db3 by (simp add: db_ok_def ledger_ok_def)
  have bal5: "bal db5 = bal db" unfolding ms db3 by simp
  have "counts_ok db3" using ok unfolding db3 by (simp add: db_ok_def)
  then have c5: "counts_ok db5" unfolding 5 as by (intro upsert_token_metas_counts) simp
  note sp = apply_transfer_balances_spec [OF wf5 c5, of now ins, folded 6]
  obtain ys ms' where fr: "db' = db5\<lparr>token_balances := ys, token_metas := ms'\<rparr>" using sp(4) by blast
  have te: "transfer_events db' = transfer_events db @ rows" unfolding fr ms db3 by simp
  have ge: "genesis_balances db' = genesis_balances db" unfolding fr ms db3 by simp
  have "bal db' k = ledger db' k" for k
  proof -
    have "bal db' k = bal db k + (\<Sum>e\<leftarrow>ins. transfer_effect e k)" using sp(3) bal5 by simp
    also have "bal db k = ledger db k" using ok by (cases k) (simp add: db_ok_def ledger_ok_def)
    finally show ?thesis using te ge eff [of k] by (simp add: ledger_def)
  qed
  then show "db_ok db'" using sp(1,2) by (simp add: db_ok_def ledger_ok_def)
  show "\<exists>rows. transfer_events db' = transfer_events db @ rows" using te ..
  show "genesis_balances db' = genesis_balances db" by (rule ge)
  show "transfer_key ` set (bundle_transfers bundle) \<subseteq> transfer_key ` set (transfer_events db')"
    using keys te by simp
qed

lemma write_blocks_ledger:
  "write_blocks now bundles c db = Inr (counts, db') \<Longrightarrow> db_ok db \<Longrightarrow>
     db_ok db' \<and> genesis_balances db' = genesis_balances db \<and>
     (\<exists>rows. transfer_events db' = transfer_events db @ rows) \<and>
     (\<forall>b\<in>set bundles. transfer_key ` set (bundle_transfers b) \<subseteq> transfer_key ` set (transfer_events db'))"
proof (induction bundles arbitrary: c db)
  case (Cons b bs)
  obtain nb nt db1 where 1: "write_block now b db = Inr ((nb, nt), db1)"
    and rest: "write_blocks now bs (fst c + nb, snd c + nt) db1 = Inr (counts, db')"
    using Cons.prems(1) by (auto split: sum.splits prod.splits)
  note w = write_block_ledger [OF 1 Cons.prems(2)]
  note ih = Cons.IH [OF rest w(1)]
  obtain r1 where r1: "transfer_events db1 = transfer_events db @ r1" using w(2) by blast
  obtain r2 where r2: "transfer_events db' = transfer_events db1 @ r2" using ih by blast
  have "transfer_events db' = transfer_events db @ (r1 @ r2)" using r1 r2 by simp
  moreover have "transfer_key ` set (bundle_transfers b) \<subseteq> transfer_key ` set (transfer_events db')"
    using w(4) r2 by auto
  ultimately show ?case using ih w(3) by auto
qed auto

lemma add_to_counter_frame: "\<exists>cs. add_to_counter table d db = db\<lparr>counters := cs\<rparr>"
proof (cases "d = 0")
  case True
  then have "add_to_counter table d db = db\<lparr>counters := counters db\<rparr>" by (simp add: add_to_counter_def)
  then show ?thesis ..
qed (auto simp: add_to_counter_def)

lemma db_ok_counters [simp]: "db_ok (db\<lparr>counters := cs\<rparr>) = db_ok db"
  by (simp add: db_ok_def ledger_ok_def ledger_def)

lemma db_ok_kv [simp]: "db_ok (db\<lparr>kv := cs\<rparr>) = db_ok db"
  by (simp add: db_ok_def ledger_ok_def ledger_def)

lemma save_block_bundles_cases:
  assumes "save_block_bundles now bundles db = Inr db'"
  obtains (nothing) "bundles = []" "db' = db"
    | (written) nb nt db1 where "bundles \<noteq> []" "write_blocks now bundles (0, 0) db = Inr ((nb, nt), db1)"
        "db' = add_to_counter ''transactions'' nt (add_to_counter ''blocks'' nb db1)"
  using assms by (auto simp: save_block_bundles_def split: if_splits sum.splits prod.splits)

text \<open>
  C1. Writing blocks keeps the books: after any batch that commits, every balance is exactly what
  the stored transfers and the genesis balances sum to, none is stored as zero, and every token's
  holder count is the number of accounts whose balance of it is positive.
\<close>

theorem save_block_bundles_keeps_ledger:
  assumes "save_block_bundles now bundles db = Inr db'" and "db_ok db"
  shows "(\<forall>k. bal db' k = ledger db' k) \<and> balances_wf db' \<and>
    (\<forall>token row. map_of (token_metas db') token = Some row \<longrightarrow>
       k_holder_count row = int (card {holder. 0 < bal db' (token, holder)}))"
proof -
  have "db_ok db'" using assms(1)
  proof (cases rule: save_block_bundles_cases)
    case nothing
    with assms(2) show ?thesis by simp
  next
    case (written nb nt db1)
    obtain c1 where c1: "add_to_counter ''blocks'' nb db1 = db1\<lparr>counters := c1\<rparr>"
      using add_to_counter_frame by blast
    obtain c2 where c2: "add_to_counter ''transactions'' nt (db1\<lparr>counters := c1\<rparr>) = db1\<lparr>counters := c1\<rparr>\<lparr>counters := c2\<rparr>"
      using add_to_counter_frame by blast
    have "db_ok db1" using write_blocks_ledger [OF written(2) assms(2)] by simp
    then show ?thesis unfolding written(3) c1 c2 by simp
  qed
  then show ?thesis by (simp add: db_ok_def ledger_ok_def counts_ok_def count_holders_card)
qed

lemma db_ok_empty: "db_ok empty_database"
  by (simp add: db_ok_def ledger_ok_def balances_wf_def counts_ok_def empty_database_def bal_def ledger_def
      genesis_effect_def unique_keys_def)

text \<open>A small batch to try things on: a mint, a transfer of part of it, and the token's metadata.\<close>

definition sample_transfer :: "int \<Rightarrow> string \<Rightarrow> string \<Rightarrow> string \<Rightarrow> transfer_event" where
  "sample_transfer i source target amount =
     \<lparr> e_id = 0, e_tx_hash = ''0x77'', e_block_number = 9, e_log_index = i, e_token_addr = ''0xee'',
       e_from_addr = source, e_to_addr = target, e_amount = amount, e_timestamp = 5, e_created_at = 5 \<rparr>"

definition sample_block :: "int \<Rightarrow> string \<Rightarrow> block" where
  "sample_block n h =
     \<lparr> b_number = n, b_hash = h, b_parent_hash = ''0x08'', b_timestamp = 5, b_timestamp_ms = 5000,
       b_gas_used = 1, b_gas_limit = 2, b_base_fee = ''0'', b_size = 3, b_extra_data = [], b_epoch = 0,
       b_view = 0, b_proposer = ''0x01'', b_miner = ''0x01'', b_tx_count = 1, b_created_at = 5 \<rparr>"

definition sample_tx :: "int \<Rightarrow> string \<Rightarrow> transaction" where
  "sample_tx n h =
     \<lparr> t_hash = h, t_block_number = n, t_position = 0, t_from_addr = ''0x01'', t_to_addr = Some ''0x02'',
       t_status = 1, t_gas_used = 1, t_base_fee = ''0'', t_contract_address = None, t_fee_token = None,
       t_fee_amount = ''0'', t_input = ''0x'', t_raw = None, t_trace_data = None, t_receipt_data = None, t_timestamp = 5,
       t_created_at = 5 \<rparr>"

definition sample_bundle :: block_bundle where
  "sample_bundle =
     \<lparr> bundle_block = sample_block 9 ''0x09'', bundle_txs = [sample_tx 9 ''0x77''],
       bundle_transfers = [sample_transfer 0 ''0x00'' ''0xaa'' ''50'', sample_transfer 1 ''0xaa'' ''0xbb'' ''20''],
       bundle_anchoring = [],
       bundle_tokens = [\<lparr> m_address = ''0xee'', m_name = ''T'', m_symbol = ''T'', m_decimals = 6,
                          m_currency = ''USD'', m_total_supply = ''50'' \<rparr>] \<rparr>"

lemmas sample_defs = sample_transfer_def sample_block_def sample_tx_def sample_bundle_def

lemma sample_saved:
  obtains db where "save_block_bundles 5 [sample_bundle] empty_database = Inr db" "db_ok empty_database"
    "transfer_events db \<noteq> []"
proof -
  have "\<exists>db. save_block_bundles 5 [sample_bundle] empty_database = Inr db"
    by (simp add: save_block_bundles_def write_block_def upsert_block_def empty_database_def Let_def split: prod.split)
  then obtain db where db: "save_block_bundles 5 [sample_bundle] empty_database = Inr db" ..
  then obtain nb nt db1 where "write_blocks 5 [sample_bundle] (0, 0) empty_database = Inr ((nb, nt), db1)"
    and d: "db = add_to_counter ''transactions'' nt (add_to_counter ''blocks'' nb db1)"
    by (cases rule: save_block_bundles_cases) auto
  then have "transfer_events db1 \<noteq> []"
    using write_blocks_ledger [OF _ db_ok_empty] by (fastforce simp: sample_bundle_def)
  then have "transfer_events db \<noteq> []" by (simp add: d add_to_counter_def)
  with db show ?thesis using that db_ok_empty by blast
qed

theorem save_block_bundles_keeps_ledger_witness:
  "\<exists>db. save_block_bundles 5 [sample_bundle] empty_database = Inr db \<and>
     bal db (hex_blob ''0xee'', hex_blob ''0xaa'') = ledger db (hex_blob ''0xee'', hex_blob ''0xaa'')"
proof -
  obtain db where "save_block_bundles 5 [sample_bundle] empty_database = Inr db"
    by (rule sample_saved)
  then show ?thesis using save_block_bundles_keeps_ledger [OF _ db_ok_empty] by blast
qed

end
