(* ===== verification/Ledger_Rewrite.thy ===== *)
theory Ledger_Rewrite
  imports Ledger_Writes
begin

section \<open>Writing a batch again\<close>

text \<open>
  The indexer is restarted, its two walks overlap and a failed batch is sent again one block at a
  time, so blocks are written more than once. A second write finds every event stored and moves
  no balance, and the running totals of \<open>table_counts\<close> stay the sizes of the tables.
\<close>

subsection \<open>Everything a batch carries is stored\<close>

definition holds_events :: "database \<Rightarrow> block_bundle \<Rightarrow> bool" where
  "holds_events db bundle \<longleftrightarrow>
     transfer_key ` set (bundle_transfers bundle) \<subseteq> transfer_key ` set (transfer_events db) \<and>
     anchoring_key ` set (bundle_anchoring bundle) \<subseteq> anchoring_key ` set (anchoring_events db) \<and>
     b_number (bundle_block bundle) \<in> fst ` set (blocks db)"

lemma insert_transfers_stored:
  "transfer_key ` set ts \<subseteq> transfer_key ` set (transfer_events db) \<Longrightarrow> insert_transfers ts db = ([], db)"
proof (induction ts)
  case (Cons t ts)
  then have "\<exists>r\<in>set (transfer_events db). transfer_key r = transfer_key t" by force
  with Cons show ?case by (simp add: insert_transfer_def)
qed simp

lemma insert_anchorings_stored:
  "anchoring_key ` set es \<subseteq> anchoring_key ` set (anchoring_events db) \<Longrightarrow>
     fold (\<lambda>e. snd \<circ> insert_anchoring e) es db = db"
proof (induction es)
  case (Cons e es)
  then have "\<exists>r\<in>set (anchoring_events db). anchoring_key r = anchoring_key e" by force
  with Cons show ?case by (simp add: insert_anchoring_def)
qed simp

lemma stored_anchoring_key [simp]: "anchoring_key (stored_anchoring e) = anchoring_key e"
  by (simp add: anchoring_key_def stored_anchoring_def)

lemma insert_anchorings_keys:
  "anchoring_key ` set (anchoring_events (fold (\<lambda>e. snd \<circ> insert_anchoring e) es db)) =
     anchoring_key ` set (anchoring_events db) \<union> anchoring_key ` set es"
  by (induction es arbitrary: db) (auto simp: insert_anchoring_def image_iff, metis)

lemma update_keys: "fst ` set (AList.update k v t) = insert k (fst ` set t)"
  using dom_update [of k v t] by (simp add: dom_map_of_conv_image_fst)

lemma upsert_block_update:
  "upsert_block blk db = Inr db' \<Longrightarrow> \<exists>v. db' = db\<lparr>blocks := AList.update (b_number blk) v (blocks db)\<rparr>"
  by (auto simp: upsert_block_def Let_def split: if_splits)

lemma upsert_block_numbers:
  assumes "upsert_block blk db = Inr db'"
  shows "fst ` set (blocks db') = insert (b_number blk) (fst ` set (blocks db))"
proof -
  obtain v where "db' = db\<lparr>blocks := AList.update (b_number blk) v (blocks db)\<rparr>"
    using upsert_block_update [OF assms] ..
  then show ?thesis by (simp add: update_keys)
qed

lemma adjust_balance_frame: "\<exists>bs. snd (adjust_balance now token holder delta db) = db\<lparr>token_balances := bs\<rparr>"
proof (cases "delta = 0")
  case True
  then have "snd (adjust_balance now token holder delta db) = db\<lparr>token_balances := token_balances db\<rparr>"
    by (simp add: adjust_balance_def)
  then show ?thesis ..
qed (auto simp: adjust_balance_def Let_def)

lemma apply_deltas_frame: "\<exists>bs. snd (apply_deltas now ds moved db) = db\<lparr>token_balances := bs\<rparr>"
proof (induction now ds moved db rule: apply_deltas.induct)
  case (1 now moved db)
  have "snd (apply_deltas now [] moved db) = db\<lparr>token_balances := token_balances db\<rparr>" by simp
  then show ?case ..
next
  case (2 now token holder delta ds moved db)
  obtain by' db1 where a: "adjust_balance now token holder delta db = (by', db1)" by fastforce
  obtain bs where b: "db1 = db\<lparr>token_balances := bs\<rparr>"
    using adjust_balance_frame [of now token holder delta db] a by auto
  show ?case using 2 [OF a [symmetric] refl] a b by auto
qed

lemma apply_transfer_balances_frame:
  "\<exists>ys ms. apply_transfer_balances now ts db = db\<lparr>token_balances := ys, token_metas := ms\<rparr>"
proof -
  obtain moved db1 where a: "apply_deltas now (transfer_deltas ts) [] db = (moved, db1)" by fastforce
  obtain bs where "db1 = db\<lparr>token_balances := bs\<rparr>"
    using apply_deltas_frame [of now "transfer_deltas ts" "[]" db] a by auto
  moreover obtain ms where "add_to_holder_counts now moved db1 = db1\<lparr>token_metas := ms\<rparr>"
    using add_to_holder_counts_frame by blast
  ultimately show ?thesis by (auto simp: apply_transfer_balances_def a)
qed

lemma write_block_holds:
  assumes "write_block now bundle db = Inr (c, db')"
  shows "holds_events db' bundle"
    and "transfer_key ` set (transfer_events db) \<subseteq> transfer_key ` set (transfer_events db')"
    and "anchoring_key ` set (anchoring_events db) \<subseteq> anchoring_key ` set (anchoring_events db')"
    and "fst ` set (blocks db') = insert (b_number (bundle_block bundle)) (fst ` set (blocks db))"
proof -
  obtain db1 ins db3 rows sq db5 where
    1: "upsert_block (bundle_block bundle) db = Inr db1"
    and 3: "inserted_as (bundle_transfers bundle) (fold upsert_transaction (bundle_txs bundle) db1) ins db3 rows sq"
    and 5: "db5 = fold (upsert_token_meta now) (bundle_tokens bundle)
             (fold (\<lambda>e. snd \<circ> insert_anchoring e) (bundle_anchoring bundle) db3)"
    and 6: "db' = apply_transfer_balances now ins db5"
    using write_block_cases [OF assms(1)] by metis
  obtain bs where bs: "db1 = db\<lparr>blocks := bs\<rparr>" using upsert_block_frame [OF 1] by blast
  obtain xs where xs: "fold upsert_transaction (bundle_txs bundle) db1 = db1\<lparr>transactions := xs\<rparr>"
    using upsert_transactions_frame by blast
  have db3: "db3 = db1\<lparr>transactions := xs, transfer_events := transfer_events db @ rows, transfer_seq := sq\<rparr>"
    and keys: "transfer_key ` set (bundle_transfers bundle) \<subseteq> transfer_key ` set (transfer_events db @ rows)"
    using 3 xs bs by (auto simp: inserted_as_def)
  let ?db4 = "fold (\<lambda>e. snd \<circ> insert_anchoring e) (bundle_anchoring bundle) db3"
  obtain as where as: "?db4 = db3\<lparr>anchoring_events := as\<rparr>"
    using insert_anchorings_frame by blast
  obtain ms where ms: "db5 = db3\<lparr>anchoring_events := as, token_metas := ms\<rparr>"
    using upsert_token_metas_frame 5 as by metis
  have ask: "anchoring_key ` set as = anchoring_key ` set (anchoring_events db) \<union> anchoring_key ` set (bundle_anchoring bundle)"
    using insert_anchorings_keys [of "bundle_anchoring bundle" db3] unfolding as by (simp add: db3 bs)
  obtain ys ms' where fr: "db' = db5\<lparr>token_balances := ys, token_metas := ms'\<rparr>"
    using apply_transfer_balances_frame 6 by metis
  have n: "fst ` set (blocks db1) = insert (b_number (bundle_block bundle)) (fst ` set (blocks db))"
    by (rule upsert_block_numbers [OF 1])
  show "fst ` set (blocks db') = insert (b_number (bundle_block bundle)) (fst ` set (blocks db))"
    using n by (simp add: fr ms db3)
  then show "holds_events db' bundle" using keys ask by (simp add: holds_events_def fr ms db3)
  show "transfer_key ` set (transfer_events db) \<subseteq> transfer_key ` set (transfer_events db')"
    by (auto simp: fr ms db3)
  show "anchoring_key ` set (anchoring_events db) \<subseteq> anchoring_key ` set (anchoring_events db')"
    using ask by (simp add: fr ms db3)
qed

lemma holds_events_later:
  assumes "write_block now b db = Inr (c, db')" "holds_events db bundle"
  shows "holds_events db' bundle"
  unfolding holds_events_def
proof (intro conjI)
  show "transfer_key ` set (bundle_transfers bundle) \<subseteq> transfer_key ` set (transfer_events db')"
    using assms(2) write_block_holds(2) [OF assms(1)] unfolding holds_events_def by (meson subset_trans)
  show "anchoring_key ` set (bundle_anchoring bundle) \<subseteq> anchoring_key ` set (anchoring_events db')"
    using assms(2) write_block_holds(3) [OF assms(1)] unfolding holds_events_def by (meson subset_trans)
  show "b_number (bundle_block bundle) \<in> fst ` set (blocks db')"
    using assms(2) unfolding write_block_holds(4) [OF assms(1)] by (simp add: holds_events_def)
qed

lemma write_blocks_later:
  "write_blocks now bs c db = Inr (c', db') \<Longrightarrow> holds_events db bundle \<Longrightarrow> holds_events db' bundle"
  by (induction bs arbitrary: c db) (auto split: sum.splits prod.splits dest: holds_events_later)

lemma write_blocks_holds:
  "write_blocks now bs c db = Inr (c', db') \<Longrightarrow> \<forall>bundle\<in>set bs. holds_events db' bundle"
proof (induction bs arbitrary: c db)
  case (Cons b bs)
  obtain nb nt db1 where 1: "write_block now b db = Inr ((nb, nt), db1)"
    and rest: "write_blocks now bs (fst c + nb, snd c + nt) db1 = Inr (c', db')"
    using Cons.prems by (auto split: sum.splits prod.splits)
  have "holds_events db' b" using write_blocks_later [OF rest] write_block_holds(1) [OF 1] by blast
  then show ?case using Cons.IH [OF rest] by simp
qed simp

subsection \<open>The second write\<close>

lemma write_block_again:
  assumes h: "holds_events db bundle" and w: "write_block now bundle db = Inr ((nb, nt), db')"
  shows "nb = 0" "token_balances db' = token_balances db" "transfer_events db' = transfer_events db"
    "anchoring_events db' = anchoring_events db" "transfer_seq db' = transfer_seq db"
    "genesis_balances db' = genesis_balances db" "fst ` set (blocks db') = fst ` set (blocks db)"
proof -
  obtain db1 where 1: "upsert_block (bundle_block bundle) db = Inr db1"
    using w by (auto simp: write_block_def Let_def split: sum.splits prod.splits)
  obtain bs where bs: "db1 = db\<lparr>blocks := bs\<rparr>" using upsert_block_frame [OF 1] by blast
  obtain xs where xs: "fold upsert_transaction (bundle_txs bundle) db1 = db1\<lparr>transactions := xs\<rparr>"
    using upsert_transactions_frame by blast
  have i: "insert_transfers (bundle_transfers bundle) (db1\<lparr>transactions := xs\<rparr>) = ([], db1\<lparr>transactions := xs\<rparr>)"
    by (rule insert_transfers_stored) (use h in \<open>simp add: bs holds_events_def\<close>)
  have a: "fold (\<lambda>e. snd \<circ> insert_anchoring e) (bundle_anchoring bundle) (db1\<lparr>transactions := xs\<rparr>) = db1\<lparr>transactions := xs\<rparr>"
    by (rule insert_anchorings_stored) (use h in \<open>simp add: bs holds_events_def\<close>)
  obtain ms where ms: "fold (upsert_token_meta now) (bundle_tokens bundle) (db1\<lparr>transactions := xs\<rparr>) = db1\<lparr>transactions := xs\<rparr>\<lparr>token_metas := ms\<rparr>"
    using upsert_token_metas_frame by metis
  have nil: "apply_transfer_balances now [] db = db" for db
    by (simp add: apply_transfer_balances_def transfer_deltas_def add_to_holder_counts_def)
  have n: "b_number (bundle_block bundle) \<in> fst ` set (blocks db)" using h by (simp add: holds_events_def)
  have d: "db' = db1\<lparr>transactions := xs, token_metas := ms\<rparr>"
    using w by (simp add: write_block_def Let_def 1 xs i a ms nil)
  show "nb = 0" using w n by (simp add: write_block_def Let_def 1 xs i a ms nil)
  show "token_balances db' = token_balances db" "transfer_events db' = transfer_events db"
    "anchoring_events db' = anchoring_events db" "transfer_seq db' = transfer_seq db"
    "genesis_balances db' = genesis_balances db" by (simp_all add: d bs)
  show "fst ` set (blocks db') = fst ` set (blocks db)"
    using write_block_holds(4) [OF w] n by auto
qed

lemma write_blocks_again:
  "write_blocks now bs c db = Inr (c', db') \<Longrightarrow> \<forall>b\<in>set bs. holds_events db b \<Longrightarrow>
     fst c' = fst c \<and> token_balances db' = token_balances db \<and> transfer_events db' = transfer_events db \<and>
     anchoring_events db' = anchoring_events db \<and> fst ` set (blocks db') = fst ` set (blocks db)"
proof (induction bs arbitrary: c db)
  case (Cons b bs)
  obtain nb nt db1 where 1: "write_block now b db = Inr ((nb, nt), db1)"
    and rest: "write_blocks now bs (fst c + nb, snd c + nt) db1 = Inr (c', db')"
    using Cons.prems by (auto split: sum.splits prod.splits)
  note w = write_block_again [OF _ 1]
  have h: "holds_events db b" using Cons.prems(2) by simp
  have "\<forall>b\<in>set bs. holds_events db1 b" using Cons.prems(2) holds_events_later [OF 1] by simp
  then show ?case using Cons.IH [OF rest] w [OF h] by simp
qed simp

lemma counter_add [simp]: "counter (add_to_counter t d db) t' = counter db t' + (if t' = t then d else 0)"
  by (auto simp: counter_def add_to_counter_def map_of_update)

lemma add_to_counter_tables [simp]:
  "token_balances (add_to_counter t d db) = token_balances db" "transfer_events (add_to_counter t d db) = transfer_events db"
  "anchoring_events (add_to_counter t d db) = anchoring_events db" "blocks (add_to_counter t d db) = blocks db"
  "transactions (add_to_counter t d db) = transactions db" "holds_events (add_to_counter t d db) b = holds_events db b"
  by (auto simp: add_to_counter_def holds_events_def)

lemma add_holder_count_counters [simp]: "counters (add_holder_count now m db) = counters db"
  using add_holder_count_frame [of now m db] by auto

lemma write_block_counters:
  assumes "write_block now b db = Inr (c, db')"
  shows "counters db' = counters db"
proof -
  obtain db1 ins db3 rows sq db5 where
    1: "upsert_block (bundle_block b) db = Inr db1"
    and 3: "inserted_as (bundle_transfers b) (fold upsert_transaction (bundle_txs b) db1) ins db3 rows sq"
    and 5: "db5 = fold (upsert_token_meta now) (bundle_tokens b)
             (fold (\<lambda>e. snd \<circ> insert_anchoring e) (bundle_anchoring b) db3)"
    and 6: "db' = apply_transfer_balances now ins db5"
    using write_block_cases [OF assms] by metis
  have "counters db' = counters db5" using apply_transfer_balances_frame [of now ins db5] 6 by auto
  also have "\<dots> = counters (fold (\<lambda>e. snd \<circ> insert_anchoring e) (bundle_anchoring b) db3)"
    using upsert_token_metas_frame [of now "bundle_tokens b"] 5 by (metis database.select_convs(8) database.surjective database.update_convs(3))
  also have "\<dots> = counters db3" using insert_anchorings_frame [of "bundle_anchoring b" db3] by auto
  also have "\<dots> = counters (fold upsert_transaction (bundle_txs b) db1)" using 3 by (simp add: inserted_as_def)
  also have "\<dots> = counters db1" using upsert_transactions_frame [of "bundle_txs b" db1] by auto
  also have "\<dots> = counters db" using upsert_block_frame [OF 1] by auto
  finally show ?thesis .
qed

lemma write_blocks_counters: "write_blocks now bs c db = Inr (c', db') \<Longrightarrow> counter db' t = counter db t"
  by (induction bs arbitrary: c db) (auto simp: counter_def dest: write_block_counters split: sum.splits prod.splits)

text \<open>
  C22. Indexing is idempotent: when a batch that was committed is committed again, at any later
  time, no balance, no transfer and no anchoring event changes, no block number is added, and the
  running total of blocks stays what it was.
\<close>

theorem save_block_bundles_again:
  assumes "save_block_bundles now bundles db = Inr db1"
    and "save_block_bundles now' bundles db1 = Inr db2"
  shows "token_balances db2 = token_balances db1 \<and> transfer_events db2 = transfer_events db1 \<and>
    anchoring_events db2 = anchoring_events db1 \<and> fst ` set (blocks db2) = fst ` set (blocks db1) \<and>
    counter db2 ''blocks'' = counter db1 ''blocks''"
proof (cases "bundles = []")
  case True
  with assms show ?thesis by (simp add: save_block_bundles_def)
next
  case False
  obtain c1 d1 where 1: "write_blocks now bundles (0, 0) db = Inr (c1, d1)"
    and e1: "db1 = add_to_counter ''transactions'' (snd c1) (add_to_counter ''blocks'' (fst c1) d1)"
    using assms(1) False by (auto simp: save_block_bundles_def split: sum.splits prod.splits)
  obtain c2 d2 where 2: "write_blocks now' bundles (0, 0) db1 = Inr (c2, d2)"
    and e2: "db2 = add_to_counter ''transactions'' (snd c2) (add_to_counter ''blocks'' (fst c2) d2)"
    using assms(2) False by (auto simp: save_block_bundles_def split: sum.splits prod.splits)
  have "\<forall>b\<in>set bundles. holds_events db1 b" using write_blocks_holds [OF 1] e1 by simp
  then show ?thesis using write_blocks_again [OF 2] write_blocks_counters [OF 2, of "''blocks''"] e2 by simp
qed

theorem save_block_bundles_again_witness:
  "\<exists>db1. save_block_bundles 5 [sample_bundle] empty_database = Inr db1 \<and>
     (\<forall>db2. save_block_bundles 6 [sample_bundle] db1 = Inr db2 \<longrightarrow> token_balances db2 = token_balances db1)"
proof -
  obtain db1 where "save_block_bundles 5 [sample_bundle] empty_database = Inr db1"
    by (rule sample_saved)
  then show ?thesis using save_block_bundles_again by blast
qed

subsection \<open>The running totals\<close>

text \<open>
  A chain without reorganisations: which transactions a block has is a function of its number, and
  a transaction is in one block. What is stored is of that chain, and so is what is written.
\<close>

definition forkless :: "(int \<Rightarrow> blob list) \<Rightarrow> bool" where
  "forkless chain \<longleftrightarrow> (\<forall>n. distinct (chain n)) \<and> (\<forall>m n. m \<noteq> n \<longrightarrow> set (chain m) \<inter> set (chain n) = {})"

definition follows :: "(int \<Rightarrow> blob list) \<Rightarrow> database \<Rightarrow> bool" where
  "follows chain db \<longleftrightarrow> unique_keys (transactions db) \<and>
     (\<forall>(h, tx)\<in>set (transactions db). h \<in> set (chain (t_block_number tx)))"

definition of_chain :: "(int \<Rightarrow> blob list) \<Rightarrow> block_bundle \<Rightarrow> bool" where
  "of_chain chain b \<longleftrightarrow>
     map (hex_blob \<circ> t_hash) (bundle_txs b) = chain (b_number (bundle_block b)) \<and>
     (\<forall>tx\<in>set (bundle_txs b). t_block_number tx = b_number (bundle_block b))"

definition totals_ok :: "database \<Rightarrow> bool" where
  "totals_ok db \<longleftrightarrow> unique_keys (blocks db) \<and> counter db ''blocks'' = int (length (blocks db)) \<and>
     counter db ''transactions'' = int (length (transactions db))"

lemma upsert_transaction_follows:
  assumes "follows chain db" "hex_blob (t_hash tx) \<in> set (chain (t_block_number tx))"
  shows "follows chain (upsert_transaction tx db)"
    and "fst ` set (transactions (upsert_transaction tx db)) = insert (hex_blob (t_hash tx)) (fst ` set (transactions db))"
proof -
  obtain row where row: "upsert_transaction tx db = db\<lparr>transactions := AList.update (hex_blob (t_hash tx)) row (transactions db)\<rparr>"
      "t_block_number row = t_block_number tx"
    by (simp add: upsert_transaction_def Let_def stored_transaction_def merge_transaction_def split: option.splits)
  have u: "unique_keys (AList.update (hex_blob (t_hash tx)) row (transactions db))"
    using assms(1) by (auto simp: follows_def)
  have "h \<in> set (chain (t_block_number t))" if "(h, t) \<in> set (AList.update (hex_blob (t_hash tx)) row (transactions db))" for h t
  proof -
    have "map_of (AList.update (hex_blob (t_hash tx)) row (transactions db)) h = Some t"
      using that u by (simp add: unique_keys_def)
    then show ?thesis using assms row(2)
      by (auto simp: map_of_update follows_def split: if_splits dest: map_of_SomeD)
  qed
  then show "follows chain (upsert_transaction tx db)" using u by (auto simp: follows_def row)
  show "fst ` set (transactions (upsert_transaction tx db)) = insert (hex_blob (t_hash tx)) (fst ` set (transactions db))"
    by (simp add: row update_keys)
qed

lemma upsert_transactions_follow:
  "follows chain db \<Longrightarrow> \<forall>tx\<in>set txs. hex_blob (t_hash tx) \<in> set (chain (t_block_number tx)) \<Longrightarrow>
     follows chain (fold upsert_transaction txs db) \<and>
     fst ` set (transactions (fold upsert_transaction txs db)) = set (map (hex_blob \<circ> t_hash) txs) \<union> fst ` set (transactions db)"
  by (induction txs arbitrary: db) (auto simp: upsert_transaction_follows)

text \<open>The rows a block holds already are the stored ones among its transactions.\<close>

lemma held_rows:
  assumes "forkless chain" "follows chain db"
  shows "count_rows (\<lambda>(_, tx). t_block_number tx = n) (transactions db) = card (set (chain n) \<inter> fst ` set (transactions db))"
proof -
  let ?rows = "filter (\<lambda>(_, tx). t_block_number tx = n) (transactions db)"
  have "distinct (map fst ?rows)"
    using assms(2) by (simp add: follows_def unique_keys_def distinct_map_filter)
  then have "length ?rows = card (fst ` set ?rows)"
    by (metis distinct_card length_map set_map)
  also have "fst ` set ?rows = set (chain n) \<inter> fst ` set (transactions db)"
  proof (intro equalityI subsetI)
    fix h assume h: "h \<in> set (chain n) \<inter> fst ` set (transactions db)"
    then obtain tx where tx: "(h, tx) \<in> set (transactions db)" by auto
    then have "h \<in> set (chain (t_block_number tx))" using assms(2) by (auto simp: follows_def)
    then have "t_block_number tx = n" using h assms(1) by (auto simp: forkless_def)
    then show "h \<in> fst ` set ?rows" using tx by force
  next
    fix h assume "h \<in> fst ` set ?rows"
    then show "h \<in> set (chain n) \<inter> fst ` set (transactions db)" using assms(2) by (force simp: follows_def)
  qed
  finally show ?thesis by (simp add: count_rows_def)
qed

lemma write_block_totals:
  assumes w: "write_block now b db = Inr ((nb, nt), db')" and ch: "forkless chain" "of_chain chain b"
    and f: "follows chain db" and u: "unique_keys (blocks db)"
  shows "follows chain db'" "unique_keys (blocks db')"
    "int (length (blocks db')) = int (length (blocks db)) + nb"
    "int (length (transactions db')) = int (length (transactions db)) + nt"
proof -
  let ?n = "b_number (bundle_block b)"
  obtain db1 ins db3 rows sq db5 where
    1: "upsert_block (bundle_block b) db = Inr db1"
    and 3: "inserted_as (bundle_transfers b) (fold upsert_transaction (bundle_txs b) db1) ins db3 rows sq"
    and 5: "db5 = fold (upsert_token_meta now) (bundle_tokens b)
             (fold (\<lambda>e. snd \<circ> insert_anchoring e) (bundle_anchoring b) db3)"
    and 6: "db' = apply_transfer_balances now ins db5"
    using write_block_cases [OF w] by metis
  obtain v where v: "db1 = db\<lparr>blocks := AList.update ?n v (blocks db)\<rparr>" using upsert_block_update [OF 1] ..
  let ?db2 = "fold upsert_transaction (bundle_txs b) db1"
  obtain xs where xs: "?db2 = db1\<lparr>transactions := xs\<rparr>" using upsert_transactions_frame by blast
  obtain as where as: "fold (\<lambda>e. snd \<circ> insert_anchoring e) (bundle_anchoring b) db3 = db3\<lparr>anchoring_events := as\<rparr>"
    using insert_anchorings_frame by blast
  obtain ms where ms: "db5 = db3\<lparr>anchoring_events := as, token_metas := ms\<rparr>"
    using upsert_token_metas_frame 5 as by metis
  obtain ys ms' where fr: "db' = db5\<lparr>token_balances := ys, token_metas := ms'\<rparr>"
    using apply_transfer_balances_frame 6 by metis
  have tx': "transactions db' = transactions ?db2" and bl': "blocks db' = AList.update ?n v (blocks db)"
    using 3 xs by (simp_all add: fr ms inserted_as_def v)
  have f1: "follows chain db1" using f by (simp add: v follows_def)
  have all: "\<forall>tx\<in>set (bundle_txs b). hex_blob (t_hash tx) \<in> set (chain (t_block_number tx))"
    using ch(2) by (auto simp: of_chain_def) (metis comp_apply image_eqI list.set_map)
  have f2: "follows chain ?db2" and keys: "fst ` set (transactions ?db2) = set (chain ?n) \<union> fst ` set (transactions db)"
    using upsert_transactions_follow [OF f1 all] ch(2) unfolding of_chain_def by (metis, simp add: v del: set_map)
  show "follows chain db'" using f2 by (simp add: follows_def tx')
  show "unique_keys (blocks db')" using u by (auto simp: bl')
  have counts: "1 - (if ?n \<in> fst ` set (blocks db) then 1 else 0) = nb \<and>
      max (int (length (bundle_txs b)) - (if bundle_txs b = [] then 0
        else int (count_rows (\<lambda>(_, tx). t_block_number tx = ?n) (transactions db)))) 0 = nt"
    using w unfolding write_block_def Let_def by (simp del: max.absorb1 split: sum.splits prod.splits split del: if_split)
  note nb = counts [THEN conjunct1, symmetric] and nt = counts [THEN conjunct2, symmetric]
  show "int (length (blocks db')) = int (length (blocks db)) + nb"
    unfolding nb bl' length_update_key by simp
  have len: "length (transactions d) = card (fst ` set (transactions d))" if "follows chain d" for d
    using that by (metis distinct_card follows_def length_map set_map unique_keys_def)
  have cl: "length (bundle_txs b) = card (set (chain ?n))"
    using ch by (metis distinct_card forkless_def length_map of_chain_def)
  have "card (set (chain ?n) \<union> fst ` set (transactions db)) + card (set (chain ?n) \<inter> fst ` set (transactions db)) =
        card (set (chain ?n)) + card (fst ` set (transactions db))"
    by (rule card_Un_Int [symmetric]) simp_all
  moreover have "card (set (chain ?n) \<inter> fst ` set (transactions db)) \<le> card (set (chain ?n))"
    by (rule card_mono) auto
  moreover have "bundle_txs b = [] \<Longrightarrow> set (chain ?n) = {}" using ch(2) by (auto simp: of_chain_def)
  ultimately show "int (length (transactions db')) = int (length (transactions db)) + nt"
    unfolding nt held_rows [OF ch(1) f] cl tx' len [OF f2] len [OF f] keys by auto
qed

lemma write_blocks_totals:
  "write_blocks now bs c db = Inr (c', db') \<Longrightarrow> forkless chain \<Longrightarrow> \<forall>b\<in>set bs. of_chain chain b \<Longrightarrow>
     follows chain db \<Longrightarrow> unique_keys (blocks db) \<Longrightarrow>
     follows chain db' \<and> unique_keys (blocks db') \<and>
     int (length (blocks db')) - fst c' = int (length (blocks db)) - fst c \<and>
     int (length (transactions db')) - snd c' = int (length (transactions db)) - snd c"
proof (induction bs arbitrary: c db)
  case (Cons b bs)
  obtain nb nt db1 where 1: "write_block now b db = Inr ((nb, nt), db1)"
    and rest: "write_blocks now bs (fst c + nb, snd c + nt) db1 = Inr (c', db')"
    using Cons.prems by (auto split: sum.splits prod.splits)
  have "of_chain chain b" using Cons.prems(3) by simp
  note w = write_block_totals [OF 1 Cons.prems(2) this Cons.prems(4,5)]
  show ?case using Cons.IH [OF rest Cons.prems(2) _ w(1,2)] Cons.prems(3) w(3,4) by auto
qed simp

text \<open>
  C0. While the chain does not reorganise, the running totals the pages read instead of counting
  are exact: after every batch, overlapping and repeated ones included, \<open>table_counts\<close> holds the
  number of block rows and of transaction rows.
\<close>

theorem save_block_bundles_totals:
  assumes "save_block_bundles now bundles db = Inr db'"
    and "forkless chain" "\<forall>b\<in>set bundles. of_chain chain b" "follows chain db" "totals_ok db"
  shows "totals_ok db' \<and> follows chain db'"
  using assms(1)
proof (cases rule: save_block_bundles_cases)
  case nothing
  with assms show ?thesis by simp
next
  case (written nb nt db1)
  have u: "unique_keys (blocks db)" using assms(5) by (simp add: totals_ok_def)
  show ?thesis
    using write_blocks_totals [OF written(2) assms(2-4) u] write_blocks_counters [OF written(2)] assms(5)
    by (simp add: written(3) totals_ok_def follows_def)
qed

theorem save_block_bundles_totals_witness:
  "\<exists>db. save_block_bundles 5 [sample_bundle] empty_database = Inr db \<and> totals_ok db"
proof -
  let ?chain = "\<lambda>n::int. if n = 9 then [hex_blob ''0x77''] else []"
  obtain db where db: "save_block_bundles 5 [sample_bundle] empty_database = Inr db"
    by (rule sample_saved)
  have "totals_ok db \<and> follows ?chain db"
  proof (rule save_block_bundles_totals [OF db, where chain = ?chain])
    show "forkless ?chain" by (auto simp: forkless_def)
    show "\<forall>b\<in>set [sample_bundle]. of_chain ?chain b" by (simp add: of_chain_def sample_defs)
    show "follows ?chain empty_database" by (simp add: follows_def empty_database_def)
    show "totals_ok empty_database" by (simp add: totals_ok_def empty_database_def counter_def)
  qed
  with db show ?thesis by blast
qed

text \<open>
  The hypothesis is needed. A rewrite of a block that now holds another transaction, as many as
  before, leaves the total where it is while the table gains a row.
\<close>

definition bare_bundle :: "string \<Rightarrow> block_bundle" where
  "bare_bundle h =
     \<lparr> bundle_block = sample_block 9 ''0x09'', bundle_txs = [sample_tx 9 h], bundle_transfers = [],
       bundle_anchoring = [], bundle_tokens = [] \<rparr>"

lemma totals_drift_on_reorg:
  "case save_block_bundles 5 [bare_bundle ''0x77'', bare_bundle ''0x78''] empty_database of
     Inl _ \<Rightarrow> False
   | Inr db \<Rightarrow> length (transactions db) = 2 \<and> counter db ''transactions'' = 1"
  by code_simp

end
