(* ===== verification/Ledger_Rebuild.thy ===== *)
theory Ledger_Rebuild
  imports Ledger_Writes
begin

section \<open>Rebuilding the balances, and the balances at genesis\<close>

text \<open>
  The balances can be computed again from the events alone: the rebuild gives what the
  incremental writes gave, whatever was stored before. The genesis backfill adds the balances no
  event carries: it keeps the ledger, its cursor only moves forward, and behind the cursor every
  holder has its genesis balance.
\<close>

subsection \<open>Replaying\<close>

definition replayed :: "(balance_key \<Rightarrow> int) \<Rightarrow> database \<Rightarrow> database \<Rightarrow> bool" where
  "replayed effect db db' \<longleftrightarrow> balances_wf db' \<and> (\<forall>k. bal db' k = bal db k + effect k) \<and>
     (\<exists>bs. db' = db\<lparr>token_balances := bs\<rparr>)"

lemma no_update: "\<exists>bs. db = db\<lparr>token_balances := bs\<rparr>" "\<exists>ms. db = db\<lparr>token_metas := ms\<rparr>"
  by (rule exI [of _ "token_balances db"], simp) (rule exI [of _ "token_metas db"], simp)

lemma replayed_refl: "balances_wf db \<Longrightarrow> replayed (\<lambda>_. 0) db db"
  using no_update(1) [of db] by (simp add: replayed_def)

lemma replayed_trans: "replayed f db db1 \<Longrightarrow> replayed g db1 db2 \<Longrightarrow> replayed (\<lambda>k. f k + g k) db db2"
  by (auto simp: replayed_def)

lemma replayed_adjust:
  assumes "balances_wf db"
  shows "replayed (\<lambda>k. if k = (hex_blob token, hex_blob holder) then delta else 0) db
           (snd (adjust_balance now token holder delta db))"
proof -
  obtain by' db' where a: "adjust_balance now token holder delta db = (by', db')" by fastforce
  show ?thesis using adjust_balance_spec(1,2,4) [OF assms a] by (auto simp: replayed_def a)
qed

lemma replayed_transfer:
  assumes "balances_wf db"
  shows "replayed (row_effect e) db (replay_transfer keccak now e db)"
proof -
  let ?t = "blob_addr keccak (e_token_addr e)" and ?a = "bigint (e_amount e)"
  have 1: "replayed (\<lambda>k. if k = (e_token_addr e, e_from_addr e) then - ?a else 0) db
      (snd (adjust_balance now ?t (blob_addr keccak (e_from_addr e)) (- ?a) db))" (is "replayed ?f db ?db1")
    using replayed_adjust [OF assms, of ?t "blob_addr keccak (e_from_addr e)" "- ?a" now] by simp
  then have "balances_wf ?db1" by (simp add: replayed_def)
  from replayed_adjust [OF this, of ?t "blob_addr keccak (e_to_addr e)" ?a now]
  have 2: "replayed (\<lambda>k. if k = (e_token_addr e, e_to_addr e) then ?a else 0) ?db1 (replay_transfer keccak now e db)"
    by (simp add: replay_transfer_def Let_def)
  have eq: "(\<lambda>k. ?f k + (if k = (e_token_addr e, e_to_addr e) then ?a else 0)) = row_effect e"
    by (auto simp: row_effect_def fun_eq_iff)
  show ?thesis using replayed_trans [OF 1 2] unfolding eq .
qed

lemma replayed_fold:
  assumes step: "\<And>x db. balances_wf db \<Longrightarrow> replayed (eff x) db (f x db)"
  shows "balances_wf db \<Longrightarrow> replayed (\<lambda>k. \<Sum>x\<leftarrow>xs. eff x k) db (fold f xs db)"
proof (induction xs arbitrary: db)
  case Nil
  then show ?case by (simp add: replayed_refl)
next
  case (Cons x xs)
  note s = step [OF Cons.prems, of x]
  have "balances_wf (f x db)" using s by (simp add: replayed_def)
  from replayed_trans [OF s Cons.IH [OF this]] show ?case by simp
qed

lemma replayed_genesis:
  assumes "balances_wf db"
  shows "replayed (\<lambda>k. case g of (k', s) \<Rightarrow> if k' = k then bigint s else 0) db (replay_genesis keccak now g db)"
proof -
  have eq: "(\<lambda>k. case g of (k', s) \<Rightarrow> if k' = k then bigint s else 0) =
      (\<lambda>k. if k = fst g then bigint (snd g) else 0)"
    by (auto simp: fun_eq_iff split: prod.splits)
  show ?thesis unfolding eq
    using replayed_adjust [OF assms, of "blob_addr keccak (fst (fst g))" "blob_addr keccak (snd (fst g))" "bigint (snd g)" now]
    by (simp add: replay_genesis_def)
qed

subsection \<open>Recounting holders\<close>

lemma update_holder_count_spec:
  assumes "unique_keys (token_metas db)"
  shows "unique_keys (token_metas (update_holder_count now token db))"
    and "\<exists>ms. update_holder_count now token db = db\<lparr>token_metas := ms\<rparr>"
    and "map_option k_holder_count (map_of (token_metas (update_holder_count now token db)) t) =
      (if t = hex_blob token then map_option (\<lambda>_. int (count_holders db t)) (map_of (token_metas db) t)
       else map_option k_holder_count (map_of (token_metas db) t))"
proof -
  show "\<exists>ms. update_holder_count now token db = db\<lparr>token_metas := ms\<rparr>"
  proof (cases "map_of (token_metas db) (hex_blob token)")
    case None
    then have "update_holder_count now token db = db\<lparr>token_metas := token_metas db\<rparr>"
      by (simp add: update_holder_count_def)
    then show ?thesis ..
  qed (auto simp: update_holder_count_def Let_def)
qed (use assms in \<open>auto simp: update_holder_count_def Let_def map_of_update split: option.splits\<close>)

lemma recount_spec:
  "unique_keys (token_metas db) \<Longrightarrow>
     unique_keys (token_metas (fold (update_holder_count now) tokens db)) \<and>
     (\<exists>ms. fold (update_holder_count now) tokens db = db\<lparr>token_metas := ms\<rparr>) \<and>
     (\<forall>t. map_option k_holder_count (map_of (token_metas (fold (update_holder_count now) tokens db)) t) =
       (if t \<in> hex_blob ` set tokens then map_option (\<lambda>_. int (count_holders db t)) (map_of (token_metas db) t)
        else map_option k_holder_count (map_of (token_metas db) t)))"
proof (induction tokens arbitrary: db)
  case Nil
  with no_update(2) [of db] show ?case by simp
next
  case (Cons token tokens)
  let ?db1 = "update_holder_count now token db"
  note u = update_holder_count_spec [OF Cons.prems, of now token]
  obtain ms where ms: "?db1 = db\<lparr>token_metas := ms\<rparr>" using u(2) ..
  have none: "map_of (token_metas ?db1) t = None \<longleftrightarrow> map_of (token_metas db) t = None" for t
    using u(3) [of t] by (metis option.map_disc_iff)
  note ih = Cons.IH [OF u(1)]
  have "\<exists>ms. fold (update_holder_count now) (token # tokens) db = db\<lparr>token_metas := ms\<rparr>"
    using ih ms by auto
  moreover have "map_option k_holder_count (map_of (token_metas (fold (update_holder_count now) tokens ?db1)) t) =
       (if t \<in> hex_blob ` set (token # tokens) then map_option (\<lambda>_. int (count_holders db t)) (map_of (token_metas db) t)
        else map_option k_holder_count (map_of (token_metas db) t))" for t
  proof (cases "t \<in> hex_blob ` set tokens")
    case True
    have "count_holders ?db1 t = count_holders db t" by (simp add: ms)
    then show ?thesis using True ih none [of t]
      by (cases "map_of (token_metas ?db1) t"; cases "map_of (token_metas db) t") auto
  next
    case False
    then show ?thesis using ih u(3) [of t] by auto
  qed
  ultimately show ?case using ih by simp
qed

text \<open>The balances a rebuild leaves, before the holders are counted again.\<close>

lemma rebuilt_balances:
  obtains bs where
    "rebuild_token_balances keccak now db = fold (update_holder_count now) (touched_tokens keccak db) (db\<lparr>token_balances := bs\<rparr>)"
    "balances_wf (db\<lparr>token_balances := bs\<rparr>)" "\<And>k. bal (db\<lparr>token_balances := bs\<rparr>) k = ledger db k"
proof -
  define db1 where "db1 = db\<lparr>token_balances := []\<rparr>"
  define db2 where "db2 = fold (replay_transfer keccak now) (sort_key e_id (transfer_events db)) db1"
  define db3 where "db3 = fold (replay_genesis keccak now) (genesis_balances db) db2"
  have r: "rebuild_token_balances keccak now db = fold (update_holder_count now) (touched_tokens keccak db) db3"
    by (simp add: rebuild_token_balances_def db1_def db2_def db3_def)
  have "balances_wf db1" by (simp add: db1_def balances_wf_def)
  then have 2: "replayed (\<lambda>k. \<Sum>e\<leftarrow>sort_key e_id (transfer_events db). row_effect e k) db1 db2"
    unfolding db2_def by (rule replayed_fold [where eff = row_effect and f = "replay_transfer keccak now", rotated]) (rule replayed_transfer)
  then have "balances_wf db2" by (simp add: replayed_def)
  then have 3: "replayed (\<lambda>k. \<Sum>g\<leftarrow>genesis_balances db. case g of (k', s) \<Rightarrow> if k' = k then bigint s else 0) db2 db3"
    unfolding db3_def by (rule replayed_fold [where eff = "\<lambda>g k. case g of (k', s) \<Rightarrow> if k' = k then bigint s else 0" and f = "replay_genesis keccak now", rotated])
      (rule replayed_genesis)
  obtain bs where bs: "db3 = db\<lparr>token_balances := bs\<rparr>" using 2 3 by (auto simp: replayed_def db1_def)
  have "(\<Sum>e\<leftarrow>sort_key e_id (transfer_events db). row_effect e k) = (\<Sum>e\<leftarrow>transfer_events db. row_effect e k)" for k
    by (metis mset_map mset_sort sum_mset_sum_list)
  moreover have "bal db1 k = 0" for k by (simp add: db1_def bal_def)
  ultimately have b3: "bal db3 k = ledger db k" for k
    using 2 3 by (cases k) (simp add: replayed_def ledger_def genesis_effect_def)
  show ?thesis
  proof (rule that)
    show "rebuild_token_balances keccak now db = fold (update_holder_count now) (touched_tokens keccak db) (db\<lparr>token_balances := bs\<rparr>)"
      unfolding r bs ..
    show "balances_wf (db\<lparr>token_balances := bs\<rparr>)" using 3 by (simp add: replayed_def flip: bs)
    show "bal (db\<lparr>token_balances := bs\<rparr>) k = ledger db k" for k using b3 [of k] by (simp flip: bs)
  qed
qed

lemma touched_tokens_blobs: "hex_blob ` set (touched_tokens keccak db) =
    e_token_addr ` set (transfer_events db) \<union> (fst \<circ> fst) ` set (genesis_balances db)"
  by (auto simp: touched_tokens_def image_Un image_image)

text \<open>
  C3. Rebuilding gives the ledger, whatever the table held: every balance is what the stored
  transfers and genesis balances sum to, none is stored as zero, the holder count of every token
  that has an event is its number of holdings, and no other table changes.
\<close>

theorem rebuild_token_balances_is_ledger:
  assumes "unique_keys (token_metas db)"
  shows "(\<forall>k. bal (rebuild_token_balances keccak now db) k = ledger db k) \<and>
    balances_wf (rebuild_token_balances keccak now db) \<and>
    (\<forall>token row. map_of (token_metas (rebuild_token_balances keccak now db)) token = Some row \<longrightarrow>
       token \<in> e_token_addr ` set (transfer_events db) \<union> (fst \<circ> fst) ` set (genesis_balances db) \<longrightarrow>
       k_holder_count row = int (count_holders (rebuild_token_balances keccak now db) token)) \<and>
    (\<exists>bs ms. rebuild_token_balances keccak now db = db\<lparr>token_balances := bs, token_metas := ms\<rparr>)"
proof -
  obtain bs where r: "rebuild_token_balances keccak now db = fold (update_holder_count now) (touched_tokens keccak db) (db\<lparr>token_balances := bs\<rparr>)"
    and wf: "balances_wf (db\<lparr>token_balances := bs\<rparr>)" and b: "\<And>k. bal (db\<lparr>token_balances := bs\<rparr>) k = ledger db k"
    using rebuilt_balances by blast
  let ?db3 = "db\<lparr>token_balances := bs\<rparr>"
  have "unique_keys (token_metas ?db3)" using assms by simp
  note rec = recount_spec [OF this, of now "touched_tokens keccak db", folded r]
  obtain ms where ms: "rebuild_token_balances keccak now db = ?db3\<lparr>token_metas := ms\<rparr>" using rec by blast
  have "k_holder_count row = int (count_holders (rebuild_token_balances keccak now db) token)"
    if "map_of (token_metas (rebuild_token_balances keccak now db)) token = Some row"
      "token \<in> e_token_addr ` set (transfer_events db) \<union> (fst \<circ> fst) ` set (genesis_balances db)" for token row
  proof -
    have "map_option k_holder_count (Some row) = map_option (\<lambda>_. int (count_holders ?db3 token)) (map_of (token_metas ?db3) token)"
      using rec that touched_tokens_blobs by metis
    then show ?thesis by (cases "map_of (token_metas ?db3) token") (auto simp: ms)
  qed
  moreover have "balances_wf (rebuild_token_balances keccak now db)" using wf by (simp add: ms)
  moreover have "bal (rebuild_token_balances keccak now db) k = ledger db k" for k using b [of k] by (simp add: ms)
  moreover have "\<exists>bs ms. rebuild_token_balances keccak now db = db\<lparr>token_balances := bs, token_metas := ms\<rparr>"
    using ms by auto
  ultimately show ?thesis by blast
qed

theorem rebuild_token_balances_is_ledger_witness:
  "bal (rebuild_token_balances (\<lambda>_. []) 3 (empty_database\<lparr>token_balances := [((''x'', ''y''), ''7'', 1)]\<rparr>)) (''x'', ''y'') = 0"
proof -
  let ?db = "empty_database\<lparr>token_balances := [((''x'', ''y''), ''7'', 1)]\<rparr>"
  have "unique_keys (token_metas ?db)" by (simp add: empty_database_def)
  from rebuild_token_balances_is_ledger [OF this, of "\<lambda>_. []" 3] show ?thesis
    by (simp add: ledger_def genesis_effect_def empty_database_def)
qed

text \<open>
  At start \<open>main\<close> recounts every token that has a balance row, and leaves the counts exact.
\<close>

text \<open>
  After the recount at start, the holder count of every token with a balance row is its number
  of holdings, and the balances are untouched.
\<close>

theorem sync_holder_counts_exact:
  assumes "unique_keys (token_metas db)"
    and "(token, holder) \<in> fst ` set (token_balances db)"
    and "map_of (token_metas (sync_holder_counts keccak now db)) token = Some row"
  shows "k_holder_count row = int (count_holders db token) \<and>
    token_balances (sync_holder_counts keccak now db) = token_balances db"
proof -
  let ?tokens = "map (blob_addr keccak) (remdups (map (fst \<circ> fst) (token_balances db)))"
  note rec = recount_spec [OF assms(1), of now ?tokens, folded sync_holder_counts_def]
  have "token \<in> hex_blob ` set ?tokens"
    using assms(2) by (force simp: image_image)
  then have "map_option k_holder_count (Some row) = map_option (\<lambda>_. int (count_holders db token)) (map_of (token_metas db) token)"
    using rec assms(3) by metis
  then have "k_holder_count row = int (count_holders db token)" by (cases "map_of (token_metas db) token") auto
  then show ?thesis using rec by auto
qed

theorem sync_holder_counts_exact_witness:
  "\<exists>db token. token_balances db \<noteq> [] \<and> (\<exists>row. map_of (token_metas (sync_holder_counts (\<lambda>_. []) 3 db)) token = Some row \<and>
     k_holder_count row = int (count_holders db token))"
proof -
  let ?row = "\<lparr> k_address = ''x'', k_name = [], k_symbol = [], k_decimals = 0, k_currency = [], k_total_supply = [],
       k_logo_uri = [], k_holder_count = 9, k_created_at = 0, k_updated_at = 0 \<rparr>"
  let ?db = "empty_database\<lparr>token_balances := [((''x'', ''y''), ''7'', 1)], token_metas := [(''x'', ?row)]\<rparr>"
  have u: "unique_keys (token_metas ?db)" by (simp add: unique_keys_def)
  note rec = recount_spec [OF u, of 3 "map (blob_addr (\<lambda>_. [])) (remdups (map (fst \<circ> fst) (token_balances ?db)))", folded sync_holder_counts_def]
  have "map_of (token_metas ?db) ''x'' \<noteq> None" by simp
  then have "map_of (token_metas (sync_holder_counts (\<lambda>_. []) 3 ?db)) ''x'' \<noteq> None"
    using rec by (metis option.map_disc_iff)
  then obtain row where row: "map_of (token_metas (sync_holder_counts (\<lambda>_. []) 3 ?db)) ''x'' = Some row" by auto
  have "(''x'', ''y'') \<in> fst ` set (token_balances ?db)" by simp
  from sync_holder_counts_exact [OF u this row] show ?thesis using row by (intro exI [of _ ?db]) auto
qed

subsection \<open>The balances at genesis\<close>

lemma insert_genesis_spec:
  "insert_genesis now gs moved db = (moved', db') \<Longrightarrow> balances_wf db \<Longrightarrow> unique_keys moved \<Longrightarrow>
     balances_wf db' \<and> unique_keys moved' \<and>
     (\<forall>k. bal db' k - genesis_effect (genesis_balances db') k = bal db k - genesis_effect (genesis_balances db) k) \<and>
     (\<forall>t. int (count_holders db' t) - moved_of moved' t = int (count_holders db t) - moved_of moved t) \<and>
     (\<exists>bs rows. db' = db\<lparr>token_balances := bs, genesis_balances := rows\<rparr>) \<and>
     fst ` set (genesis_balances db') = fst ` set (genesis_balances db) \<union> (\<lambda>((t, h), _). (hex_blob t, hex_blob h)) ` set gs"
proof (induction now gs moved db rule: insert_genesis.induct)
  case (1 now moved db)
  have "\<exists>bs rows. db = db\<lparr>token_balances := bs, genesis_balances := rows\<rparr>"
    by (rule exI [of _ "token_balances db"], rule exI [of _ "genesis_balances db"]) simp
  with 1 show ?case by simp
next
  case (2 now token holder balance rest moved db)
  let ?key = "(hex_blob token, hex_blob holder)"
  show ?case
  proof (cases "map_of (genesis_balances db) ?key")
    case (Some v)
    then have "?key \<in> fst ` set (genesis_balances db)" by (metis map_of_None_iff_key option.distinct(1))
    then show ?thesis using "2.IH"(2) [OF refl Some] "2.prems" Some by (auto simp: insert_absorb)
  next
    case None
    let ?db1 = "db\<lparr>genesis_balances := genesis_balances db @ [(?key, balance)]\<rparr>"
    obtain by' db2 where a: "adjust_balance now token holder (bigint balance) ?db1 = (by', db2)" by fastforce
    have wf1: "balances_wf ?db1" using "2.prems"(2) by simp
    note sp = adjust_balance_spec [OF wf1 a]
    obtain bs where bs: "db2 = ?db1\<lparr>token_balances := bs\<rparr>" using sp(4) ..
    let ?moved = "AList.update token (unwrap_or 0 (map_of moved token) + by') moved"
    have r: "insert_genesis now rest ?moved db2 = (moved', db')"
      using "2.prems"(1) None a by (simp add: Let_def)
    have u: "unique_keys ?moved" using "2.prems"(3) by auto
    note ih = "2.IH"(1) [OF refl None refl refl a [symmetric] r sp(1) u]
    have b: "bal db2 k - genesis_effect (genesis_balances db2) k = bal db k - genesis_effect (genesis_balances db) k" for k
      using fun_cong [OF sp(2), of k] by (auto simp: bs genesis_effect_def)
    have c: "int (count_holders db2 t) - moved_of ?moved t = int (count_holders db t) - moved_of moved t" for t
      using sp(3) [of t] "2.prems"(3) by (simp add: moved_of_update count_holders_def)
    show ?thesis using ih b c by (auto simp: bs)
  qed
qed

lemma genesis_effect_kv [simp]: "genesis_balances (set_kv now k v db) = genesis_balances db"
  by (simp add: set_kv_def)

text \<open>
  What a save of genesis balances leaves: the ledger still holds, and every pair saved has a
  genesis balance.
\<close>

lemma save_genesis_balances_spec:
  fixes now :: int and gs :: "(holder \<times> string) list" and c :: int
  assumes ok: "db_ok db"
  defines "db' \<equiv> save_genesis_balances now gs c db"
  shows "db_ok db'"
    and "transfer_events db' = transfer_events db"
    and "fst ` set (genesis_balances db') = fst ` set (genesis_balances db) \<union> (\<lambda>((t, h), _). (hex_blob t, hex_blob h)) ` set gs"
    and "get_kv db' GENESIS_CURSOR = Some (dec_int c)"
    and "\<exists>bs gs ms m. db' = db\<lparr>token_balances := bs, genesis_balances := gs, token_metas := ms, kv := m\<rparr>"
proof -
  obtain moved db1 where i: "insert_genesis now gs [] db = (moved, db1)" by fastforce
  have wf: "balances_wf db" using ok by (simp add: db_ok_def ledger_ok_def)
  note sp = insert_genesis_spec [OF i wf unique_keys_Nil]
  obtain bs rows where fr: "db1 = db\<lparr>token_balances := bs, genesis_balances := rows\<rparr>"
    using sp by (elim conjE exE) (rule that)
  obtain ms where ms: "add_to_holder_counts now moved db1 = db1\<lparr>token_metas := ms\<rparr>"
    using add_to_holder_counts_frame by blast
  have d: "db' = set_kv now GENESIS_CURSOR (dec_int c) (db1\<lparr>token_metas := ms\<rparr>)"
    by (simp add: db'_def save_genesis_balances_def i ms)
  have "counts_ok db" using ok by (simp add: db_ok_def)
  then have "counts_behind (moved_of moved) db1"
    using sp by (auto simp: counts_behind_def counts_ok_def fr moved_of_def algebra_simps)
  from add_to_holder_counts_behind [OF this, of moved now]
  have c: "counts_ok (db1\<lparr>token_metas := ms\<rparr>)"
    unfolding ms by (simp add: counts_behind_def counts_ok_def)
  have "bal db1 k = ledger db1 k" for k
  proof -
    have "bal db k = ledger db k" using ok by (cases k) (simp add: db_ok_def ledger_ok_def)
    moreover have "bal db1 k - genesis_effect (genesis_balances db1) k = bal db k - genesis_effect (genesis_balances db) k"
      using sp by (cases k) simp
    ultimately show ?thesis by (simp add: ledger_def fr)
  qed
  then have "ledger_ok (db1\<lparr>token_metas := ms\<rparr>)" using sp by (simp add: ledger_ok_def ledger_def)
  then show "db_ok db'" using c unfolding d set_kv_def db_ok_kv by (simp add: db_ok_def)
  show "transfer_events db' = transfer_events db" by (simp add: d set_kv_def fr)
  show "fst ` set (genesis_balances db') = fst ` set (genesis_balances db) \<union> (\<lambda>((t, h), _). (hex_blob t, hex_blob h)) ` set gs"
    using sp by (simp add: d)
  show "get_kv db' GENESIS_CURSOR = Some (dec_int c)" by (simp add: d set_kv_def get_kv_def map_of_update)
  show "\<exists>bs gs ms m. db' = db\<lparr>token_balances := bs, genesis_balances := gs, token_metas := ms, kv := m\<rparr>"
    unfolding d fr set_kv_def by (intro exI [of _ bs] exI [of _ rows] exI [of _ ms] exI) simp
qed

definition needs_genesis :: "keccak \<Rightarrow> blob \<Rightarrow> bool" where
  "needs_genesis keccak side \<longleftrightarrow> blob_addr keccak side \<noteq> ZERO_ADDRESS"

definition complete_to :: "keccak \<Rightarrow> database \<Rightarrow> int \<Rightarrow> bool" where
  "complete_to keccak db c \<longleftrightarrow>
     (\<forall>e\<in>set (transfer_events db). e_id e \<le> c \<longrightarrow>
        (\<forall>side\<in>{e_from_addr e, e_to_addr e}. needs_genesis keccak side \<longrightarrow> has_genesis db (e_token_addr e) side))"

lemma push_holder_mem:
  "needs_genesis keccak side \<Longrightarrow> has_genesis db token side \<or>
     (blob_addr keccak token, blob_addr keccak side) \<in> set (push_holder keccak db token side hs)"
  "set hs \<subseteq> set (push_holder keccak db token side hs)"
  by (auto simp: push_holder_def needs_genesis_def Let_def)

lemma push_holders_mem:
  "side \<in> {e_from_addr e, e_to_addr e} \<Longrightarrow> needs_genesis keccak side \<Longrightarrow> has_genesis db (e_token_addr e) side \<or>
     (blob_addr keccak (e_token_addr e), blob_addr keccak side) \<in> set (push_holders keccak db e hs)"
  "set hs \<subseteq> set (push_holders keccak db e hs)"
proof -
  let ?hs1 = "push_holder keccak db (e_token_addr e) (e_from_addr e) hs"
  have s1: "set hs \<subseteq> set ?hs1" and s2: "set ?hs1 \<subseteq> set (push_holders keccak db e hs)"
    by (simp_all add: push_holders_def push_holder_mem(2))
  then show "set hs \<subseteq> set (push_holders keccak db e hs)" by simp
  show "has_genesis db (e_token_addr e) side \<or>
      (blob_addr keccak (e_token_addr e), blob_addr keccak side) \<in> set (push_holders keccak db e hs)"
    if "side \<in> {e_from_addr e, e_to_addr e}" "needs_genesis keccak side"
    using that(1)
  proof (elim insertE)
    assume "side = e_from_addr e"
    then show ?thesis using push_holder_mem(1) [OF that(2), of db "e_token_addr e" hs] s2 by auto
  next
    assume "side = e_to_addr e"
    then show ?thesis using push_holder_mem(1) [OF that(2), of db "e_token_addr e" ?hs1] by (simp add: push_holders_def)
  qed simp
qed

lemma pushed_holders:
  "set hs \<subseteq> set (fold (push_holders keccak db) rows hs) \<and>
   (\<forall>e\<in>set rows. \<forall>side\<in>{e_from_addr e, e_to_addr e}. needs_genesis keccak side \<longrightarrow>
      has_genesis db (e_token_addr e) side \<or>
      (blob_addr keccak (e_token_addr e), blob_addr keccak side) \<in> set (fold (push_holders keccak db) rows hs))"
proof (induction rows arbitrary: hs)
  case (Cons e rows)
  note ih = Cons.IH [of "push_holders keccak db e hs"]
  have "set hs \<subseteq> set (fold (push_holders keccak db) (e # rows) hs)"
    using ih push_holders_mem(2) [of hs keccak db e] by auto
  moreover have "has_genesis db (e_token_addr e) side \<or>
      (blob_addr keccak (e_token_addr e), blob_addr keccak side) \<in> set (fold (push_holders keccak db) (e # rows) hs)"
    if "side \<in> {e_from_addr e, e_to_addr e}" "needs_genesis keccak side" for side
    using push_holders_mem(1) [OF that, of db hs] ih by auto
  ultimately show ?case using ih by simp
qed simp

text \<open>A page of rows in id order leaves no unread row at or before its last.\<close>

lemma page_covers:
  fixes n :: nat
  assumes "distinct (map f xs)" "rows = take n (sort_key f xs)" "rows \<noteq> []" "x \<in> set xs" "f x \<le> f (last rows)"
  shows "x \<in> set rows"
proof (rule ccontr)
  let ?s = "sort_key f xs"
  assume "x \<notin> set rows"
  moreover have "set ?s = set rows \<union> set (drop n ?s)"
    using assms(2) by (metis append_take_drop_id set_append)
  ultimately have d: "x \<in> set (drop n ?s)" using assms(4) by auto
  have "sorted (map f (rows @ drop n ?s))" using assms(2) by (metis append_take_drop_id sorted_sort_key)
  then have "f (last rows) \<le> f x" using d assms(3) by (auto simp: sorted_append)
  then have eq: "f (last rows) = f x" using assms(5) by simp
  have "distinct (map f ?s)" using assms(1) by (metis distinct_map distinct_sort set_sort)
  then have "distinct (map f (rows @ drop n ?s))" using assms(2) by (metis append_take_drop_id)
  then have "f (last rows) \<notin> f ` set (drop n ?s)" using assms(3) by (auto dest: last_in_set)
  then show False using d eq by auto
qed

lemma holders_page:
  assumes "holders_without_genesis_balance keccak limit db = Some (c, holders)"
  obtains rows where "rows = take limit (sort_key e_id (filter (\<lambda>e. e_id e > genesis_cursor db) (transfer_events db)))"
    "rows \<noteq> []" "c = e_id (last rows)" "holders = fold (push_holders keccak db) rows []"
proof -
  let ?rows = "take limit (sort_key e_id (filter (\<lambda>e. e_id e > genesis_cursor db) (transfer_events db)))"
  have "(if (if ?rows = [] then genesis_cursor db else e_id (last ?rows)) \<noteq> genesis_cursor db
      then Some (if ?rows = [] then genesis_cursor db else e_id (last ?rows), fold (push_holders keccak db) ?rows [])
      else None) = Some (c, holders)"
    using assms unfolding holders_without_genesis_balance_def Let_def .
  then show ?thesis using that [of ?rows] by (cases "?rows = []") (simp_all split: if_splits)
qed

text \<open>
  Every step of the genesis backfill keeps the ledger, moves the cursor forward, and leaves
  every holder at or behind the cursor, the zero address apart, with its balance at genesis.
\<close>

lemma genesis_page_step:
  assumes "holders_without_genesis_balance keccak limit db = Some (c, holders)"
    and "map fst gs = holders" and "distinct (map e_id (transfer_events db))" and "is_i64 c"
    and "complete_to keccak db (genesis_cursor db)" and "db_ok db"
  shows "db_ok (save_genesis_balances now gs c db) \<and>
    genesis_cursor db < genesis_cursor (save_genesis_balances now gs c db) \<and>
    complete_to keccak (save_genesis_balances now gs c db) (genesis_cursor (save_genesis_balances now gs c db))"
proof -
  let ?db' = "save_genesis_balances now gs c db"
  let ?ev = "filter (\<lambda>e. e_id e > genesis_cursor db) (transfer_events db)"
  obtain rows where rows: "rows = take limit (sort_key e_id ?ev)" "rows \<noteq> []" "c = e_id (last rows)"
    and holders: "holders = fold (push_holders keccak db) rows []"
    using holders_page [OF assms(1)] .
  note sp = save_genesis_balances_spec [OF assms(6), of now gs c]
  have cur: "genesis_cursor ?db' = c" using sp(4) assms(4) by (simp add: genesis_cursor_def parse_i64_dec_int)
  have "last rows \<in> set ?ev" using rows(1,2) by (metis last_in_set set_sort in_set_takeD)
  then have fwd: "genesis_cursor db < c" using rows(3) by simp
  have saved: "has_genesis ?db' token side \<longleftrightarrow>
      has_genesis db token side \<or> (token, side) \<in> (\<lambda>((t, h), _). (hex_blob t, hex_blob h)) ` set gs" for token side
    using sp(3) unfolding has_genesis_def map_of_eq_None_iff by (auto simp del: set_map)
  have gs: "(hex_blob t, hex_blob h) \<in> (\<lambda>((t, h), _). (hex_blob t, hex_blob h)) ` set gs" if "(t, h) \<in> set holders" for t h
  proof -
    obtain s where "((t, h), s) \<in> set gs" using \<open>(t, h) \<in> set holders\<close> assms(2) by auto
    then show ?thesis by force
  qed
  have "has_genesis ?db' (e_token_addr e) side"
    if e: "e \<in> set (transfer_events db)" "e_id e \<le> c" and side: "side \<in> {e_from_addr e, e_to_addr e}" "needs_genesis keccak side" for e side
  proof (cases "e_id e \<le> genesis_cursor db")
    case True
    then show ?thesis using assms(5) e(1) side saved by (auto simp: complete_to_def)
  next
    case False
    have d: "distinct (map e_id ?ev)" using assms(3) by (simp add: distinct_map_filter)
    have "e \<in> set rows" by (rule page_covers [OF d rows(1,2)]) (use False e rows(3) in auto)
    then have "has_genesis db (e_token_addr e) side \<or> (blob_addr keccak (e_token_addr e), blob_addr keccak side) \<in> set holders"
      using pushed_holders [of "[]" keccak db rows] side holders by blast
    then show ?thesis using gs [of "blob_addr keccak (e_token_addr e)" "blob_addr keccak side"] saved by auto
  qed
  then show ?thesis using sp(1,2) cur fwd by (simp add: complete_to_def)
qed

text \<open>Once there is no page left, every holder of every transfer has its genesis balance.\<close>

lemma genesis_finished:
  assumes "holders_without_genesis_balance keccak limit db = None" "0 < limit" "complete_to keccak db (genesis_cursor db)"
    and "e \<in> set (transfer_events db)" "side \<in> {e_from_addr e, e_to_addr e}" "needs_genesis keccak side"
  shows "has_genesis db (e_token_addr e) side"
proof -
  let ?ev = "filter (\<lambda>e. e_id e > genesis_cursor db) (transfer_events db)"
  let ?rows = "take limit (sort_key e_id ?ev)"
  have "?rows = []"
  proof (rule ccontr)
    assume ne: "?rows \<noteq> []"
    then have "last ?rows \<in> set ?ev" by (metis last_in_set set_sort in_set_takeD)
    then show False using assms(1) ne by (simp add: holders_without_genesis_balance_def Let_def)
  qed
  then have "?ev = []" using assms(2) by (metis gr_implies_not0 length_0_conv length_sort take_eq_Nil)
  then have "e_id e \<le> genesis_cursor db" using assms(4) by (auto simp: filter_empty_conv)
  then show ?thesis using assms(3-6) by (auto simp: complete_to_def)
qed

text \<open>One transfer, not read yet, and the balances the node gives for its two sides.\<close>

lemma genesis_page_of_one:
  fixes keccak e
  defines "db \<equiv> empty_database\<lparr>transfer_events := [e]\<rparr>"
  assumes "0 < e_id e"
  shows "complete_to keccak db (genesis_cursor db)" and "distinct (map e_id (transfer_events db))"
proof -
  have c: "genesis_cursor db = 0" by (simp add: genesis_cursor_def get_kv_def db_def empty_database_def)
  show "complete_to keccak db (genesis_cursor db)" unfolding c using assms(2) by (simp add: complete_to_def db_def)
  show "distinct (map e_id (transfer_events db))" by (simp add: db_def)
qed

lemma db_ok_one_transfer: "db_ok (empty_database\<lparr>transfer_events := [(sample_transfer 0 ''aa'' ''bb'' ''0'')\<lparr>e_id := n\<rparr>]\<rparr>)"
  (is "db_ok ?db")
proof -
  have "bal ?db x = ledger ?db x" for x
    by (simp add: bal_def ledger_def genesis_effect_def row_effect_def empty_database_def sample_transfer_def)
  then show ?thesis
    by (simp add: db_ok_def ledger_ok_def balances_wf_def counts_ok_def empty_database_def)
qed

end
