(* ===== verification/Paging.thy ===== *)
theory Paging
  imports Rust_Numbers "HOL-Library.Product_Lexorder" "HOL-Library.List_Lexorder" "HOL-Library.Char_ord"
begin

section \<open>Ordered pages of rows\<close>

text \<open>
  What \<open>ORDER BY ... LIMIT ... OFFSET\<close> gives, and the two facts the listings rest on: a page
  merged from walks that are each cut at the page's end is the page of everything, and a list
  handled in chunks is the list.
\<close>

subsection \<open>Chunks\<close>

function chunks :: "nat \<Rightarrow> 'a list \<Rightarrow> 'a list list" where
  "chunks n xs = (if xs = [] \<or> n = 0 then [] else take n xs # chunks n (drop n xs))"
  by pat_completeness auto
termination by (relation "measure (length \<circ> snd)") auto

declare chunks.simps [simp del]

lemma chunks_Nil [simp]: "chunks n [] = []"
  by (simp add: chunks.simps)

lemma concat_chunks: "0 < n \<Longrightarrow> concat (chunks n xs) = xs"
proof (induction n xs rule: chunks.induct)
  case (1 n xs)
  then show ?case by (cases "xs = []") (simp_all add: chunks.simps [of n xs])
qed

lemma chunks_length: "0 < n \<Longrightarrow> c \<in> set (chunks n xs) \<Longrightarrow> c \<noteq> [] \<and> length c \<le> n"
proof (induction n xs rule: chunks.induct)
  case (1 n xs)
  then show ?case by (cases "xs = []") (auto simp: chunks.simps [of n xs])
qed

lemma chunks_grouped:
  assumes "0 < m" "length xs = m * n"
  shows "length (chunks m xs) = n" "i < n \<Longrightarrow> chunks m xs ! i = take m (drop (m * i) xs)"
proof -
  have "length (chunks m xs) = n \<and> (\<forall>i<n. chunks m xs ! i = take m (drop (m * i) xs))"
    using assms
  proof (induction n arbitrary: xs)
    case (Suc n)
    have ne: "xs \<noteq> []" using Suc.prems by auto
    have c: "chunks m xs = take m xs # chunks m (drop m xs)"
      using ne Suc.prems(1) by (simp add: chunks.simps [of m xs])
    have ih: "length (chunks m (drop m xs)) = n \<and>
        (\<forall>i<n. chunks m (drop m xs) ! i = take m (drop (m * i) (drop m xs)))"
      by (rule Suc.IH) (use Suc.prems in simp_all)
    have "chunks m xs ! i = take m (drop (m * i) xs)" if "i < Suc n" for i
      using that ih unfolding c by (cases i) (simp_all add: add.commute)
    then show ?case using ih c by simp
  qed simp
  then show "length (chunks m xs) = n" "i < n \<Longrightarrow> chunks m xs ! i = take m (drop (m * i) xs)" by blast+
qed

subsection \<open>Pages\<close>

definition page_of :: "nat \<Rightarrow> nat \<Rightarrow> 'a list \<Rightarrow> 'a list" where
  "page_of limit offset rows = take limit (drop offset rows)"

lemma take_filter_mem: "x \<in> set (take n xs) \<Longrightarrow> P x \<Longrightarrow> x \<in> set (take n (filter P xs))"
proof (induction xs arbitrary: n)
  case (Cons a xs)
  then obtain m where n: "n = Suc m" by (cases n) auto
  have "x \<in> set (take n (filter P xs))" if "x \<in> set (take m xs)"
    using Cons.IH [OF that Cons.prems(2)] set_take_subset_set_take [of m n "filter P xs"] n by auto
  then show ?case using Cons n by auto
qed simp

lemma take_filter_all: "\<forall>x\<in>set (take n xs). P x \<Longrightarrow> take n (filter P xs) = take n xs"
  by (induction xs arbitrary: n) (auto simp: take_Cons' split: if_splits)

lemma sorted_rows_unique:
  fixes f :: "'a \<Rightarrow> 'b::linorder"
  assumes "distinct (map f xs)" "distinct (map f ys)" "set xs = set ys"
  shows "sort_key f xs = sort_key f ys"
proof (rule map_sorted_distinct_set_unique)
  show "inj_on f (set (sort_key f xs) \<union> set (sort_key f ys))"
    using assms by (simp add: distinct_map)
  show "distinct (map f (sort_key f xs))" "distinct (map f (sort_key f ys))"
    using assms by (simp_all add: distinct_map)
qed (use assms in simp_all)

lemma distinct_map_sort [simp]: "distinct (map f (sort_key g xs)) = distinct (map f xs)"
  by (metis mset_eq_imp_distinct_iff mset_map mset_sort)

lemma merged_walks:
  fixes f :: "'a \<Rightarrow> 'b::linorder"
  assumes d: "distinct (map f (A @ B))"
  shows "take n (sort_key f (take n (sort_key f A) @ take n (sort_key f B))) = take n (sort_key f (A @ B))"
proof -
  let ?S = "sort_key f (A @ B)" and ?A' = "take n (sort_key f A)" and ?B' = "take n (sort_key f B)"
  let ?P = "\<lambda>x. x \<in> set ?A' \<or> x \<in> set ?B'"
  have sub: "set ?A' \<subseteq> set A" "set ?B' \<subseteq> set B"
    by (metis set_sort set_take_subset)+
  have inA: "filter (\<lambda>x. x \<in> set A) ?S = sort_key f A" and inB: "filter (\<lambda>x. x \<in> set B) ?S = sort_key f B"
    unfolding filter_sort
  proof -
    have dis: "set A \<inter> set B = {}" using d by auto
    have "filter (\<lambda>x. x \<in> set A) (A @ B) = A" "filter (\<lambda>x. x \<in> set B) (A @ B) = B"
      using dis by (auto simp: filter_id_conv filter_empty_conv)
    then show "sort_key f (filter (\<lambda>x. x \<in> set A) (A @ B)) = sort_key f A"
      "sort_key f (filter (\<lambda>x. x \<in> set B) (A @ B)) = sort_key f B" by simp_all
  qed
  have "distinct (map f ?A')" "distinct (map f ?B')" using d by (simp_all flip: take_map add: distinct_take)
  moreover have "f ` set ?A' \<inter> f ` set ?B' = {}" using d sub by auto
  ultimately have "distinct (map f (?A' @ ?B'))" by simp
  moreover have "distinct (map f (filter ?P (A @ B)))" using d by (rule distinct_map_filter)
  moreover have "set (?A' @ ?B') = set (filter ?P (A @ B))" using sub by auto
  ultimately have eq: "sort_key f (?A' @ ?B') = filter ?P ?S"
    unfolding filter_sort by (rule sorted_rows_unique)
  have "?P x" if "x \<in> set (take n ?S)" for x
  proof -
    have "x \<in> set A \<or> x \<in> set B" using that by (metis in_set_takeD set_append set_sort UnE)
    then show ?thesis
      using take_filter_mem [OF that, of "\<lambda>x. x \<in> set A"] take_filter_mem [OF that, of "\<lambda>x. x \<in> set B"] inA inB by auto
  qed
  then show ?thesis unfolding eq by (intro take_filter_all) blast
qed

lemma page_of_take: "limit + offset \<le> n \<Longrightarrow> page_of limit offset (take n xs) = page_of limit offset xs"
  by (simp add: page_of_def take_drop min_def add.commute)

text \<open>The page merged from two walks cut at \<open>n\<close> is the page of all the rows the walks are over.\<close>

lemma merged_page:
  fixes f :: "'a \<Rightarrow> 'b::linorder"
  assumes d: "distinct (map f (filter (\<lambda>x. P x \<or> Q x) rows))" and "limit + offset \<le> n"
  shows "page_of limit offset (sort_key f (take n (sort_key f (filter P rows)) @
             take n (sort_key f (filter (\<lambda>x. Q x \<and> \<not> P x) rows)))) =
         page_of limit offset (sort_key f (filter (\<lambda>x. P x \<or> Q x) rows))"
proof -
  let ?A = "filter P rows" and ?B = "filter (\<lambda>x. Q x \<and> \<not> P x) rows"
  have inj: "f x = f y \<Longrightarrow> x \<in> set rows \<Longrightarrow> y \<in> set rows \<Longrightarrow> P x \<or> Q x \<Longrightarrow> P y \<or> Q y \<Longrightarrow> x = y" for x y
    using d unfolding distinct_map inj_on_def by simp
  have "?A = filter P (filter (\<lambda>x. P x \<or> Q x) rows)"
    "?B = filter (\<lambda>x. Q x \<and> \<not> P x) (filter (\<lambda>x. P x \<or> Q x) rows)"
    by (auto intro: filter_cong)
  then have "distinct (map f ?A)" "distinct (map f ?B)"
    using distinct_map_filter [OF d, of P] distinct_map_filter [OF d, of "\<lambda>x. Q x \<and> \<not> P x"] by (simp_all only:)
  moreover have "f ` set ?A \<inter> f ` set ?B = {}" using inj by fastforce
  ultimately have dAB: "distinct (map f (?A @ ?B))" by simp
  have all: "sort_key f (?A @ ?B) = sort_key f (filter (\<lambda>x. P x \<or> Q x) rows)"
    by (rule sorted_rows_unique [OF dAB d]) auto
  note cut = page_of_take [OF assms(2)]
  show ?thesis
    unfolding cut [of "sort_key f (filter (\<lambda>x. P x \<or> Q x) rows)", symmetric]
      cut [of "sort_key f (take n (sort_key f ?A) @ take n (sort_key f ?B))", symmetric]
      merged_walks [OF dAB] all ..
qed

subsection \<open>Balances in order\<close>

text \<open>\<open>ORDER BY LENGTH(balance), balance\<close>: the byte order of \<open>List_Lexorder\<close> is \<open>lex_less\<close>.\<close>

lemma lex_less_iff: "lex_less s t \<longleftrightarrow> s < t"
  by (induction s t rule: lex_less.induct) (auto simp: less_char_def)

definition by_length :: "string \<Rightarrow> nat \<times> string" where
  "by_length s = (length s, s)"

lemma dec_nat_by_length: "by_length (dec_nat m) \<le> by_length (dec_nat n) \<longleftrightarrow> m \<le> n"
  using dec_nat_order [of n m] by (auto simp: by_length_def lex_less_iff not_less)

end
