(* ===== verification/Tokens.thy ===== *)
theory Tokens
  imports Address Rpc Paging "HOL-Library.Monad_Syntax"
begin

section \<open>Tokens (\<open>src/tokens.rs\<close>)\<close>

text \<open>
  Reading token views from the node and spelling amounts. The bytes a view returns are whatever
  the contract chose to return: every slice of the decoder is checked, so that a slice out of
  range, which panics in Rust, is \<open>None\<close>.
\<close>

subsection \<open>Lossy text\<close>

text \<open>
  \<open>String::from_utf8_lossy\<close>: the bytes of an ill-formed sequence, the longest prefix of a
  well-formed one, become one replacement character.
\<close>

definition second_ok :: "char \<Rightarrow> char \<Rightarrow> bool" where
  "second_ok a b \<longleftrightarrow> cont_byte b
     \<and> (byte_val a = 224 \<longrightarrow> 160 \<le> byte_val b) \<and> (byte_val a = 237 \<longrightarrow> byte_val b \<le> 159)
     \<and> (byte_val a = 240 \<longrightarrow> 144 \<le> byte_val b) \<and> (byte_val a = 244 \<longrightarrow> byte_val b \<le> 143)"

fun bad_length :: "bytes \<Rightarrow> nat" where
  "bad_length (a # b # c # s) =
     (if 224 \<le> byte_val a \<and> byte_val a \<le> 244 \<and> second_ok a b
      then (if 240 \<le> byte_val a \<and> cont_byte c then 3 else 2) else 1)"
| "bad_length [a, b] = (if 224 \<le> byte_val a \<and> byte_val a \<le> 244 \<and> second_ok a b then 2 else 1)"
| "bad_length _ = 1"

definition replacement :: bytes where
  "replacement = [CHR 0xEF, CHR 0xBF, CHR 0xBD]"

lemma bad_length_pos: "0 < bad_length s"
  by (cases s rule: bad_length.cases) auto

function utf8_lossy :: "bytes \<Rightarrow> string" where
  "utf8_lossy s =
     (if s = [] then []
      else case utf8_head s of
        Some (c, r) \<Rightarrow> c @ utf8_lossy r
      | None \<Rightarrow> replacement @ utf8_lossy (drop (bad_length s) s))"
  by pat_completeness auto
termination
proof (relation "measure length")
  fix s :: bytes assume "s \<noteq> []"
  then show "(drop (bad_length s) s, s) \<in> measure length" using bad_length_pos [of s] by (cases s) auto
next
  fix s :: bytes and x c r assume "utf8_head s = Some x" "(c, r) = x"
  then show "(r, s) \<in> measure length" using utf8_head_Some [of s c r] by auto
qed simp

declare utf8_lossy.simps [simp del]

lemma utf8_lossy_valid: "utf8_chars s = Some cs \<Longrightarrow> utf8_lossy s = s"
proof (induction s arbitrary: cs rule: utf8_chars.induct)
  case (1 s)
  show ?case
  proof (cases "s = []")
    case False
    with "1.prems" obtain c r cs' where h: "utf8_head s = Some (c, r)" and r: "utf8_chars r = Some cs'"
      by (subst (asm) utf8_chars.simps) (auto split: option.splits)
    have "utf8_lossy r = r" by (rule "1.IH" [OF False h refl r])
    then show ?thesis using False h utf8_head_Some [OF h] by (subst utf8_lossy.simps) simp
  qed (simp add: utf8_lossy.simps)
qed

subsection \<open>ABI words\<close>

definition be_nat :: "bytes \<Rightarrow> nat" where
  "be_nat bs = foldl (\<lambda>n b. n * 256 + byte_val b) 0 bs"

definition slice :: "'a list \<Rightarrow> nat \<Rightarrow> nat \<Rightarrow> 'a list option" where
  "slice xs a b = (if a \<le> b \<and> b \<le> length xs then Some (drop a (take b xs)) else None)"

definition abi_words :: "string \<Rightarrow> bytes option" where
  "abi_words raw = opt_filter (\<lambda>bs. 32 \<le> length bs) (hex_decode (strip_0x raw))"

text \<open>The first word points at a length word inside the data.\<close>

definition dynamic_string :: "bytes \<Rightarrow> nat \<Rightarrow> bool" where
  "dynamic_string bs offset \<longleftrightarrow> 32 \<le> offset \<and>
     (case checked_add64 offset 32 of Some end \<Rightarrow> end \<le> length bs | None \<Rightarrow> False)"

definition decode_string_result :: "string \<Rightarrow> string option" where
  "decode_string_result raw =
     (case abi_words raw of
        None \<Rightarrow> Some []
      | Some bs \<Rightarrow>
          do {
            offset \<leftarrow> map_option be_nat (slice bs 24 32);
            if dynamic_string bs offset then do {
              len \<leftarrow> map_option be_nat (slice bs (offset + 24) (offset + 32));
              payload \<leftarrow> slice bs (offset + 32) (length bs);
              text \<leftarrow> slice payload 0 (min len (length payload));
              Some (utf8_lossy text)
            }
            else map_option utf8_lossy (slice bs 32 (32 + min offset (length bs - 32)))
          })"

definition decode_uint_result :: "string \<Rightarrow> int \<Rightarrow> int" where
  "decode_uint_result raw otherwise =
     (case abi_words raw of
        None \<Rightarrow> otherwise
      | Some bs \<Rightarrow> i64_of_u64 (be_nat (drop 24 (take 32 bs))))"

definition decode_uint256_result :: "string \<Rightarrow> string" where
  "decode_uint256_result raw =
     (case abi_words raw of
        None \<Rightarrow> ''0''
      | Some bs \<Rightarrow> dec_nat (be_nat bs))"

definition has_control_chars :: "string \<Rightarrow> bool" where
  "has_control_chars s \<longleftrightarrow> (\<exists>c\<in>set (chars s). control_code (char_code c))"

definition trim_end_nul :: "string \<Rightarrow> string" where
  "trim_end_nul s = rev (dropWhile (\<lambda>c. c = CHR 0x00) (rev s))"

definition sanitize_metadata_text :: "string \<Rightarrow> string" where
  "sanitize_metadata_text s =
     (let trimmed = trim_end_nul s in
      if has_control_chars trimmed then [] else trim trimmed)"

subsection \<open>Token views\<close>

definition NAME_CALL :: string where "NAME_CALL = ''0x06fdde03''"
definition SYMBOL_CALL :: string where "SYMBOL_CALL = ''0x95d89b41''"
definition DECIMALS_CALL :: string where "DECIMALS_CALL = ''0x313ce567''"
definition TOTAL_SUPPLY_CALL :: string where "TOTAL_SUPPLY_CALL = ''0x18160ddd''"
definition CURRENCY_CALL :: string where "CURRENCY_CALL = ''0xe5a6b10f''"
definition BALANCE_OF_CALL :: string where "BALANCE_OF_CALL = ''0x70a08231''"
definition GENESIS :: string where "GENESIS = ''0x0''"
definition EXECUTION_REVERTED :: int where "EXECUTION_REVERTED = 3"

definition TOKEN_VIEWS :: "string list" where
  "TOKEN_VIEWS = [NAME_CALL, SYMBOL_CALL, DECIMALS_CALL, TOTAL_SUPPLY_CALL, CURRENCY_CALL]"

definition view_call :: "string \<Rightarrow> string \<Rightarrow> rpc_call" where
  "view_call address data =
     (''eth_call'', JArr [JObj [(''to'', JStr address), (''data'', JStr data)], JStr ''latest''])"

definition view_hex :: "(rpc_error + json) list \<Rightarrow> nat \<Rightarrow> string" where
  "view_hex views i =
     (if i < length views
      then (case views ! i of
              Inr v \<Rightarrow> unwrap_or ''0x'' (opt_filter (\<lambda>h. h \<noteq> []) (as_str v))
            | Inl _ \<Rightarrow> ''0x'')
      else ''0x'')"

text \<open>\<open>the\<close> stands for a panic that \<open>decode_string_result_total\<close> excludes.\<close>

definition view_text :: "string \<Rightarrow> string" where
  "view_text raw = sanitize_metadata_text (the (decode_string_result raw))"

definition token_meta_of :: "string \<Rightarrow> (rpc_error + json) list \<Rightarrow> token_meta" where
  "token_meta_of address views =
     \<lparr> m_address = address, m_name = view_text (view_hex views 0), m_symbol = view_text (view_hex views 1),
       m_decimals = decode_uint_result (view_hex views 2) 18, m_currency = view_text (view_hex views 4),
       m_total_supply = decode_uint256_result (view_hex views 3) \<rparr>"

definition fetch_token_metadata ::
  "keccak \<Rightarrow> bool \<Rightarrow> (json \<Rightarrow> 's \<Rightarrow> reply \<times> 's) \<Rightarrow> string list \<Rightarrow> 's
     \<Rightarrow> ((failure + token_meta list) \<times> 's) option" where
  "fetch_token_metadata keccak paced send tokens s =
     (let addresses = map (checksum_address keccak) tokens in
      if addresses = [] then Some (Inr [], s)
      else
        (let calls = concat (map (\<lambda>a. map (view_call a) TOKEN_VIEWS) addresses)
         in case batch_call paced send calls s of
              None \<Rightarrow> None
            | Some (Inl e, s') \<Rightarrow> Some (Inl e, s')
            | Some (Inr results, s') \<Rightarrow>
                Some (Inr (map (\<lambda>(a, views). token_meta_of a views)
                        (zip addresses (chunks (length TOKEN_VIEWS) results))), s')))"

subsection \<open>Balances at genesis\<close>

text \<open>\<open>format!("{:0>64}")\<close>\<close>

definition pad_left :: "nat \<Rightarrow> string \<Rightarrow> string" where
  "pad_left n s = replicate (n - length (chars s)) CHR ''0'' @ s"

definition balance_call :: "string \<times> string \<Rightarrow> rpc_call" where
  "balance_call th =
     (''eth_call'',
      JArr [JObj [(''to'', JStr (fst th)),
                  (''data'', JStr (BALANCE_OF_CALL @ pad_left 64 (lower (trim_start_matches ''0x'' (snd th)))))],
            JStr GENESIS])"

definition genesis_balance :: "rpc_error + json \<Rightarrow> failure + string" where
  "genesis_balance r =
     (case r of
        Inr v \<Rightarrow> Inr (decode_uint256_result (unwrap_or ''0x'' (as_str v)))
      | Inl e \<Rightarrow> if err_code e = EXECUTION_REVERTED then Inr ''0'' else Inl (Rpc_Error e))"

fun collect :: "('e + 'a) list \<Rightarrow> 'e + 'a list" where
  "collect [] = Inr []"
| "collect (Inl e # rs) = Inl e"
| "collect (Inr v # rs) = (case collect rs of Inl e \<Rightarrow> Inl e | Inr vs \<Rightarrow> Inr (v # vs))"

definition balances_at_genesis ::
  "bool \<Rightarrow> (json \<Rightarrow> 's \<Rightarrow> reply \<times> 's) \<Rightarrow> (string \<times> string) list \<Rightarrow> 's
     \<Rightarrow> ((failure + string list) \<times> 's) option" where
  "balances_at_genesis paced send holders s =
     (if holders = [] then Some (Inr [], s)
      else case batch_call paced send (map balance_call holders) s of
             None \<Rightarrow> None
           | Some (Inl e, s') \<Rightarrow> Some (Inl e, s')
           | Some (Inr results, s') \<Rightarrow> Some (collect (map genesis_balance results), s'))"

subsection \<open>Amounts\<close>

definition strip_trailing_zeros :: "string \<Rightarrow> string" where
  "strip_trailing_zeros s = rev (dropWhile (\<lambda>c. c = CHR ''0'') (rev s))"

definition clamp :: "int \<Rightarrow> int \<Rightarrow> int \<Rightarrow> int" where
  "clamp lo hi i = max lo (min hi i)"

definition format_token_amount :: "string \<Rightarrow> int \<Rightarrow> string" where
  "format_token_amount amount decimals =
     (let n = unwrap_or 0 (bigint_parse 10 amount) in
      if n = 0 then ''0''
      else
        (let sign = (if n < 0 then ''-'' else []);
             a = nat (abs n);
             d = nat (clamp 0 30 decimals);
             integer_part = a div 10 ^ d;
             frac0 = dec_nat (a mod 10 ^ d);
             frac1 = (if length frac0 < d then replicate (d - length frac0) CHR ''0'' @ frac0 else frac0);
             frac2 = strip_trailing_zeros frac1
         in if frac2 = [] then sign @ dec_nat integer_part
            else sign @ dec_nat integer_part @ ''.'' @ take 6 frac2))"

definition format_token_amount_with_symbol :: "string \<Rightarrow> int \<Rightarrow> string \<Rightarrow> string" where
  "format_token_amount_with_symbol amount decimals symbol =
     (let formatted = format_token_amount amount decimals in
      if symbol = [] then formatted else formatted @ '' '' @ symbol)"

subsection \<open>What a view returns\<close>

lemma slice_Some [simp]: "a \<le> b \<Longrightarrow> b \<le> length xs \<Longrightarrow> slice xs a b = Some (drop a (take b xs))"
  by (simp add: slice_def)

lemma checked_add64_Some: "checked_add64 a b = Some n \<Longrightarrow> n = a + b"
  by (auto simp: checked_add64_def split: if_splits)

text \<open>
  Whatever bytes a contract returns for a string view, and whatever a node sends in their
  place, decoding them reads no byte out of range: it never panics.
\<close>

theorem decode_string_result_total: "\<exists>text. decode_string_result raw = Some text"
proof (cases "abi_words raw")
  case None
  then show ?thesis by (simp add: decode_string_result_def)
next
  case (Some bs)
  then have len: "32 \<le> length bs" by (auto simp: abi_words_def)
  let ?offset = "be_nat (drop 24 (take 32 bs))"
  show ?thesis
  proof (cases "dynamic_string bs ?offset")
    case True
    then have "?offset + 32 \<le> length bs" by (auto simp: dynamic_string_def split: option.splits dest: checked_add64_Some)
    then show ?thesis using True Some len by (simp add: decode_string_result_def)
  next
    case False
    have "32 + min ?offset (length bs - 32) \<le> length bs" using len by arith
    then show ?thesis using False Some len by (simp add: decode_string_result_def)
  qed
qed

text \<open>The ABI's encoding of a string: an offset word, a length word, the payload and its padding.\<close>

fun be_bytes :: "nat \<Rightarrow> nat \<Rightarrow> bytes" where
  "be_bytes 0 v = []"
| "be_bytes (Suc n) v = be_bytes n (v div 256) @ [char_of (v mod 256)]"

lemma length_be_bytes [simp]: "length (be_bytes n v) = n"
  by (induction n arbitrary: v) auto

lemma be_nat_snoc: "be_nat (bs @ [b]) = be_nat bs * 256 + byte_val b"
  by (simp add: be_nat_def)

lemma be_nat_be_bytes: "v < 256 ^ n \<Longrightarrow> be_nat (be_bytes n v) = v"
proof (induction n arbitrary: v)
  case 0
  then show ?case by (simp add: be_nat_def)
next
  case (Suc n)
  have "v div 256 < 256 ^ n" using Suc.prems by (simp add: less_mult_imp_div_less mult.commute)
  then show ?case using Suc.IH by (simp add: be_nat_snoc)
qed

lemma be_bytes_split: "be_bytes (m + n) v = be_bytes m (v div 256 ^ n) @ be_bytes n v"
  by (induction n arbitrary: v) (auto simp: div_mult2_eq)

lemma word_tail:
  assumes "v \<le> U64_MAX"
  shows "be_nat (drop 24 (be_bytes 32 v)) = v"
proof -
  have "be_bytes 32 v = be_bytes 24 (v div 256 ^ 8) @ be_bytes 8 v"
    using be_bytes_split [of 24 8 v] by simp
  moreover have "v < 256 ^ 8" using assms by simp
  ultimately show ?thesis by (simp add: be_nat_be_bytes)
qed

definition abi_string :: "string \<Rightarrow> bytes \<Rightarrow> string" where
  "abi_string s padding = ''0x'' @ hex_encode (be_bytes 32 32 @ be_bytes 32 (length s) @ s @ padding)"

text \<open>
  A string in the ABI's encoding is read back exactly: for well-formed text of any length, with
  any padding after it, the decoder returns the text.
\<close>

theorem decode_abi_string:
  assumes "utf8_chars s \<noteq> None" and "length s \<le> U64_MAX"
  shows "decode_string_result (abi_string s padding) = Some s"
proof -
  let ?bs = "be_bytes 32 32 @ be_bytes 32 (length s) @ s @ padding"
  have w: "abi_words (abi_string s padding) = Some ?bs"
    by (simp add: abi_words_def abi_string_def opt_filter_def)
  have o1: "be_nat (drop 24 (take 32 ?bs)) = 32" using word_tail [of 32] by simp
  have "drop (32 + 24) (take (32 + 32) ?bs) = drop 24 (be_bytes 32 (length s))" by simp
  then have o2: "be_nat (drop (32 + 24) (take (32 + 32) ?bs)) = length s" using word_tail [OF assms(2)] by simp
  have c: "dynamic_string ?bs 32" by (simp add: dynamic_string_def checked_add64_def)
  have p: "drop (32 + 32) (take (length ?bs) ?bs) = s @ padding" by simp
  obtain cs where "utf8_chars s = Some cs" using assms(1) by blast
  then have "utf8_lossy s = s" by (rule utf8_lossy_valid)
  then show ?thesis
    unfolding decode_string_result_def w option.case
    by (simp add: o1 [simplified] o2 [simplified] c [simplified] p [simplified])
qed

theorem decode_abi_string_witness:
  "decode_string_result (abi_string ''nUSD'' [CHR 0x00]) = Some ''nUSD''"
proof (rule decode_abi_string)
  have "ascii ''nUSD''" by (simp add: ascii_def)
  then show "utf8_chars ''nUSD'' \<noteq> None" by (simp add: utf8_chars_ascii)
qed simp

subsection \<open>Amounts are cut, never rounded up\<close>

lemma digits_val_split:
  assumes "digits_val 10 0 (xs @ ys) = Some r"
  obtains x y where "digits_val 10 0 xs = Some x" "digits_val 10 0 ys = Some y" "r = x * 10 ^ length ys + y"
    "y < 10 ^ length ys"
proof -
  obtain x where x: "digits_val 10 0 xs = Some x" and r: "digits_val 10 x ys = Some r"
    using assms by (auto simp: digits_val_append split: option.splits)
  have "\<exists>y. digits_val 10 0 ys = Some y \<and> r = acc * 10 ^ length ys + y \<and> y < 10 ^ length ys"
    if "digits_val 10 acc ys = Some r" for acc r
    using that
  proof (induction ys arbitrary: r rule: rev_induct)
    case (snoc c ys)
    obtain d where d: "digit_val 10 c = Some d"
      using snoc.prems by (auto simp: digits_val_append split: option.splits)
    obtain a where a: "digits_val 10 acc ys = Some a" and r: "r = a * 10 + d"
      using snoc.prems d by (auto simp: digits_val_append split: option.splits)
    obtain y where y: "digits_val 10 0 ys = Some y" "a = acc * 10 ^ length ys + y" "y < 10 ^ length ys"
      using snoc.IH [OF a] by blast
    have "d < 10" using d by (auto simp: digit_val_def Let_def split: if_splits)
    moreover have "y + 1 \<le> 10 ^ length ys" using y(3) by simp
    ultimately have "y * 10 + d < 10 ^ length (ys @ [c])"
      using mult_le_mono1 [of "y + 1" "10 ^ length ys" 10] by simp
    then show ?case using y d r by (auto simp: digits_val_append algebra_simps)
  qed auto
  from this [OF r] x show ?thesis using that by blast
qed

lemma strip_trailing_zeros_split:
  "\<exists>k. s = strip_trailing_zeros s @ replicate k CHR ''0''"
proof -
  let ?z = "\<lambda>c. c = CHR ''0''"
  have "takeWhile ?z (rev s) = replicate (length (takeWhile ?z (rev s))) CHR ''0''"
    by (rule replicate_eqI) (auto dest: set_takeWhileD)
  moreover have "s = rev (dropWhile ?z (rev s)) @ rev (takeWhile ?z (rev s))"
    by (metis rev_append rev_rev_ident takeWhile_dropWhile_id)
  ultimately show ?thesis unfolding strip_trailing_zeros_def by (metis rev_replicate)
qed

lemma digits_val_zeros: "digits_val 10 acc (replicate k CHR ''0'') = Some (acc * 10 ^ k)"
  by (induction k arbitrary: acc) (simp_all add: digit_val_def)

lemma fraction_digits:
  fixes r d :: nat
  assumes "r < 10 ^ d"
  defines "frac \<equiv> (if length (dec_nat r) < d then replicate (d - length (dec_nat r)) CHR ''0'' @ dec_nat r else dec_nat r)"
  shows "digits_val 10 0 frac = Some r" and "d \<noteq> 0 \<Longrightarrow> length frac = d"
proof -
  show "digits_val 10 0 frac = Some r"
    by (simp add: frac_def digits_val_append digits_val_zeros digits_val_radix)
  show "length frac = d" if "d \<noteq> 0"
  proof -
    have "length (dec_nat r) \<le> d"
    proof (rule ccontr)
      assume "\<not> length (dec_nat r) \<le> d"
      then have d: "d \<le> length (dec_nat r) - 1" by simp
      show False
      proof (cases "r = 0")
        case True
        then show False using \<open>\<not> length (dec_nat r) \<le> d\<close> that by (simp add: radix_nat_small)
      next
        case False
        have "(10::nat) ^ d \<le> 10 ^ (length (dec_nat r) - 1)" using d by (rule power_increasing) simp
        also have "\<dots> \<le> r" using False by (intro length_radix_ge) auto
        finally show False using assms(1) by simp
      qed
    qed
    then show ?thesis by (simp add: frac_def)
  qed
qed

text \<open>The first six digits of a fraction of \<open>d\<close> digits, its trailing zeros dropped.\<close>

lemma six_digits:
  fixes r d :: nat
  assumes r: "r < 10 ^ d" and val: "digits_val 10 0 frac = Some r" and len: "d \<noteq> 0 \<Longrightarrow> length frac = d"
  defines "t \<equiv> take 6 (strip_trailing_zeros frac)"
  shows "\<exists>v. digits_val 10 0 t = Some v \<and> v * 10 ^ (6 - length t) = r * 10 ^ 6 div 10 ^ d"
proof -
  obtain k where k: "frac = strip_trailing_zeros frac @ replicate k CHR ''0''"
    using strip_trailing_zeros_split by blast
  let ?rest = "drop 6 (strip_trailing_zeros frac) @ replicate k CHR ''0''"
  have f: "frac = t @ ?rest" unfolding t_def append_assoc [symmetric] append_take_drop_id by (rule k)
  obtain v y where v: "digits_val 10 0 t = Some v" and y: "digits_val 10 0 ?rest = Some y"
    and r': "r = v * 10 ^ length ?rest + y" and lt: "y < 10 ^ length ?rest"
    using digits_val_split [of t ?rest r] val f by metis
  have "v * 10 ^ (6 - length t) = r * 10 ^ 6 div 10 ^ d"
  proof (cases "d = 0")
    case True
    then have "r = 0" using r by simp
    moreover have "v = 0" using r' \<open>r = 0\<close> by simp
    ultimately show ?thesis by simp
  next
    case False
    then have d: "length t + length ?rest = d" using len f by (metis length_append)
    show ?thesis
    proof (cases "length t = 6")
      case True
      then have "r * 10 ^ 6 div 10 ^ d = r div 10 ^ length ?rest"
        unfolding d [symmetric] power_add True by (simp add: mult.commute)
      also have "\<dots> = v" using r' lt by simp
      finally show ?thesis using True by simp
    next
      case short: False
      then have t: "length t < 6" by (simp add: t_def)
      then have "?rest = replicate k CHR ''0''" by (simp add: t_def)
      then have "y = 0" using y by (simp add: digits_val_zeros)
      have "(10::nat) ^ (6 - length t) * 10 ^ d = 10 ^ length ?rest * 10 ^ 6"
        unfolding power_add [symmetric] using t d by (intro arg_cong [where f = "\<lambda>e. 10 ^ e"]) arith
      then have "r * 10 ^ 6 = v * 10 ^ (6 - length t) * 10 ^ d"
        using r' \<open>y = 0\<close> by (metis add.right_neutral mult.assoc)
      then show ?thesis by simp
    qed
  qed
  then show ?thesis using v by blast
qed

text \<open>
  C40. An amount is shown to at most six decimals and cut there, towards zero: the digits shown, read
  back in millionths of a token, are the amount's millionths rounded down, with its sign, for every
  amount but zero and every number of decimals up to the thirty the formatter keeps.
\<close>

theorem format_token_amount_cuts:
  assumes "bigint_parse 10 amount = Some n" and "n \<noteq> 0" and "0 \<le> decimals" "decimals \<le> 30"
  shows "\<exists>whole frac v. format_token_amount amount decimals =
      (if n < 0 then ''-'' else []) @ dec_nat whole @ (if frac = [] then [] else ''.'' @ frac) \<and>
    length frac \<le> 6 \<and> digits_val 10 0 frac = Some v \<and>
    whole * 10 ^ 6 + v * 10 ^ (6 - length frac) = nat (abs n) * 10 ^ 6 div 10 ^ nat decimals"
proof -
  let ?a = "nat (abs n)" and ?d = "nat decimals"
  have c: "clamp 0 30 decimals = decimals" using assms(3,4) by (simp add: clamp_def)
  define r where "r = ?a mod 10 ^ ?d"
  define frac where "frac = (if length (dec_nat r) < ?d
      then replicate (?d - length (dec_nat r)) CHR ''0'' @ dec_nat r else dec_nat r)"
  let ?t = "take 6 (strip_trailing_zeros frac)"
  have r: "r < 10 ^ ?d" by (simp add: r_def)
  obtain v where v: "digits_val 10 0 ?t = Some v" "v * 10 ^ (6 - length ?t) = r * 10 ^ 6 div 10 ^ ?d"
    using six_digits [OF r] fraction_digits [OF r, folded frac_def] by metis
  have cut: "(q * m + r) * k div m = q * k + r * k div m" if "0 < m" for q m r k :: nat
  proof -
    have "(q * m + r) * k = r * k + q * k * m" by (simp add: algebra_simps)
    then show ?thesis using that by simp
  qed
  have "?a * 10 ^ 6 div 10 ^ ?d = ?a div 10 ^ ?d * 10 ^ 6 + r * 10 ^ 6 div 10 ^ ?d"
    using cut [of "10 ^ ?d" "?a div 10 ^ ?d" r "10 ^ 6"] by (simp only: r_def div_mult_mod_eq) simp
  then have val: "?a div 10 ^ ?d * 10 ^ 6 + v * 10 ^ (6 - length ?t) = ?a * 10 ^ 6 div 10 ^ ?d" using v(2) by simp
  have "format_token_amount amount decimals =
      (if n < 0 then ''-'' else []) @ dec_nat (?a div 10 ^ ?d) @ (if ?t = [] then [] else ''.'' @ ?t)"
    using assms(1,2) unfolding format_token_amount_def Let_def c r_def [symmetric] assms(1) unwrap_or_simps frac_def [symmetric]
    by simp
  then show ?thesis using v(1) val by (intro exI [of _ "?a div 10 ^ ?d"] exI [of _ ?t] exI [of _ v]) simp
qed

theorem format_token_amount_cuts_witness:
  "format_token_amount ''-1234567891'' 9 = ''-1.234567'' \<and>
   (\<exists>whole frac v. format_token_amount ''-1234567891'' 9 =
      (if (-1234567891::int) < 0 then ''-'' else []) @ dec_nat whole @ (if frac = [] then [] else ''.'' @ frac) \<and>
    length frac \<le> 6 \<and> digits_val 10 0 frac = Some v \<and>
    whole * 10 ^ 6 + v * 10 ^ (6 - length frac) = nat (abs (-1234567891)) * 10 ^ 6 div 10 ^ nat 9)"
proof -
  have p: "bigint_parse 10 ''-1234567891'' = Some (-1234567891)"
    by (simp add: bigint_parse_def biguint_parse_def strip_plus_def digit_val_def)
  have "format_token_amount ''-1234567891'' 9 = ''-1.234567''"
    unfolding format_token_amount_def p
    by (simp add: clamp_def radix_nat.simps digit_char_def strip_trailing_zeros_def Let_def char_of_eq_iff)
  then show ?thesis using format_token_amount_cuts [OF p, of 9] by simp
qed

subsection \<open>One answer per token and per holder\<close>

context batch_client
begin

text \<open>Calls made in equal groups are answered in the same groups.\<close>

lemma batch_groups:
  assumes "batch (concat (map f keys)) s = Some (Inr rs, s')" and "\<And>k. length (f k) = m" and "0 < m"
  shows "length (chunks m rs) = length keys"
    and "i < length keys \<Longrightarrow> chunks m rs ! i = take m (drop (m * i) rs)"
proof -
  have "length (concat (map f keys)) = m * length keys"
    using assms(2) by (simp add: length_concat comp_def sum_list_triv mult.commute)
  then have "length rs = m * length keys" using batch_length [OF assms(1)] by simp
  from chunks_grouped [OF assms(3) this] show "length (chunks m rs) = length keys"
    and "i < length keys \<Longrightarrow> chunks m rs ! i = take m (drop (m * i) rs)" by auto
qed

end

text \<open>
  Metadata comes back for the tokens asked for, in their order: when the node answers, the i-th
  row has the i-th token's address and is read from the answers to that token's five views, and
  from no other token's.
\<close>

theorem fetch_token_metadata_in_order:
  assumes "fetch_token_metadata keccak paced send tokens s = Some (Inr metas, s')" and "tokens \<noteq> []"
  shows "map m_address metas = map (checksum_address keccak) tokens \<and>
    (\<exists>results. batch_call paced send (concat (map (\<lambda>a. map (view_call a) TOKEN_VIEWS) (map (checksum_address keccak) tokens))) s
        = Some (Inr results, s') \<and>
      (\<forall>i < length tokens. metas ! i =
         token_meta_of (checksum_address keccak (tokens ! i)) (take 5 (drop (5 * i) results))))"
proof -
  let ?addr = "map (checksum_address keccak) tokens" and ?f = "\<lambda>a. map (view_call a) TOKEN_VIEWS"
  have m: "length TOKEN_VIEWS = 5" by (simp add: TOKEN_VIEWS_def)
  obtain results where b: "batch_call paced send (concat (map ?f ?addr)) s = Some (Inr results, s')"
    and metas: "metas = map (\<lambda>(a, views). token_meta_of a views) (zip ?addr (chunks 5 results))"
  proof -
    have ne: "(?addr = []) = False" using assms(2) by simp
    note a = assms(1) [unfolded fetch_token_metadata_def Let_def m ne if_False]
    then obtain x s1 where x: "batch_call paced send (concat (map ?f ?addr)) s = Some (x, s1)"
      by (cases "batch_call paced send (concat (map ?f ?addr)) s") auto
    obtain results where "x = Inr results" using a unfolding x by (cases x) auto
    show ?thesis
    proof (rule that)
      show "batch_call paced send (concat (map ?f ?addr)) s = Some (Inr results, s')"
        using a unfolding x \<open>x = Inr results\<close> by simp
      show "metas = map (\<lambda>(a, views). token_meta_of a views) (zip ?addr (chunks 5 results))"
        using a unfolding x \<open>x = Inr results\<close> by (simp only: option.case prod.case sum.case option.inject prod.inject sum.inject)
    qed
  qed
  have five: "\<And>k. length (?f k) = 5" by (simp add: m)
  note g = chain.batch_groups [where f = ?f and m = 5, OF b five]
  have l: "length (chunks 5 results) = length tokens" using g(1) by simp
  have n: "metas ! i = token_meta_of (checksum_address keccak (tokens ! i)) (take 5 (drop (5 * i) results))"
    if "i < length tokens" for i
    using that g(2) [of i] by (simp add: metas l)
  have "map m_address metas = ?addr"
    by (rule nth_equalityI) (simp_all add: metas l token_meta_of_def)
  then show ?thesis using b n by blast
qed

definition silent_node :: "json \<Rightarrow> unit \<Rightarrow> reply \<times> unit" where
  "silent_node payload u = (Answered 200 (Some (JArr [])), u)"

lemma silent_batch: "batch_call False silent_node (c # d # cs) () = Some (Inr (demux (length (c # d # cs)) []), ())"
  by (simp add: batch_call_def post_batch.simps silent_node_def read_batch_def)

lemma silent_metadata: "\<exists>metas. fetch_token_metadata keccak False silent_node (t # u # ts) () = Some (Inr metas, ())"
proof -
  let ?calls = "concat (map (\<lambda>a. map (view_call a) TOKEN_VIEWS) (map (checksum_address keccak) (t # u # ts)))"
  obtain c d cs where c: "?calls = c # d # cs" by (simp add: TOKEN_VIEWS_def)
  have b: "batch_call False silent_node ?calls () = Some (Inr (demux (length (c # d # cs)) []), ())"
    unfolding c by (rule silent_batch)
  have ne: "(map (checksum_address keccak) (t # u # ts) = []) = False" by simp
  show ?thesis unfolding fetch_token_metadata_def Let_def b ne by (simp only: if_False option.case prod.case sum.case) (rule exI, rule refl)
qed

theorem fetch_token_metadata_in_order_witness:
  "\<exists>metas. fetch_token_metadata (\<lambda>_. []) False silent_node [''a'', ''b''] () = Some (Inr metas, ()) \<and>
     map m_address metas = map (checksum_address (\<lambda>_. [])) [''a'', ''b'']"
proof -
  obtain metas where m: "fetch_token_metadata (\<lambda>_. []) False silent_node [''a'', ''b''] () = Some (Inr metas, ())"
    using silent_metadata by blast
  show ?thesis
  proof (intro exI conjI)
    show "fetch_token_metadata (\<lambda>_. []) False silent_node [''a'', ''b''] () = Some (Inr metas, ())" by (rule m)
    show "map m_address metas = map (checksum_address (\<lambda>_. [])) [''a'', ''b'']"
      by (rule fetch_token_metadata_in_order [OF m, THEN conjunct1]) simp
  qed
qed

lemma collect_length: "collect rs = Inr vs \<Longrightarrow> length vs = length rs"
  by (induction rs arbitrary: vs rule: collect.induct) (auto split: sum.splits)

text \<open>
  Every holder asked about gets exactly one balance, in order: nothing else may be stored as its
  balance at genesis.
\<close>

theorem balances_at_genesis_complete:
  assumes "balances_at_genesis paced send holders s = Some (Inr balances, s')"
  shows "map fst (zip holders balances) = holders"
proof (cases "holders = []")
  case False
  then obtain results where b: "batch_call paced send (map balance_call holders) s = Some (Inr results, s')"
    and c: "collect (map genesis_balance results) = Inr balances"
    using assms by (auto simp: balances_at_genesis_def split: option.splits sum.splits prod.splits)
  then have "length balances = length holders"
    using chain.batch_length [OF b] collect_length [OF c] by simp
  then show ?thesis by simp
qed simp

theorem balances_at_genesis_complete_witness:
  "\<exists>balances. balances_at_genesis False (\<lambda>_ u. (Answered 200 (Some (JObj [(''result'', JStr ''0x'')])), u)) [(''a'', ''b'')] () =
       Some (Inr balances, ()) \<and> map fst (zip [(''a'', ''b'')] balances) = [(''a'', ''b'')]"
proof -
  obtain balances where b: "balances_at_genesis False (\<lambda>_ u. (Answered 200 (Some (JObj [(''result'', JStr ''0x'')])), u)) [(''a'', ''b'')] () =
       Some (Inr balances, ())"
    by (simp add: balances_at_genesis_def batch_call_def rpc_call1_def balance_call_def genesis_balance_def
        rpc_error_of_def take_result_def json_access split: prod.splits)
  show ?thesis using balances_at_genesis_complete [OF b] b by (intro exI [of _ balances]) simp
qed

end
