(* ===== verification/Storage_Reads.thy ===== *)
theory Storage_Reads
  imports Ledger_Writes Tokens
begin

section \<open>The storage layer: reads (\<open>src/db.rs\<close>)\<close>

text \<open>
  Every query of \<open>src/db.rs\<close> as a function of the tables. \<open>ORDER BY\<close> is \<open>sort_key\<close>: rows that
  tie keep the table's order, where SQLite promises none, so nothing here rests on ties. A query
  that fails answers like an empty table (\<open>or_warn\<close>); over tables whose rows all have the types
  of their columns, none does.
\<close>

subsection \<open>Blocks\<close>

definition row_to_block :: "block \<Rightarrow> block" where
  "row_to_block r = r
     \<lparr> b_hash := blob_hex (b_hash r), b_parent_hash := blob_hex (b_parent_hash r),
       b_proposer := blob_hex (b_proposer r), b_miner := blob_hex (b_miner r) \<rparr>"

definition blocks_newest :: "database \<Rightarrow> (int \<times> block) list" where
  "blocks_newest db = sort_key (\<lambda>(n, _). - n) (blocks db)"

lemma sorted_blocks_newest: "sorted_wrt (\<lambda>a b. fst b \<le> fst a) (blocks_newest db)"
proof -
  have "sorted (map (\<lambda>(n, _). - n) (blocks_newest db))" by (simp add: blocks_newest_def)
  then show ?thesis by (simp add: sorted_map case_prod_unfold)
qed

lemma set_blocks_newest [simp]: "set (blocks_newest db) = set (blocks db)"
  by (simp add: blocks_newest_def)

definition head_opt :: "'a list \<Rightarrow> 'a option" where
  "head_opt xs = (case xs of [] \<Rightarrow> None | x # _ \<Rightarrow> Some x)"

definition get_block_by_number :: "database \<Rightarrow> int \<Rightarrow> block option" where
  "get_block_by_number db number = map_option row_to_block (map_of (blocks db) number)"

definition blocks_present :: "database \<Rightarrow> int list \<Rightarrow> int list" where
  "blocks_present db numbers = filter (\<lambda>n. n \<in> set numbers) (map fst (blocks db))"

definition get_block_by_hash :: "database \<Rightarrow> string \<Rightarrow> block option" where
  "get_block_by_hash db hash =
     map_option (row_to_block \<circ> snd) (head_opt (filter (\<lambda>(_, r). b_hash r = hex_blob hash) (blocks db)))"

definition get_latest_block :: "database \<Rightarrow> block option" where
  "get_latest_block db = map_option (row_to_block \<circ> snd) (head_opt (blocks_newest db))"

definition get_max_block_number :: "database \<Rightarrow> int option" where
  "get_max_block_number db = (if blocks db = [] then None else Some (Max (set (map fst (blocks db)))))"

definition get_min_block_number :: "database \<Rightarrow> int option" where
  "get_min_block_number db = (if blocks db = [] then None else Some (Min (set (map fst (blocks db)))))"

definition get_block_timestamp :: "database \<Rightarrow> int \<Rightarrow> int option" where
  "get_block_timestamp db number = map_option b_timestamp (map_of (blocks db) number)"

definition get_blocks_in_range :: "database \<Rightarrow> int \<Rightarrow> int \<Rightarrow> block list" where
  "get_blocks_in_range db lo hi =
     map (row_to_block \<circ> snd) (filter (\<lambda>(n, _). lo \<le> n \<and> n \<le> hi) (blocks_newest db))"

definition get_recent_blocks :: "database \<Rightarrow> nat \<Rightarrow> block list" where
  "get_recent_blocks db limit = map (row_to_block \<circ> snd) (take limit (blocks_newest db))"

subsection \<open>Transactions\<close>

datatype tx_columns = List | Full

text \<open>\<open>TX_LIST_COLS\<close> reads the three blobs as \<open>NULL\<close>.\<close>

definition select_columns :: "tx_columns \<Rightarrow> transaction \<Rightarrow> transaction" where
  "select_columns columns r =
     (case columns of
        Full \<Rightarrow> r
      | List \<Rightarrow> r\<lparr>t_raw := None, t_trace_data := None, t_receipt_data := None\<rparr>)"

definition row_to_tx :: "keccak \<Rightarrow> transaction \<Rightarrow> transaction" where
  "row_to_tx keccak r = r
     \<lparr> t_hash := blob_hex (t_hash r), t_from_addr := blob_addr keccak (t_from_addr r),
       t_to_addr := map_option (blob_addr keccak) (t_to_addr r),
       t_contract_address := map_option (blob_addr keccak) (t_contract_address r),
       t_fee_token := map_option (blob_addr keccak) (t_fee_token r),
       t_raw := map_option blob_hex (t_raw r) \<rparr>"

definition read_tx :: "keccak \<Rightarrow> tx_columns \<Rightarrow> blob \<times> transaction \<Rightarrow> transaction" where
  "read_tx keccak columns r = row_to_tx keccak (select_columns columns (snd r))"

text \<open>\<open>ORDER BY block_number DESC, position DESC\<close>\<close>

definition tx_newest :: "blob \<times> transaction \<Rightarrow> int \<times> int" where
  "tx_newest r = (- t_block_number (snd r), - t_position (snd r))"

definition get_transaction :: "keccak \<Rightarrow> database \<Rightarrow> string \<Rightarrow> transaction option" where
  "get_transaction keccak db hash = map_option (row_to_tx keccak) (map_of (transactions db) (hex_blob hash))"

definition get_transactions_in_range :: "keccak \<Rightarrow> database \<Rightarrow> int \<Rightarrow> int \<Rightarrow> tx_columns \<Rightarrow> transaction list" where
  "get_transactions_in_range keccak db lo hi columns =
     map (read_tx keccak columns)
       (sort_key (\<lambda>r. (t_block_number (snd r), t_position (snd r)))
         (filter (\<lambda>(_, t). lo \<le> t_block_number t \<and> t_block_number t \<le> hi) (transactions db)))"

definition get_block_transactions :: "keccak \<Rightarrow> database \<Rightarrow> int \<Rightarrow> tx_columns \<Rightarrow> transaction list" where
  "get_block_transactions keccak db number columns =
     map (read_tx keccak columns)
       (sort_key (\<lambda>r. t_position (snd r)) (filter (\<lambda>(_, t). t_block_number t = number) (transactions db)))"

text \<open>
  \<open>limit.saturating_add(offset)\<close>, and a page's offset: both in \<open>i64\<close>, never negative.
\<close>

definition walk_end :: "nat \<Rightarrow> nat \<Rightarrow> nat" where
  "walk_end page per_page = nat (min I64_MAX (int per_page + page_offset page per_page))"

definition paged :: "nat \<Rightarrow> nat \<Rightarrow> 'a list \<Rightarrow> 'a list" where
  "paged page per_page rows = page_of per_page (nat (page_offset page per_page)) rows"

definition get_address_transactions ::
  "keccak \<Rightarrow> database \<Rightarrow> string \<Rightarrow> nat \<Rightarrow> nat \<Rightarrow> tx_columns \<Rightarrow> transaction list" where
  "get_address_transactions keccak db address page per_page columns =
     (let a = hex_blob address;
          n = walk_end page per_page;
          sent = take n (sort_key tx_newest (filter (\<lambda>(_, t). t_from_addr t = a) (transactions db)));
          received = take n (sort_key tx_newest
             (filter (\<lambda>(_, t). t_to_addr t = Some a \<and> t_from_addr t \<noteq> a) (transactions db)))
      in map (read_tx keccak columns) (paged page per_page (sort_key tx_newest (sent @ received))))"

definition get_transactions :: "keccak \<Rightarrow> database \<Rightarrow> nat \<Rightarrow> nat \<Rightarrow> transaction list" where
  "get_transactions keccak db page per_page =
     map (read_tx keccak List) (paged page per_page (sort_key tx_newest (transactions db)))"

definition get_transaction_count :: "database \<Rightarrow> int" where
  "get_transaction_count db = int (length (transactions db))"

definition get_address_transaction_count :: "database \<Rightarrow> string \<Rightarrow> int" where
  "get_address_transaction_count db address =
     int (count_rows (\<lambda>(_, t). t_from_addr t = hex_blob address \<or> t_to_addr t = Some (hex_blob address)) (transactions db))"

subsection \<open>Tokens\<close>

definition row_to_token :: "keccak \<Rightarrow> token_metadata \<Rightarrow> token_metadata" where
  "row_to_token keccak r = r\<lparr>k_address := blob_addr keccak (k_address r)\<rparr>"

definition get_token_metadata :: "keccak \<Rightarrow> database \<Rightarrow> string \<Rightarrow> token_metadata option" where
  "get_token_metadata keccak db address =
     map_option (row_to_token keccak) (map_of (token_metas db) (hex_blob address))"

definition get_all_tokens :: "keccak \<Rightarrow> database \<Rightarrow> nat \<Rightarrow> nat \<Rightarrow> token_metadata list" where
  "get_all_tokens keccak db page per_page =
     map (row_to_token keccak \<circ> snd) (paged page per_page (sort_key (\<lambda>r. - k_holder_count (snd r)) (token_metas db)))"

definition get_all_token_metas :: "keccak \<Rightarrow> database \<Rightarrow> token_metadata list" where
  "get_all_token_metas keccak db = map (row_to_token keccak \<circ> snd) (token_metas db)"

definition get_token_count :: "database \<Rightarrow> int" where
  "get_token_count db = int (length (token_metas db))"

definition get_token_transfer_count :: "database \<Rightarrow> string \<Rightarrow> int" where
  "get_token_transfer_count db token =
     int (length (filter (\<lambda>e. e_token_addr e = hex_blob token) (transfer_events db)))"

definition get_token_by_symbol_or_name :: "keccak \<Rightarrow> database \<Rightarrow> string \<Rightarrow> token_metadata option" where
  "get_token_by_symbol_or_name keccak db q =
     map_option (row_to_token keccak \<circ> snd)
       (head_opt (sort_key (\<lambda>r. (- k_holder_count (snd r), fst r))
         (filter (\<lambda>(_, r). lower (k_symbol r) = lower q \<or> lower (k_name r) = lower q) (token_metas db))))"

definition get_all_token_addresses :: "keccak \<Rightarrow> database \<Rightarrow> string list" where
  "get_all_token_addresses keccak db = map (blob_addr keccak \<circ> fst) (token_metas db)"

definition get_token_holder_count :: "database \<Rightarrow> string \<Rightarrow> int" where
  "get_token_holder_count db token = int (count_holders db (hex_blob token))"

text \<open>\<open>get_tokens_metadata\<close>: the map, by the address as read back; later rows replace.\<close>

definition get_tokens_metadata :: "keccak \<Rightarrow> database \<Rightarrow> string list \<Rightarrow> (string \<times> token_metadata) list" where
  "get_tokens_metadata keccak db addresses =
     fold (\<lambda>chunk out.
         fold (\<lambda>row out. AList.update (k_address row) row out)
           (map (row_to_token keccak \<circ> snd) (filter (\<lambda>(k, _). k \<in> hex_blob ` set chunk) (token_metas db))) out)
       (chunks 100 addresses) []"

subsection \<open>Searching names\<close>

text \<open>
  SQLite's \<open>LIKE\<close> with an escape character: \<open>%\<close> is any text, \<open>_\<close> any one character, an escaped
  character is itself, and ASCII letters match either case.
\<close>

fun like :: "char \<Rightarrow> string \<Rightarrow> string \<Rightarrow> bool" where
  "like esc [] s = (s = [])"
| "like esc (p # ps) s =
     (if p = CHR ''%'' then (\<exists>t\<in>set (suffixes s). like esc ps t)
      else if p = CHR ''_'' then (case utf8_head s of Some (_, r) \<Rightarrow> like esc ps r | None \<Rightarrow> s \<noteq> [] \<and> like esc ps (tl s))
      else if p = esc then
        (case ps of
           [] \<Rightarrow> False
         | q # qs \<Rightarrow> (case s of [] \<Rightarrow> False | c # r \<Rightarrow> lower_char q = lower_char c \<and> like esc qs r))
      else (case s of [] \<Rightarrow> False | c # r \<Rightarrow> lower_char p = lower_char c \<and> like esc ps r))"

definition escape_like :: "string \<Rightarrow> string" where
  "escape_like q = concat (map (\<lambda>c. if c = CHR 0x5C \<or> c = CHR ''%'' \<or> c = CHR ''_'' then [CHR 0x5C, c] else [c]) q)"

definition search_term :: "string \<Rightarrow> (string \<times> string \<times> string) option" where
  "search_term q =
     (if length q < 2 then None
      else Some (q, ''%'' @ escape_like q @ ''%'', escape_like q @ ''%''))"

definition search_rank :: "string \<Rightarrow> string \<Rightarrow> token_metadata \<Rightarrow> nat" where
  "search_rank exact starting r =
     (if eq_ic (k_symbol r) exact then 0
      else if like CHR 0x5C starting (k_symbol r) then 1
      else if like CHR 0x5C starting (k_name r) then 2
      else 3)"

definition search_tokens :: "keccak \<Rightarrow> database \<Rightarrow> string \<Rightarrow> nat \<Rightarrow> token_metadata list" where
  "search_tokens keccak db q limit =
     (case search_term q of
        None \<Rightarrow> []
      | Some (exact, anywhere, starting) \<Rightarrow>
          map (row_to_token keccak)
            (take limit
              (sort_key (\<lambda>r. (search_rank exact starting r, - k_holder_count r, k_symbol r))
                (filter (\<lambda>r. like CHR 0x5C anywhere (k_symbol r) \<or> like CHR 0x5C anywhere (k_name r))
                  (map snd (token_metas db))))))"

subsection \<open>Anchoring events\<close>

definition row_to_anchoring :: "keccak \<Rightarrow> anchoring_event \<Rightarrow> anchoring_event" where
  "row_to_anchoring keccak r = r\<lparr>a_tx_hash := blob_hex (a_tx_hash r), a_caller := blob_addr keccak (a_caller r)\<rparr>"

definition get_anchoring_events :: "keccak \<Rightarrow> database \<Rightarrow> int \<Rightarrow> nat \<Rightarrow> anchoring_event list" where
  "get_anchoring_events keccak db registry_id limit =
     map (row_to_anchoring keccak)
       (take limit (sort_key (\<lambda>e. (- a_block_number e, - a_log_index e))
         (filter (\<lambda>e. a_registry_id e = registry_id) (anchoring_events db))))"

subsection \<open>Transfers\<close>

definition row_to_transfer :: "keccak \<Rightarrow> transfer_event \<Rightarrow> transfer_event" where
  "row_to_transfer keccak r = r
     \<lparr> e_tx_hash := blob_hex (e_tx_hash r), e_token_addr := blob_addr keccak (e_token_addr r),
       e_from_addr := blob_addr keccak (e_from_addr r), e_to_addr := blob_addr keccak (e_to_addr r) \<rparr>"

definition transfer_json :: "transfer_event \<Rightarrow> json" where
  "transfer_json e = JObj
     [(''id'', json_int (e_id e)), (''tx_hash'', JStr (e_tx_hash e)), (''block_number'', json_int (e_block_number e)),
      (''log_index'', json_int (e_log_index e)), (''token_addr'', JStr (e_token_addr e)),
      (''from_addr'', JStr (e_from_addr e)), (''to_addr'', JStr (e_to_addr e)), (''amount'', JStr (e_amount e)),
      (''timestamp'', json_int (e_timestamp e)), (''created_at'', json_int (e_created_at e))]"

definition row_to_transfer_json :: "keccak \<Rightarrow> transfer_event \<times> transaction option \<Rightarrow> json" where
  "row_to_transfer_json keccak row =
     (let e = row_to_transfer keccak (fst row);
          (tx_from, tx_to, tx_timestamp, tx_status) =
            (case snd row of
               Some t \<Rightarrow> (blob_addr keccak (t_from_addr t), map_option (blob_addr keccak) (t_to_addr t), t_timestamp t, t_status t)
             | None \<Rightarrow> (e_from_addr e, Some (e_to_addr e), e_timestamp e, 1))
      in jset ''tx_status'' (json_int tx_status)
           (jset ''tx_timestamp'' (json_int tx_timestamp)
             (jset ''tx_to'' (json_opt tx_to)
               (jset ''tx_from'' (JStr tx_from) (transfer_json e)))))"

definition transfer_newest :: "transfer_event \<Rightarrow> int \<times> int" where
  "transfer_newest e = (- e_block_number e, - e_log_index e)"

text \<open>A page's rows, each with its transaction if that is stored, in page order.\<close>

definition transfer_page :: "keccak \<Rightarrow> database \<Rightarrow> transfer_event list \<Rightarrow> json list" where
  "transfer_page keccak db rows =
     map (\<lambda>e. row_to_transfer_json keccak (e, map_of (transactions db) (e_tx_hash e))) (sort_key transfer_newest rows)"

definition get_token_transfers :: "keccak \<Rightarrow> database \<Rightarrow> string \<Rightarrow> nat \<Rightarrow> nat \<Rightarrow> json list" where
  "get_token_transfers keccak db token page per_page =
     transfer_page keccak db
       (paged page per_page (sort_key transfer_newest (filter (\<lambda>e. e_token_addr e = hex_blob token) (transfer_events db))))"

definition get_address_transfers :: "keccak \<Rightarrow> database \<Rightarrow> string \<Rightarrow> nat \<Rightarrow> nat \<Rightarrow> json list" where
  "get_address_transfers keccak db address page per_page =
     (let a = hex_blob address;
          n = walk_end page per_page;
          sent = take n (sort_key transfer_newest (filter (\<lambda>e. e_from_addr e = a) (transfer_events db)));
          received = take n (sort_key transfer_newest
             (filter (\<lambda>e. e_to_addr e = a \<and> e_from_addr e \<noteq> a) (transfer_events db)))
      in transfer_page keccak db (paged page per_page (sort_key transfer_newest (sent @ received))))"

definition get_address_transfer_count :: "database \<Rightarrow> string \<Rightarrow> int" where
  "get_address_transfer_count db address =
     int (length (filter (\<lambda>e. e_from_addr e = hex_blob address \<or> e_to_addr e = hex_blob address) (transfer_events db)))"

subsection \<open>Holders and holdings\<close>

definition get_token_holders :: "keccak \<Rightarrow> database \<Rightarrow> string \<Rightarrow> nat \<Rightarrow> nat \<Rightarrow> (string \<times> string) list" where
  "get_token_holders keccak db token page per_page =
     map (\<lambda>(k, balance, _). (blob_addr keccak (snd k), balance))
       (paged page per_page
         (rev (sort_key (\<lambda>(_, balance, _). by_length balance)
           (filter (\<lambda>(k, balance, _). fst k = hex_blob token \<and> holding balance) (token_balances db)))))"

definition holding_json :: "keccak \<Rightarrow> blob \<Rightarrow> token_metadata \<Rightarrow> string \<Rightarrow> json" where
  "holding_json keccak token m balance = JObj
     [(''token'', JStr (blob_addr keccak token)), (''name'', JStr (k_name m)), (''symbol'', JStr (k_symbol m)),
      (''decimals'', json_int (k_decimals m)), (''formatted'', JStr (format_token_amount balance (k_decimals m))),
      (''balance'', JStr balance)]"

definition get_address_holdings :: "keccak \<Rightarrow> database \<Rightarrow> string \<Rightarrow> json list" where
  "get_address_holdings keccak db address =
     List.map_filter (\<lambda>(k, balance, _).
         if snd k = hex_blob address \<and> holding balance
         then map_option (\<lambda>m. holding_json keccak (fst k) m balance) (map_of (token_metas db) (fst k))
         else None) (token_balances db)"

section \<open>Pages and counts\<close>

lemma nat_page_offset: "nat (page_offset page per_page) = (page - 1) * per_page"
  by (simp add: page_offset_def nat_mult_distrib)

lemma walk_end_page:
  assumes "page < 2 ^ 32" "per_page \<le> 2 ^ 30"
  shows "per_page + nat (page_offset page per_page) \<le> walk_end page per_page"
proof -
  have "(page - 1) * per_page \<le> 2 ^ 32 * 2 ^ 30" using assms by (intro mult_le_mono) auto
  then have "int ((page - 1) * per_page) \<le> 2 ^ 62" unfolding of_nat_le_iff [where 'a = int, symmetric] by simp
  then have "int per_page + page_offset page per_page \<le> I64_MAX"
  proof -
    have "int per_page \<le> 2 ^ 30" using assms(2) unfolding of_nat_le_iff [where 'a = int, symmetric] by simp
    then show ?thesis using \<open>int ((page - 1) * per_page) \<le> 2 ^ 62\<close>
      unfolding page_offset_def of_nat_mult [symmetric] by simp
  qed
  then have "min I64_MAX (int per_page + page_offset page per_page) = int per_page + page_offset page per_page" by simp
  then show ?thesis unfolding walk_end_def by (simp add: page_offset_def nat_add_distrib)
qed

text \<open>
  An address's page of transactions, merged from two index walks that are each cut at the page's
  end, is that page of all the transactions the address sent or received, newest first, one to
  itself once. It takes that no two of them share a block and a position in it.
\<close>

theorem get_address_transactions_page:
  assumes "distinct (map tx_newest (filter (\<lambda>(_, t). t_from_addr t = hex_blob address \<or> t_to_addr t = Some (hex_blob address)) (transactions db)))"
    and "page < 2 ^ 32" "per_page \<le> 2 ^ 30"
  shows "get_address_transactions keccak db address page per_page columns =
    map (read_tx keccak columns)
      (take per_page (drop ((page - 1) * per_page)
        (sort_key tx_newest (filter (\<lambda>(_, t). t_from_addr t = hex_blob address \<or> t_to_addr t = Some (hex_blob address)) (transactions db)))))"
  using merged_page [of tx_newest "\<lambda>(_, t). t_from_addr t = hex_blob address" "\<lambda>(_, t). t_to_addr t = Some (hex_blob address)"
      "transactions db" per_page "nat (page_offset page per_page)" "walk_end page per_page"]
    assms(1) walk_end_page [OF assms(2,3)]
  by (simp add: get_address_transactions_def Let_def paged_def case_prod_unfold page_of_def nat_page_offset)

lemma address_transfers_merged:
  assumes "distinct (map transfer_key (transfer_events db))" and "page < 2 ^ 32" "per_page \<le> 2 ^ 30"
  shows "get_address_transfers keccak db address page per_page =
    transfer_page keccak db (paged page per_page
      (sort_key transfer_newest (filter (\<lambda>e. e_from_addr e = hex_blob address \<or> e_to_addr e = hex_blob address) (transfer_events db))))"
proof -
  have "distinct (map transfer_newest (transfer_events db))"
    using assms(1) by (auto simp: distinct_map transfer_newest_def transfer_key_def inj_on_def)
  then have "distinct (map transfer_newest (filter (\<lambda>e. e_from_addr e = hex_blob address \<or> e_to_addr e = hex_blob address) (transfer_events db)))"
    by (rule distinct_map_filter)
  from merged_page [OF this, of "per_page" "nat (page_offset page per_page)" "walk_end page per_page"] show ?thesis
    using walk_end_page [OF assms(2,3)]
    by (simp add: get_address_transfers_def Let_def paged_def)
qed

text \<open>
  So is an address's page of transfers, and the database's own uniqueness of block and log index
  is all it takes.
\<close>

theorem get_address_transfers_page:
  assumes "distinct (map transfer_key (transfer_events db))" and "page < 2 ^ 32" "per_page \<le> 2 ^ 30"
  shows "get_address_transfers keccak db address page per_page =
    transfer_page keccak db
      (take per_page (drop ((page - 1) * per_page)
        (sort_key transfer_newest (filter (\<lambda>e. e_from_addr e = hex_blob address \<or> e_to_addr e = hex_blob address) (transfer_events db)))))"
  by (simp add: address_transfers_merged [OF assms] paged_def page_of_def nat_page_offset)

theorem get_address_transactions_page_witness:
  "get_address_transactions (\<lambda>_. []) empty_database ''0x01'' 1 25 Full =
    map (read_tx (\<lambda>_. []) Full) (take 25 (drop ((1 - 1) * 25) (sort_key tx_newest [])))"
  using get_address_transactions_page [of "''0x01''" empty_database 1 25 "\<lambda>_. []" Full] by (simp add: empty_database_def)

theorem get_address_transfers_page_witness:
  "\<exists>db. length (transfer_events db) = 2 \<and> get_address_transfers (\<lambda>_. []) db ''0xaa'' 1 25 =
    transfer_page (\<lambda>_. []) db (take 25 (drop ((1 - 1) * 25)
      (sort_key transfer_newest (filter (\<lambda>e. e_from_addr e = hex_blob ''0xaa'' \<or> e_to_addr e = hex_blob ''0xaa'') (transfer_events db)))))"
proof -
  let ?db = "empty_database\<lparr>transfer_events :=
      [stored_transfer 1 (sample_transfer 0 ''0x00'' ''0xaa'' ''5''), stored_transfer 2 (sample_transfer 1 ''0xaa'' ''0xbb'' ''2'')]\<rparr>"
  have "distinct (map transfer_key (transfer_events ?db))" by (simp add: transfer_key_def sample_transfer_def stored_transfer_def)
  from get_address_transfers_page [OF this, of 1 25 "\<lambda>_. []" "''0xaa''"] show ?thesis
    by (intro exI [of _ ?db]) simp
qed

lemma paged_subset: "set (paged page per_page rows) \<subseteq> set rows"
  by (auto simp: paged_def page_of_def dest: in_set_takeD in_set_dropD)

lemma sorted_wrt_paged: "sorted_wrt R rows \<Longrightarrow> sorted_wrt R (paged page per_page rows)"
  by (simp add: paged_def page_of_def sorted_wrt_take sorted_wrt_drop)

text \<open>
  The holders page is in numeric order though balances are text: every holder listed has a
  positive balance, spelled in decimal, none precedes a larger one, and the pages together list as
  many holders as the token's holder count.
\<close>

theorem get_token_holders_descending:
  assumes "balances_wf db"
  shows "sorted_wrt (\<lambda>a b. bigint (snd a) \<ge> bigint (snd b)) (get_token_holders keccak db token page per_page) \<and>
    (\<forall>(holder, balance)\<in>set (get_token_holders keccak db token page per_page).
       balance = dec_int (bigint balance) \<and> 0 < bigint balance) \<and>
    length (get_token_holders keccak db token page per_page) =
      min per_page (nat (get_token_holder_count db token) - (page - 1) * per_page)"
proof -
  let ?rows = "filter (\<lambda>(k, balance, _). fst k = hex_blob token \<and> holding balance) (token_balances db)"
  let ?desc = "rev (sort_key (\<lambda>(_, balance, _). by_length balance) ?rows)"
  have wf: "balance = dec_int (bigint balance) \<and> 0 < bigint balance" if "(k, balance, u) \<in> set ?rows" for k balance u
  proof -
    have "map_of (token_balances db) k = Some (balance, u)"
      using that assms by (auto simp: balances_wf_def unique_keys_def intro: map_of_is_SomeI)
    then have c: "canonical balance" using assms by (cases k) (auto simp: balances_wf_def)
    then have e: "balance = dec_int (bigint balance)" and nz: "bigint balance \<noteq> 0" using canonical_bigint by blast+
    have "holding balance" using that by simp
    then have "0 \<le> bigint balance" using e holding_dec_int by metis
    then show ?thesis using e nz by simp
  qed
  have le: "by_length b \<le> by_length b' \<Longrightarrow> bigint b \<le> bigint b'"
    if b: "b = dec_int (bigint b) \<and> 0 < bigint b" "b' = dec_int (bigint b') \<and> 0 < bigint b'" for b b'
  proof -
    assume "by_length b \<le> by_length b'"
    moreover have "b = dec_nat (nat (bigint b))" "b' = dec_nat (nat (bigint b'))"
      using b unfolding dec_int_def by (simp_all split: if_splits)
    ultimately have "nat (bigint b) \<le> nat (bigint b')" by (metis dec_nat_by_length)
    moreover have "0 < bigint b" using b(1) by (rule conjunct2)
    ultimately show "bigint b \<le> bigint b'" by arith
  qed
  have "sorted_wrt (\<lambda>a b. (case a of (_, balance, _) \<Rightarrow> by_length balance) \<le> (case b of (_, balance, _) \<Rightarrow> by_length balance))
      (sort_key (\<lambda>(_, balance, _). by_length balance) ?rows)"
    using sorted_sort_key [of "\<lambda>(_, balance, _). by_length balance" ?rows] by (simp add: sorted_map)
  then have "sorted_wrt (\<lambda>a b. bigint (fst (snd a)) \<le> bigint (fst (snd b)))
      (sort_key (\<lambda>(_, balance, _). by_length balance) ?rows)"
    by (rule sorted_wrt_mono_rel [rotated]) (use wf le in \<open>auto simp: case_prod_unfold simp del: set_filter\<close>)
  then have "sorted_wrt (\<lambda>a b. bigint (fst (snd b)) \<le> bigint (fst (snd a))) ?desc" by (simp add: sorted_wrt_rev)
  from sorted_wrt_paged [OF this, of page per_page]
  have 1: "sorted_wrt (\<lambda>a b. bigint (snd a) \<ge> bigint (snd b)) (get_token_holders keccak db token page per_page)"
    by (simp add: get_token_holders_def sorted_wrt_map case_prod_unfold)
  have 2: "balance = dec_int (bigint balance) \<and> 0 < bigint balance"
    if h: "(holder, balance) \<in> set (get_token_holders keccak db token page per_page)" for holder balance
  proof -
    obtain k u where "(k, balance, u) \<in> set (paged page per_page ?desc)"
      using h by (auto simp: get_token_holders_def)
    then have "(k, balance, u) \<in> set ?rows" using paged_subset [of page per_page ?desc] by auto
    then show ?thesis by (rule wf)
  qed
  have "length ?desc = count_holders db (hex_blob token)" by (simp add: count_holders_def count_rows_def)
  then have 3: "length (get_token_holders keccak db token page per_page) =
      min per_page (nat (get_token_holder_count db token) - (page - 1) * per_page)"
    by (simp add: get_token_holders_def paged_def page_of_def nat_page_offset get_token_holder_count_def min.commute)
  show ?thesis using 1 2 3 by auto
qed

theorem get_token_holders_descending_witness:
  "\<exists>db. token_balances db \<noteq> [] \<and>
     sorted_wrt (\<lambda>a b. bigint (snd a) \<ge> bigint (snd b)) (get_token_holders (\<lambda>_. []) db ''0xee'' 1 25)"
proof -
  let ?db = "empty_database\<lparr>token_balances := [((hex_blob ''0xee'', ''b''), dec_int 9, 0), ((hex_blob ''0xee'', ''c''), dec_int 10, 0)]\<rparr>"
  have "canonical (dec_int 9)" "canonical (dec_int 10)"
    unfolding canonical_def by (rule exI [of _ 9], simp) (rule exI [of _ 10], simp)
  then have "balances_wf ?db" by (auto simp: balances_wf_def unique_keys_def split: if_splits)
  from get_token_holders_descending [OF this, of "\<lambda>_. []" "''0xee''" 1 25] show ?thesis by (intro exI [of _ ?db]) simp
qed

section \<open>Searching and reading back\<close>

definition contains_ic :: "string \<Rightarrow> string \<Rightarrow> bool" where
  "contains_ic s q \<longleftrightarrow> (\<exists>a b c. s = a @ b @ c \<and> lower b = lower q)"

definition starts_ic :: "string \<Rightarrow> string \<Rightarrow> bool" where
  "starts_ic s q \<longleftrightarrow> (\<exists>b c. s = b @ c \<and> lower b = lower q)"

lemma like_escaped:
  "like CHR 0x5C (escape_like q @ ps) s \<longleftrightarrow> (\<exists>b r. s = b @ r \<and> lower b = lower q \<and> like CHR 0x5C ps r)"
proof (induction q arbitrary: s)
  case Nil
  then show ?case by (simp add: escape_like_def lower_def)
next
  case (Cons c q)
  have "like CHR 0x5C (escape_like (c # q) @ ps) s \<longleftrightarrow>
      (\<exists>d r. s = d # r \<and> lower_char d = lower_char c \<and> like CHR 0x5C (escape_like q @ ps) r)"
    by (cases s) (auto simp: escape_like_def)
  also have "\<dots> \<longleftrightarrow> (\<exists>d b r. s = d # b @ r \<and> lower_char d = lower_char c \<and> lower b = lower q \<and> like CHR 0x5C ps r)"
    unfolding Cons.IH by blast
  also have "\<dots> \<longleftrightarrow> (\<exists>b r. s = b @ r \<and> lower b = lower (c # q) \<and> like CHR 0x5C ps r)"
  proof
    assume "\<exists>d b r. s = d # b @ r \<and> lower_char d = lower_char c \<and> lower b = lower q \<and> like CHR 0x5C ps r"
    then obtain d b r where "s = d # b @ r" "lower_char d = lower_char c" "lower b = lower q" "like CHR 0x5C ps r" by blast
    then show "\<exists>b r. s = b @ r \<and> lower b = lower (c # q) \<and> like CHR 0x5C ps r"
      by (intro exI [of _ "d # b"] exI [of _ r]) (simp add: lower_def)
  next
    assume "\<exists>b r. s = b @ r \<and> lower b = lower (c # q) \<and> like CHR 0x5C ps r"
    then obtain b r where "s = b @ r" "lower b = lower (c # q)" "like CHR 0x5C ps r" by blast
    then show "\<exists>d b r. s = d # b @ r \<and> lower_char d = lower_char c \<and> lower b = lower q \<and> like CHR 0x5C ps r"
      by (cases b) (auto simp: lower_def)
  qed
  finally show ?case .
qed

lemma like_anything [simp]: "like esc ''%'' s"
  by (simp add: set_suffixes_eq)

text \<open>
  A typed search term is matched as itself: \<open>%\<close>, \<open>_\<close> and a backslash in it stand for
  those characters, and the two patterns bound to the query match exactly the names that contain
  the term, or start with it, in either case of its letters.
\<close>

theorem search_term_is_literal:
  assumes "search_term q = Some (exact, anywhere, starting)"
  shows "exact = q \<and> (like CHR 0x5C anywhere s \<longleftrightarrow> contains_ic s q) \<and> (like CHR 0x5C starting s \<longleftrightarrow> starts_ic s q)"
proof -
  have d: "exact = q" "anywhere = CHR ''%'' # escape_like q @ ''%''" "starting = escape_like q @ ''%''"
    using assms by (auto simp: search_term_def split: if_splits)
  have "like CHR 0x5C starting s \<longleftrightarrow> starts_ic s q"
    unfolding d like_escaped starts_ic_def by auto
  moreover have "like CHR 0x5C anywhere s \<longleftrightarrow> (\<exists>t. suffix t s \<and> like CHR 0x5C (escape_like q @ ''%'') t)"
    unfolding d by (simp add: set_suffixes_eq)
  moreover have "\<dots> \<longleftrightarrow> contains_ic s q"
    unfolding like_escaped contains_ic_def suffix_def by auto
  ultimately show ?thesis using d by simp
qed

theorem search_term_is_literal_witness:
  "search_term ''5%'' = Some (''5%'', [CHR ''%'', CHR ''5'', CHR 0x5C, CHR ''%'', CHR ''%''], [CHR ''5'', CHR 0x5C, CHR ''%'', CHR ''%'']) \<and>
   (like CHR 0x5C [CHR ''5'', CHR 0x5C, CHR ''%'', CHR ''%''] ''5% off'' \<longleftrightarrow> starts_ic ''5% off'' ''5%'')"
proof -
  have e: "search_term ''5%'' = Some (''5%'', [CHR ''%'', CHR ''5'', CHR 0x5C, CHR ''%'', CHR ''%''], [CHR ''5'', CHR 0x5C, CHR ''%'', CHR ''%''])"
    by (simp add: search_term_def escape_like_def)
  then show ?thesis using search_term_is_literal [OF e] by blast
qed

text \<open>
  What is written is read back: after a transaction is stored, reading its hash gives it field
  for field, except that a raw encoding, trace or receipt it does not carry, and the time it was
  first stored, are those stored before.
\<close>

theorem transaction_read_back:
  assumes "t_hash tx = blob_hex h" and "t_from_addr tx = blob_addr keccak source"
    and "t_to_addr tx = map_option (blob_addr keccak) target"
    and "t_contract_address tx = map_option (blob_addr keccak) contract"
    and "t_fee_token tx = map_option (blob_addr keccak) fee" and "t_raw tx = map_option blob_hex raw"
  shows "get_transaction keccak (upsert_transaction tx db) (t_hash tx) =
    Some (case get_transaction keccak db (t_hash tx) of
            None \<Rightarrow> tx
          | Some old \<Rightarrow> tx\<lparr>t_raw := or_else (t_raw tx) (t_raw old), t_trace_data := or_else (t_trace_data tx) (t_trace_data old),
              t_receipt_data := or_else (t_receipt_data tx) (t_receipt_data old), t_created_at := t_created_at old\<rparr>)"
proof -
  have opt: "map_option hex_blob (map_option (blob_addr keccak) x) = x" "map_option hex_blob (map_option blob_hex x) = x" for x
    by (cases x; simp)+
  have stored: "stored_transaction tx = tx\<lparr>t_hash := h, t_from_addr := source, t_to_addr := target, t_contract_address := contract,
      t_fee_token := fee, t_raw := raw\<rparr>"
    unfolding stored_transaction_def assms opt by simp
  have again: "row_to_tx keccak (stored_transaction tx) = tx"
    unfolding stored row_to_tx_def using assms by (cases tx) simp
  show ?thesis
  proof (cases "map_of (transactions db) h")
    case None
    then show ?thesis using again
      by (simp add: get_transaction_def upsert_transaction_def Let_def assms(1) stored map_of_update)
  next
    case (Some old)
    have k: "t_hash (stored_transaction tx) = h" by (simp add: stored)
    have "row_to_tx keccak (merge_transaction old (stored_transaction tx)) =
        tx\<lparr>t_raw := or_else (t_raw tx) (map_option blob_hex (t_raw old)), t_trace_data := or_else (t_trace_data tx) (t_trace_data old),
              t_receipt_data := or_else (t_receipt_data tx) (t_receipt_data old), t_created_at := t_created_at old\<rparr>"
      unfolding stored merge_transaction_def row_to_tx_def using assms by (cases tx; cases raw) auto
    then show ?thesis using Some k
      by (simp add: get_transaction_def upsert_transaction_def Let_def assms(1) map_of_update) (simp add: row_to_tx_def)
  qed
qed

theorem transaction_read_back_witness:
  "get_transaction (\<lambda>_. []) (upsert_transaction ((sample_tx 9 (blob_hex ''h''))\<lparr>t_from_addr := blob_addr (\<lambda>_. []) ''f'', t_to_addr := None\<rparr>) empty_database) (blob_hex ''h'') =
     Some ((sample_tx 9 (blob_hex ''h''))\<lparr>t_from_addr := blob_addr (\<lambda>_. []) ''f'', t_to_addr := None\<rparr>)"
  using transaction_read_back [of "(sample_tx 9 (blob_hex ''h''))\<lparr>t_from_addr := blob_addr (\<lambda>_. []) ''f'', t_to_addr := None\<rparr>"
      "''h''" "\<lambda>_. []" "''f''" None None None None empty_database]
  by (simp add: sample_tx_def get_transaction_def empty_database_def)

end
