(* ===== verification/Decoder.thy ===== *)
theory Decoder
  imports Address Rpc "HOL-Library.Monad_Syntax"
begin

section \<open>Decoding calls, reverts, events and traces (\<open>src/decoder.rs\<close>)\<close>

text \<open>
  The ABI definitions come from the chain's bindings and the vendored ABIs, and the codec is the
  \<open>ethers\<close> library's: both are parameters. What the source does with them is modelled: how the
  registry is built, which definition a selector names, how a value is shown, and how a trace
  becomes a list. A node sends hexadecimal where the source cuts a text at a byte, so that a byte
  is a character there.
\<close>

unbundle bit_operations_syntax

subsection \<open>The library's types\<close>

datatype param_type =
    Address_Type | Bool_Type | String_Type | Bytes_Type
  | Uint_Type nat | Int_Type nat | Fixed_Bytes_Type nat
  | Array_Type param_type | Fixed_Array_Type param_type nat | Tuple_Type "param_type list"

datatype token =
    Address_Token bytes | Bool_Token bool | String_Token string | Bytes_Token bytes
  | Uint_Token nat | Int_Token nat | Fixed_Bytes_Token bytes
  | Array_Token "token list" | Fixed_Array_Token "token list" | Tuple_Token "token list"

record abi_param =
  p_name :: string
  p_kind :: param_type
  p_indexed :: bool

record abi_item =
  item_name :: string
  item_inputs :: "abi_param list"
  item_anonymous :: bool

record abi_contract =
  functions_of :: "abi_item list"
  events_of :: "abi_item list"
  errors_of :: "abi_item list"

record codec =
  abi_decode :: "param_type list \<Rightarrow> bytes \<Rightarrow> token list option"
  parse_log :: "abi_item \<Rightarrow> bytes list \<Rightarrow> bytes \<Rightarrow> token list option"
  type_text :: "param_type \<Rightarrow> string"
  token_text :: "token \<Rightarrow> string"
  parse_type :: "string \<Rightarrow> param_type option"
  parse_function :: "string \<Rightarrow> abi_item option"

fun join :: "string \<Rightarrow> string list \<Rightarrow> string" where
  "join sep [] = []"
| "join sep [x] = x"
| "join sep (x # xs) = x @ sep @ join sep xs"

subsection \<open>The registry\<close>

definition signature_of :: "codec \<Rightarrow> abi_item \<Rightarrow> string" where
  "signature_of lib i = item_name i @ ''('' @ join '','' (map (type_text lib \<circ> p_kind) (item_inputs i)) @ '')''"

definition selector_of :: "keccak \<Rightarrow> string \<Rightarrow> bytes" where
  "selector_of keccak signature = take 4 (keccak signature)"

record registry =
  reg_contracts :: "(string \<times> abi_contract) list"
  reg_functions :: "(bytes \<times> abi_item) list"
  reg_events :: "(bytes \<times> abi_item) list"
  reg_errors :: "(bytes \<times> abi_item) list"

text \<open>\<open>entry(k).or_insert(v)\<close>: what is there stays.\<close>

definition or_insert :: "'k \<Rightarrow> 'v \<Rightarrow> ('k \<times> 'v) list \<Rightarrow> ('k \<times> 'v) list" where
  "or_insert k v m = (if map_of m k = None then (k, v) # m else m)"

definition register :: "keccak \<Rightarrow> codec \<Rightarrow> string \<times> abi_contract \<Rightarrow> registry \<Rightarrow> registry" where
  "register keccak lib c r =
     (let fs = fold (\<lambda>f. or_insert (selector_of keccak (signature_of lib f)) f) (functions_of (snd c)) (reg_functions r);
          es = fold (\<lambda>e. or_insert (keccak (signature_of lib e)) e)
                 (filter (\<lambda>e. \<not> item_anonymous e) (events_of (snd c))) (reg_events r);
          xs = fold (\<lambda>x. or_insert (selector_of keccak (signature_of lib x)) x) (errors_of (snd c)) (reg_errors r)
      in \<lparr> reg_contracts = reg_contracts r @ [c], reg_functions = fs, reg_events = es, reg_errors = xs \<rparr>)"

definition build_registry :: "keccak \<Rightarrow> codec \<Rightarrow> (string \<times> abi_contract) list \<Rightarrow> registry" where
  "build_registry keccak lib parsed =
     fold (register keccak lib) parsed \<lparr> reg_contracts = [], reg_functions = [], reg_events = [], reg_errors = [] \<rparr>"

definition registry_contract :: "registry \<Rightarrow> string \<Rightarrow> abi_contract option" where
  "registry_contract r name = map_of (reg_contracts r) name"

subsection \<open>Values\<close>

record decoded_param =
  dp_ty :: string
  dp_name :: string
  dp_value :: string
  dp_indexed :: bool

record decoded_call =
  dc_name :: "string option"
  dc_signature :: "string option"
  dc_params :: "decoded_param list"
  dc_selector :: string
  dc_raw_args :: string

record decoded_event =
  de_name :: "string option"
  de_signature :: "string option"
  de_contract :: string
  de_params :: "decoded_param list"
  de_topic0 :: string
  de_log_index :: "string option"
  de_transaction_hash :: "string option"

record decoded_error =
  dx_name :: string
  dx_signature :: string
  dx_params :: "decoded_param list"
  dx_selector :: string

definition event_param :: "decoded_event \<Rightarrow> string \<Rightarrow> string option" where
  "event_param e name = map_option dp_value (List.find (\<lambda>p. dp_name p = name) (de_params e))"

definition hex_bytes :: "bytes \<Rightarrow> string" where
  "hex_bytes bs = ''0x'' @ hex_encode bs"

text \<open>
  A signed value of a declared width: \<open>U256\<close> arithmetic, masked to the width, then read as two's
  complement.
\<close>

definition format_int :: "nat \<Rightarrow> nat \<Rightarrow> string" where
  "format_int bits n =
     (let mask = drop_bit (256 - bits) (2 ^ 256 - 1 :: int);
          m = int n AND mask;
          sign_bit = push_bit (bits - 1) 1
      in if m < sign_bit then dec_nat (nat m) else ''-'' @ dec_nat (nat ((m XOR mask) + 1)))"

function format_token :: "keccak \<Rightarrow> codec \<Rightarrow> param_type \<Rightarrow> token \<Rightarrow> string" where
  "format_token keccak lib ty tok =
     (case tok of
        Address_Token a \<Rightarrow> (case ty of Address_Type \<Rightarrow> checksum_address keccak (hex_encode a) | _ \<Rightarrow> token_text lib tok)
      | Bool_Token b \<Rightarrow> (case ty of Bool_Type \<Rightarrow> (if b then ''true'' else ''false'') | _ \<Rightarrow> token_text lib tok)
      | Uint_Token n \<Rightarrow> (case ty of Uint_Type _ \<Rightarrow> dec_nat n | _ \<Rightarrow> token_text lib tok)
      | Int_Token n \<Rightarrow> (case ty of Int_Type bits \<Rightarrow> format_int bits n | _ \<Rightarrow> token_text lib tok)
      | Fixed_Bytes_Token bs \<Rightarrow> (case ty of Fixed_Bytes_Type _ \<Rightarrow> hex_bytes bs | _ \<Rightarrow> token_text lib tok)
      | Bytes_Token bs \<Rightarrow> (case ty of Bytes_Type \<Rightarrow> hex_bytes bs | _ \<Rightarrow> token_text lib tok)
      | String_Token t \<Rightarrow> (case ty of String_Type \<Rightarrow> t | _ \<Rightarrow> token_text lib tok)
      | Array_Token items \<Rightarrow>
          (case ty of
             Array_Type elem \<Rightarrow> ''['' @ join '', '' (map (format_token keccak lib elem) items) @ '']''
           | _ \<Rightarrow> token_text lib tok)
      | Fixed_Array_Token items \<Rightarrow>
          (case ty of
             Fixed_Array_Type elem _ \<Rightarrow> ''['' @ join '', '' (map (format_token keccak lib elem) items) @ '']''
           | _ \<Rightarrow> token_text lib tok)
      | Tuple_Token items \<Rightarrow>
          (case ty of
             Tuple_Type types \<Rightarrow>
               ''('' @ join '', '' (map (\<lambda>p. format_token keccak lib (fst p) (snd p)) (zip types items)) @ '')''
           | _ \<Rightarrow> token_text lib tok))"
  by pat_completeness auto
termination
proof (relation "measure (\<lambda>(_, _, _, tok). size tok)")
  have m: "x \<in> set items \<Longrightarrow> size x < Suc (size_list size items)" for x :: token and items
    using size_list_estimation' [of x items "size x" size] by simp
  show "((keccak, lib, elem, x), keccak, lib, ty, tok) \<in> measure (\<lambda>(_, _, _, tok). size tok)"
    if "tok = Array_Token items" "x \<in> set items" for keccak :: keccak and lib :: codec and ty elem tok items x
    using that m by simp
  show "((keccak, lib, elem, x), keccak, lib, ty, tok) \<in> measure (\<lambda>(_, _, _, tok). size tok)"
    if "tok = Fixed_Array_Token items" "x \<in> set items" for keccak :: keccak and lib :: codec and ty elem tok items x
    using that m by simp
  show "((keccak, lib, fst p, snd p), keccak, lib, ty, tok) \<in> measure (\<lambda>(_, _, _, tok). size tok)"
    if "tok = Tuple_Token items" "p \<in> set (zip types items)" for keccak :: keccak and lib :: codec and ty tok items types p
    using that m [of "snd p" items] by (cases p) (auto dest: set_zip_rightD)
qed simp

declare format_token.simps [simp del]

definition decode_abi_args :: "keccak \<Rightarrow> codec \<Rightarrow> string list \<Rightarrow> bytes \<Rightarrow> string list" where
  "decode_abi_args keccak lib types data =
     (let params = List.map_filter (parse_type lib) types in
      if length params \<noteq> length types then []
      else case abi_decode lib params data of
             Some tokens \<Rightarrow> map (\<lambda>(ty, tok). format_token keccak lib ty tok) (zip params tokens)
           | None \<Rightarrow> [])"

definition param_name :: "string \<Rightarrow> nat \<Rightarrow> string" where
  "param_name name position = (if name = [] then ''arg'' @ dec_nat position else name)"

definition decoded_params :: "keccak \<Rightarrow> codec \<Rightarrow> abi_param list \<Rightarrow> bytes \<Rightarrow> decoded_param list" where
  "decoded_params keccak lib inputs data =
     (let tokens = unwrap_or [] (abi_decode lib (map p_kind inputs) data)
      in map (\<lambda>(i, p).
            \<lparr> dp_ty = type_text lib (p_kind p), dp_name = param_name (p_name p) i,
              dp_value = (if i < length tokens then format_token keccak lib (p_kind p) (tokens ! i) else []),
              dp_indexed = False \<rparr>) (enumerate 0 inputs))"

subsection \<open>Calls and reverts\<close>

definition split_calldata :: "string \<Rightarrow> (bytes \<times> bytes) option" where
  "split_calldata data =
     (let data = strip_0x data in
      if data = [] then None
      else case hex_decode data of
             None \<Rightarrow> None
           | Some raw \<Rightarrow> if length raw < 4 then None else Some (take 4 raw, drop 4 raw))"

definition decode_function_call :: "keccak \<Rightarrow> codec \<Rightarrow> registry \<Rightarrow> string \<Rightarrow> decoded_call option" where
  "decode_function_call keccak lib reg data =
     (case split_calldata data of
        None \<Rightarrow> None
      | Some (sel, args) \<Rightarrow>
          (let (name, sig, params) =
             (case map_of (reg_functions reg) sel of
                Some f \<Rightarrow> (Some (item_name f), Some (signature_of lib f), decoded_params keccak lib (item_inputs f) args)
              | None \<Rightarrow> (None, None, []))
           in Some \<lparr> dc_name = name, dc_signature = sig, dc_params = params, dc_selector = hex_bytes sel,
                     dc_raw_args = hex_bytes args \<rparr>))"

definition function_name :: "registry \<Rightarrow> string \<Rightarrow> string option" where
  "function_name reg data =
     (let s = strip_0x data in
      if length s < 8 then None
      else case hex_decode (take 8 s) of
             None \<Rightarrow> None
           | Some sel \<Rightarrow>
               Some (case map_of (reg_functions reg) sel of
                       Some f \<Rightarrow> item_name f
                     | None \<Rightarrow> hex_bytes sel))"

text \<open>\<open>signatures::hashes_to\<close>\<close>

definition hashes_to :: "keccak \<Rightarrow> string \<Rightarrow> string \<Rightarrow> bool" where
  "hashes_to keccak signature selector \<longleftrightarrow>
     hex_encode (take 4 (keccak signature)) = lower (strip_0x selector)"

definition decode_with_signature :: "keccak \<Rightarrow> codec \<Rightarrow> string \<Rightarrow> string \<Rightarrow> decoded_call option" where
  "decode_with_signature keccak lib data signature =
     (case split_calldata data of
        None \<Rightarrow> None
      | Some (sel, args) \<Rightarrow>
          if \<not> hashes_to keccak signature (hex_encode sel) then None
          else (case parse_function lib signature of
                  None \<Rightarrow> None
                | Some f \<Rightarrow> Some \<lparr> dc_name = Some (item_name f), dc_signature = Some (signature_of lib f),
                    dc_params = decoded_params keccak lib (item_inputs f) args, dc_selector = hex_bytes sel,
                    dc_raw_args = hex_bytes args \<rparr>))"

definition decode_revert :: "keccak \<Rightarrow> codec \<Rightarrow> registry \<Rightarrow> string \<Rightarrow> decoded_error option" where
  "decode_revert keccak lib reg data =
     do {
       (sel, args) \<leftarrow> split_calldata data;
       e \<leftarrow> map_of (reg_errors reg) sel;
       Some \<lparr> dx_name = item_name e, dx_signature = signature_of lib e,
              dx_params = decoded_params keccak lib (item_inputs e) args, dx_selector = hex_bytes sel \<rparr>
     }"

definition call_form :: "decoded_error \<Rightarrow> string" where
  "call_form e = dx_name e @ ''('' @ join '', '' (map dp_value (dx_params e)) @ '')''"

definition error_reason :: "decoded_error \<Rightarrow> string option" where
  "error_reason e =
     (if dx_name e \<noteq> ''Error'' then None
      else (case dx_params e of [] \<Rightarrow> None | p # _ \<Rightarrow> Some (dp_value p)))"

text \<open>\<open>str::find\<close>\<close>

fun find_sub :: "string \<Rightarrow> string \<Rightarrow> nat option" where
  "find_sub pat [] = (if pat = [] then Some 0 else None)"
| "find_sub pat (c # s) = (if starts_with pat (c # s) then Some 0 else map_option Suc (find_sub pat s))"

definition revert_data_in :: "string \<Rightarrow> string option" where
  "revert_data_in message =
     (case find_sub ''0x'' message of
        None \<Rightarrow> None
      | Some start \<Rightarrow>
          (let hex = ''0x'' @ takeWhile is_hex_digit (drop (start + 2) message)
           in if 10 \<le> length hex then Some hex else None))"

subsection \<open>Events\<close>

definition transfer_topic :: "keccak \<Rightarrow> string" where
  "transfer_topic keccak = keccak_hex keccak ''Transfer(address,address,uint256)''"

definition transfer_with_memo_topic :: "keccak \<Rightarrow> string" where
  "transfer_with_memo_topic keccak = keccak_hex keccak ''TransferWithMemo(address,address,uint256,bytes32)''"

definition is_dynamic :: "param_type \<Rightarrow> bool" where
  "is_dynamic kind \<longleftrightarrow>
     (case kind of
        String_Type \<Rightarrow> True | Bytes_Type \<Rightarrow> True | Array_Type _ \<Rightarrow> True | Fixed_Array_Type _ _ \<Rightarrow> True
      | Tuple_Type _ \<Rightarrow> True | _ \<Rightarrow> False)"

definition format_log_token :: "keccak \<Rightarrow> codec \<Rightarrow> param_type \<Rightarrow> bool \<Rightarrow> token \<Rightarrow> string" where
  "format_log_token keccak lib kind indexed tok =
     (case (indexed \<and> is_dynamic kind, tok) of
        (True, Fixed_Bytes_Token bs) \<Rightarrow> hex_bytes bs
      | _ \<Rightarrow> format_token keccak lib kind tok)"

definition topic_bytes :: "json \<Rightarrow> bytes option" where
  "topic_bytes v =
     opt_filter (\<lambda>b. length b = 32) (Option.bind (as_str v) (\<lambda>t. hex_decode (strip_0x t)))"

definition decode_log_params :: "keccak \<Rightarrow> codec \<Rightarrow> abi_item \<Rightarrow> json list \<Rightarrow> string \<Rightarrow> decoded_param list option" where
  "decode_log_params keccak lib event topics data =
     do {
       bytes \<leftarrow> hex_decode (strip_0x data);
       values \<leftarrow> parse_log lib event (List.map_filter topic_bytes topics) bytes;
       Some (map (\<lambda>((i, input), v).
               \<lparr> dp_ty = type_text lib (p_kind input), dp_name = param_name (p_name input) i,
                 dp_value = format_log_token keccak lib (p_kind input) (p_indexed input) v,
                 dp_indexed = p_indexed input \<rparr>) (zip (enumerate 0 (item_inputs event)) values))
     }"

definition decode_event :: "keccak \<Rightarrow> codec \<Rightarrow> registry \<Rightarrow> json \<Rightarrow> decoded_event option" where
  "decode_event keccak lib reg log =
     (case get_array ''topics'' log of
        None \<Rightarrow> None
      | Some topics \<Rightarrow>
          if topics = [] then None
          else
            (let topic0 = unwrap_or [] (as_str (topics ! 0));
                 contract = unwrap_or [] (get_str ''address'' log);
                 log_index = get_str ''logIndex'' log;
                 transaction_hash = get_str ''transactionHash'' log;
                 data = unwrap_or ''0x'' (get_str ''data'' log);
                 known = Option.bind (opt_filter (\<lambda>b. length b = 32) (hex_decode (strip_0x topic0))) (map_of (reg_events reg))
             in case known of
                  Some event \<Rightarrow>
                    Some \<lparr> de_name = Some (item_name event), de_signature = Some (signature_of lib event),
                           de_contract = contract,
                           de_params = unwrap_or [] (decode_log_params keccak lib event topics data),
                           de_topic0 = topic0, de_log_index = log_index, de_transaction_hash = transaction_hash \<rparr>
                | None \<Rightarrow>
                    Some \<lparr> de_name = None, de_signature = None, de_contract = contract,
                           de_params = [\<lparr> dp_ty = ''bytes'', dp_name = ''data'',
                              dp_value = (if length data > 200 then take 200 data @ ''...'' else data), dp_indexed = False \<rparr>],
                           de_topic0 = topic0, de_log_index = log_index, de_transaction_hash = transaction_hash \<rparr>))"

subsection \<open>Traces\<close>

definition json_nat :: "nat \<Rightarrow> json" where
  "json_nat n = JNum (PosInt n)"

definition param_json :: "decoded_param \<Rightarrow> json" where
  "param_json p = JObj [(''type'', JStr (dp_ty p)), (''name'', JStr (dp_name p)), (''value'', JStr (dp_value p)), (''indexed'', JBool (dp_indexed p))]"

definition call_json :: "decoded_call \<Rightarrow> json" where
  "call_json d = JObj [(''name'', json_opt (dc_name d)), (''signature'', json_opt (dc_signature d)),
     (''params'', JArr (map param_json (dc_params d))), (''selector'', JStr (dc_selector d)), (''raw_args'', JStr (dc_raw_args d))]"

definition decoded_json :: "decoded_call option \<Rightarrow> json" where
  "decoded_json d = (case d of Some c \<Rightarrow> call_json c | None \<Rightarrow> JNull)"

definition flat_node :: "keccak \<Rightarrow> codec \<Rightarrow> registry \<Rightarrow> json \<Rightarrow> nat \<Rightarrow> json" where
  "flat_node keccak lib reg node depth =
     (let input = unwrap_or ''0x'' (get_str ''input'' node);
          kind = unwrap_or ''CALL'' (get_str ''type'' node);
          decoded = (if starts_with ''CREATE'' kind then None else decode_function_call keccak lib reg input);
          err = opt_filter (\<lambda>s. s \<noteq> []) (Option.bind (or_else (jget ''error'' node) (jget ''revertReason'' node)) as_str);
          flat = JObj [(''depth'', json_nat depth), (''type'', JStr kind),
            (''from'', JStr (unwrap_or [] (get_str ''from'' node))), (''to'', JStr (unwrap_or [] (get_str ''to'' node))),
            (''data'', JStr input), (''output'', JStr (unwrap_or [] (get_str ''output'' node))),
            (''value'', JStr (decimal_amount (jidx ''value'' node))), (''gas'', JStr (decimal_amount (jidx ''gas'' node))),
            (''gas_used'', JStr (decimal_amount (jidx ''gasUsed'' node))), (''decoded'', decoded_json decoded),
            (''children'', JArr [])]
      in case err of
           Some e \<Rightarrow> jset ''error'' (JStr e) (jset ''status'' (JStr ''failed'') flat)
         | None \<Rightarrow> jset ''status'' (JStr ''success'') flat)"

definition trace_children :: "json \<Rightarrow> json list" where
  "trace_children node = unwrap_or [] (Option.bind (or_else (jget ''calls'' node) (jget ''children'' node)) as_array)"

lemma trace_children_weight: "sum_list (map (Suc \<circ> size) (trace_children node)) \<le> size node"
proof (cases "trace_children node = []")
  case False
  obtain k v where k: "jget k node = Some v" and v: "as_array v = Some (trace_children node)"
  proof -
    obtain v where "or_else (jget ''calls'' node) (jget ''children'' node) = Some v" "as_array v = Some (trace_children node)"
      using False by (cases "or_else (jget ''calls'' node) (jget ''children'' node)"; cases "Option.bind (or_else (jget ''calls'' node) (jget ''children'' node)) as_array")
        (auto simp: trace_children_def)
    then show ?thesis using that by (auto simp: or_else_def split: option.splits)
  qed
  obtain fields where node: "node = JObj fields" using k by (auto simp: jget_def split: json.splits)
  then have "(k, v) \<in> set fields" using k by (auto simp: jget_def dest: map_of_SomeD)
  then have "Suc (size v) \<le> size_list (\<lambda>x. Suc (size (snd x))) fields"
    by (rule size_list_estimation') simp
  then have "size v < size node" by (simp add: node size_prod_simp)
  moreover have "sum_list (map (Suc \<circ> size) xs) = size_list size xs" for xs :: "json list"
    by (induction xs) auto
  ultimately show ?thesis using v by (auto simp: as_array_def split: json.splits)
qed simp

text \<open>
  \<open>walk_trace\<close>, which appends to the list it is given: the node, then each child after the index it
  will have is noted, then the node's \<open>children\<close> are set.
\<close>

function walk_trace :: "keccak \<Rightarrow> codec \<Rightarrow> registry \<Rightarrow> json \<Rightarrow> nat \<Rightarrow> json list \<Rightarrow> json list"
  and walk_children :: "keccak \<Rightarrow> codec \<Rightarrow> registry \<Rightarrow> json list \<Rightarrow> nat \<Rightarrow> json list \<Rightarrow> nat list \<times> json list" where
  "walk_trace keccak lib reg node depth result =
     (let idx = length result;
          (indices, result') = walk_children keccak lib reg (trace_children node) (depth + 1)
             (result @ [flat_node keccak lib reg node depth])
      in result'[idx := jset ''children'' (JArr (map json_nat indices)) (result' ! idx)])"
| "walk_children keccak lib reg [] depth result = ([], result)"
| "walk_children keccak lib reg (c # cs) depth result =
     (let (indices, result') = walk_children keccak lib reg cs depth (walk_trace keccak lib reg c depth result)
      in (length result # indices, result'))"
  by pat_completeness auto
termination
proof (relation "measure (\<lambda>x. case x of Inl (_, _, _, node, _, _) \<Rightarrow> 2 * Suc (size node)
    | Inr (_, _, _, cs, _, _) \<Rightarrow> Suc (2 * sum_list (map (Suc \<circ> size) cs)))")
qed (auto simp: less_Suc_eq_le trace_children_weight)

declare walk_trace.simps [simp del]

definition flatten_trace :: "keccak \<Rightarrow> codec \<Rightarrow> registry \<Rightarrow> json \<Rightarrow> json list" where
  "flatten_trace keccak lib reg trace =
     (case trace of
        JArr nodes \<Rightarrow> fold (\<lambda>node. walk_trace keccak lib reg node 0) nodes []
      | JObj _ \<Rightarrow> walk_trace keccak lib reg trace 0 []
      | _ \<Rightarrow> [])"

subsection \<open>Balance changes and calls\<close>

definition FEE_MANAGER_ADDRESS :: string where
  "FEE_MANAGER_ADDRESS = ''0xfeEC000000000000000000000000000000000000''"

definition change_json :: "string \<Rightarrow> string \<Rightarrow> string \<Rightarrow> json" where
  "change_json address token change =
     JObj [(''address'', JStr address), (''token'', JStr token), (''change'', JStr change), (''is_fee'', JBool False)]"

definition transfer_changes :: "keccak \<Rightarrow> codec \<Rightarrow> registry \<Rightarrow> json \<Rightarrow> json list" where
  "transfer_changes keccak lib reg log =
     (case decode_event keccak lib reg log of
        None \<Rightarrow> []
      | Some d \<Rightarrow>
          if de_name d = Some ''Transfer'' then
            (let token = checksum_address keccak (unwrap_or [] (get_str ''address'' log));
                 amount = unwrap_or [] (event_param d ''amount'')
             in [change_json (unwrap_or [] (event_param d ''from'')) token (''-'' @ amount),
                 change_json (unwrap_or [] (event_param d ''to'')) token (''+'' @ amount)])
          else [])"

definition change_is :: "json \<Rightarrow> string \<Rightarrow> string \<Rightarrow> bool" where
  "change_is c key want \<longleftrightarrow> (case get_str key c of Some got \<Rightarrow> eq_ic got want | None \<Rightarrow> False)"

definition mark_fee :: "string \<Rightarrow> json \<Rightarrow> json" where
  "mark_fee fee_token c =
     (if change_is c ''address'' FEE_MANAGER_ADDRESS \<and> change_is c ''token'' fee_token
      then jset ''change_type'' (JStr ''fee'') (jset ''is_fee'' (JBool True) c) else c)"

definition fee_positive :: "transaction \<Rightarrow> bool" where
  "fee_positive tx \<longleftrightarrow> (case parse_i64 (t_fee_amount tx) of Some n \<Rightarrow> n > 0 | None \<Rightarrow> False)"

definition extract_balance_changes :: "keccak \<Rightarrow> codec \<Rightarrow> registry \<Rightarrow> json \<Rightarrow> transaction \<Rightarrow> json list" where
  "extract_balance_changes keccak lib reg receipt tx =
     (let changes = concat (map (transfer_changes keccak lib reg) (unwrap_or [] (get_array ''logs'' receipt)))
      in case t_fee_token tx of
           Some fee_token \<Rightarrow> if fee_positive tx then map (mark_fee fee_token) changes else changes
         | None \<Rightarrow> changes)"

definition extract_calls :: "keccak \<Rightarrow> codec \<Rightarrow> registry \<Rightarrow> transaction \<Rightarrow> json list \<Rightarrow> json list \<Rightarrow> json list" where
  "extract_calls keccak lib reg tx parsed_calls trace =
     (if trace \<noteq> [] then trace
      else map (\<lambda>call0.
             let call = jset ''from'' (JStr (t_from_addr tx)) call0;
                 data = unwrap_or ''0x'' (get_str ''data'' call)
             in jset ''decoded'' (decoded_json (decode_function_call keccak lib reg data)) call) parsed_calls)"

text \<open>A codec that decodes nothing and a registry with no names, to try things on.\<close>

definition silent_codec :: codec where
  "silent_codec = \<lparr>abi_decode = (\<lambda>_ _. None), parse_log = (\<lambda>_ _ _. None), type_text = (\<lambda>_. []), token_text = (\<lambda>_. []),
     parse_type = (\<lambda>_. None), parse_function = (\<lambda>_. None)\<rparr>"

definition unnamed :: registry where
  "unnamed = \<lparr>reg_contracts = [], reg_functions = [], reg_events = [], reg_errors = []\<rparr>"

section \<open>What decoding gives\<close>

subsection \<open>Signed values\<close>

lemma mask_of_width: "bits \<le> 256 \<Longrightarrow> drop_bit (256 - bits) (2 ^ 256 - 1 :: int) = mask bits"
  unfolding mask_eq_exp_minus_1 [symmetric] drop_bit_mask_eq by simp

lemma xor_mask: "take_bit n a XOR mask n = mask n - take_bit n (a :: int)"
proof -
  have "take_bit n a XOR mask n = take_bit n (NOT a)" by (rule bit_eqI) (auto simp: bit_simps)
  then show ?thesis by (simp only: take_bit_not_eq_mask_diff)
qed

text \<open>
  A signed argument of any width is shown as the number it encodes: for every value of the width,
  in the chain's sign-extended encoding, the text is that value in decimal.
\<close>

theorem format_int_signed:
  assumes "0 < bits" "bits \<le> 256" and "- (2 ^ (bits - 1)) \<le> i" "i < 2 ^ (bits - 1)"
  shows "format_int bits (nat (i mod 2 ^ 256)) = dec_int i"
proof -
  have half: "(2::int) ^ bits = 2 * 2 ^ (bits - 1)" using assms(1) by (cases bits) auto
  have "int (nat (i mod 2 ^ 256)) AND drop_bit (256 - bits) (2 ^ 256 - 1) = take_bit bits (i mod 2 ^ 256)"
    unfolding mask_of_width [OF assms(2)] by (simp add: take_bit_eq_mask)
  also have "\<dots> = i mod 2 ^ bits"
    unfolding take_bit_eq_mod using assms(2) by (intro mod_mod_cancel le_imp_power_dvd)
  finally have m: "int (nat (i mod 2 ^ 256)) AND drop_bit (256 - bits) (2 ^ 256 - 1) = i mod 2 ^ bits" .
  show ?thesis
  proof (cases "0 \<le> i")
    case True
    then have "i mod 2 ^ bits = i" using assms(4) half by simp
    then show ?thesis unfolding format_int_def Let_def m using True assms(4)
      by (simp add: push_bit_eq_mult dec_int_def)
  next
    case False
    have "(i + 2 ^ bits) mod 2 ^ bits = i + 2 ^ bits" using False assms(3) half by (intro mod_pos_pos_trivial) auto
    then have mm: "i mod 2 ^ bits = i + 2 ^ bits" by simp
    have "take_bit bits i XOR mask bits = mask bits - take_bit bits i" by (rule xor_mask)
    then have x: "(i mod 2 ^ bits XOR mask bits) + 1 = - i"
      unfolding take_bit_eq_mod mm mask_eq_exp_minus_1 by simp
    have "\<not> i mod 2 ^ bits < push_bit (bits - 1) 1"
      unfolding mm push_bit_eq_mult using assms(3) half by simp
    then have "\<not> (i mod 2 ^ bits < push_bit (bits - 1) 1)" .
    then show ?thesis unfolding format_int_def Let_def m unfolding mask_of_width [OF assms(2)] x
      using False by (simp add: dec_int_def)
  qed
qed

theorem format_int_signed_witness: "format_int 8 (nat ((-2) mod 2 ^ 256)) = ''-2''"
  using format_int_signed [of 8 "-2"] by (simp add: dec_int_def radix_nat.simps digit_char_def char_of_eq_iff)

subsection \<open>Registration\<close>

lemma or_insert_keeps: "map_of m k = Some v \<Longrightarrow> map_of (or_insert k' v' m) k = Some v"
  by (auto simp: or_insert_def)

lemma or_inserts_keep: "map_of m k = Some v \<Longrightarrow> map_of (fold (\<lambda>x. or_insert (key x) x) xs m) k = Some v"
  by (induction xs arbitrary: m) (auto intro: or_insert_keeps)

lemma or_inserts_find:
  "map_of (fold (\<lambda>x. or_insert (key x) x) xs m) k =
     (case map_of m k of Some v \<Rightarrow> Some v | None \<Rightarrow> List.find (\<lambda>x. key x = k) xs)"
proof (induction xs arbitrary: m)
  case (Cons x xs)
  show ?case unfolding fold_Cons comp_def Cons.IH by (auto simp: or_insert_def split: option.splits)
qed (auto split: option.split)

lemma find_append: "List.find P (xs @ ys) = (case List.find P xs of Some v \<Rightarrow> Some v | None \<Rightarrow> List.find P ys)"
  by (induction xs) auto

lemma registered_functions:
  "map_of (reg_functions (fold (register keccak lib) parsed r)) sel =
     (case map_of (reg_functions r) sel of
        Some f \<Rightarrow> Some f
      | None \<Rightarrow> List.find (\<lambda>f. selector_of keccak (signature_of lib f) = sel) (concat (map (functions_of \<circ> snd) parsed)))"
proof (induction parsed arbitrary: r)
  case (Cons c parsed)
  show ?case unfolding fold_Cons comp_def Cons.IH
    by (simp add: register_def or_inserts_find find_append comp_def split: option.split)
qed (auto split: option.split)

text \<open>
  A selector means what the first ABI registered says: the function a call is decoded against is
  the first one, over the contracts in registration order, whose signature hashes to the selector,
  so that no later ABI shadows an earlier one.
\<close>

theorem registry_first_wins:
  "map_of (reg_functions (build_registry keccak lib parsed)) sel =
     List.find (\<lambda>f. selector_of keccak (signature_of lib f) = sel) (concat (map (functions_of \<circ> snd) parsed))"
  by (simp add: build_registry_def registered_functions)

end
