(* ===== verification/Traces.thy ===== *)
theory Traces
  imports Decoder "HOL-Library.Multiset"
begin

section \<open>A flattened trace is the tree\<close>

text \<open>
  \<open>walk_trace\<close> writes into the list it appends to. Here it is compared with the tree read
  recursively: the list has one entry per call, in depth-first order, and the indices an entry
  carries are those of its calls.
\<close>

function tree_size :: "json \<Rightarrow> nat" where
  "tree_size node = Suc (sum_list (map tree_size (trace_children node)))"
  by pat_completeness auto
termination
proof (relation "measure size")
  fix node x assume "x \<in> set (trace_children node)"
  then have "(Suc \<circ> size) x \<in> set (map (Suc \<circ> size) (trace_children node))" by (simp only: set_map) (rule imageI)
  from member_le_sum_list [OF this] have "Suc (size x) \<le> sum_list (map (Suc \<circ> size) (trace_children node))" by simp
  then show "(x, node) \<in> measure size" using trace_children_weight [of node] by simp
qed simp

declare tree_size.simps [simp del]

fun child_starts :: "json list \<Rightarrow> nat \<Rightarrow> nat list" where
  "child_starts [] i = []"
| "child_starts (c # cs) i = i # child_starts cs (i + tree_size c)"

function flat_tree :: "keccak \<Rightarrow> codec \<Rightarrow> registry \<Rightarrow> json \<Rightarrow> nat \<Rightarrow> nat \<Rightarrow> json list"
  and flat_forest :: "keccak \<Rightarrow> codec \<Rightarrow> registry \<Rightarrow> json list \<Rightarrow> nat \<Rightarrow> nat \<Rightarrow> json list" where
  "flat_tree keccak lib reg node d i =
     jset ''children'' (JArr (map json_nat (child_starts (trace_children node) (i + 1)))) (flat_node keccak lib reg node d)
       # flat_forest keccak lib reg (trace_children node) (d + 1) (i + 1)"
| "flat_forest keccak lib reg [] d i = []"
| "flat_forest keccak lib reg (c # cs) d i =
     flat_tree keccak lib reg c d i @ flat_forest keccak lib reg cs d (i + tree_size c)"
  by pat_completeness auto
termination
proof (relation "measure (\<lambda>x. case x of Inl (_, _, _, node, _, _) \<Rightarrow> 2 * Suc (size node)
    | Inr (_, _, _, cs, _, _) \<Rightarrow> Suc (2 * sum_list (map (Suc \<circ> size) cs)))")
qed (auto simp: less_Suc_eq_le trace_children_weight)

declare flat_tree.simps [simp del]

lemma length_flat:
  "length (flat_tree keccak lib reg node d i) = tree_size node"
  "length (flat_forest keccak lib reg cs d i) = sum_list (map tree_size cs)"
proof (induction keccak lib reg node d i and keccak lib reg cs d i rule: flat_tree_flat_forest.induct)
  case (1 keccak lib reg node d i)
  then show ?case by (simp add: flat_tree.simps tree_size.simps [of node])
qed simp_all

lemma walk_trace_flat:
  "walk_trace keccak lib reg node d r = r @ flat_tree keccak lib reg node d (length r)"
  "walk_children keccak lib reg cs d r = (child_starts cs (length r), r @ flat_forest keccak lib reg cs d (length r))"
proof (induction keccak lib reg node d r and keccak lib reg cs d r rule: walk_trace_walk_children.induct)
  case (1 keccak lib reg node depth result)
  then show ?case by (simp add: walk_trace.simps flat_tree.simps Let_def list_update_append nth_append)
next
  case (3 keccak lib reg c cs depth result)
  then show ?case by (simp add: length_flat)
qed simp_all

text \<open>What an entry says of itself.\<close>

definition kids :: "json \<Rightarrow> nat list" where
  "kids e = List.map_filter as_u64 (unwrap_or [] (get_array ''children'' e))"

definition depth_of :: "json \<Rightarrow> nat" where
  "depth_of e = unwrap_or 0 (Option.bind (jget ''depth'' e) as_u64)"

lemma flat_node_fields: "\<exists>fields. flat_node keccak lib reg node d = JObj fields \<and> map_of fields ''depth'' = Some (json_nat d)"
  by (auto simp: flat_node_def Let_def jset_def map_of_update split: option.split)

lemma flat_entry:
  "kids (jset ''children'' (JArr (map json_nat ns)) (flat_node keccak lib reg node d)) = ns"
  "depth_of (jset ''children'' (JArr (map json_nat ns)) (flat_node keccak lib reg node d)) = d"
proof -
  obtain fields where f: "flat_node keccak lib reg node d = JObj fields" "map_of fields ''depth'' = Some (json_nat d)"
    using flat_node_fields by blast
  have "List.map_filter as_u64 (map json_nat ns) = ns" by (induction ns) (auto simp: List.map_filter_simps json_nat_def as_u64_def)
  then show "kids (jset ''children'' (JArr (map json_nat ns)) (flat_node keccak lib reg node d)) = ns"
    unfolding f by (simp add: kids_def get_array_def jget_jset as_array_def)
  show "depth_of (jset ''children'' (JArr (map json_nat ns)) (flat_node keccak lib reg node d)) = d"
    unfolding f by (simp add: depth_of_def jget_jset) (simp add: jget_def f json_nat_def as_u64_def)
qed

text \<open>Every entry is a root of the forest or listed once, by its parent.\<close>

lemma forest_kids:
  "mset (concat (map kids (flat_tree keccak lib reg node d i))) = mset [i + 1..<i + tree_size node]"
  "mset (child_starts cs i) + mset (concat (map kids (flat_forest keccak lib reg cs d i))) = mset [i..<i + sum_list (map tree_size cs)]"
proof (induction keccak lib reg node d i and keccak lib reg cs d i rule: flat_tree_flat_forest.induct)
  case (1 keccak lib reg node d i)
  have "[i + 1..<i + tree_size node] = [i + 1..<i + 1 + sum_list (map tree_size (trace_children node))]"
    by (simp add: tree_size.simps [of node])
  then show ?case using 1 by (simp only: flat_tree.simps list.map concat.simps mset_append flat_entry)
next
  case (3 keccak lib reg c cs d i)
  let ?n = "tree_size c" and ?m = "sum_list (map tree_size cs)"
  have "[i..<i + (?n + ?m)] = [i..<i + ?n] @ [i + ?n..<i + ?n + ?m]"
    using upt_add_eq_append [of i "i + ?n" ?m] by (simp only: add.assoc le_add1)
  moreover have "[i..<i + ?n] = i # [i + 1..<i + ?n]" 
  proof -
    have "0 < ?n" by (simp add: tree_size.simps [of c])
    then show ?thesis using upt_conv_Cons [of i "i + ?n"] by simp
  qed
  ultimately show ?case using 3 by simp
qed simp

text \<open>Listed entries come later, inside the list, one level down.\<close>

definition linked :: "nat \<Rightarrow> json list \<Rightarrow> bool" where
  "linked i es \<longleftrightarrow> (\<forall>j < length es. \<forall>c \<in> set (kids (es ! j)).
     i + j < c \<and> c < i + length es \<and> depth_of (es ! (c - i)) = depth_of (es ! j) + 1)"

lemma linked_append: "linked i xs \<Longrightarrow> linked (i + length xs) ys \<Longrightarrow> linked i (xs @ ys)"
proof -
  assume x: "linked i xs" and y: "linked (i + length xs) ys"
  show ?thesis
    unfolding linked_def
  proof (intro allI impI ballI)
    fix j c assume j: "j < length (xs @ ys)" and c: "c \<in> set (kids ((xs @ ys) ! j))"
    show "i + j < c \<and> c < i + length (xs @ ys) \<and> depth_of ((xs @ ys) ! (c - i)) = depth_of ((xs @ ys) ! j) + 1"
    proof (cases "j < length xs")
      case True
      then have "i + j < c \<and> c < i + length xs \<and> depth_of (xs ! (c - i)) = depth_of (xs ! j) + 1"
        using x c by (auto simp: linked_def nth_append)
      then show ?thesis using True by (auto simp: nth_append)
    next
      case False
      then obtain k where k: "j = length xs + k" by (metis le_iff_add not_less)
      have "c \<in> set (kids (ys ! k))" "k < length ys" using c j by (simp_all add: k)
      then have "i + length xs + k < c \<and> c < i + length xs + length ys \<and>
          depth_of (ys ! (c - (i + length xs))) = depth_of (ys ! k) + 1"
        using y by (auto simp: linked_def)
      then show ?thesis by (auto simp: k nth_append diff_diff_add)
    qed
  qed
qed

lemma starts_depth:
  "c \<in> set (child_starts cs i) \<Longrightarrow> i \<le> c \<and> c < i + sum_list (map tree_size cs) \<and>
     depth_of (flat_forest keccak lib reg cs d i ! (c - i)) = d"
proof (induction cs arbitrary: i)
  case (Cons a cs)
  have t: "0 < tree_size a" by (simp add: tree_size.simps [of a])
  show ?case
  proof (cases "c = i")
    case True
    then show ?thesis using t by (simp add: nth_append length_flat) (simp add: flat_tree.simps flat_entry)
  next
    case False
    then have "c \<in> set (child_starts cs (i + tree_size a))" using Cons.prems by auto
    from Cons.IH [OF this] show ?thesis by (auto simp: nth_append length_flat diff_diff_add)
  qed
qed simp

lemma flat_linked:
  "linked i (flat_tree keccak lib reg node d i)"
  "linked i (flat_forest keccak lib reg cs d i)"
proof (induction keccak lib reg node d i and keccak lib reg cs d i rule: flat_tree_flat_forest.induct)
  case (1 keccak lib reg node d i)
  let ?cs = "trace_children node"
  let ?f = "flat_forest keccak lib reg ?cs (d + 1) (i + 1)"
  show ?case
    unfolding linked_def
  proof (intro allI impI ballI)
    fix j c assume j: "j < length (flat_tree keccak lib reg node d i)" and c: "c \<in> set (kids (flat_tree keccak lib reg node d i ! j))"
    show "i + j < c \<and> c < i + length (flat_tree keccak lib reg node d i) \<and>
        depth_of (flat_tree keccak lib reg node d i ! (c - i)) = depth_of (flat_tree keccak lib reg node d i ! j) + 1"
    proof (cases j)
      case 0
      then have "c \<in> set (child_starts ?cs (i + 1))" using c by (simp add: flat_tree.simps flat_entry)
      from starts_depth [OF this, of keccak lib reg "d + 1"]
      have le: "i + 1 \<le> c" and lt: "c < i + 1 + length ?f" and dep: "depth_of (?f ! (c - (i + 1))) = d + 1"
        by (simp_all add: length_flat)
      have "c - i = Suc (c - (i + 1))" using le by simp
      then show ?thesis using 0 le lt dep by (simp add: flat_tree.simps flat_entry)
    next
      case (Suc k)
      have "c \<in> set (kids (?f ! k))" "k < length ?f" using c j Suc by (simp_all add: flat_tree.simps)
      then have h: "i + 1 + k < c \<and> c < i + 1 + length ?f \<and> depth_of (?f ! (c - (i + 1))) = depth_of (?f ! k) + 1"
        using 1 unfolding linked_def by blast
      then have "i + 1 + k < c" by blast
      then have "c - i = Suc (c - (i + 1))" by arith
      then show ?thesis using Suc h by (simp add: flat_tree.simps)
    qed
  qed
next
  case (3 keccak lib reg c cs d i)
  then have "linked (i + length (flat_tree keccak lib reg c d i)) (flat_forest keccak lib reg cs d (i + tree_size c))"
    by (simp only: length_flat)
  from linked_append [OF 3(1) this] show ?case by (simp only: flat_forest.simps)
qed (simp add: linked_def)

text \<open>The roots of a trace: an object is one, an array's elements are.\<close>

definition trace_roots :: "json \<Rightarrow> json list" where
  "trace_roots trace = (case trace of JArr nodes \<Rightarrow> nodes | JObj _ \<Rightarrow> [trace] | _ \<Rightarrow> [])"

lemma fold_walk_trace:
  "fold (\<lambda>node. walk_trace keccak lib reg node 0) nodes r = r @ flat_forest keccak lib reg nodes 0 (length r)"
  by (induction nodes arbitrary: r) (simp_all add: walk_trace_flat length_flat)

lemma flatten_trace_forest: "flatten_trace keccak lib reg trace = flat_forest keccak lib reg (trace_roots trace) 0 0"
  by (cases trace) (simp_all add: flatten_trace_def trace_roots_def fold_walk_trace walk_trace_flat)


text \<open>A call that makes one other.\<close>

definition sample_trace :: json where
  "sample_trace = JObj [(''calls'', JArr [JObj []])]"

lemma sample_trace_shape: "trace_children sample_trace = [JObj []]" "trace_children (JObj []) = []"
  by (simp_all add: trace_children_def sample_trace_def jget_def or_else_def as_array_def unwrap_or_def)


end
