(* ===== verification/Parse.thy ===== *)
theory Parse
  imports Rpc Models
begin

section \<open>Reading the node's objects (\<open>src/parse.rs\<close>)\<close>

text \<open>
  A block and a transaction as the node describes them, as the rows they become. A field the node
  leaves out has the row's default; the clock is the argument \<open>now\<close>.
\<close>

definition int_field :: "string \<Rightarrow> json \<Rightarrow> int" where
  "int_field k v = unwrap_or 0 (map_option parse_int_any (jget k v))"

definition amount_field :: "string \<Rightarrow> json \<Rightarrow> string" where
  "amount_field k v = unwrap_or ''0'' (map_option decimal_amount (jget k v))"

text \<open>\<open>timestamp * 1000\<close> in \<open>i64\<close>: past its range a debug build panics and a release build wraps.\<close>

definition wrap_i64 :: "int \<Rightarrow> int" where
  "wrap_i64 i = (i + 9223372036854775808) mod 18446744073709551616 - 9223372036854775808"

definition parse_block :: "int \<Rightarrow> json \<Rightarrow> block" where
  "parse_block now raw =
     (let consensus = jget ''consensusContext'' raw in
      \<lparr> b_number = int_field ''number'' raw, b_hash = str_field raw ''hash'',
        b_parent_hash = str_field raw ''parentHash'', b_timestamp = int_field ''timestamp'' raw,
        b_timestamp_ms =
          (case jget ''timestampMillis'' raw of
             Some v \<Rightarrow> parse_int_any v
           | None \<Rightarrow> wrap_i64 (int_field ''timestamp'' raw * 1000)),
        b_gas_used = int_field ''gasUsed'' raw, b_gas_limit = int_field ''gasLimit'' raw,
        b_base_fee = amount_field ''baseFeePerGas'' raw, b_size = int_field ''size'' raw,
        b_extra_data = str_field raw ''extraData'',
        b_epoch = unwrap_or 0 (map_option parse_int_any (Option.bind consensus (jget ''epoch''))),
        b_view = unwrap_or 0 (map_option parse_int_any (Option.bind consensus (jget ''view''))),
        b_proposer = unwrap_or [] (Option.bind consensus (get_str ''proposer'')),
        b_miner = str_field raw ''miner'',
        b_tx_count = int (length (unwrap_or [] (get_array ''transactions'' raw))),
        b_created_at = now \<rparr>)"

definition tx_to_addr :: "json \<Rightarrow> string option" where
  "tx_to_addr tx =
     or_else (get_str ''to'' tx)
       (Option.bind (get_array ''calls'' tx) (\<lambda>calls. case calls of [] \<Rightarrow> None | c # _ \<Rightarrow> get_str ''to'' c))"

definition tx_input :: "json \<Rightarrow> string" where
  "tx_input tx =
     (let input = str_field tx ''input''; data = str_field tx ''data''
      in if input = [] \<and> data \<noteq> [] then data else input)"

definition parse_transaction :: "int \<Rightarrow> json \<Rightarrow> block \<Rightarrow> transaction" where
  "parse_transaction now tx blk =
     \<lparr> t_hash = str_field tx ''hash'', t_block_number = int_field ''blockNumber'' tx,
       t_position = int_field ''transactionIndex'' tx, t_from_addr = str_field tx ''from'',
       t_to_addr = tx_to_addr tx, t_status = 1, t_gas_used = 0, t_base_fee = ''0x0'',
       t_contract_address = None, t_fee_token = None, t_fee_amount = amount_field ''feeAmount'' tx,
       t_input = tx_input tx, t_raw = None, t_trace_data = None, t_receipt_data = None,
       t_timestamp = b_timestamp blk, t_created_at = now \<rparr>"

end
