(* ===== verification/Indexer.thy ===== *)
theory Indexer
  imports Parse Decoder Storage_Reads
begin

section \<open>Fetching and assembling blocks (\<open>src/indexer.rs\<close>)\<close>

text \<open>
  What the indexer makes of the node's answers: a range fetched in one request or in halves, a
  block held back until its receipts are there, and the rows its receipts give. The node is the
  parameter \<open>batch\<close>, a batch of calls made in the state \<open>'s\<close> the world is in. The registry, the
  codec, the signed-transaction encoder \<open>raw_of\<close> and JSON's printer \<open>json_text\<close> are parameters.
\<close>

record tools =
  tool_keccak :: keccak
  tool_codec :: codec
  tool_registry :: registry
  tool_raw :: "json \<Rightarrow> bytes option"
  tool_text :: "json \<Rightarrow> string"

definition RPC_BLOCK_BATCH :: nat where "RPC_BLOCK_BATCH = 16"
definition TIP_YIELD_LAG :: nat where "TIP_YIELD_LAG = 16"
definition ANCHORING_ADDRESS :: string where "ANCHORING_ADDRESS = ''0x0000000000000000000000000000000000000a00''"

subsection \<open>Ranges\<close>

function chunks_from :: "nat \<Rightarrow> nat \<Rightarrow> nat \<Rightarrow> (nat \<times> nat) list" where
  "chunks_from batch hi start =
     (start, min (saturating_add64 start (batch - 1)) hi) #
     (case opt_filter (\<lambda>n. n \<le> hi) (checked_add64 start batch) of
        Some n \<Rightarrow> if batch = 0 then [] else chunks_from batch hi n
      | None \<Rightarrow> [])"
  by pat_completeness auto
termination
  by (relation "measure (\<lambda>(batch, hi, start). hi - start)")
    (auto simp: checked_add64_def split: if_splits)

declare chunks_from.simps [simp del]

definition block_chunks :: "nat \<Rightarrow> nat \<Rightarrow> nat \<Rightarrow> (nat \<times> nat) list" where
  "block_chunks lo hi batch = (if lo \<le> hi then chunks_from (max batch 1) hi lo else [])"

subsection \<open>Receipts\<close>

definition apply_receipt_fields :: "tools \<Rightarrow> json \<Rightarrow> transaction \<Rightarrow> transaction" where
  "apply_receipt_fields tools receipt tx0 =
     (let tx = tx0\<lparr>t_receipt_data := Some (tool_text tools receipt),
                   t_status := unwrap_or 1 (map_option parse_int_any (jget ''status'' receipt))\<rparr>;
          tx = (if t_to_addr tx = None
                then (case get_str ''to'' receipt of Some a \<Rightarrow> tx\<lparr>t_to_addr := Some a\<rparr> | None \<Rightarrow> tx) else tx);
          tx = tx\<lparr>t_gas_used := int_field ''gasUsed'' receipt\<rparr>;
          tx = (case get_str ''contractAddress'' receipt of
                  Some a \<Rightarrow> tx\<lparr>t_contract_address := Some (checksum_address (tool_keccak tools) a)\<rparr> | None \<Rightarrow> tx);
          tx = (case get_str ''feeToken'' receipt of
                  Some a \<Rightarrow> tx\<lparr>t_fee_token := Some (checksum_address (tool_keccak tools) a)\<rparr> | None \<Rightarrow> tx);
          tx = (case opt_filter (\<lambda>v. is_string v \<or> is_number v) (jget ''feeAmount'' receipt) of
                  Some v \<Rightarrow> tx\<lparr>t_fee_amount := decimal_amount v\<rparr> | None \<Rightarrow> tx)
      in (case jget ''effectiveGasPrice'' receipt of
            Some v \<Rightarrow> tx\<lparr>t_base_fee := int_to_hex_str v\<rparr> | None \<Rightarrow> tx))"

definition derive_fee_from_transfer :: "json \<Rightarrow> string \<Rightarrow> string \<Rightarrow> transaction \<Rightarrow> transaction" where
  "derive_fee_from_transfer log receiver amount tx =
     (if amount = [] \<or> fee_positive tx then tx
      else
        (let emitter = lower (unwrap_or [] (get_str ''address'' log));
             is_fee_token = (case t_fee_token tx of Some f \<Rightarrow> lower f = emitter | None \<Rightarrow> False)
         in if is_fee_token \<and> eq_ic receiver FEE_MANAGER_ADDRESS then tx\<lparr>t_fee_amount := amount\<rparr> else tx))"

definition parse_registry_id :: "decoded_event \<Rightarrow> int option" where
  "parse_registry_id d = Option.bind (event_param d ''registryId'') parse_i64"

definition anchoring_event_of :: "decoded_event \<Rightarrow> string \<Rightarrow> int \<Rightarrow> int \<Rightarrow> int \<Rightarrow> anchoring_event option" where
  "anchoring_event_of d tx_hash block_number log_index timestamp =
     (case (de_name d, parse_registry_id d) of
        (Some name, Some registry_id) \<Rightarrow> Some
          \<lparr> a_tx_hash = tx_hash, a_block_number = block_number, a_log_index = log_index, a_timestamp = timestamp,
            a_event = name, a_registry_id = registry_id,
            a_record_id = unwrap_or 0 (Option.bind (event_param d ''recordId'') parse_i64),
            a_caller = unwrap_or [] (event_param d ''caller'') \<rparr>
      | _ \<Rightarrow> None)"

record indexed =
  ix_tx :: transaction
  ix_transfers :: "transfer_event list"
  ix_anchoring :: "anchoring_event list"

text \<open>\<open>log.pointer("/topics/0")\<close>\<close>

definition first_topic :: "json \<Rightarrow> string" where
  "first_topic log =
     (case get_array ''topics'' log of
        Some (t # _) \<Rightarrow> unwrap_or [] (as_str t)
      | _ \<Rightarrow> [])"

definition index_log :: "tools \<Rightarrow> int \<Rightarrow> json \<Rightarrow> int \<Rightarrow> indexed \<Rightarrow> indexed" where
  "index_log tools now log log_index ix =
     (let keccak = tool_keccak tools;
          emitter = unwrap_or [] (get_str ''address'' log);
          is_transfer = eq_ic (first_topic log) (transfer_topic keccak);
          is_anchoring = eq_ic emitter ANCHORING_ADDRESS
      in if \<not> is_transfer \<and> \<not> is_anchoring then ix
         else (case decode_event keccak (tool_codec tools) (tool_registry tools) log of
                 None \<Rightarrow> ix
               | Some d \<Rightarrow>
                   (let tx = ix_tx ix;
                        ix = (if is_anchoring
                              then (case anchoring_event_of d (t_hash tx) (t_block_number tx) log_index (t_timestamp tx) of
                                      Some e \<Rightarrow> ix\<lparr>ix_anchoring := ix_anchoring ix @ [e]\<rparr> | None \<Rightarrow> ix)
                              else ix)
                    in if \<not> is_transfer then ix
                       else
                         (let source = unwrap_or [] (event_param d ''from'');
                              receiver = unwrap_or [] (event_param d ''to'');
                              amount = unwrap_or [] (event_param d ''amount'');
                              tx = derive_fee_from_transfer log receiver amount tx;
                              ix = ix\<lparr>ix_tx := tx\<rparr>
                          in if source = [] \<or> receiver = [] \<or> amount = [] then ix
                             else ix\<lparr>ix_transfers := ix_transfers ix @
                               [\<lparr> e_id = 0, e_tx_hash = t_hash tx, e_block_number = t_block_number tx, e_log_index = log_index,
                                  e_token_addr = checksum_address keccak emitter, e_from_addr = source, e_to_addr = receiver,
                                  e_amount = amount, e_timestamp = t_timestamp tx, e_created_at = now \<rparr>]\<rparr>))))"

definition log_index_of :: "json \<Rightarrow> nat \<Rightarrow> int" where
  "log_index_of log next_index =
     unwrap_or (i64_of_u64 next_index) (opt_filter (\<lambda>n. 0 \<le> n) (map_option parse_int_any (jget ''logIndex'' log)))"

fun index_logs :: "tools \<Rightarrow> int \<Rightarrow> json list \<Rightarrow> nat \<Rightarrow> indexed \<Rightarrow> nat \<times> indexed" where
  "index_logs tools now [] next_index ix = (next_index, ix)"
| "index_logs tools now (log # logs) next_index ix =
     (let log_index = log_index_of log next_index
      in index_logs tools now logs (max next_index (u64_of_i64 log_index + 1)) (index_log tools now log log_index ix))"

definition apply_receipt :: "tools \<Rightarrow> int \<Rightarrow> json \<Rightarrow> nat \<Rightarrow> indexed \<Rightarrow> nat \<times> indexed" where
  "apply_receipt tools now receipt next_index ix =
     index_logs tools now (unwrap_or [] (get_array ''logs'' receipt)) next_index
       (ix\<lparr>ix_tx := apply_receipt_fields tools receipt (ix_tx ix)\<rparr>)"

subsection \<open>One block\<close>

text \<open>The receipts by transaction hash; a hash met twice keeps the later receipt.\<close>

definition receipts_by_hash :: "json option \<Rightarrow> string \<rightharpoonup> json" where
  "receipts_by_hash receipts =
     (case receipts of
        Some (JArr rs) \<Rightarrow> map_of (rev (List.map_filter (\<lambda>r. map_option (\<lambda>h. (h, r)) (get_str ''transactionHash'' r)) rs))
      | _ \<Rightarrow> Map.empty)"

definition new_transaction :: "tools \<Rightarrow> int \<Rightarrow> block \<Rightarrow> json \<Rightarrow> transaction" where
  "new_transaction tools now blk tx_data =
     (let tx = parse_transaction now tx_data blk
      in case tool_raw tools tx_data of
           Some encoded \<Rightarrow> tx\<lparr>t_raw := Some (''0x'' @ hex_encode encoded)\<rparr>
         | None \<Rightarrow> tx)"

fun assemble_txs ::
  "tools \<Rightarrow> int \<Rightarrow> block \<Rightarrow> (string \<rightharpoonup> json) \<Rightarrow> json list \<Rightarrow> nat
     \<Rightarrow> transaction list \<times> transfer_event list \<times> anchoring_event list
     \<Rightarrow> transaction list \<times> transfer_event list \<times> anchoring_event list" where
  "assemble_txs tools now blk by_hash [] next_index acc = acc"
| "assemble_txs tools now blk by_hash (tx_data # rest) next_index (txs, transfers, anchoring) =
     (let tx_hash = unwrap_or [] (get_str ''hash'' tx_data)
      in if tx_hash = [] then assemble_txs tools now blk by_hash rest next_index (txs, transfers, anchoring)
         else
           (let tx = new_transaction tools now blk tx_data
            in case by_hash tx_hash of
                 None \<Rightarrow> assemble_txs tools now blk by_hash rest next_index (txs @ [tx], transfers, anchoring)
               | Some receipt \<Rightarrow>
                   (let (next_index', ix) = apply_receipt tools now receipt next_index
                          \<lparr> ix_tx = tx, ix_transfers = transfers, ix_anchoring = anchoring \<rparr>
                    in assemble_txs tools now blk by_hash rest next_index'
                         (txs @ [ix_tx ix], ix_transfers ix, ix_anchoring ix))))"

definition assemble_bundle :: "tools \<Rightarrow> int \<Rightarrow> json \<Rightarrow> json option \<Rightarrow> block_bundle" where
  "assemble_bundle tools now raw_block receipts =
     (let blk = parse_block now raw_block;
          (txs, transfers, anchoring) = assemble_txs tools now blk (receipts_by_hash receipts)
             (unwrap_or [] (get_array ''transactions'' raw_block)) 0 ([], [], [])
      in \<lparr> bundle_block = blk, bundle_txs = txs, bundle_transfers = transfers, bundle_anchoring = anchoring,
           bundle_tokens = [] \<rparr>)"

subsection \<open>Fetching\<close>

type_synonym 's batch = "rpc_call list \<Rightarrow> 's \<Rightarrow> ((failure + (rpc_error + json) list) \<times> 's) option"
type_synonym fetched = "json \<times> json option"

definition has_txs :: "json \<Rightarrow> bool" where
  "has_txs blk \<longleftrightarrow> (case get_array ''transactions'' blk of Some txs \<Rightarrow> txs \<noteq> [] | None \<Rightarrow> False)"

definition tx_hashes :: "json \<Rightarrow> string list" where
  "tx_hashes blk = List.map_filter (get_str ''hash'') (unwrap_or [] (get_array ''transactions'' blk))"

definition without_missing_receipts :: "fetched list \<Rightarrow> fetched list" where
  "without_missing_receipts bs = filter (\<lambda>(blk, receipts). receipts \<noteq> None \<or> \<not> has_txs blk) bs"

definition block_call :: "nat \<Rightarrow> rpc_call" where
  "block_call n = (''eth_getBlockByNumber'', JArr [JStr (''0x'' @ hex_nat n), JBool True])"

definition receipts_call :: "nat \<Rightarrow> rpc_call" where
  "receipts_call n = (''eth_getBlockReceipts'', JArr [JStr (''0x'' @ hex_nat n)])"

definition receipt_call :: "string \<Rightarrow> rpc_call" where
  "receipt_call h = (''eth_getTransactionReceipt'', JArr [JStr h])"

definition result_value :: "rpc_error + json \<Rightarrow> json option" where
  "result_value r = (case r of Inr v \<Rightarrow> if is_null v then None else Some v | Inl _ \<Rightarrow> None)"

text \<open>The blocks a batch answered, each with its number; one not found is left out.\<close>

definition found_blocks :: "nat list \<Rightarrow> (rpc_error + json) list \<Rightarrow> (nat \<times> json) list" where
  "found_blocks nums results =
     List.map_filter (\<lambda>(n, r). map_option (\<lambda>v. (n, v)) (result_value r)) (zip nums results)"

text \<open>What \<open>eth_getBlockReceipts\<close> gives for the blocks that need it, one after the other.\<close>

fun with_receipts :: "(nat \<times> json) list \<Rightarrow> (rpc_error + json) list \<Rightarrow> (nat \<times> fetched) list" where
  "with_receipts [] results = []"
| "with_receipts ((n, blk) # bs) results =
     (if has_txs blk then
        (case results of
           r # rs \<Rightarrow> (n, (blk, result_value r)) # with_receipts bs rs
         | [] \<Rightarrow> (n, (blk, None)) # with_receipts bs [])
      else (n, (blk, None)) # with_receipts bs results)"

fun all_some :: "'a option list \<Rightarrow> 'a list option" where
  "all_some [] = Some []"
| "all_some (x # xs) = (case (x, all_some xs) of (Some v, Some vs) \<Rightarrow> Some (v # vs) | _ \<Rightarrow> None)"

text \<open>One more try, a receipt at a time.\<close>

definition single_receipts :: "string list \<Rightarrow> failure + (rpc_error + json) list \<Rightarrow> json option" where
  "single_receipts hashes answer =
     (case answer of
        Inr results \<Rightarrow> if length results = length hashes then map_option JArr (all_some (map result_value results)) else None
      | Inl _ \<Rightarrow> None)"

fun retry_receipts :: "'s batch \<Rightarrow> (nat \<times> fetched) list \<Rightarrow> 's \<Rightarrow> (fetched list \<times> 's) option" where
  "retry_receipts batch [] s = Some ([], s)"
| "retry_receipts batch ((n, (blk, receipts)) # bs) s =
     (if receipts \<noteq> None \<or> \<not> has_txs blk then
        map_option (\<lambda>(rest, s'). ((blk, receipts) # rest, s')) (retry_receipts batch bs s)
      else
        (case batch (map receipt_call (tx_hashes blk)) s of
           None \<Rightarrow> None
         | Some (answer, s1) \<Rightarrow>
             map_option (\<lambda>(rest, s'). ((blk, single_receipts (tx_hashes blk) answer) # rest, s'))
               (retry_receipts batch bs s1)))"

definition complete_blocks ::
  "'s batch \<Rightarrow> (nat \<times> json) list \<Rightarrow> 's \<Rightarrow> ((failure + fetched list) \<times> 's) option" where
  "complete_blocks batch found s =
     (let need = filter (\<lambda>(n, blk). has_txs blk) found
      in if need = [] then Some (Inr (map (\<lambda>(n, blk). (blk, None)) found), s)
         else (case batch (map (receipts_call \<circ> fst) need) s of
                 None \<Rightarrow> None
               | Some (answer, s1) \<Rightarrow>
                   (let results = (case answer of Inr rs \<Rightarrow> rs | Inl _ \<Rightarrow> [])
                    in map_option (\<lambda>(bs, s'). (Inr (without_missing_receipts bs), s'))
                         (retry_receipts batch (with_receipts found results) s1))))"

function fetch_raw_blocks ::
  "'s batch \<Rightarrow> nat \<Rightarrow> nat \<Rightarrow> 's \<Rightarrow> ((failure + fetched list) \<times> 's) option" where
  "fetch_raw_blocks batch lo hi s =
     (if lo > hi then Some (Inr [], s)
      else
        (case batch (map block_call [lo..<Suc hi]) s of
           None \<Rightarrow> None
         | Some (Inr results, s1) \<Rightarrow> complete_blocks batch (found_blocks [lo..<Suc hi] results) s1
         | Some (Inl e, s1) \<Rightarrow>
             if (case e of Rpc_Error _ \<Rightarrow> True | Other_Error \<Rightarrow> False) \<and> lo < hi then
               (let mid = lo + (hi - lo) div 2
                in case fetch_raw_blocks batch lo mid s1 of
                     None \<Rightarrow> None
                   | Some (Inl e', s2) \<Rightarrow> Some (Inl e', s2)
                   | Some (Inr bs, s2) \<Rightarrow>
                       (case fetch_raw_blocks batch (mid + 1) hi s2 of
                          None \<Rightarrow> None
                        | Some (Inl e', s3) \<Rightarrow> Some (Inl e', s3)
                        | Some (Inr bs', s3) \<Rightarrow> Some (Inr (bs @ bs'), s3)))
             else Some (Inl e, s1)))"
  by pat_completeness auto
termination
  by (relation "measure (\<lambda>(batch, lo, hi, s). hi - lo)") auto

declare fetch_raw_blocks.simps [simp del]

subsection \<open>Token metadata\<close>

definition bundle_token_addrs :: "block_bundle \<Rightarrow> string list" where
  "bundle_token_addrs b = map e_token_addr (bundle_transfers b) @ List.map_filter t_fee_token (bundle_txs b)"

text \<open>A set in the source; here each token once, in the order first met.\<close>

definition tokens_to_fetch :: "block_bundle list \<Rightarrow> string set \<Rightarrow> string list" where
  "tokens_to_fetch bundles known =
     remdups (concat (map (\<lambda>b.
       filter (\<lambda>a. a \<notin> known) (bundle_token_addrs b)
       @ map e_token_addr (filter (\<lambda>t. e_from_addr t = ZERO_ADDRESS \<or> e_to_addr t = ZERO_ADDRESS) (bundle_transfers b))) bundles))"

definition attach_tokens :: "token_meta list \<Rightarrow> block_bundle \<Rightarrow> block_bundle" where
  "attach_tokens metas b =
     b\<lparr>bundle_tokens := List.map_filter (map_of (map (\<lambda>m. (m_address m, m)) (rev metas))) (remdups (bundle_token_addrs b))\<rparr>"

definition attach_token_metadata ::
  "(string list \<Rightarrow> 's \<Rightarrow> ((failure + token_meta list) \<times> 's) option) \<Rightarrow> string set \<Rightarrow> block_bundle list \<Rightarrow> 's
     \<Rightarrow> (string set \<times> block_bundle list \<times> 's) option" where
  "attach_token_metadata fetch_meta known bundles s =
     (let wanted = tokens_to_fetch bundles known in
      if wanted = [] then Some (known, bundles, s)
      else (case fetch_meta wanted s of
              None \<Rightarrow> None
            | Some (Inl _, s') \<Rightarrow> Some (known, bundles, s')
            | Some (Inr metas, s') \<Rightarrow> Some (known \<union> m_address ` set metas, map (attach_tokens metas) bundles, s')))"

definition fetch_block_bundles ::
  "tools \<Rightarrow> int \<Rightarrow> 's batch \<Rightarrow> (string list \<Rightarrow> 's \<Rightarrow> ((failure + token_meta list) \<times> 's) option) \<Rightarrow> string set
     \<Rightarrow> nat \<Rightarrow> nat \<Rightarrow> 's \<Rightarrow> ((failure + string set \<times> block_bundle list) \<times> 's) option" where
  "fetch_block_bundles tools now batch fetch_meta known lo hi s =
     (case fetch_raw_blocks batch lo hi s of
        None \<Rightarrow> None
      | Some (Inl e, s1) \<Rightarrow> Some (Inl e, s1)
      | Some (Inr raw, s1) \<Rightarrow>
          (case attach_token_metadata fetch_meta known (map (\<lambda>(blk, receipts). assemble_bundle tools now blk receipts) raw) s1 of
             None \<Rightarrow> None
           | Some (known', bundles, s2) \<Rightarrow> Some (Inr (known', bundles), s2)))"

definition fetch_block_bundle ::
  "tools \<Rightarrow> int \<Rightarrow> 's batch \<Rightarrow> (string list \<Rightarrow> 's \<Rightarrow> ((failure + token_meta list) \<times> 's) option) \<Rightarrow> nat \<Rightarrow> 's
     \<Rightarrow> ((failure + block_bundle option) \<times> 's) option" where
  "fetch_block_bundle tools now batch fetch_meta n s =
     (case fetch_block_bundles tools now batch fetch_meta {} n n s of
        None \<Rightarrow> None
      | Some (Inl e, s1) \<Rightarrow> Some (Inl e, s1)
      | Some (Inr (_, bundles), s1) \<Rightarrow> Some (Inr (if bundles = [] then None else Some (last bundles)), s1))"

section \<open>What fetching gives\<close>

subsection \<open>Chunks of a range\<close>

lemma chunks_from_covers:
  "0 < batch \<Longrightarrow> start \<le> hi \<Longrightarrow> hi \<le> U64_MAX \<Longrightarrow>
     concat (map (\<lambda>(a, b). [a..<Suc b]) (chunks_from batch hi start)) = [start..<Suc hi] \<and>
     (\<forall>(a, b)\<in>set (chunks_from batch hi start). a \<le> b \<and> b - a < batch)"
proof (induction batch hi start rule: chunks_from.induct)
  case (1 batch hi start)
  show ?case
  proof (cases "start + batch \<le> hi")
    case True
    then have c: "opt_filter (\<lambda>n. n \<le> hi) (checked_add64 start batch) = Some (start + batch)"
      using "1.prems" by (simp add: checked_add64_def)
    have end_: "min (saturating_add64 start (batch - 1)) hi = start + batch - 1"
    proof -
      have "start + (batch - 1) \<le> U64_MAX" "start + (batch - 1) \<le> hi" "start + (batch - 1) = start + batch - 1"
        using True "1.prems" by arith+
      then show ?thesis unfolding saturating_add64_def by (simp only: min_absorb1)
    qed
    have eq: "chunks_from batch hi start = (start, start + batch - 1) # chunks_from batch hi (start + batch)"
      using "1.prems"(1) by (subst chunks_from.simps) (simp add: c end_ [unfolded One_nat_def])
    have ih: "concat (map (\<lambda>(a, b). [a..<Suc b]) (chunks_from batch hi (start + batch))) = [start + batch..<Suc hi] \<and>
        (\<forall>(a, b)\<in>set (chunks_from batch hi (start + batch)). a \<le> b \<and> b - a < batch)"
      using "1.IH" [OF c] "1.prems" True by simp
    have "[start..<Suc hi] = [start..<start + batch] @ [start + batch..<Suc hi]"
      using upt_add_eq_append [of start "start + batch" "Suc hi - (start + batch)"] True by simp
    moreover have "Suc (start + batch - 1) = start + batch" using "1.prems"(1) by simp
    ultimately show ?thesis using ih "1.prems"(1) unfolding eq by (simp del: upt_Suc)
  next
    case False
    then have c: "opt_filter (\<lambda>n. n \<le> hi) (checked_add64 start batch) = None"
      by (auto simp: opt_filter_def checked_add64_def)
    have end_: "min (saturating_add64 start (batch - 1)) hi = hi"
    proof -
      have "hi \<le> start + (batch - 1)" using False "1.prems"(1) by arith
      then have "hi \<le> min (start + (batch - 1)) U64_MAX" using "1.prems"(3) by simp
      then show ?thesis unfolding saturating_add64_def by (rule min_absorb2)
    qed
    have "chunks_from batch hi start = [(start, hi)]" by (subst chunks_from.simps) (simp add: c end_ [unfolded One_nat_def])
    then show ?thesis using False "1.prems" by auto
  qed
qed

text \<open>
  A range is split into chunks that cover it exactly, in order, each no wider than asked, also
  where the range ends at the largest height a \<open>u64\<close> holds.
\<close>

theorem block_chunks_partition:
  assumes "hi \<le> U64_MAX"
  shows "concat (map (\<lambda>(a, b). [a..<Suc b]) (block_chunks lo hi batch)) = [lo..<Suc hi] \<and>
    (\<forall>(a, b)\<in>set (block_chunks lo hi batch). a \<le> b \<and> b - a < max batch 1)"
proof (cases "lo \<le> hi")
  case True
  have "0 < max batch 1" by simp
  from chunks_from_covers [OF this True assms] show ?thesis using True by (simp add: block_chunks_def)
qed (simp add: block_chunks_def)

theorem block_chunks_partition_witness:
  "concat (map (\<lambda>(a, b). [a..<Suc b]) (block_chunks 3 40 16)) = [3..<Suc 40]"
  using block_chunks_partition [of 40 3 16] by simp

subsection \<open>Receipts come with their block\<close>

lemma without_missing: "(blk, receipts) \<in> set (without_missing_receipts bs) \<Longrightarrow> has_txs blk \<Longrightarrow> receipts \<noteq> None"
  by (auto simp: without_missing_receipts_def)

lemma complete_blocks_receipts:
  "complete_blocks batch found s = Some (Inr bs, s') \<Longrightarrow> (blk, receipts) \<in> set bs \<Longrightarrow> has_txs blk \<Longrightarrow> receipts \<noteq> None"
proof -
  assume c: "complete_blocks batch found s = Some (Inr bs, s')" and m: "(blk, receipts) \<in> set bs" and t: "has_txs blk"
  show ?thesis
  proof (cases "filter (\<lambda>(n, blk). has_txs blk) found = []")
    case True
    then have "bs = map (\<lambda>(n, blk). (blk, None)) found" using c by (simp add: complete_blocks_def)
    then obtain n where "(n, blk) \<in> set found" using m by auto
    then show ?thesis using True t by (auto simp: filter_empty_conv)
  next
    case False
    then obtain ys where "bs = without_missing_receipts ys"
      using c by (auto simp: complete_blocks_def Let_def split: option.splits prod.splits)
    then show ?thesis using m t without_missing by metis
  qed
qed

text \<open>A fetch that succeeds: of nothing, in one request, or in halves.\<close>

lemma fetch_raw_blocks_cases:
  assumes "fetch_raw_blocks batch lo hi s = Some (Inr bs, s')"
  obtains (no_range) "lo > hi" "bs = []"
    | (whole) results s1 where "lo \<le> hi" "batch (map block_call [lo..<Suc hi]) s = Some (Inr results, s1)"
        "complete_blocks batch (found_blocks [lo..<Suc hi] results) s1 = Some (Inr bs, s')"
    | (halves) b1 b2 s1 s2 where "lo < hi" "fetch_raw_blocks batch lo (lo + (hi - lo) div 2) s1 = Some (Inr b1, s2)"
        "fetch_raw_blocks batch (lo + (hi - lo) div 2 + 1) hi s2 = Some (Inr b2, s')" "bs = b1 @ b2"
proof (cases "lo > hi")
  case True
  then have "bs = []" using assms by (simp add: fetch_raw_blocks.simps)
  then show ?thesis using no_range True by blast
next
  case False
  obtain answer s1 where a: "batch (map block_call [lo..<Suc hi]) s = Some (answer, s1)"
    using assms False by (subst (asm) fetch_raw_blocks.simps) (auto simp del: upt_Suc split: option.splits)
  show ?thesis
  proof (cases answer)
    case (Inr results)
    then have "complete_blocks batch (found_blocks [lo..<Suc hi] results) s1 = Some (Inr bs, s')"
      using assms False a by (subst (asm) fetch_raw_blocks.simps) (simp del: upt_Suc)
    then show ?thesis using whole False a Inr by (simp del: upt_Suc)
  next
    case (Inl e)
    have c: "(case e of Rpc_Error _ \<Rightarrow> True | Other_Error \<Rightarrow> False) \<and> lo < hi"
      using assms False a Inl by (subst (asm) fetch_raw_blocks.simps) (simp del: upt_Suc split: if_splits)
    obtain b1 s2 b2 where "fetch_raw_blocks batch lo (lo + (hi - lo) div 2) s1 = Some (Inr b1, s2)"
      "fetch_raw_blocks batch (lo + (hi - lo) div 2 + 1) hi s2 = Some (Inr b2, s')" "bs = b1 @ b2"
      using assms False a Inl c
      by (subst (asm) fetch_raw_blocks.simps) (auto simp del: upt_Suc simp: Let_def split: option.splits sum.splits prod.splits)
    then show ?thesis using halves c by blast
  qed
qed

lemma fetch_raw_blocks_receipts:
  "fetch_raw_blocks batch lo hi s = Some (Inr bs, s') \<Longrightarrow> (blk, receipts) \<in> set bs \<Longrightarrow> has_txs blk \<Longrightarrow> receipts \<noteq> None"
proof (induction "hi - lo" arbitrary: lo hi s bs s' rule: less_induct)
  case less
  show ?case
  proof (cases rule: fetch_raw_blocks_cases [OF less.prems(1)])
    case 1
    then show ?thesis using less.prems(2) by simp
  next
    case (2 results s1)
    show ?thesis by (rule complete_blocks_receipts [OF 2(3) less.prems(2,3)])
  next
    case (3 b1 b2 s1 s2)
    let ?mid = "lo + (hi - lo) div 2"
    have m: "?mid - lo < hi - lo" "hi - (?mid + 1) < hi - lo" using 3(1) by arith+
    from less.prems(2) 3(4) consider "(blk, receipts) \<in> set b1" | "(blk, receipts) \<in> set b2" by auto
    then show ?thesis
    proof cases
      case 1
      show ?thesis by (rule less.hyps [OF m(1) 3(2) 1 less.prems(3)])
    next
      case 2
      show ?thesis by (rule less.hyps [OF m(2) 3(3) 2 less.prems(3)])
    qed
  qed
qed

text \<open>
  C36. A block is never handed on short of its receipts: of whatever the node answers, in however
  many halves, every block with transactions that comes out of a fetch has its receipts with it.
\<close>

theorem fetch_raw_blocks_has_receipts:
  assumes "fetch_raw_blocks batch lo hi s = Some (Inr bs, s')" and "(blk, receipts) \<in> set bs" and "has_txs blk"
  shows "receipts \<noteq> None"
  using assms by (rule fetch_raw_blocks_receipts)

subsection \<open>Halving recovers the range\<close>

text \<open>
  A node with a cap on the size of its answers: it refuses a batch of more than \<open>cap\<close> calls with an
  error of its own, and answers any other.
\<close>

definition capped_node :: "nat \<Rightarrow> (rpc_call \<Rightarrow> json) \<Rightarrow> rpc_error \<Rightarrow> unit batch" where
  "capped_node cap answer err calls s =
     Some (if length calls > cap then Inl (Rpc_Error err) else Inr (map (\<lambda>c. Inr (answer c)) calls), s)"

definition healthy :: "(rpc_call \<Rightarrow> json) \<Rightarrow> bool" where
  "healthy answer \<longleftrightarrow> (\<forall>n. answer (block_call n) \<noteq> JNull \<and> answer (receipts_call n) \<noteq> JNull)"

definition whole_block :: "(rpc_call \<Rightarrow> json) \<Rightarrow> nat \<Rightarrow> fetched" where
  "whole_block answer n =
     (answer (block_call n), if has_txs (answer (block_call n)) then Some (answer (receipts_call n)) else None)"

lemma found_blocks_healthy:
  "healthy answer \<Longrightarrow> found_blocks nums (map (\<lambda>n. Inr (answer (block_call n))) nums) = map (\<lambda>n. (n, answer (block_call n))) nums"
  by (induction nums) (auto simp: found_blocks_def List.map_filter_simps result_value_def is_null_def healthy_def)

lemma with_receipts_healthy:
  "healthy answer \<Longrightarrow>
     with_receipts (map (\<lambda>n. (n, answer (block_call n))) nums)
       (map (\<lambda>n. Inr (answer (receipts_call n))) (filter (\<lambda>n. has_txs (answer (block_call n))) nums)) =
     map (\<lambda>n. (n, whole_block answer n)) nums"
  by (induction nums) (auto simp: whole_block_def result_value_def is_null_def healthy_def)

lemma retry_receipts_complete:
  "\<forall>(n, blk, receipts)\<in>set bs. receipts \<noteq> None \<or> \<not> has_txs blk \<Longrightarrow> retry_receipts batch bs s = Some (map snd bs, s)"
  by (induction bs) auto

lemma complete_blocks_healthy:
  assumes "healthy answer" "length nums \<le> cap"
  shows "complete_blocks (capped_node cap answer err) (map (\<lambda>n. (n, answer (block_call n))) nums) () =
    Some (Inr (map (whole_block answer) nums), ())"
proof -
  let ?found = "map (\<lambda>n. (n, answer (block_call n))) nums"
  let ?need = "filter (\<lambda>n. has_txs (answer (block_call n))) nums"
  have need: "filter (\<lambda>(n, blk). has_txs blk) ?found = map (\<lambda>n. (n, answer (block_call n))) ?need"
    by (simp add: filter_map comp_def)
  show ?thesis
  proof (cases "?need = []")
    case True
    then have "\<forall>n\<in>set nums. whole_block answer n = (answer (block_call n), None)" by (simp add: whole_block_def filter_empty_conv)
    then show ?thesis using True need by (simp add: complete_blocks_def)
  next
    case False
    have l: "length ?need \<le> cap" using assms(2) length_filter_le [of _ nums] le_trans by blast
    have w: "with_receipts ?found (map (\<lambda>n. Inr (answer (receipts_call n))) ?need) = map (\<lambda>n. (n, whole_block answer n)) nums"
      by (rule with_receipts_healthy [OF assms(1)])
    have r: "retry_receipts (capped_node cap answer err) (map (\<lambda>n. (n, whole_block answer n)) nums) () = Some (map (whole_block answer) nums, ())"
      by (subst retry_receipts_complete) (auto simp: whole_block_def comp_def)
    have keep: "without_missing_receipts (map (whole_block answer) nums) = map (whole_block answer) nums"
      by (auto simp: without_missing_receipts_def whole_block_def filter_id_conv)
    show ?thesis using False l
      by (simp add: complete_blocks_def need Let_def capped_node_def comp_def w r keep)
  qed
qed

lemma fetch_capped:
  "0 < cap \<Longrightarrow> healthy answer \<Longrightarrow>
     fetch_raw_blocks (capped_node cap answer err) lo hi () = Some (Inr (map (whole_block answer) [lo..<Suc hi]), ())"
proof (induction "hi - lo" arbitrary: lo hi rule: less_induct)
  case less
  show ?case
  proof (cases "lo > hi")
    case True
    then show ?thesis by (simp add: fetch_raw_blocks.simps)
  next
    case False
    show ?thesis
    proof (cases "length [lo..<Suc hi] \<le> cap")
      case True
      then have b: "capped_node cap answer err (map block_call [lo..<Suc hi]) () =
          Some (Inr (map (\<lambda>n. Inr (answer (block_call n))) [lo..<Suc hi]), ())"
        by (simp add: capped_node_def del: upt_Suc)
      show ?thesis
        using False by (subst fetch_raw_blocks.simps)
          (simp del: upt_Suc add: b found_blocks_healthy [OF less.prems(2)] complete_blocks_healthy [OF less.prems(2) True])
    next
      case big: False
      then have lt: "lo < hi" using False less.prems(1) by (auto simp del: upt_Suc)
      let ?mid = "lo + (hi - lo) div 2"
      have m: "?mid - lo < hi - lo" "hi - (?mid + 1) < hi - lo" using lt by arith+
      note f = less.hyps [OF m(1) less.prems] less.hyps [OF m(2) less.prems]
      have b: "capped_node cap answer err (map block_call [lo..<Suc hi]) () = Some (Inl (Rpc_Error err), ())"
        using big by (simp add: capped_node_def del: upt_Suc)
      have split: "map (whole_block answer) [lo..<Suc hi] =
          map (whole_block answer) [lo..<Suc ?mid] @ map (whole_block answer) [?mid + 1..<Suc hi]"
      proof -
        have "[lo..<Suc hi] = [lo..<Suc ?mid] @ [?mid + 1..<Suc hi]"
          using upt_add_eq_append [of lo "Suc ?mid" "hi - ?mid"] lt by simp
        then show ?thesis by (simp only: map_append)
      qed
      have ne: "\<not> lo > hi" "lo \<noteq> hi" using lt by simp_all
      show ?thesis unfolding split
        by (subst fetch_raw_blocks.simps) (simp only: ne b f lt Let_def failure.case HOL.simp_thms if_False if_True option.case sum.case prod.case)
    qed
  qed
qed

text \<open>
  C0. A cap on the size of the node's answers costs requests, never blocks: against a node that
  refuses batches above any cap and answers the rest, a fetch returns every block of the range, in
  order, each with its receipts where it has transactions.
\<close>

theorem fetch_raw_blocks_recovers:
  assumes "0 < cap" and "healthy answer"
  shows "fetch_raw_blocks (capped_node cap answer err) lo hi () = Some (Inr (map (whole_block answer) [lo..<Suc hi]), ())"
  using assms by (rule fetch_capped)

theorem fetch_raw_blocks_recovers_witness:
  "fetch_raw_blocks (capped_node 2 (\<lambda>c. JStr (fst c)) \<lparr>err_code = 1, err_message = [], err_data = None\<rparr>) 5 9 () =
     Some (Inr (map (whole_block (\<lambda>c. JStr (fst c))) [5..<Suc 9]), ())"
  by (rule fetch_raw_blocks_recovers) (simp_all add: healthy_def)

theorem fetch_raw_blocks_has_receipts_witness:
  "\<exists>bs. fetch_raw_blocks (capped_node 2 (\<lambda>c. if fst c = ''eth_getBlockByNumber'' then JObj [(''transactions'', JArr [JNull])] else JArr [JNull])
        \<lparr>err_code = 1, err_message = [], err_data = None\<rparr>) 5 5 () = Some (Inr bs, ()) \<and> bs \<noteq> [] \<and>
     (\<forall>(blk, receipts)\<in>set bs. has_txs blk \<longrightarrow> receipts \<noteq> None)"
proof -
  let ?answer = "\<lambda>c :: rpc_call. if fst c = ''eth_getBlockByNumber'' then JObj [(''transactions'', JArr [JNull])] else JArr [JNull]"
  let ?err = "\<lparr>err_code = 1, err_message = [], err_data = None\<rparr>"
  have f: "fetch_raw_blocks (capped_node 2 ?answer ?err) 5 5 () = Some (Inr (map (whole_block ?answer) [5..<Suc 5]), ())"
    by (rule fetch_capped) (simp_all add: healthy_def)
  have "\<forall>(blk, receipts)\<in>set (map (whole_block ?answer) [5..<Suc 5]). has_txs blk \<longrightarrow> receipts \<noteq> None"
    using fetch_raw_blocks_has_receipts [OF f] by blast
  then show ?thesis using f by (intro exI [of _ "map (whole_block ?answer) [5..<Suc 5]"]) simp
qed

end
