(* ===== verification/Fetching.thy ===== *)
theory Fetching
  imports Indexer
begin

section \<open>Fetching a range in chunks (\<open>Indexer::fetch_range\<close>)\<close>

text \<open>
  A range is split into chunks, each fetched by a task of its own; the tasks end in any order, a
  task may fail, and a shutdown leaves tasks out. What a fetch of a range may bring back is so a
  relation of the range and the bundles. The locale \<open>range_fetching\<close> is what the loops need of it.
\<close>

definition bundle_number :: "block_bundle \<Rightarrow> nat" where
  "bundle_number b = u64_of_i64 (b_number (bundle_block b))"

type_synonym range_fetch = "nat \<Rightarrow> nat \<Rightarrow> block_bundle list \<Rightarrow> bool"

locale range_fetching =
  fixes fetch :: range_fetch
  assumes in_range: "fetch lo hi got \<Longrightarrow> b \<in> set got \<Longrightarrow> lo \<le> bundle_number b \<and> bundle_number b \<le> hi"

subsection \<open>The tasks\<close>

definition fetched_range :: "(failure + block_bundle list) list \<Rightarrow> block_bundle list" where
  "fetched_range completed =
     sort_key (\<lambda>b. b_number (bundle_block b)) (concat (List.map_filter (\<lambda>r. case r of Inr bs \<Rightarrow> Some bs | Inl _ \<Rightarrow> None) completed))"

definition range_inflight :: "nat \<Rightarrow> nat" where
  "range_inflight concurrency = (max concurrency 1 + RPC_BLOCK_BATCH - 1) div RPC_BLOCK_BATCH"

type_synonym 's meta_fetch = "string list \<Rightarrow> 's \<Rightarrow> ((failure + token_meta list) \<times> 's) option"

text \<open>What the task of one chunk may give; a task that panics counts as failed.\<close>

definition task_result ::
  "tools \<Rightarrow> int \<Rightarrow> 's batch \<Rightarrow> 's meta_fetch \<Rightarrow> nat \<times> nat \<Rightarrow> failure + block_bundle list \<Rightarrow> bool" where
  "task_result tools now batch fetch_meta chunk r \<longleftrightarrow>
     (\<exists>known s.
        (fetch_block_bundles tools now batch fetch_meta known (fst chunk) (snd chunk) s = None \<and> r = Inl Other_Error) \<or>
        (\<exists>e s'. fetch_block_bundles tools now batch fetch_meta known (fst chunk) (snd chunk) s = Some (Inl e, s') \<and> r = Inl e) \<or>
        (\<exists>known' bundles s'. fetch_block_bundles tools now batch fetch_meta known (fst chunk) (snd chunk) s =
             Some (Inr (known', bundles), s') \<and> r = Inr bundles))"

definition fetch_range :: "tools \<Rightarrow> int \<Rightarrow> 's batch \<Rightarrow> 's meta_fetch \<Rightarrow> range_fetch" where
  "fetch_range tools now batch fetch_meta lo hi got \<longleftrightarrow>
     hi \<le> U64_MAX \<and> (\<exists>tasks completed. mset tasks \<subseteq># mset (block_chunks lo hi RPC_BLOCK_BATCH) \<and>
        list_all2 (task_result tools now batch fetch_meta) tasks completed \<and> got = fetched_range completed)"

text \<open>
  The order the tasks of a range end in does not show: two orders of the same answers give the
  same bundles, in the order of their numbers.
\<close>

theorem fetch_range_any_order:
  assumes "mset completed = mset completed'"
    and "distinct (map (\<lambda>b. b_number (bundle_block b)) (fetched_range completed))"
  shows "fetched_range completed' = fetched_range completed \<and>
    sorted (map (\<lambda>b. b_number (bundle_block b)) (fetched_range completed))"
proof
  let ?f = "\<lambda>b. b_number (bundle_block b)" and ?ok = "\<lambda>r. case r of Inr bs \<Rightarrow> Some bs | Inl _ \<Rightarrow> None"
  let ?all = "\<lambda>rs. concat (List.map_filter ?ok rs)"
  show s: "sorted (map ?f (fetched_range completed))" unfolding fetched_range_def by (rule sorted_sort_key)
  have sum: "mset (?all rs) = (\<Sum>r\<in>#mset rs. case ?ok r of None \<Rightarrow> {#} | Some bs \<Rightarrow> mset bs)" for rs
    by (induction rs) (auto simp: List.map_filter_simps split: sum.split)
  have m: "mset (?all completed') = mset (?all completed)" by (simp only: sum assms(1))
  have "inj_on ?f (set (?all completed'))"
    using assms(2) mset_eq_setD [OF m] by (simp add: distinct_map fetched_range_def)
  then have "sort_key ?f (?all completed') = fetched_range completed"
    by (intro sort_key_inj_key_eq) (use s m in \<open>simp_all add: fetched_range_def\<close>)
  then show "fetched_range completed' = fetched_range completed" by (simp add: fetched_range_def)
qed

subsection \<open>A node that answers with the block asked for\<close>

definition honest :: "'s batch \<Rightarrow> bool" where
  "honest batch \<longleftrightarrow>
     (\<forall>calls s results s'. batch calls s = Some (Inr results, s') \<longrightarrow>
        (\<forall>(c, r)\<in>set (zip calls results). \<forall>n v. c = block_call n \<longrightarrow> r = Inr v \<longrightarrow> v \<noteq> JNull \<longrightarrow>
           n \<le> U64_MAX \<longrightarrow> u64_of_i64 (int_field ''number'' v) = n))"

lemma found_blocks_honest:
  assumes "honest batch" "batch (map block_call nums) s = Some (Inr results, s1)" "(n, v) \<in> set (found_blocks nums results)"
  shows "n \<in> set nums \<and> (n \<le> U64_MAX \<longrightarrow> u64_of_i64 (int_field ''number'' v) = n)"
proof -
  obtain r where r: "(n, r) \<in> set (zip nums results)" "result_value r = Some v"
    using assms(3) by (auto simp: found_blocks_def set_map_filter_iff)
  have "(block_call n, r) \<in> set (zip (map block_call nums) results)" using r(1) by (force simp: zip_map1)
  moreover have "r = Inr v" "v \<noteq> JNull" using r(2) by (auto simp: result_value_def is_null_def split: sum.splits if_splits)
  ultimately have "n \<le> U64_MAX \<longrightarrow> u64_of_i64 (int_field ''number'' v) = n" using assms(1,2) unfolding honest_def by blast
  then show ?thesis using r(1) by (auto dest: set_zip_leftD)
qed

lemma with_receipts_blocks: "(n, blk, receipts) \<in> set (with_receipts found results) \<Longrightarrow> (n, blk) \<in> set found"
  by (induction found results rule: with_receipts.induct) (auto split: if_splits list.splits)

lemma retry_receipts_blocks:
  "retry_receipts batch bs s = Some (ys, s') \<Longrightarrow> (blk, receipts) \<in> set ys \<Longrightarrow> \<exists>n r. (n, blk, r) \<in> set bs"
proof (induction batch bs s arbitrary: ys s' rule: retry_receipts.induct)
  case (2 batch n b r bs s)
  show ?case
  proof (cases "r \<noteq> None \<or> \<not> has_txs b")
    case True
    then obtain rest where "retry_receipts batch bs s = Some (rest, s')" "ys = (b, r) # rest" using 2(3) by auto
    then show ?thesis using 2(1) [OF True, of rest s'] 2(4) by auto
  next
    case False
    then obtain answer s1 rest r' where "batch (map receipt_call (tx_hashes b)) s = Some (answer, s1)"
        "retry_receipts batch bs s1 = Some (rest, s')" "ys = (b, r') # rest"
      using 2(3) by (auto split: option.splits)
    then show ?thesis using 2(2) [OF False, of "(answer, s1)" answer s1 rest s'] 2(4) by auto
  qed
qed auto

lemma complete_blocks_blocks:
  assumes "complete_blocks batch found s = Some (Inr bs, s')" and m: "(blk, receipts) \<in> set bs"
  shows "\<exists>n. (n, blk) \<in> set found"
proof (cases "filter (\<lambda>(n, blk). has_txs blk) found = []")
  case True
  then show ?thesis using assms by (auto simp: complete_blocks_def)
next
  case False
  then obtain ys results s1 where "retry_receipts batch (with_receipts found results) s1 = Some (ys, s')" "bs = without_missing_receipts ys"
    using assms(1) by (auto simp: complete_blocks_def Let_def split: option.splits)
  moreover have "(blk, receipts) \<in> set ys" using calculation(2) m by (auto simp: without_missing_receipts_def)
  ultimately obtain n r where "(n, blk, r) \<in> set (with_receipts found results)" by (blast dest: retry_receipts_blocks)
  then show ?thesis by (blast dest: with_receipts_blocks)
qed

lemma fetch_raw_blocks_in_range:
  "honest batch \<Longrightarrow> hi \<le> U64_MAX \<Longrightarrow> fetch_raw_blocks batch lo hi s = Some (Inr bs, s') \<Longrightarrow> (blk, receipts) \<in> set bs \<Longrightarrow>
     lo \<le> u64_of_i64 (int_field ''number'' blk) \<and> u64_of_i64 (int_field ''number'' blk) \<le> hi"
proof (induction "hi - lo" arbitrary: lo hi s bs s' rule: less_induct)
  case less
  from less.prems(3) show ?case
  proof (cases rule: fetch_raw_blocks_cases)
    case no_range
    then show ?thesis using less.prems(4) by simp
  next
    case (whole results s1)
    obtain n where "(n, blk) \<in> set (found_blocks [lo..<Suc hi] results)"
      using complete_blocks_blocks [OF whole(3) less.prems(4)] by blast
    from found_blocks_honest [OF less.prems(1) whole(2) this] less.prems(2) show ?thesis by (auto simp del: upt_Suc)
  next
    case (halves b1 b2 s1 s2)
    let ?mid = "lo + (hi - lo) div 2"
    have m: "?mid - lo < hi - lo" "hi - (?mid + 1) < hi - lo" using halves(1) by arith+
    have "(blk, receipts) \<in> set b1 \<or> (blk, receipts) \<in> set b2" using halves(4) less.prems(4) by auto
    then show ?thesis
    proof
      assume "(blk, receipts) \<in> set b1"
      from less.hyps [OF m(1) less.prems(1) _ halves(2) this] halves(1) less.prems(2) show ?thesis by arith
    next
      assume "(blk, receipts) \<in> set b2"
      from less.hyps [OF m(2) less.prems(1,2) halves(3) this] show ?thesis by arith
    qed
  qed
qed

lemma attach_token_metadata_blocks:
  "attach_token_metadata fetch_meta known bundles s = Some (known', bundles', s') \<Longrightarrow> map bundle_block bundles' = map bundle_block bundles"
  by (auto simp: attach_token_metadata_def Let_def attach_tokens_def comp_def split: if_splits option.splits sum.splits)

lemma assemble_bundle_block: "bundle_block (assemble_bundle tools now raw receipts) = parse_block now raw"
  by (simp add: assemble_bundle_def Let_def split: prod.split)

lemma parse_block_number: "b_number (parse_block now raw) = int_field ''number'' raw"
  by (simp add: parse_block_def Let_def)

lemma fetch_block_bundles_cases:
  assumes "fetch_block_bundles tools now batch fetch_meta known lo hi s = Some (Inr (known', bundles), s')"
  obtains raw s1 where "fetch_raw_blocks batch lo hi s = Some (Inr raw, s1)"
    "map bundle_block bundles = map (parse_block now \<circ> fst) raw"
  using assms
  by (auto simp: fetch_block_bundles_def assemble_bundle_block comp_def case_prod_beta
      dest!: attach_token_metadata_blocks split: option.splits sum.splits)

lemma task_in_range:
  assumes "honest batch" "hi \<le> U64_MAX" "task_result tools now batch fetch_meta (lo, hi) (Inr bundles)" "b \<in> set bundles"
  shows "lo \<le> bundle_number b \<and> bundle_number b \<le> hi"
proof -
  obtain known s known' s' where f: "fetch_block_bundles tools now batch fetch_meta known lo hi s = Some (Inr (known', bundles), s')"
    using assms(3) by (auto simp: task_result_def)
  obtain raw s1 where raw: "fetch_raw_blocks batch lo hi s = Some (Inr raw, s1)"
      "map bundle_block bundles = map (parse_block now \<circ> fst) raw"
    by (rule fetch_block_bundles_cases [OF f])
  have "bundle_block b \<in> set (map bundle_block bundles)" using assms(4) by simp
  then obtain blk receipts where "(blk, receipts) \<in> set raw" "bundle_block b = parse_block now blk"
    unfolding raw(2) by auto
  then show ?thesis using fetch_raw_blocks_in_range [OF assms(1,2) raw(1)] by (simp add: bundle_number_def parse_block_number)
qed

lemma chunks_from_inside:
  "(a, b) \<in> set (chunks_from batch hi start) \<Longrightarrow> start \<le> hi \<Longrightarrow> start \<le> a \<and> b \<le> hi"
proof (induction batch hi start rule: chunks_from.induct)
  case (1 batch hi start)
  have "(a, b) \<in> set ((start, min (saturating_add64 start (batch - 1)) hi) #
      (case opt_filter (\<lambda>n. n \<le> hi) (checked_add64 start batch) of
         Some n \<Rightarrow> if batch = 0 then [] else chunks_from batch hi n | None \<Rightarrow> []))"
    using "1.prems"(1) by (simp only: chunks_from.simps [symmetric])
  then consider "a = start" "b \<le> hi"
    | n where "opt_filter (\<lambda>n. n \<le> hi) (checked_add64 start batch) = Some n" "batch \<noteq> 0" "(a, b) \<in> set (chunks_from batch hi n)"
    by (cases "opt_filter (\<lambda>n. n \<le> hi) (checked_add64 start batch)") (auto simp del: opt_filter_Some split: if_splits)
  then show ?case
  proof cases
    case (2 n)
    then have "start \<le> n" "n \<le> hi" by (auto simp: opt_filter_def checked_add64_def split: if_splits option.splits)
    then show ?thesis using "1.IH" [OF 2(1,2,3)] by simp
  qed simp
qed

lemma block_chunks_inside: "(a, b) \<in> set (block_chunks lo hi batch) \<Longrightarrow> lo \<le> a \<and> b \<le> hi"
  by (auto simp: block_chunks_def dest: chunks_from_inside split: if_splits)

lemma fetched_range_mem: "b \<in> set (fetched_range completed) \<longleftrightarrow> (\<exists>bs. Inr bs \<in> set completed \<and> b \<in> set bs)"
proof -
  let ?ok = "\<lambda>x. case x of Inl _ \<Rightarrow> None | Inr bs \<Rightarrow> Some bs"
  have ok: "?ok x = Some bs \<longleftrightarrow> x = Inr bs" for x :: "failure + block_bundle list" and bs by (cases x) auto
  have "bs \<in> set (List.map_filter ?ok completed) \<longleftrightarrow> Inr bs \<in> set completed" for bs
    unfolding set_map_filter_iff ok by blast
  then show ?thesis by (auto simp: fetched_range_def)
qed

lemma fetch_range_inside:
  assumes "honest batch" "fetch_range tools now batch fetch_meta lo hi got" "b \<in> set got"
  shows "lo \<le> bundle_number b \<and> bundle_number b \<le> hi"
proof -
  obtain tasks completed where t: "mset tasks \<subseteq># mset (block_chunks lo hi RPC_BLOCK_BATCH)"
      "list_all2 (task_result tools now batch fetch_meta) tasks completed" "got = fetched_range completed" "hi \<le> U64_MAX"
    using assms(2) by (auto simp: fetch_range_def)
  obtain bs where bs: "Inr bs \<in> set completed" "b \<in> set bs" using assms(3) t(3) by (auto simp: fetched_range_mem)
  obtain i where i: "i < length completed" "completed ! i = Inr bs" using bs(1) by (auto simp: in_set_conv_nth)
  obtain c d where cd: "tasks ! i = (c, d)" by (cases "tasks ! i")
  have "(c, d) \<in> set tasks" using i(1) cd list_all2_lengthD [OF t(2)] by (metis nth_mem)
  then have "(c, d) \<in> set (block_chunks lo hi RPC_BLOCK_BATCH)" using set_mset_mono [OF t(1)] by auto
  then have inside: "lo \<le> c" "d \<le> hi" by (simp_all add: block_chunks_inside)
  have "task_result tools now batch fetch_meta (c, d) (Inr bs)"
    using list_all2_nthD2 [OF t(2) i(1)] i(2) cd by simp
  from task_in_range [OF assms(1) _ this bs(2)] inside t(4) show ?thesis by simp
qed

text \<open>The fetches of such a node, and of it alone.\<close>

definition honest_range :: "tools \<Rightarrow> int \<Rightarrow> 's batch \<Rightarrow> 's meta_fetch \<Rightarrow> range_fetch" where
  "honest_range tools now batch fetch_meta lo hi got \<longleftrightarrow> honest batch \<and> fetch_range tools now batch fetch_meta lo hi got"

lemma honest_range_eq: "honest batch \<Longrightarrow> honest_range tools now batch fetch_meta = fetch_range tools now batch fetch_meta"
  by (simp add: fun_eq_iff honest_range_def)

interpretation node_range: range_fetching "honest_range tools now batch fetch_meta" for tools now batch fetch_meta
  by unfold_locales (auto simp: honest_range_def dest: fetch_range_inside)

subsection \<open>A range that is all there\<close>

text \<open>
  \<open>numbered\<close>: the node's blocks carry their numbers. Against such a node that refuses large batches
  and answers the rest, every block of the range comes back.
\<close>

definition numbered :: "(rpc_call \<Rightarrow> json) \<Rightarrow> bool" where
  "numbered answer \<longleftrightarrow> (\<forall>n. n \<le> U64_MAX \<longrightarrow> int_field ''number'' (answer (block_call n)) = i64_of_u64 n)"

lemma zip_map_self: "(x, y) \<in> set (zip xs (map f xs)) \<Longrightarrow> y = f x"
  by (induction xs) auto

lemma numbered_honest: "numbered answer \<Longrightarrow> honest (capped_node cap answer err)"
  by (auto simp: honest_def capped_node_def numbered_def u64_of_i64_i64_of_u64 dest!: zip_map_self split: if_splits)

lemma attach_token_metadata_total:
  assumes "\<And>w s. fetch_meta w s \<noteq> None"
  shows "attach_token_metadata fetch_meta known bundles s \<noteq> None"
  using assms [of "tokens_to_fetch bundles known" s]
  by (auto simp: attach_token_metadata_def Let_def split: option.split sum.split)

text \<open>The rows the blocks of a range become.\<close>

definition parsed_range :: "int \<Rightarrow> (rpc_call \<Rightarrow> json) \<Rightarrow> nat \<Rightarrow> nat \<Rightarrow> block list" where
  "parsed_range now answer lo hi = map (\<lambda>n. parse_block now (answer (block_call n))) [lo..<Suc hi]"

lemma parsed_range_numbers:
  assumes "numbered answer" "int hi \<le> I64_MAX"
  shows "map b_number (parsed_range now answer lo hi) = map int [lo..<Suc hi]"
proof -
  have "int_field ''number'' (answer (block_call n)) = int n" if "n \<in> set [lo..<Suc hi]" for n
    using that assms by (auto simp: numbered_def i64_of_u64_def simp del: upt_Suc)
  then show ?thesis by (simp add: parsed_range_def parse_block_number del: upt_Suc)
qed

lemma whole_task:
  assumes "0 < cap" "healthy answer" "\<And>w s. fetch_meta w s \<noteq> None"
  shows "\<exists>bundles. task_result tools now (capped_node cap answer err) fetch_meta (c, d) (Inr bundles) \<and>
    map bundle_block bundles = parsed_range now answer c d"
proof -
  have raw: "fetch_raw_blocks (capped_node cap answer err) c d () = Some (Inr (map (whole_block answer) [c..<Suc d]), ())"
    using assms(1,2) by (rule fetch_capped)
  let ?made = "map (\<lambda>(blk, receipts). assemble_bundle tools now blk receipts) (map (whole_block answer) [c..<Suc d])"
  obtain known' bundles where a: "attach_token_metadata fetch_meta {} ?made () = Some (known', bundles, ())"
    using attach_token_metadata_total [where fetch_meta = fetch_meta and known = "{}" and bundles = ?made and s = "()", OF assms(3)]
    by (auto simp del: upt_Suc map_map)
  have "fetch_block_bundles tools now (capped_node cap answer err) fetch_meta {} c d () = Some (Inr (known', bundles), ())"
    unfolding fetch_block_bundles_def raw by (simp add: a del: upt_Suc map_map)
  then have t: "task_result tools now (capped_node cap answer err) fetch_meta (c, d) (Inr bundles)"
    by (auto simp: task_result_def)
  have "map bundle_block bundles = parsed_range now answer c d"
    unfolding attach_token_metadata_blocks [OF a] parsed_range_def
    by (simp add: assemble_bundle_block whole_block_def comp_def case_prod_beta del: upt_Suc)
  then show ?thesis using t by blast
qed

lemma fetch_range_whole_blocks:
  assumes "0 < cap" "healthy answer" "numbered answer" "\<And>w s. fetch_meta w s \<noteq> None" "int hi \<le> I64_MAX"
  shows "\<exists>got. fetch_range tools now (capped_node cap answer err) fetch_meta lo hi got \<and>
    map bundle_block got = parsed_range now answer lo hi"
proof -
  let ?node = "capped_node cap answer err" and ?chunks = "block_chunks lo hi RPC_BLOCK_BATCH"
  have hi: "hi \<le> U64_MAX" using assms(5) by simp
  have "\<forall>c\<in>set ?chunks. \<exists>bs. task_result tools now ?node fetch_meta c (Inr bs) \<and> map bundle_block bs = parsed_range now answer (fst c) (snd c)"
  proof
    fix c
    show "\<exists>bs. task_result tools now ?node fetch_meta c (Inr bs) \<and> map bundle_block bs = parsed_range now answer (fst c) (snd c)"
      using whole_task [OF assms(1,2,4), where tools = tools and now = now and err = err and c = "fst c" and d = "snd c"] by simp
  qed
  from bchoice [OF this] obtain f where
    f: "\<forall>c\<in>set ?chunks. task_result tools now ?node fetch_meta c (Inr (f c)) \<and> map bundle_block (f c) = parsed_range now answer (fst c) (snd c)"
    ..
  let ?completed = "map (\<lambda>c. Inr (f c)) ?chunks"
  have flat: "concat (List.map_filter (\<lambda>r. case r of Inr bs \<Rightarrow> Some bs | Inl _ \<Rightarrow> None) (map (\<lambda>c. Inr (f c)) cs)) = concat (map f cs)"
    for cs by (induction cs) (simp_all add: List.map_filter_simps)
  have cover: "concat (map (\<lambda>c. [fst c..<Suc (snd c)]) ?chunks) = [lo..<Suc hi]"
    using chunks_from_covers [of RPC_BLOCK_BATCH lo hi] hi
    by (auto simp: block_chunks_def RPC_BLOCK_BATCH_def case_prod_beta' simp del: upt_Suc)
  have "map bundle_block (concat (map f ?chunks)) = concat (map (\<lambda>c. map bundle_block (f c)) ?chunks)"
    by (simp add: map_concat comp_def)
  also have "\<dots> = concat (map (\<lambda>c. parsed_range now answer (fst c) (snd c)) ?chunks)" using f by (simp cong: map_cong)
  also have "\<dots> = parsed_range now answer lo hi"
    unfolding parsed_range_def cover [symmetric] by (simp only: map_concat map_map comp_def)
  finally have blocks: "map bundle_block (concat (map f ?chunks)) = parsed_range now answer lo hi" .
  have "map (\<lambda>b. b_number (bundle_block b)) (concat (map f ?chunks)) = map int [lo..<Suc hi]"
    unfolding parsed_range_numbers [OF assms(3,5), of now lo, symmetric] blocks [symmetric] by simp
  moreover have "sorted (map int [lo..<Suc hi])" by (simp add: sorted_map del: upt_Suc)
  ultimately have "sort_key (\<lambda>b. b_number (bundle_block b)) (concat (map f ?chunks)) = concat (map f ?chunks)"
    by (intro sort_key_id_if_sorted) (simp only:)
  then have got: "fetched_range ?completed = concat (map f ?chunks)" by (simp only: fetched_range_def flat)
  have "fetch_range tools now ?node fetch_meta lo hi (fetched_range ?completed)"
    unfolding fetch_range_def using f hi by (intro conjI exI [of _ ?chunks] exI [of _ ?completed]) (auto simp: list_all2_conv_all_nth)
  then show ?thesis using blocks got by metis
qed

lemma parsed_range_bundle_numbers:
  assumes "map bundle_block got = parsed_range now answer lo hi" "numbered answer" "int hi \<le> I64_MAX"
  shows "map bundle_number got = [lo..<Suc hi]"
proof -
  have "map bundle_number got = map u64_of_i64 (map b_number (map bundle_block got))"
    by (simp add: bundle_number_def comp_def)
  also have "\<dots> = [lo..<Suc hi]" unfolding assms(1) parsed_range_numbers [OF assms(2,3)] using assms(3)
    by (intro nth_equalityI) (auto simp: is_i64_def simp del: upt_Suc)
  finally show ?thesis .
qed

lemma fetch_range_whole:
  assumes "0 < cap" "healthy answer" "numbered answer" "\<And>w s. fetch_meta w s \<noteq> None" "int hi \<le> I64_MAX"
  shows "\<exists>got. fetch_range tools now (capped_node cap answer err) fetch_meta lo hi got \<and> map bundle_number got = [lo..<Suc hi]"
proof -
  obtain got where "fetch_range tools now (capped_node cap answer err) fetch_meta lo hi got"
      "map bundle_block got = parsed_range now answer lo hi"
    using fetch_range_whole_blocks [OF assms(1-3) _ assms(5), of fetch_meta tools now err lo] assms(4) by blast
  then show ?thesis using parsed_range_bundle_numbers [OF _ assms(3,5)] by blast
qed

subsection \<open>A node to try things on\<close>

text \<open>Empty blocks, each with its number.\<close>

definition empty_blocks :: "rpc_call \<Rightarrow> json" where
  "empty_blocks c =
     (case c of
        (method, JArr (n # _)) \<Rightarrow> if method = ''eth_getBlockByNumber'' then JObj [(''number'', n)] else JArr []
      | _ \<Rightarrow> JArr [])"

lemma empty_blocks_numbered: "numbered empty_blocks"
  using parse_int_any_hex
  by (simp add: numbered_def empty_blocks_def block_call_def int_field_def jget_def unwrap_or_def)

lemma empty_blocks_healthy: "healthy empty_blocks"
  by (simp add: healthy_def empty_blocks_def block_call_def receipts_call_def)

definition plain_tools :: tools where
  "plain_tools = \<lparr>tool_keccak = (\<lambda>_. []), tool_codec = silent_codec, tool_registry = unnamed, tool_raw = (\<lambda>_. None),
     tool_text = (\<lambda>_. [])\<rparr>"

definition small_node :: "unit batch" where
  "small_node = capped_node 2 empty_blocks \<lparr>err_code = 1, err_message = [], err_data = None\<rparr>"

definition no_metas :: "unit meta_fetch" where
  "no_metas wanted s = Some (Inr [], s)"

lemma small_node_honest: "honest small_node"
  unfolding small_node_def by (rule numbered_honest [OF empty_blocks_numbered])

lemma small_node_range:
  "int hi \<le> I64_MAX \<Longrightarrow> \<exists>got. fetch_range plain_tools 0 small_node no_metas lo hi got \<and> map bundle_number got = [lo..<Suc hi]"
  unfolding small_node_def
  by (rule fetch_range_whole) (simp_all add: empty_blocks_healthy empty_blocks_numbered no_metas_def)

text \<open>Three chunks that ended out of order, one of them failed.\<close>

definition numbered_bundle :: "int \<Rightarrow> block_bundle" where
  "numbered_bundle n = sample_bundle\<lparr>bundle_block := sample_block n ''0x09''\<rparr>"

theorem fetch_range_any_order_witness:
  "fetched_range [Inr [numbered_bundle 5], Inl Other_Error, Inr [numbered_bundle 6]] =
   fetched_range [Inr [numbered_bundle 6], Inr [numbered_bundle 5], Inl Other_Error]"
proof -
  have "distinct (map (\<lambda>b. b_number (bundle_block b)) (fetched_range [Inr [numbered_bundle 6], Inr [numbered_bundle 5], Inl Other_Error]))"
    by (simp add: fetched_range_def List.map_filter_simps numbered_bundle_def sample_block_def)
  from fetch_range_any_order [OF _ this, of "[Inr [numbered_bundle 5], Inl Other_Error, Inr [numbered_bundle 6]]"]
  show ?thesis by (simp add: add_mset_commute)
qed

end
