(* ===== verification/Loops.thy ===== *)
theory Loops
  imports Fetching
begin

section \<open>The indexing loops (\<open>src/indexer.rs\<close>)\<close>

text \<open>
  The forward loop follows the head, the backfill loop walks down from it, and both hand their
  bundles to one queue. A loop's state is a record; a turn of it is a step, one rule for each way
  the turn can go. What a fetch brings back, which heads have arrived and what the database holds
  are the rules' free variables, so a theorem about the reachable states holds whatever the node,
  the head feed and the writer do. What a loop has handed over is kept in the state, in order.
\<close>

subsection \<open>Runs without a hole\<close>

definition wrapping_succ :: "nat \<Rightarrow> nat" where
  "wrapping_succ n = (if n = U64_MAX then 0 else Suc n)"

definition wrapping_pred :: "nat \<Rightarrow> nat" where
  "wrapping_pred n = (if n = 0 then U64_MAX else n - 1)"

fun contiguous_from :: "block_bundle list \<Rightarrow> nat \<Rightarrow> block_bundle list" where
  "contiguous_from [] expected = []"
| "contiguous_from (b # bs) expected =
     (if bundle_number b = expected then b # contiguous_from bs (wrapping_succ expected) else [])"

text \<open>The walk down, over the bundles in reverse.\<close>

fun walk_down :: "block_bundle list \<Rightarrow> nat \<Rightarrow> block_bundle list" where
  "walk_down [] expected = []"
| "walk_down (b # bs) expected =
     (if bundle_number b = expected then b # walk_down bs (wrapping_pred expected) else [])"

definition contiguous_down_to :: "block_bundle list \<Rightarrow> nat \<Rightarrow> block_bundle list" where
  "contiguous_down_to bundles hi = rev (walk_down (rev bundles) hi)"

text \<open>The heads queued and the one at hand, as the highest of them.\<close>

definition drain_heads :: "nat list \<Rightarrow> nat \<Rightarrow> nat" where
  "drain_heads queued head = fold max queued head"

subsection \<open>The forward loop\<close>

datatype forward_at = Waiting | Catching_Up nat | Stopped

record forward =
  fw_at :: forward_at
  fw_sent :: nat
  fw_heads :: "nat list"
  fw_out :: "block_bundle list"
  fw_chain_head :: nat
  fw_tip_lag :: nat

definition forward_start :: "nat option \<Rightarrow> forward" where
  "forward_start latest =
     \<lparr> fw_at = Waiting, fw_sent = unwrap_or 0 latest, fw_heads = [], fw_out = [], fw_chain_head = 0, fw_tip_lag = 0 \<rparr>"

text \<open>
  A head received while the loop waits. \<open>seed\<close> is what \<open>wait_for_seed\<close> gives: the newest block
  the backfill has stored, 0 when none came in time.
\<close>

definition forward_receive :: "nat \<Rightarrow> forward \<Rightarrow> forward" where
  "forward_receive seed s =
     (case fw_heads s of
        [] \<Rightarrow> s
      | first # queued \<Rightarrow>
          (let head = drain_heads queued first;
               s = s\<lparr>fw_heads := [], fw_chain_head := head\<rparr>
           in if fw_sent s = 0 \<and> 0 < head then
                (let s = s\<lparr>fw_sent := seed\<rparr>
                 in if seed = 0 \<or> head \<le> seed then s else s\<lparr>fw_at := Catching_Up head\<rparr>)
              else s\<lparr>fw_at := Catching_Up head\<rparr>))"

text \<open>
  One window of the catch-up; \<open>got\<close> is what \<open>fetch_range\<close> brings back. With nothing past \<open>sent\<close> the
  window is asked for again; at the head the loop goes back to waiting.
\<close>

definition window_end :: "nat \<Rightarrow> nat \<Rightarrow> nat \<Rightarrow> nat" where
  "window_end batch sent head = min (saturating_add64 sent batch) head"

definition forward_window :: "block_bundle list \<Rightarrow> nat \<Rightarrow> forward \<Rightarrow> forward" where
  "forward_window got head s =
     (let head = drain_heads (fw_heads s) head;
          s = s\<lparr>fw_heads := [], fw_chain_head := head, fw_at := Catching_Up head, fw_tip_lag := head - fw_sent s\<rparr>;
          bundles = contiguous_from got (fw_sent s + 1)
      in if bundles = [] then s
         else s\<lparr>fw_out := fw_out s @ bundles, fw_sent := bundle_number (last bundles)\<rparr>)"

inductive forward_step :: "nat \<Rightarrow> range_fetch \<Rightarrow> forward \<Rightarrow> forward \<Rightarrow> bool" for batch fetch where
  head_arrives: "h \<le> U64_MAX \<Longrightarrow> forward_step batch fetch s (s\<lparr>fw_heads := fw_heads s @ [h]\<rparr>)"
| receive: "fw_at s = Waiting \<Longrightarrow> fw_heads s \<noteq> [] \<Longrightarrow> forward_step batch fetch s (forward_receive seed s)"
| window: "fw_at s = Catching_Up head \<Longrightarrow> fw_sent s < head \<Longrightarrow>
     fetch (fw_sent s + 1) (window_end batch (fw_sent s) (drain_heads (fw_heads s) head)) got \<Longrightarrow>
     forward_step batch fetch s (forward_window got head s)"
| caught_up: "fw_at s = Catching_Up head \<Longrightarrow> head \<le> fw_sent s \<Longrightarrow>
     forward_step batch fetch s (s\<lparr>fw_at := Waiting, fw_tip_lag := 0\<rparr>)"
| shut_down: "forward_step batch fetch s (s\<lparr>fw_at := Stopped\<rparr>)"

subsection \<open>The backfill loop\<close>

record backfill =
  bf_frontier :: "nat option"
  bf_failures :: nat
  bf_out :: "block_bundle list"

definition backfill_start :: "nat option \<Rightarrow> backfill" where
  "backfill_start lowest = \<lparr> bf_frontier = lowest, bf_failures = 0, bf_out = [] \<rparr>"

definition backfill_range :: "nat \<Rightarrow> nat \<Rightarrow> nat \<times> nat" where
  "backfill_range batch target = (max (target - batch) 1, target - 1)"

text \<open>
  A turn that fetches below \<open>target\<close>, tip first. With nothing right below the target the turn is
  taken again after a pause that grows with the failures in a row.
\<close>

definition backfill_turn :: "block_bundle list \<Rightarrow> nat \<Rightarrow> backfill \<Rightarrow> backfill" where
  "backfill_turn got target s =
     (let bundles = contiguous_down_to got (target - 1)
      in if bundles = [] then s\<lparr>bf_failures := bf_failures s + 1\<rparr>
         else s\<lparr>bf_out := bf_out s @ rev bundles, bf_frontier := Some (bundle_number (hd bundles)), bf_failures := 0\<rparr>)"

definition backfill_backoff_ms :: "nat \<Rightarrow> nat" where
  "backfill_backoff_ms failures = 200 * min failures 10"

text \<open>
  The frontier is walked down from while it is above 1; at the bottom it is read from the database
  again; without one the walk starts above the node's head. While the tip lags by more than
  \<open>TIP_YIELD_LAG\<close> the loop only waits.
\<close>

inductive backfill_step :: "nat \<Rightarrow> range_fetch \<Rightarrow> backfill \<Rightarrow> backfill \<Rightarrow> bool" for batch fetch where
  yields: "TIP_YIELD_LAG < tip_lag \<Longrightarrow> backfill_step batch fetch s s"
| descends: "bf_frontier s = Some target \<Longrightarrow> 1 < target \<Longrightarrow>
     fetch (fst (backfill_range batch target)) (snd (backfill_range batch target)) got \<Longrightarrow>
     backfill_step batch fetch s (backfill_turn got target s)"
| bottom: "bf_frontier s = Some target \<Longrightarrow> target \<le> 1 \<Longrightarrow> backfill_step batch fetch s (s\<lparr>bf_frontier := lowest\<rparr>)"
| from_head: "bf_frontier s = None \<Longrightarrow> head < U64_MAX \<Longrightarrow>
     fetch (fst (backfill_range batch (head + 1))) (snd (backfill_range batch (head + 1))) got \<Longrightarrow>
     backfill_step batch fetch s (backfill_turn got (head + 1) s)"
| head_failed: "bf_frontier s = None \<Longrightarrow> backfill_step batch fetch s s"

section \<open>What the loops send\<close>

lemma run_Cons: "[e..<e + Suc n] = e # [Suc e..<Suc e + n]"
  by (simp add: upt_conv_Cons del: upt_Suc)

lemma contiguous_from_numbers:
  "\<forall>b\<in>set bs. 1 \<le> bundle_number b \<Longrightarrow>
     map bundle_number (contiguous_from bs e) = [e..<e + length (contiguous_from bs e)]"
proof (induction bs arbitrary: e)
  case (Cons b bs)
  show ?case
  proof (cases "e = U64_MAX")
    case True
    have "contiguous_from bs 0 = []" using Cons.prems by (cases bs) auto
    then show ?thesis using True by (simp add: wrapping_succ_def)
  next
    case False
    have ih: "map bundle_number (contiguous_from bs (Suc e)) = [Suc e..<Suc e + length (contiguous_from bs (Suc e))]"
      using Cons by simp
    have hit: "wrapping_succ e = Suc e" using False by (simp only: wrapping_succ_def if_False)
    show ?thesis by (simp only: contiguous_from.simps hit list.map list.size ih run_Cons upt_0 split: if_split) (simp add: upt_conv_Cons del: upt_Suc)
  qed
qed simp

lemma contiguous_from_prefix: "\<exists>rest. bs = contiguous_from bs e @ rest"
  by (induction bs arbitrary: e) auto

lemma contiguous_from_all:
  "map bundle_number bs = [e..<e + length bs] \<Longrightarrow> e + length bs \<le> Suc U64_MAX \<Longrightarrow> contiguous_from bs e = bs"
proof (induction bs arbitrary: e)
  case step: (Cons b bs)
  from step.prems(1) have eq: "bundle_number b # map bundle_number bs = e # [Suc e..<Suc e + length bs]"
    unfolding list.map list.size by (simp only: add_0_right add_Suc_right run_Cons [unfolded add_Suc_right] )
  show ?case
  proof (cases bs)
    case Nil
    then show ?thesis using eq by simp
  next
    case (Cons c cs)
    then have "wrapping_succ e = Suc e" using step.prems(2) by (simp add: wrapping_succ_def)
    moreover have "contiguous_from bs (Suc e) = bs" using step.IH [of "Suc e"] eq step.prems(2) by simp
    ultimately show ?thesis using eq by simp
  qed
qed simp

lemma walk_down_numbers:
  "\<forall>b\<in>set bs. 1 \<le> bundle_number b \<Longrightarrow>
     length (walk_down bs e) \<le> e \<and> map bundle_number (rev (walk_down bs e)) = [Suc e - length (walk_down bs e)..<Suc e]"
proof (induction bs arbitrary: e)
  case (Cons b bs)
  show ?case
  proof (cases "bundle_number b = e")
    case True
    then have e: "1 \<le> e" using Cons.prems by auto
    then have "wrapping_pred e = e - 1" by (simp add: wrapping_pred_def)
    then show ?thesis using Cons.IH [of "e - 1"] Cons.prems True e by (auto simp: Suc_diff_le)
  qed simp
qed simp

subsection \<open>Forward\<close>

text \<open>
  The state a turn of the forward loop leaves: everything handed over so far is one run of
  numbers, from just above the block the loop started from to the last one sent.
\<close>

definition forward_run :: "nat option \<Rightarrow> forward \<Rightarrow> bool" where
  "forward_run latest s \<longleftrightarrow>
     (\<exists>base. base \<le> fw_sent s \<and> map bundle_number (fw_out s) = [Suc base..<Suc (fw_sent s)] \<and>
        (\<forall>n. latest = Some n \<longrightarrow> 0 < n \<longrightarrow> base = n))"

lemma forward_run_empty:
  "fw_out s = [] \<Longrightarrow> (\<And>n. latest = Some n \<Longrightarrow> 0 < n \<Longrightarrow> fw_sent s = n) \<Longrightarrow> forward_run latest s"
  unfolding forward_run_def by (rule exI [of _ "fw_sent s"]) (simp del: upt_Suc)

lemma forward_run_start: "forward_run latest (forward_start latest)"
  by (rule forward_run_empty) (simp_all add: forward_start_def unwrap_or_def)

lemma forward_run_frame:
  "fw_sent s' = fw_sent s \<Longrightarrow> fw_out s' = fw_out s \<Longrightarrow> forward_run latest s \<Longrightarrow> forward_run latest s'"
  by (simp add: forward_run_def)

lemma forward_receive_frame:
  "fw_out (forward_receive seed s) = fw_out s \<and>
   (fw_sent (forward_receive seed s) = fw_sent s \<or> fw_sent s = 0 \<and> fw_sent (forward_receive seed s) = seed)"
  by (auto simp: forward_receive_def Let_def split: list.split)

lemma forward_run_receive:
  assumes "forward_run latest s"
  shows "forward_run latest (forward_receive seed s)"
proof (cases "fw_sent (forward_receive seed s) = fw_sent s")
  case True
  then show ?thesis using forward_receive_frame assms by (blast intro: forward_run_frame)
next
  case False
  then have seeded: "fw_sent s = 0" "fw_sent (forward_receive seed s) = seed"
    using forward_receive_frame [of seed s] by auto
  then have "fw_out s = []" "\<forall>n. latest = Some n \<longrightarrow> \<not> 0 < n" using assms by (auto simp: forward_run_def)
  then show ?thesis using forward_receive_frame [of seed s] by (intro forward_run_empty) auto
qed

lemma forward_window_cases:
  obtains (missed) "contiguous_from got (fw_sent s + 1) = []"
      "fw_out (forward_window got head s) = fw_out s" "fw_sent (forward_window got head s) = fw_sent s"
  | (sent) "contiguous_from got (fw_sent s + 1) \<noteq> []"
      "fw_out (forward_window got head s) = fw_out s @ contiguous_from got (fw_sent s + 1)"
      "fw_sent (forward_window got head s) = bundle_number (last (contiguous_from got (fw_sent s + 1)))"
  by (cases "contiguous_from got (fw_sent s + 1) = []") (simp_all add: forward_window_def Let_def)

lemma forward_window_sent:
  assumes "\<forall>b\<in>set got. 1 \<le> bundle_number b"
  shows "fw_sent (forward_window got head s) = fw_sent s + length (contiguous_from got (fw_sent s + 1))"
    and "map bundle_number (fw_out (forward_window got head s)) =
      map bundle_number (fw_out s) @ [Suc (fw_sent s)..<Suc (fw_sent s) + length (contiguous_from got (fw_sent s + 1))]"
proof -
  let ?c = "contiguous_from got (fw_sent s + 1)"
  have n: "map bundle_number ?c = [fw_sent s + 1..<fw_sent s + 1 + length ?c]"
    by (rule contiguous_from_numbers [OF assms])
  show "fw_sent (forward_window got head s) = fw_sent s + length ?c"
  proof (cases rule: forward_window_cases [of got s head])
    case sent
    have "bundle_number (last ?c) = last (map bundle_number ?c)" by (rule last_map [symmetric, OF sent(1)])
    also have "\<dots> = last [fw_sent s + 1..<fw_sent s + 1 + length ?c]" by (simp only: n)
    also have "\<dots> = fw_sent s + length ?c" using sent(1) by (simp add: last_upt del: upt_Suc)
    finally show ?thesis using sent(3) by simp
  qed simp
  show "map bundle_number (fw_out (forward_window got head s)) = map bundle_number (fw_out s) @ [Suc (fw_sent s)..<Suc (fw_sent s) + length ?c]"
  proof (cases rule: forward_window_cases [of got s head])
    case sent
    then show ?thesis using n by simp
  qed simp
qed

lemma forward_run_window:
  assumes "forward_run latest s" and "\<forall>b\<in>set got. 1 \<le> bundle_number b"
  shows "forward_run latest (forward_window got head s)"
proof -
  obtain base where b: "base \<le> fw_sent s" "map bundle_number (fw_out s) = [Suc base..<Suc (fw_sent s)]"
      "\<forall>n. latest = Some n \<longrightarrow> 0 < n \<longrightarrow> base = n"
    using assms(1) by (auto simp: forward_run_def)
  let ?n = "length (contiguous_from got (fw_sent s + 1))"
  have "[Suc base..<Suc (fw_sent s)] @ [Suc (fw_sent s)..<Suc (fw_sent s) + ?n] = [Suc base..<Suc (fw_sent s + ?n)]"
    using b(1) by (subst upt_join) simp_all
  then show ?thesis
    unfolding forward_run_def forward_window_sent(1) [OF assms(2)] forward_window_sent(2) [OF assms(2)]
    using b by (intro exI [of _ base]) (simp del: upt_Suc)
qed

context range_fetching
begin

lemma positive: "fetch lo hi got \<Longrightarrow> 1 \<le> lo \<Longrightarrow> \<forall>b\<in>set got. 1 \<le> bundle_number b"
  by (fastforce dest: in_range)

lemma forward_run_step:
  assumes "forward_step batch fetch s s'" "forward_run latest s"
  shows "forward_run latest s'"
  using assms(1)
proof cases
  case receive
  then show ?thesis using forward_run_receive [OF assms(2)] by simp
next
  case (window head got)
  have "\<forall>b\<in>set got. 1 \<le> bundle_number b" by (rule positive [OF window(4)]) simp
  then show ?thesis using forward_run_window [OF assms(2)] window by simp
qed (auto intro: forward_run_frame [OF _ _ assms(2)])

lemma forward_reachable_run:
  "(forward_step batch fetch)\<^sup>*\<^sup>* (forward_start latest) s \<Longrightarrow> forward_run latest s"
  by (induction rule: rtranclp_induct) (auto intro: forward_run_start forward_run_step)

end

text \<open>
  C12. The forward loop leaves no hole: whatever heads it is told of, in whatever order, and
  whatever its fetches bring back, the blocks it has handed to the writer are at every moment one
  run of consecutive numbers, in order, each once, up to the last one sent; on a database that
  already held blocks the run begins right above the newest of them.
\<close>

theorem forward_loop_gapless:
  assumes "(forward_step batch (fetch_range tools now node fetch_meta))\<^sup>*\<^sup>* (forward_start latest) s" and "honest node"
  shows "\<exists>base. map bundle_number (fw_out s) = [Suc base..<Suc (fw_sent s)] \<and> base \<le> fw_sent s \<and>
    (\<forall>n. latest = Some n \<longrightarrow> 0 < n \<longrightarrow> base = n)"
  using node_range.forward_reachable_run [of batch tools now node fetch_meta latest s] assms
  by (auto simp: forward_run_def honest_range_eq)

text \<open>A window whose blocks are all there moves to its end.\<close>

lemma forward_window_full:
  assumes "map bundle_number got = [Suc (fw_sent s)..<Suc e]" and "fw_sent s < e" "e \<le> U64_MAX" "fw_heads s = []"
  shows "fw_sent (forward_window got head s) = e \<and> fw_heads (forward_window got head s) = [] \<and>
    fw_at (forward_window got head s) = Catching_Up head \<and> fw_out (forward_window got head s) = fw_out s @ got"
proof -
  have len: "length got = e - fw_sent s" using arg_cong [OF assms(1), of length] by (simp del: upt_Suc)
  have all: "contiguous_from got (fw_sent s + 1) = got"
    by (rule contiguous_from_all) (use assms len in \<open>simp_all del: upt_Suc\<close>)
  have ne: "got \<noteq> []" using len assms(2) by auto
  have "bundle_number (last got) = last (map bundle_number got)" by (rule last_map [symmetric, OF ne])
  then have "bundle_number (last got) = e" using assms(1,2) by (simp add: last_upt)
  then show ?thesis using all ne assms(1,4) by (simp add: forward_window_def Let_def drain_heads_def del: upt_Suc)
qed

definition windows_left :: "nat \<Rightarrow> nat \<Rightarrow> nat" where
  "windows_left batch gap = (gap + batch - 1) div batch"

lemma windows_left_0: "0 < batch \<Longrightarrow> windows_left batch 0 = 0"
  by (simp add: windows_left_def)

lemma windows_left_step:
  assumes "0 < batch" "0 < gap"
  shows "windows_left batch gap = Suc (windows_left batch (gap - batch))"
proof -
  have "(gap + batch - 1) div batch = ((gap - 1) + batch) div batch" using assms(2) by simp
  also have "\<dots> = (gap - 1) div batch + 1" using assms(1) by (intro div_add_self2) simp
  finally have l: "windows_left batch gap = Suc ((gap - 1) div batch)" by (simp add: windows_left_def)
  show ?thesis
  proof (cases "gap \<le> batch")
    case True
    then show ?thesis using l assms by (simp add: windows_left_def)
  next
    case False
    then have "gap - batch + batch - 1 = gap - 1" by simp
    then show ?thesis using l by (simp add: windows_left_def)
  qed
qed

text \<open>The windows of a catch-up, as steps of whatever relation has them.\<close>

lemma forward_catch_up:
  assumes "0 < batch" and "head \<le> U64_MAX"
    and full: "\<And>lo hi. hi \<le> head \<Longrightarrow> \<exists>got. fetch lo hi got \<and> map bundle_number got = [lo..<Suc hi]"
    and step: "\<And>s got e. fw_at s = Catching_Up head \<Longrightarrow> fw_heads s = [] \<Longrightarrow> fw_sent s < head \<Longrightarrow> e \<le> head \<Longrightarrow>
      e = window_end batch (fw_sent s) head \<Longrightarrow> fetch (Suc (fw_sent s)) e got \<Longrightarrow>
      map bundle_number got = [Suc (fw_sent s)..<Suc e] \<Longrightarrow> fw_sent (forward_window got head s) = e \<Longrightarrow>
      fw_out (forward_window got head s) = fw_out s @ got \<Longrightarrow> R s (forward_window got head s)"
  shows "fw_at s = Catching_Up head \<Longrightarrow> fw_heads s = [] \<Longrightarrow> fw_sent s \<le> head \<Longrightarrow>
    \<exists>s'. (R ^^ windows_left batch (head - fw_sent s)) s s' \<and> fw_at s' = Catching_Up head \<and>
      fw_sent s' = head \<and> map bundle_number (fw_out s') = map bundle_number (fw_out s) @ [Suc (fw_sent s)..<Suc head]"
proof (induction "head - fw_sent s" arbitrary: s rule: less_induct)
  case less
  show ?case
  proof (cases "fw_sent s = head")
    case True
    then show ?thesis using less.prems by (intro exI [of _ s]) (simp add: windows_left_0 [OF assms(1)])
  next
    case False
    then have lt: "fw_sent s < head" using less.prems by simp
    let ?e = "window_end batch (fw_sent s) head"
    have e: "fw_sent s < ?e" "?e \<le> head" "?e \<le> U64_MAX" "head - ?e = head - fw_sent s - batch"
      using lt assms(1,2) by (auto simp: window_end_def saturating_add64_def)
    obtain got where got: "fetch (fw_sent s + 1) ?e got" "map bundle_number got = [Suc (fw_sent s)..<Suc ?e]"
      using full [OF e(2), of "fw_sent s + 1"] by auto
    let ?s = "forward_window got head s"
    note w = forward_window_full [OF got(2) e(1,3) less.prems(2), of head]
    have step: "R s ?s"
      by (rule step [OF less.prems(1,2) lt e(2) refl _ got(2)]) (use got(1) w in simp_all)
    have "\<exists>s'. (R ^^ windows_left batch (head - fw_sent ?s)) ?s s' \<and> fw_at s' = Catching_Up head \<and>
        fw_sent s' = head \<and> map bundle_number (fw_out s') = map bundle_number (fw_out ?s) @ [Suc (fw_sent ?s)..<Suc head]"
      by (rule less.hyps) (use w e lt in simp_all)
    then obtain s' where s': "(R ^^ windows_left batch (head - ?e)) ?s s'"
        "fw_at s' = Catching_Up head" "fw_sent s' = head"
        "map bundle_number (fw_out s') = map bundle_number (fw_out ?s) @ [Suc ?e..<Suc head]"
      using w by (auto simp del: upt_Suc)
    have "(R ^^ Suc (windows_left batch (head - ?e))) s s'"
      by (rule relpowp_Suc_I2 [OF step s'(1)])
    then have "(R ^^ windows_left batch (head - fw_sent s)) s s'"
      using windows_left_step [OF assms(1), of "head - fw_sent s"] lt e(4) by simp
    moreover have "[Suc (fw_sent s)..<Suc ?e] @ [Suc ?e..<Suc head] = [Suc (fw_sent s)..<Suc head]"
      using e by (intro upt_join) simp_all
    ultimately show ?thesis using s' w got(2) by (intro exI [of _ s']) (simp del: upt_Suc)
  qed
qed

lemma forward_steps_catch_up:
  assumes "0 < batch" and "head \<le> U64_MAX"
    and full: "\<And>lo hi. hi \<le> head \<Longrightarrow> \<exists>got. fetch lo hi got \<and> map bundle_number got = [lo..<Suc hi]"
    and "fw_at s = Catching_Up head" "fw_heads s = []" "fw_sent s \<le> head"
  shows "\<exists>s'. (forward_step batch fetch ^^ windows_left batch (head - fw_sent s)) s s' \<and> fw_at s' = Catching_Up head \<and>
      fw_sent s' = head \<and> map bundle_number (fw_out s') = map bundle_number (fw_out s) @ [Suc (fw_sent s)..<Suc head]"
  by (rule forward_catch_up [OF assms(1,2) full _ assms(4-6)])
    (auto intro!: forward_step.window simp: drain_heads_def simp del: upt_Suc)

text \<open>
  C0. The forward loop catches up: from a head it knows of, with every block below it to be had,
  it needs one window for each batch of blocks it lacks, and has then handed over exactly the
  blocks from the one it had sent last up to the head, in order.
\<close>

theorem forward_loop_catches_up:
  assumes "0 < cap" "healthy answer" "numbered answer" and "\<And>w s. fetch_meta w s \<noteq> None"
    and "0 < batch" and "int head \<le> I64_MAX"
    and "fw_at s = Catching_Up head" "fw_heads s = []" "fw_sent s \<le> head"
  shows "\<exists>s'. (forward_step batch (fetch_range tools now (capped_node cap answer err) fetch_meta)
      ^^ ((head - fw_sent s + batch - 1) div batch)) s s' \<and> fw_sent s' = head \<and>
    map bundle_number (fw_out s') = map bundle_number (fw_out s) @ [Suc (fw_sent s)..<Suc head]"
proof -
  let ?fetch = "fetch_range tools now (capped_node cap answer err) fetch_meta"
  have head: "head \<le> U64_MAX" using assms(6) by simp
  have full: "\<exists>got. ?fetch lo hi got \<and> map bundle_number got = [lo..<Suc hi]" if "hi \<le> head" for lo hi
    by (rule fetch_range_whole [OF assms(1-4)]) (use that assms(6) in simp)
  have "\<exists>s'. (forward_step batch ?fetch ^^ windows_left batch (head - fw_sent s)) s s' \<and> fw_at s' = Catching_Up head \<and>
      fw_sent s' = head \<and> map bundle_number (fw_out s') = map bundle_number (fw_out s) @ [Suc (fw_sent s)..<Suc head]"
    by (rule forward_steps_catch_up [OF assms(5) head full assms(7-9)])
  then obtain s' where "(forward_step batch ?fetch ^^ windows_left batch (head - fw_sent s)) s s'" "fw_sent s' = head"
      "map bundle_number (fw_out s') = map bundle_number (fw_out s) @ [Suc (fw_sent s)..<Suc head]"
    by (elim exE conjE) (rule that)
  then show ?thesis unfolding windows_left_def by (intro exI [of _ s'] conjI)
qed

subsection \<open>Backfill\<close>

definition backfill_run :: "nat option \<Rightarrow> backfill \<Rightarrow> bool" where
  "backfill_run lowest s \<longleftrightarrow>
     (bf_frontier s = None \<and> bf_out s = [] \<and> lowest = None) \<or>
     (\<exists>origin. (\<forall>n. lowest = Some n \<longrightarrow> origin = n) \<and>
        ((\<exists>f. bf_frontier s = Some f \<and> f \<le> origin \<and> (f = 0 \<longrightarrow> origin = 0) \<and> map bundle_number (bf_out s) = rev [f..<origin]) \<or>
         (\<exists>k \<le> length (bf_out s). map bundle_number (take k (bf_out s)) = rev [1..<origin])))"

lemma backfill_run_start: "backfill_run lowest (backfill_start lowest)"
  by (cases lowest) (auto simp: backfill_run_def backfill_start_def)

lemma backfill_turn_cases:
  assumes "\<forall>b\<in>set got. 1 \<le> bundle_number b" and "1 \<le> target"
  obtains (missed) "bf_out (backfill_turn got target s) = bf_out s" "bf_frontier (backfill_turn got target s) = bf_frontier s"
  | (sent) f bs where "bf_out (backfill_turn got target s) = bf_out s @ bs" "bf_frontier (backfill_turn got target s) = Some f"
      "1 \<le> f" "f \<le> target" "map bundle_number bs = rev [f..<target]"
proof (cases "contiguous_down_to got (target - 1) = []")
  case True
  then show ?thesis by (intro missed) (simp_all add: backfill_turn_def)
next
  case False
  let ?c = "contiguous_down_to got (target - 1)" and ?w = "walk_down (rev got) (target - 1)"
  have c: "?c = rev ?w" by (simp add: contiguous_down_to_def)
  have w: "length ?w \<le> target - 1" "map bundle_number ?c = [target - length ?w..<target]"
    using walk_down_numbers [of "rev got" "target - 1"] assms by (simp_all add: contiguous_down_to_def del: upt_Suc)
  have ne: "0 < length ?w" using False by (simp add: contiguous_down_to_def)
  have "bundle_number (hd ?c) = hd (map bundle_number ?c)" by (rule list.map_sel(1) [symmetric, OF False])
  also have "\<dots> = hd [target - length ?w..<target]" by (simp only: w(2))
  also have "\<dots> = target - length ?w" using w(1) ne assms(2) by simp
  finally have f: "bundle_number (hd ?c) = target - length ?w" .
  show ?thesis
  proof (rule sent [of "rev ?c" "target - length ?w"])
    show "bf_out (backfill_turn got target s) = bf_out s @ rev ?c" using False by (simp add: backfill_turn_def Let_def)
    show "bf_frontier (backfill_turn got target s) = Some (target - length ?w)" using False f by (simp add: backfill_turn_def Let_def)
    show "map bundle_number (rev ?c) = rev [target - length ?w..<target]" by (simp only: rev_map [symmetric] w(2))
  qed (use w(1) ne assms(2) in simp_all)
qed

lemma rev_run_append: "f \<le> t \<Longrightarrow> t \<le> origin \<Longrightarrow> rev [t..<origin] @ rev [f..<t] = rev [f..<origin]"
  by (simp add: upt_join flip: rev_append)

lemma backfill_run_turn:
  assumes "backfill_run lowest s" and "\<forall>b\<in>set got. 1 \<le> bundle_number b" and "1 \<le> target"
    and "bf_frontier s = Some target \<or> bf_frontier s = None"
  shows "backfill_run lowest (backfill_turn got target s)"
  using assms(2,3)
proof (cases rule: backfill_turn_cases [where s = s])
  case missed
  then show ?thesis using assms(1) by (simp add: backfill_run_def)
next
  case (sent f bs)
  consider (fresh) "bf_frontier s = None" "bf_out s = []" "lowest = None"
    | (first) origin where "\<forall>n. lowest = Some n \<longrightarrow> origin = n" "bf_frontier s = Some target" "target \<le> origin"
        "map bundle_number (bf_out s) = rev [target..<origin]"
    | (later) origin k where "\<forall>n. lowest = Some n \<longrightarrow> origin = n" "k \<le> length (bf_out s)"
        "map bundle_number (take k (bf_out s)) = rev [1..<origin]"
    using assms(1,4) unfolding backfill_run_def by fastforce
  then show ?thesis
  proof cases
    case fresh
    then show ?thesis using sent unfolding backfill_run_def by (intro disjI2 exI [of _ target]) simp
  next
    case (first origin)
    then have "map bundle_number (bf_out s @ bs) = rev [f..<origin]" using sent rev_run_append [of f target origin] by simp
    then show ?thesis using sent first unfolding backfill_run_def by (intro disjI2 exI [of _ origin]) simp
  next
    case (later origin k)
    then show ?thesis using sent unfolding backfill_run_def by (intro disjI2 exI [of _ origin] conjI disjI2 exI [of _ k]) simp_all
  qed
qed

lemma backfill_run_bottom:
  assumes "backfill_run lowest s" and "bf_frontier s = Some target" and "target \<le> 1"
  shows "backfill_run lowest (s\<lparr>bf_frontier := l\<rparr>)"
proof -
  obtain origin where origin: "\<forall>n. lowest = Some n \<longrightarrow> origin = n"
    and c: "(target \<le> origin \<and> (target = 0 \<longrightarrow> origin = 0) \<and> map bundle_number (bf_out s) = rev [target..<origin]) \<or>
      (\<exists>k \<le> length (bf_out s). map bundle_number (take k (bf_out s)) = rev [1..<origin])"
    using assms(1,2) unfolding backfill_run_def by fastforce
  have "\<exists>k \<le> length (bf_out s). map bundle_number (take k (bf_out s)) = rev [1..<origin]"
    using c
  proof
    assume f: "target \<le> origin \<and> (target = 0 \<longrightarrow> origin = 0) \<and> map bundle_number (bf_out s) = rev [target..<origin]"
    have "target = 0 \<or> target = 1" using assms(3) by arith
    then show ?thesis
    proof
      assume "target = 1"
      then show ?thesis using f by (intro exI [of _ "length (bf_out s)"]) simp
    qed (use f in \<open>intro exI [of _ 0], simp\<close>)
  qed
  then show ?thesis using origin unfolding backfill_run_def by (intro disjI2 exI [of _ origin]) simp
qed

context range_fetching
begin

lemma backfill_reachable_run:
  "(backfill_step batch fetch)\<^sup>*\<^sup>* (backfill_start lowest) s \<Longrightarrow> backfill_run lowest s"
proof (induction rule: rtranclp_induct)
  case base
  show ?case by (rule backfill_run_start)
next
  case (step s s')
  note ih = step.IH
  have low: "1 \<le> fst (backfill_range batch target)" for target by (simp add: backfill_range_def)
  from step.hyps(2) show ?case
  proof cases
    case (descends target got)
    note g = positive [OF descends(4) low]
    show ?thesis unfolding descends(1) by (rule backfill_run_turn [OF ih g]) (use descends in auto)
  next
    case (bottom target l)
    then show ?thesis using backfill_run_bottom [OF ih] by simp
  next
    case (from_head head got)
    note g = positive [OF from_head(4) low]
    show ?thesis unfolding from_head(1) by (rule backfill_run_turn [OF ih g]) (use from_head in auto)
  qed (use ih in simp_all)
qed

end

text \<open>
  C0. The backfill leaves no hole: it hands over the blocks below its start one by one downwards,
  none left out, and it reads a new frontier from the database only once it has handed over
  everything down to block 1.
\<close>

theorem backfill_loop_gapless:
  assumes "(backfill_step batch (fetch_range tools now node fetch_meta))\<^sup>*\<^sup>* (backfill_start (Some origin)) s" and "honest node"
  shows "(\<exists>f \<le> origin. bf_frontier s = Some f \<and> map bundle_number (bf_out s) = rev [f..<origin]) \<or>
    (\<exists>k \<le> length (bf_out s). map bundle_number (take k (bf_out s)) = rev [1..<origin])"
  using node_range.backfill_reachable_run [of batch tools now node fetch_meta "Some origin" s] assms
  unfolding backfill_run_def by (auto simp: honest_range_eq)

text \<open>The loops against the node of empty blocks.\<close>

definition sample_catching :: forward where
  "sample_catching = (forward_start (Some 3))\<lparr>fw_at := Catching_Up 7, fw_chain_head := 7\<rparr>"

lemma sample_catching_reached: "(forward_step batch fetch)\<^sup>*\<^sup>* (forward_start (Some 3)) sample_catching"
proof -
  let ?s = "(forward_start (Some 3))\<lparr>fw_heads := fw_heads (forward_start (Some 3)) @ [7]\<rparr>"
  have 1: "forward_step batch fetch (forward_start (Some 3)) ?s" by (rule forward_step.head_arrives) simp
  have "sample_catching = forward_receive 0 ?s"
    by (simp add: sample_catching_def forward_start_def forward_receive_def drain_heads_def unwrap_or_def)
  moreover have "forward_step batch fetch ?s (forward_receive 0 ?s)"
    by (rule forward_step.receive) (simp_all add: forward_start_def)
  ultimately have 2: "forward_step batch fetch ?s sample_catching" by (simp only:)
  show ?thesis using 1 2 by (meson converse_rtranclp_into_rtranclp r_into_rtranclp)
qed

lemma sample_caught_up:
  "\<exists>s'. (forward_step 2 (fetch_range plain_tools 0 small_node no_metas) ^^ windows_left 2 4) sample_catching s' \<and> fw_sent s' = 7"
proof -
  have "\<exists>s'. (forward_step 2 (fetch_range plain_tools 0 small_node no_metas) ^^ windows_left 2 (7 - fw_sent sample_catching)) sample_catching s' \<and>
      fw_at s' = Catching_Up 7 \<and> fw_sent s' = 7 \<and>
      map bundle_number (fw_out s') = map bundle_number (fw_out sample_catching) @ [Suc (fw_sent sample_catching)..<Suc 7]"
    by (rule forward_steps_catch_up) (auto simp: sample_catching_def forward_start_def unwrap_or_def intro!: small_node_range simp del: upt_Suc)
  then show ?thesis by (auto simp: sample_catching_def forward_start_def unwrap_or_def simp del: upt_Suc)
qed

theorem forward_loop_gapless_witness:
  "\<exists>s base. (forward_step 2 (fetch_range plain_tools 0 small_node no_metas))\<^sup>*\<^sup>* (forward_start (Some 3)) s \<and> fw_sent s = 7 \<and>
     base = 3 \<and> map bundle_number (fw_out s) = [Suc base..<Suc 7]"
proof -
  obtain s where s: "(forward_step 2 (fetch_range plain_tools 0 small_node no_metas))\<^sup>*\<^sup>* sample_catching s" "fw_sent s = 7"
    using sample_caught_up by (auto dest: relpowp_imp_rtranclp)
  have r: "(forward_step 2 (fetch_range plain_tools 0 small_node no_metas))\<^sup>*\<^sup>* (forward_start (Some 3)) s"
    using sample_catching_reached s(1) by (rule rtranclp_trans)
  obtain base where "map bundle_number (fw_out s) = [Suc base..<Suc (fw_sent s)]" "base = 3"
    using forward_loop_gapless [OF r small_node_honest] by auto
  then show ?thesis using r s(2) by auto
qed

theorem forward_loop_catches_up_witness:
  "\<exists>s'. (forward_step 2 (fetch_range plain_tools 0 small_node no_metas) ^^ 2) sample_catching s' \<and> map bundle_number (fw_out s') = [4..<Suc 7]"
proof -
  have c: "fw_at sample_catching = Catching_Up 7" "fw_heads sample_catching = []" "fw_sent sample_catching \<le> 7"
      "fw_sent sample_catching = 3" "fw_out sample_catching = []"
    by (simp_all add: sample_catching_def forward_start_def unwrap_or_def)
  have "\<exists>s'. (forward_step 2 (fetch_range plain_tools 0 (capped_node 2 empty_blocks \<lparr>err_code = 1, err_message = [], err_data = None\<rparr>) no_metas)
      ^^ ((7 - fw_sent sample_catching + 2 - 1) div 2)) sample_catching s' \<and> fw_sent s' = 7 \<and>
    map bundle_number (fw_out s') = map bundle_number (fw_out sample_catching) @ [Suc (fw_sent sample_catching)..<Suc 7]"
    by (rule forward_loop_catches_up) (simp_all add: c(1-3) empty_blocks_healthy empty_blocks_numbered no_metas_def)
  then show ?thesis unfolding small_node_def [symmetric] by (auto simp: c(4,5) simp del: upt_Suc)
qed

theorem backfill_loop_gapless_witness:
  "\<exists>s. (backfill_step 3 (fetch_range plain_tools 0 small_node no_metas))\<^sup>*\<^sup>* (backfill_start (Some 5)) s \<and> bf_out s \<noteq> [] \<and>
     ((\<exists>f \<le> 5. bf_frontier s = Some f \<and> map bundle_number (bf_out s) = rev [f..<5]) \<or>
      (\<exists>k \<le> length (bf_out s). map bundle_number (take k (bf_out s)) = rev [1..<5]))"
proof -
  obtain got where got: "fetch_range plain_tools 0 small_node no_metas 2 4 got" "map bundle_number got = [2..<Suc 4]"
    using small_node_range [of 4 2] by auto
  let ?s = "backfill_turn got 5 (backfill_start (Some 5))"
  have step: "backfill_step 3 (fetch_range plain_tools 0 small_node no_metas) (backfill_start (Some 5)) ?s"
  proof (rule backfill_step.descends)
    have "fst (backfill_range 3 5) = 2" "snd (backfill_range 3 5) = 4" by (simp_all add: backfill_range_def)
    then show "fetch_range plain_tools 0 small_node no_metas (fst (backfill_range 3 5)) (snd (backfill_range 3 5)) got"
      using got(1) by (simp only:)
  qed (simp_all add: backfill_start_def)
  obtain a b c where "got = [a, b, c]" "bundle_number c = 4"
    using got(2) by (auto simp: upt_conv_Cons map_eq_Cons_conv simp del: upt_Suc)
  then have "bf_out ?s \<noteq> []" by (simp add: backfill_turn_def contiguous_down_to_def Let_def)
  then show ?thesis using backfill_loop_gapless [OF r_into_rtranclp [of "backfill_step 3 _", OF step] small_node_honest] step by blast
qed

end
