(* ===== verification/Contracts.thy ===== *)
theory Contracts
  imports Decoder Paging
begin

section \<open>Addresses known by name (\<open>src/contracts.rs\<close>)\<close>

text \<open>
  The table of contracts at fixed addresses, what an address is taken for, and the proxies told by
  their bytecode. The number of a zone portal is read by the tempo primitives, the parameter
  \<open>zone_portal_id\<close>. \<open>to_lowercase\<close> is read on ASCII text.
\<close>

record known =
  k_at :: string
  k_label :: string
  k_kind :: string
  k_abis :: "string list"

definition precompile :: "string \<Rightarrow> string \<Rightarrow> string list \<Rightarrow> known" where
  "precompile address label abis = \<lparr>k_at = address, k_label = label, k_kind = ''precompile'', k_abis = abis\<rparr>"

definition contract :: "string \<Rightarrow> string \<Rightarrow> string list \<Rightarrow> known" where
  "contract address label abis = \<lparr>k_at = address, k_label = label, k_kind = ''contract'', k_abis = abis\<rparr>"

definition KNOWN :: "known list" where
  "KNOWN = [
    precompile ''0xfeEC000000000000000000000000000000000000'' ''Fee Manager'' [''fee_manager'', ''fee_amm''],
    precompile ''0x403c000000000000000000000000000000000000'' ''TIP-403 Registry'' [''tip403_registry''],
    precompile ''0x20Fc000000000000000000000000000000000000'' ''TIP-20 Factory'' [''tip20_factory''],
    precompile ''0x4D50500000000000000000000000000000000000'' ''TIP-20 Channel Reserve'' [''tip20_channel_reserve''],
    precompile ''0xDEc0000000000000000000000000000000000000'' ''Stablecoin DEX'' [''stablecoin_dex''],
    precompile ''0x4e4F4E4345000000000000000000000000000000'' ''Nonce Manager'' [''nonce''],
    precompile ''0xCccCcCCC00000000000000000000000000000000'' ''Validator Config V1 (legacy)'' [''validator_config''],
    precompile ''0xCccCcCCC00000000000000000000000000000001'' ''Validator Config'' [''validator_config_v2''],
    precompile ''0xaAAAaaAA00000000000000000000000000000000'' ''Account Keychain'' [''account_keychain''],
    precompile ''0xFDC0000000000000000000000000000000000000'' ''Address Registry'' [''address_registry''],
    precompile ''0x5165300000000000000000000000000000000000'' ''Signature Verifier'' [''signature_verifier''],
    precompile ''0xB10C000000000000000000000000000000000000'' ''Receive Policy Guard'' [''receive_policy_guard''],
    precompile ''0x1060000000000000000000000000000000000000'' ''Storage Credits'' [''storage_credits''],
    precompile ''0xC077e00000000000000000000000000000000000'' ''Current Committee'' [''current_committee''],
    precompile ''0x5AF2000000000000000000000000000000000000'' ''Zone Factory'' [''zone_factory''],
    contract ''0xcA11bde05977b3631167028862bE2a173976CA11'' ''Multicall3'' [''multicall3''],
    contract ''0x000000000022D473030F116dDEE9F6B43aC78BA3'' ''Permit2'' [''permit2''],
    contract ''0xba5Ed099633D3B313e4D5F7bdc1305d3c28ba5Ed'' ''CreateX'' [''createx''],
    contract ''0x0000000000000000000000000000000000000a00'' ''Anchoring'' [''anchoring''],
    contract ''0xF873bbD8B4ed0580425592a37b218BC46A628C70'' ''Anchoring Implementation'' [''anchoring''],
    contract ''0x5AD1000000000000000000000000000000000000'' ''Zone Portal Implementation'' [''zone_portal'']]"

definition known_at :: "string \<Rightarrow> known option" where
  "known_at addr = find (\<lambda>k. eq_ic (k_at k) (trim addr)) KNOWN"

definition RESERVED_TOKENS :: "string list" where
  "RESERVED_TOKENS = [
    ''0x20C0000000000000000000000000000000000000'',
    ''0x20C0000000000000000000000000000000000001'',
    ''0x20C0000000000000000000000000000000000002'',
    ''0x20C0000000000000000000000000000000000003'']"

definition TIP20_TOKEN_PREFIX :: string where
  "TIP20_TOKEN_PREFIX = ''0x20c0000000000000000''"

definition is_tip20_token :: "string \<Rightarrow> bool" where
  "is_tip20_token addr \<longleftrightarrow> starts_with TIP20_TOKEN_PREFIX (lower (trim addr))"

definition get_contract_name :: "(string \<Rightarrow> nat option) \<Rightarrow> string \<Rightarrow> string option" where
  "get_contract_name zone_portal_id addr =
     (case known_at addr of
        Some k \<Rightarrow> Some (k_label k)
      | None \<Rightarrow> map_option (\<lambda>n. ''Zone Portal #'' @ dec_nat n) (zone_portal_id (trim addr)))"

record address_info =
  info_kind :: string
  info_label :: "string option"

definition identify_address :: "(string \<Rightarrow> nat option) \<Rightarrow> string \<Rightarrow> address_info" where
  "identify_address zone_portal_id addr =
     (let label = get_contract_name zone_portal_id addr
      in \<lparr> info_kind =
             (case known_at addr of
                Some k \<Rightarrow> k_kind k
              | None \<Rightarrow> if label \<noteq> None then ''contract'' else if is_tip20_token addr then ''token'' else ''eoa''),
           info_label = label \<rparr>)"

definition abis_for_address :: "(string \<Rightarrow> nat option) \<Rightarrow> string \<Rightarrow> string list" where
  "abis_for_address zone_portal_id addr =
     (case known_at addr of
        Some k \<Rightarrow> k_abis k
      | None \<Rightarrow>
          if is_tip20_token addr then [''tip20'', ''tip20_roles_auth'']
          else if zone_portal_id (trim addr) \<noteq> None then [''zone_portal'']
          else [])"

definition contains :: "string \<Rightarrow> string \<Rightarrow> bool" where
  "contains s pat \<longleftrightarrow> find_sub pat s \<noteq> None"

definition name_rank :: "string \<Rightarrow> string \<Rightarrow> nat option" where
  "name_rank query lowered =
     (if lowered = query then Some 0
      else if starts_with query lowered then Some 1
      else if contains lowered query then Some 2
      else None)"

definition search_named :: "keccak \<Rightarrow> string \<Rightarrow> nat \<Rightarrow> (string \<times> string) list" where
  "search_named keccak query limit =
     (let query = lower (trim query)
      in if length query < 2 then []
         else
           (let matches = List.map_filter
                  (\<lambda>k. map_option (\<lambda>rank. (rank, k_label k, k_at k)) (name_rank query (lower (k_label k)))) KNOWN
            in map (\<lambda>(_, name, address). (checksum_address keccak address, name)) (take limit (sort matches))))"

subsection \<open>Proxies\<close>

datatype proxy_target = In_Code string | In_Slot string

definition IMPLEMENTATION_SLOT :: string where
  "IMPLEMENTATION_SLOT = ''0x360894a13ba1a3210667c828492db98dca3e2076cc3735a920a3ca505d382bbc''"

definition SAFE_MASTER_COPY :: string where
  "SAFE_MASTER_COPY = ''a619486e00000000000000000000000000000000000000000000000000000000''"

definition EIP1167_HEAD :: string where
  "EIP1167_HEAD = ''363d3d373d3d3d363d73''"

definition EIP1167_TAIL :: string where
  "EIP1167_TAIL = ''5af43d82803e903d91602b57fd5bf3''"

definition strip_suffix :: "string \<Rightarrow> string \<Rightarrow> string option" where
  "strip_suffix suf s = map_option rev (strip_prefix (rev suf) (rev s))"

definition proxy :: "keccak \<Rightarrow> string \<Rightarrow> (string \<times> proxy_target) option" where
  "proxy keccak code =
     (let hex = trim_start_matches ''0x'' code
      in case opt_filter (\<lambda>address. length address = 40)
                (Option.bind (strip_prefix EIP1167_HEAD hex) (strip_suffix EIP1167_TAIL)) of
           Some address \<Rightarrow> Some (''EIP-1167'', In_Code (checksum_address keccak (''0x'' @ address)))
         | None \<Rightarrow>
             if contains hex (drop 2 IMPLEMENTATION_SLOT) then Some (''ERC-1967'', In_Slot IMPLEMENTATION_SLOT)
             else if contains hex SAFE_MASTER_COPY then Some (''Safe'', In_Slot ''0x0'')
             else None)"

section \<open>What the lookups give\<close>

lemma strip_suffix_Some: "strip_suffix suf s = Some r \<longleftrightarrow> s = r @ suf"
proof -
  have "strip_suffix suf s = Some r \<longleftrightarrow> rev s = rev suf @ rev r"
    by (auto simp: strip_suffix_def strip_prefix_Some)
  also have "\<dots> \<longleftrightarrow> s = r @ suf" by (metis rev_append rev_rev_ident)
  finally show ?thesis .
qed

text \<open>
  A bytecode is taken for a minimal clone exactly when it is the standard's code around forty
  hexadecimal digits, and those are the address it is said to delegate to.
\<close>

theorem proxy_is_clone:
  "proxy keccak code = Some (''EIP-1167'', target) \<longleftrightarrow>
     (\<exists>address. length address = 40 \<and> trim_start_matches ''0x'' code = EIP1167_HEAD @ address @ EIP1167_TAIL \<and>
        target = In_Code (checksum_address keccak (''0x'' @ address)))"
proof -
  let ?hex = "trim_start_matches ''0x'' code"
  let ?found = "opt_filter (\<lambda>address. length address = 40) (Option.bind (strip_prefix EIP1167_HEAD ?hex) (strip_suffix EIP1167_TAIL))"
  have f: "?found = Some a \<longleftrightarrow> length a = 40 \<and> ?hex = EIP1167_HEAD @ a @ EIP1167_TAIL" for a
    by (auto simp: bind_eq_Some_conv strip_suffix_Some strip_prefix_Some)
  show ?thesis
  proof (cases ?found)
    case None
    then have "\<not> (length a = 40 \<and> ?hex = EIP1167_HEAD @ a @ EIP1167_TAIL)" for a using f [of a] by simp
    then show ?thesis using None by (auto simp: proxy_def Let_def)
  next
    case (Some a)
    then have eq: "length a = 40" "?hex = EIP1167_HEAD @ a @ EIP1167_TAIL" using f [of a] by simp_all
    have "a' = a" if "?hex = EIP1167_HEAD @ a' @ EIP1167_TAIL" for a' using that eq(2) by simp
    moreover have "proxy keccak code = Some (''EIP-1167'', In_Code (checksum_address keccak (''0x'' @ a)))"
      unfolding proxy_def Let_def Some by (simp only: option.case)
    ultimately show ?thesis using eq by (simp only: option.inject prod.inject) blast
  qed
qed

lemma known_addresses_distinct: "distinct (map (lower \<circ> k_at) KNOWN)"
  by code_simp

lemma find_unique_key:
  "distinct (map f xs) \<Longrightarrow> find (\<lambda>x. f x = y) xs = Some x \<longleftrightarrow> x \<in> set xs \<and> f x = y"
  by (induction xs) auto

text \<open>
  No entry of the table hides another: an address names exactly the entry it spells, whatever
  the case of its digits and the spaces around it.
\<close>

theorem known_at_iff:
  "known_at addr = Some k \<longleftrightarrow> k \<in> set KNOWN \<and> lower (k_at k) = lower (trim addr)"
  unfolding known_at_def eq_ic_def using find_unique_key [OF known_addresses_distinct, of "lower (trim addr)" k] by simp

end
