(* ===== verification/Background.thy ===== *)
theory Background
  imports Fetching Contracts Ledger_Rebuild Ledger_Rewrite
begin

section \<open>The tasks beside the loops (\<open>src/indexer.rs\<close>)\<close>

text \<open>
  What runs at start and beside the loops: the anchoring backfill from the node's logs, the genesis
  balances page by page, and the repairs of rows an older build wrote. The loops that may not end
  are \<open>partial_function\<close>s whose value is \<open>None\<close> then.
\<close>

subsection \<open>Anchoring events from the node's logs\<close>

definition BACKFILL_KEY :: string where
  "BACKFILL_KEY = ''anchoring_backfilled_to''"

definition WINDOW :: nat where
  "WINDOW = 50000"

definition logs_filter :: "nat \<Rightarrow> nat \<Rightarrow> json" where
  "logs_filter lo hi =
     JObj [(''address'', JStr ANCHORING_ADDRESS), (''fromBlock'', JStr (''0x'' @ hex_nat lo)), (''toBlock'', JStr (''0x'' @ hex_nat hi))]"

text \<open>A log's row, stamped from the block the index holds; none while the block is not indexed.\<close>

definition anchoring_event_from_log :: "tools \<Rightarrow> database \<Rightarrow> json \<Rightarrow> anchoring_event option" where
  "anchoring_event_from_log tools db log =
     (case jget ''blockNumber'' log of
        None \<Rightarrow> None
      | Some n \<Rightarrow>
          (let block_number = parse_int_any n
           in case get_block_timestamp db block_number of
                None \<Rightarrow> None
              | Some timestamp \<Rightarrow>
                  (case decode_event (tool_keccak tools) (tool_codec tools) (tool_registry tools) log of
                     None \<Rightarrow> None
                   | Some decoded \<Rightarrow>
                       (case (de_transaction_hash decoded, jget ''logIndex'' log) of
                          (Some hash, Some i) \<Rightarrow> anchoring_event_of decoded hash block_number (parse_int_any i) timestamp
                        | _ \<Rightarrow> None))))"

fun store_logs :: "tools \<Rightarrow> json list \<Rightarrow> database \<Rightarrow> database" where
  "store_logs tools [] db = db"
| "store_logs tools (log # logs) db =
     (case anchoring_event_from_log tools db log of
        Some e \<Rightarrow> store_logs tools logs (snd (insert_anchoring e db))
      | None \<Rightarrow> store_logs tools logs db)"

text \<open>One window, written in one transaction with the watermark.\<close>

definition store_window :: "tools \<Rightarrow> int \<Rightarrow> json list \<Rightarrow> nat \<Rightarrow> database \<Rightarrow> database" where
  "store_window tools now logs hi db = set_kv now BACKFILL_KEY (dec_nat hi) (store_logs tools logs db)"

type_synonym 's log_source = "nat \<Rightarrow> nat \<Rightarrow> 's \<Rightarrow> (failure + json list) \<times> 's"

text \<open>
  The windows from \<open>lo\<close> to the head. A refused window is halved, one of a single block fails the
  backfill, and a node that does not answer is asked again.
\<close>

partial_function (option) anchoring_windows ::
  "tools \<Rightarrow> int \<Rightarrow> 's log_source \<Rightarrow> nat \<Rightarrow> nat \<Rightarrow> nat \<Rightarrow> database \<Rightarrow> 's \<Rightarrow> (failure option \<times> database \<times> 's) option" where
  "anchoring_windows tools now get_logs head lo window db s =
     (if head < lo then Some (None, db, s)
      else
        (let hi = min (lo + window - 1) head
         in case get_logs lo hi s of
              (Inr logs, s') \<Rightarrow> anchoring_windows tools now get_logs head (hi + 1) window (store_window tools now logs hi db) s'
            | (Inl (Rpc_Error e), s') \<Rightarrow>
                if window = 1 then Some (Some (Rpc_Error e), db, s')
                else anchoring_windows tools now get_logs head lo (window div 2) db s'
            | (Inl Other_Error, s') \<Rightarrow> anchoring_windows tools now get_logs head lo window db s'))"

definition backfilled_to :: "database \<Rightarrow> nat" where
  "backfilled_to db = unwrap_or 0 (Option.bind (get_kv db BACKFILL_KEY) (u64_from_str_radix 10))"

definition backfill_anchoring ::
  "tools \<Rightarrow> int \<Rightarrow> (json \<Rightarrow> 's \<Rightarrow> reply \<times> 's) \<Rightarrow> database \<Rightarrow> 's \<Rightarrow> (failure option \<times> database \<times> 's) option" where
  "backfill_anchoring tools now send db s =
     (case eth_block_number send s of
        (Inl e, s') \<Rightarrow> Some (Some e, db, s')
      | (Inr head, s') \<Rightarrow>
          if head \<le> backfilled_to db then Some (None, db, s')
          else anchoring_windows tools now (\<lambda>lo hi. eth_get_logs send (logs_filter lo hi)) head (backfilled_to db) WINDOW db s')"

subsection \<open>Genesis balances\<close>

partial_function (option) add_genesis_balances ::
  "keccak \<Rightarrow> int \<Rightarrow> (holder list \<Rightarrow> 's \<Rightarrow> ((failure + string list) \<times> 's) option) \<Rightarrow> database \<Rightarrow> 's
     \<Rightarrow> (failure option \<times> database \<times> 's) option" where
  "add_genesis_balances keccak now balances_at db s =
     (case holders_without_genesis_balance keccak 1000 db of
        None \<Rightarrow> Some (None, db, s)
      | Some (cursor, holders) \<Rightarrow>
          (case balances_at holders s of
             None \<Rightarrow> None
           | Some (Inl e, s') \<Rightarrow> Some (Some e, db, s')
           | Some (Inr balances, s') \<Rightarrow>
               add_genesis_balances keccak now balances_at (save_genesis_balances now (zip holders balances) cursor db) s'))"

subsection \<open>Repairs at start\<close>

definition stale_metadata :: "token_metadata \<Rightarrow> bool" where
  "stale_metadata m \<longleftrightarrow> k_address m \<in> set RESERVED_TOKENS \<or> has_control_chars (k_name m) \<or> has_control_chars (k_symbol m)"

definition repair_token_metadata ::
  "keccak \<Rightarrow> int \<Rightarrow> 's meta_fetch \<Rightarrow> database \<Rightarrow> 's \<Rightarrow> (failure option \<times> database \<times> 's) option" where
  "repair_token_metadata keccak now fetch_meta db s =
     (let stale = map k_address (filter stale_metadata (get_all_token_metas keccak db))
      in if stale = [] then Some (None, db, s)
         else (case fetch_meta stale s of
                 None \<Rightarrow> None
               | Some (Inl e, s') \<Rightarrow> Some (Some e, db, s')
               | Some (Inr metas, s') \<Rightarrow>
                   Some (None, save_token_metadata now (filter (\<lambda>m. \<not> (m_name m = [] \<and> m_symbol m = [])) metas) db, s')))"

definition repair_derived_tables :: "keccak \<Rightarrow> int \<Rightarrow> database \<Rightarrow> database" where
  "repair_derived_tables keccak now db =
     (let has_transfers = table_has_rows (transfer_events db); has_balances = table_has_rows (token_balances db)
      in if has_transfers \<and> \<not> has_balances then rebuild_token_balances keccak now db
         else if has_balances then sync_holder_counts keccak now db
         else db)"

section \<open>What the tasks leave\<close>

subsection \<open>Anchoring\<close>

lemma store_logs_frame: "\<exists>es. store_logs tools logs db = db\<lparr>anchoring_events := es\<rparr>"
proof (induction logs arbitrary: db)
  case Nil
  have "store_logs tools [] db = db\<lparr>anchoring_events := anchoring_events db\<rparr>" by simp
  then show ?case ..
next
  case (Cons log logs)
  have one: "\<exists>es. snd (insert_anchoring e db) = db\<lparr>anchoring_events := es\<rparr>" for e
    using insert_anchorings_frame [of "[e]" db] by simp
  show ?case
  proof (cases "anchoring_event_from_log tools db log")
    case None
    then show ?thesis using Cons by simp
  next
    case (Some e)
    obtain es where es: "snd (insert_anchoring e db) = db\<lparr>anchoring_events := es\<rparr>" using one by blast
    obtain es' where "store_logs tools logs (db\<lparr>anchoring_events := es\<rparr>) = db\<lparr>anchoring_events := es\<rparr>\<lparr>anchoring_events := es'\<rparr>"
      using Cons by blast
    then show ?thesis using Some es by auto
  qed
qed

lemma from_log_blocks:
  assumes "blocks db' = blocks db"
  shows "anchoring_event_from_log tools db' log = anchoring_event_from_log tools db log"
  unfolding anchoring_event_from_log_def get_block_timestamp_def assms ..

lemma insert_anchoring_blocks: "blocks (snd (insert_anchoring e db)) = blocks db"
  by (simp add: insert_anchoring_def)

lemma insert_anchoring_keys:
  "anchoring_key ` set (anchoring_events (snd (insert_anchoring e db))) = insert (anchoring_key e) (anchoring_key ` set (anchoring_events db))"
  using insert_anchorings_keys [of "[e]" db] by simp

lemma store_logs_keys:
  "anchoring_key ` set (anchoring_events (store_logs tools logs db)) =
     anchoring_key ` set (anchoring_events db) \<union> {anchoring_key e |e log. log \<in> set logs \<and> anchoring_event_from_log tools db log = Some e}"
proof (induction logs arbitrary: db)
  case (Cons log logs)
  show ?case
  proof (cases "anchoring_event_from_log tools db log")
    case None
    then show ?thesis using Cons by auto
  next
    case (Some e)
    then show ?thesis
      by (auto simp: Cons insert_anchoring_keys from_log_blocks [OF insert_anchoring_blocks])
  qed
qed simp

definition log_number :: "json \<Rightarrow> int" where
  "log_number log = int_field ''blockNumber'' log"

text \<open>A node that holds the logs \<open>all\<close> and answers for at most \<open>cap\<close> blocks at once.\<close>

definition ranged_logs :: "nat \<Rightarrow> rpc_error \<Rightarrow> json list \<Rightarrow> 's log_source" where
  "ranged_logs cap err logs lo hi s =
     (if hi - lo < cap then Inr (filter (\<lambda>l. int lo \<le> log_number l \<and> log_number l \<le> int hi) logs) else Inl (Rpc_Error err), s)"

definition holds_log :: "tools \<Rightarrow> database \<Rightarrow> database \<Rightarrow> json \<Rightarrow> bool" where
  "holds_log tools db db' log \<longleftrightarrow>
     (case anchoring_event_from_log tools db log of
        Some e \<Rightarrow> anchoring_key e \<in> anchoring_key ` set (anchoring_events db')
      | None \<Rightarrow> True)"

lemma store_window_frame: "\<exists>es ms. store_window tools now logs hi db = db\<lparr>anchoring_events := es, kv := ms\<rparr>"
proof -
  obtain es where "store_logs tools logs db = db\<lparr>anchoring_events := es\<rparr>" using store_logs_frame by blast
  then have "store_window tools now logs hi db = db\<lparr>anchoring_events := es, kv := AList.update BACKFILL_KEY (dec_nat hi, now) (kv db)\<rparr>"
    by (simp add: store_window_def set_kv_def)
  then show ?thesis by blast
qed

lemma store_window_blocks: "blocks (store_window tools now logs hi db) = blocks db"
  using store_window_frame [of tools now logs hi db] by auto

lemma store_window_events: "anchoring_events (store_window tools now logs hi db) = anchoring_events (store_logs tools logs db)"
  by (simp add: store_window_def set_kv_def)

lemma store_window_grows:
  "anchoring_key ` set (anchoring_events db) \<subseteq> anchoring_key ` set (anchoring_events (store_window tools now logs hi db))"
  unfolding store_window_events store_logs_keys by blast

lemma store_window_holds: "log \<in> set logs \<Longrightarrow> holds_log tools db (store_window tools now logs hi db) log"
  unfolding holds_log_def store_window_events store_logs_keys by (auto split: option.split)

lemma backfilled_to_window: "hi \<le> U64_MAX \<Longrightarrow> backfilled_to (store_window tools now logs hi db) = hi"
  by (simp add: backfilled_to_def store_window_def set_kv_def get_kv_def map_of_update u64_from_dec_nat unwrap_or_def)

lemma windows_step:
  assumes "lo \<le> head"
  shows "anchoring_windows tools now (ranged_logs cap err logs) head lo window db s =
    (let hi = min (lo + window - 1) head
     in if hi - lo < cap
        then anchoring_windows tools now (ranged_logs cap err logs) head (hi + 1) window
               (store_window tools now (filter (\<lambda>l. int lo \<le> log_number l \<and> log_number l \<le> int hi) logs) hi db) s
        else if window = 1 then Some (Some (Rpc_Error err), db, s)
        else anchoring_windows tools now (ranged_logs cap err logs) head lo (window div 2) db s)"
  using assms by (subst anchoring_windows.simps) (simp add: ranged_logs_def Let_def)

definition backfilled :: "tools \<Rightarrow> json list \<Rightarrow> nat \<Rightarrow> nat \<Rightarrow> database \<Rightarrow> database \<Rightarrow> bool" where
  "backfilled tools logs lo head db db' \<longleftrightarrow>
     (\<forall>log\<in>set logs. int lo \<le> log_number log \<longrightarrow> log_number log \<le> int head \<longrightarrow> holds_log tools db db' log) \<and>
     anchoring_key ` set (anchoring_events db) \<subseteq> anchoring_key ` set (anchoring_events db') \<and>
     (if lo \<le> head then backfilled_to db' = head else db' = db) \<and> (\<exists>es ms. db' = db\<lparr>anchoring_events := es, kv := ms\<rparr>)"

lemma backfilled_window:
  assumes "lo \<le> hi" "hi \<le> head" "head \<le> U64_MAX"
    and db1: "db1 = store_window tools now (filter (\<lambda>l. int lo \<le> log_number l \<and> log_number l \<le> int hi) logs) hi db"
    and rest: "backfilled tools logs (hi + 1) head db1 db'"
  shows "backfilled tools logs lo head db db'"
proof -
  have grows: "anchoring_key ` set (anchoring_events db) \<subseteq> anchoring_key ` set (anchoring_events db1)"
    unfolding db1 by (rule store_window_grows)
  have keys: "anchoring_key ` set (anchoring_events db1) \<subseteq> anchoring_key ` set (anchoring_events db')"
    using rest by (simp add: backfilled_def)
  have same: "anchoring_event_from_log tools db1 log = anchoring_event_from_log tools db log" for log
    unfolding db1 by (rule from_log_blocks [OF store_window_blocks])
  have held: "holds_log tools db db' log" if l: "log \<in> set logs" "int lo \<le> log_number log" "log_number log \<le> int head" for log
  proof (cases "log_number log \<le> int hi")
    case True
    then have "holds_log tools db db1 log" unfolding db1 using l by (intro store_window_holds) simp
    then show ?thesis using keys unfolding holds_log_def by (auto split: option.splits)
  next
    case False
    then have "holds_log tools db1 db' log" using rest l by (simp add: backfilled_def)
    then show ?thesis unfolding holds_log_def same .
  qed
  have mark: "backfilled_to db' = head"
  proof (cases "hi = head")
    case True
    then have "db' = db1" using rest by (simp add: backfilled_def)
    then show ?thesis using True assms(3) unfolding db1 by (simp add: backfilled_to_window)
  next
    case False
    then show ?thesis using rest assms(2) by (simp add: backfilled_def)
  qed
  have frame: "\<exists>es ms. db' = db\<lparr>anchoring_events := es, kv := ms\<rparr>"
  proof -
    obtain es ms where 1: "db1 = db\<lparr>anchoring_events := es, kv := ms\<rparr>" using store_window_frame unfolding db1 by blast
    obtain es' ms' where "db' = db1\<lparr>anchoring_events := es', kv := ms'\<rparr>" using rest unfolding backfilled_def by blast
    then have "db' = db\<lparr>anchoring_events := es', kv := ms'\<rparr>" unfolding 1 by simp
    then show ?thesis by blast
  qed
  have "if lo \<le> head then backfilled_to db' = head else db' = db" using mark assms(1,2) by simp
  then show ?thesis unfolding backfilled_def using held subset_trans [OF grows keys] frame by blast
qed

lemma anchoring_windows_complete:
  assumes "0 < cap" and head: "head \<le> U64_MAX"
  shows "0 < window \<Longrightarrow> \<exists>db'. anchoring_windows tools now (ranged_logs cap err logs) head lo window db s = Some (None, db', s) \<and>
    backfilled tools logs lo head db db'"
proof (induction "(head + 1 - lo) + window" arbitrary: lo window db rule: less_induct)
  case less
  show ?case
  proof (cases "lo \<le> head")
    case False
    then have "anchoring_windows tools now (ranged_logs cap err logs) head lo window db s = Some (None, db, s)"
      by (subst anchoring_windows.simps) simp
    moreover have "\<exists>es ms. db = db\<lparr>anchoring_events := es, kv := ms\<rparr>"
      by (rule exI [of _ "anchoring_events db"], rule exI [of _ "kv db"]) simp
    ultimately show ?thesis using False by (intro exI [of _ db]) (simp add: backfilled_def)
  next
    case True
    let ?hi = "min (lo + window - 1) head"
    have hi: "lo \<le> ?hi" "?hi \<le> head" using True less.prems by auto
    note step = windows_step [OF True, of tools now cap err logs window db s]
    show ?thesis
    proof (cases "?hi - lo < cap")
      case served: True
      let ?db1 = "store_window tools now (filter (\<lambda>l. int lo \<le> log_number l \<and> log_number l \<le> int ?hi) logs) ?hi db"
      have m: "(head + 1 - (?hi + 1)) + window < (head + 1 - lo) + window" using hi by arith
      obtain db' where "anchoring_windows tools now (ranged_logs cap err logs) head (?hi + 1) window ?db1 s = Some (None, db', s)"
          "backfilled tools logs (?hi + 1) head ?db1 db'"
        using less.hyps [OF m less.prems] by blast
      then show ?thesis using served backfilled_window [OF hi head refl] unfolding step Let_def by auto
    next
      case False
      have "window \<noteq> 1" using False assms(1) hi by auto
      then have m: "(head + 1 - lo) + window div 2 < (head + 1 - lo) + window" "0 < window div 2" using less.prems by auto
      show ?thesis using less.hyps [OF m] False \<open>window \<noteq> 1\<close> unfolding step Let_def by auto
    qed
  qed
qed

text \<open>
  C17. The anchoring backfill ends and misses nothing: against a node that answers for a limited
  number of blocks at once, however few, it reads the range from the watermark to the head, stores
  the event of every log there whose block is indexed, keeps those it had, sets the watermark to the
  head and touches no other table.
\<close>

theorem anchoring_backfill_complete:
  assumes "0 < cap" and "0 < window" and "head \<le> U64_MAX" and "lo \<le> head"
  shows "\<exists>db'. anchoring_windows tools now (ranged_logs cap err logs) head lo window db s = Some (None, db', s) \<and>
    (\<forall>log\<in>set logs. \<forall>e. int lo \<le> log_number log \<longrightarrow> log_number log \<le> int head \<longrightarrow> anchoring_event_from_log tools db log = Some e \<longrightarrow>
       anchoring_key e \<in> anchoring_key ` set (anchoring_events db')) \<and>
    anchoring_key ` set (anchoring_events db) \<subseteq> anchoring_key ` set (anchoring_events db') \<and>
    backfilled_to db' = head \<and> (\<exists>es ms. db' = db\<lparr>anchoring_events := es, kv := ms\<rparr>)"
proof -
  obtain db' where w: "anchoring_windows tools now (ranged_logs cap err logs) head lo window db s = Some (None, db', s)"
      and b: "backfilled tools logs lo head db db'"
    using anchoring_windows_complete [OF assms(1,3,2), of tools now err logs lo db s] by (elim exE conjE) (rule that)
  have "\<forall>log\<in>set logs. \<forall>e. int lo \<le> log_number log \<longrightarrow> log_number log \<le> int head \<longrightarrow> anchoring_event_from_log tools db log = Some e \<longrightarrow>
       anchoring_key e \<in> anchoring_key ` set (anchoring_events db')"
    using b unfolding backfilled_def holds_log_def by (auto split: option.splits)
  then show ?thesis using w b assms(4) unfolding backfilled_def by auto
qed

theorem anchoring_backfill_complete_witness:
  "\<exists>db'. anchoring_windows plain_tools 0 (ranged_logs 2 \<lparr>err_code = 1, err_message = [], err_data = None\<rparr> [JNull]) 40 3 WINDOW empty_database () = Some (None, db', ()) \<and>
     backfilled_to db' = 40"
  using anchoring_backfill_complete [of 2 WINDOW 40 3 plain_tools 0 "\<lparr>err_code = 1, err_message = [], err_data = None\<rparr>" "[JNull]" empty_database "()"]
  by (auto simp: WINDOW_def)

subsection \<open>Genesis balances\<close>

lemma genesis_page_event:
  assumes "holders_without_genesis_balance keccak limit db = Some (c, holders)"
  shows "\<exists>e\<in>set (transfer_events db). e_id e = c \<and> genesis_cursor db < c"
proof -
  let ?ev = "filter (\<lambda>e. e_id e > genesis_cursor db) (transfer_events db)"
  obtain rows where rows: "rows = take limit (sort_key e_id ?ev)" "rows \<noteq> []" "c = e_id (last rows)"
    using holders_page [OF assms] .
  have "last rows \<in> set ?ev" using rows(1,2) by (metis last_in_set set_sort in_set_takeD)
  then show ?thesis using rows(3) by auto
qed

lemma fewer_beyond:
  assumes "e \<in> set es" "c < e_id e" "e_id e \<le> c'"
  shows "length (filter (\<lambda>e. c' < e_id e) es) < length (filter (\<lambda>e. c < e_id e) es)"
  using assms
proof (induction es)
  case (Cons x xs)
  have "length (filter (\<lambda>e. c' < e_id e) xs) \<le> length (filter (\<lambda>e. c < e_id e) xs)"
    using Cons.prems(2,3) by (induction xs) auto
  then show ?case using Cons by auto
qed simp

lemma add_genesis_balances_ends:
  assumes answers: "\<And>hs s. \<exists>bs s'. balances_at hs s = Some (Inr bs, s') \<and> length bs = length hs"
  shows "distinct (map e_id (transfer_events db)) \<Longrightarrow> \<forall>e\<in>set (transfer_events db). is_i64 (e_id e) \<Longrightarrow>
    complete_to keccak db (genesis_cursor db) \<Longrightarrow> db_ok db \<Longrightarrow>
    \<exists>db' s'. add_genesis_balances keccak now balances_at db s = Some (None, db', s') \<and> db_ok db' \<and>
      transfer_events db' = transfer_events db \<and> holders_without_genesis_balance keccak 1000 db' = None \<and>
      complete_to keccak db' (genesis_cursor db')"
proof (induction "length (filter (\<lambda>e. genesis_cursor db < e_id e) (transfer_events db))" arbitrary: db s rule: less_induct)
  case less
  show ?case
  proof (cases "holders_without_genesis_balance keccak 1000 db")
    case None
    then have "add_genesis_balances keccak now balances_at db s = Some (None, db, s)" by (subst add_genesis_balances.simps) simp
    then show ?thesis using less.prems None by blast
  next
    case (Some page)
    obtain c holders where page: "holders_without_genesis_balance keccak 1000 db = Some (c, holders)" using Some by (cases page) auto
    obtain bs s1 where b: "balances_at holders s = Some (Inr bs, s1)" "length bs = length holders" using answers by blast
    obtain e where e: "e \<in> set (transfer_events db)" "e_id e = c" "genesis_cursor db < c" using genesis_page_event [OF page] by auto
    have i: "is_i64 c" using less.prems(2) e(1,2) by auto
    let ?db1 = "save_genesis_balances now (zip holders bs) c db"
    have zip: "map fst (zip holders bs) = holders" using b(2) by simp
    note st = genesis_page_step [OF page zip less.prems(1) i less.prems(3,4), of now]
    have ev: "transfer_events ?db1 = transfer_events db" by (rule save_genesis_balances_spec(2) [OF less.prems(4)])
    have cur: "genesis_cursor ?db1 = c"
      using save_genesis_balances_spec(4) [OF less.prems(4), of now "zip holders bs" c] i by (simp add: genesis_cursor_def parse_i64_dec_int)
    have m: "length (filter (\<lambda>e. genesis_cursor ?db1 < e_id e) (transfer_events ?db1)) < length (filter (\<lambda>e. genesis_cursor db < e_id e) (transfer_events db))"
      unfolding ev cur by (rule fewer_beyond [OF e(1)]) (use e in simp_all)
    obtain db' s' where d: "add_genesis_balances keccak now balances_at ?db1 s1 = Some (None, db', s')" "db_ok db'"
        "transfer_events db' = transfer_events ?db1" "holders_without_genesis_balance keccak 1000 db' = None" "complete_to keccak db' (genesis_cursor db')"
      using less.hyps [OF m, of s1] less.prems(1,2) st ev by auto
    have "add_genesis_balances keccak now balances_at db s = add_genesis_balances keccak now balances_at ?db1 s1"
      by (subst add_genesis_balances.simps) (simp add: page b(1))
    then show ?thesis using d ev by auto
  qed
qed

text \<open>
  C0. The genesis backfill ends and is complete: while the node answers, it stops after finitely many
  pages, the ledger still holds, no transfer is touched, and every holder a stored transfer names,
  the zero address apart, has its balance at genesis.
\<close>

theorem add_genesis_balances_complete:
  assumes "\<And>hs s. \<exists>bs s'. balances_at hs s = Some (Inr bs, s') \<and> length bs = length hs"
    and "distinct (map e_id (transfer_events db))" and "\<forall>e\<in>set (transfer_events db). is_i64 (e_id e)"
    and "complete_to keccak db (genesis_cursor db)" and "db_ok db"
  shows "\<exists>db' s'. add_genesis_balances keccak now balances_at db s = Some (None, db', s') \<and> db_ok db' \<and>
    transfer_events db' = transfer_events db \<and>
    (\<forall>e\<in>set (transfer_events db). \<forall>side\<in>{e_from_addr e, e_to_addr e}.
       blob_addr keccak side \<noteq> ZERO_ADDRESS \<longrightarrow> has_genesis db' (e_token_addr e) side)"
proof -
  obtain db' s' where d: "add_genesis_balances keccak now balances_at db s = Some (None, db', s')" "db_ok db'"
      "transfer_events db' = transfer_events db" "holders_without_genesis_balance keccak 1000 db' = None" "complete_to keccak db' (genesis_cursor db')"
    using add_genesis_balances_ends [where balances_at = balances_at and now = now and s = s, OF assms] by (elim exE conjE) (rule that)
  have "has_genesis db' (e_token_addr e) side"
    if "e \<in> set (transfer_events db)" "side \<in> {e_from_addr e, e_to_addr e}" "blob_addr keccak side \<noteq> ZERO_ADDRESS" for e side
    by (rule genesis_finished [OF d(4) _ d(5)]) (use that d(3) in \<open>simp_all add: needs_genesis_def\<close>)
  then show ?thesis using d(1-3) by blast
qed

theorem add_genesis_balances_complete_witness:
  "\<exists>db db' s'. transfer_events db \<noteq> [] \<and> add_genesis_balances (\<lambda>_. []) 5 (\<lambda>hs s. Some (Inr (map (\<lambda>_. ''3'') hs), s)) db () = Some (None, db', s') \<and> db_ok db'"
proof -
  let ?e = "(sample_transfer 0 ''aa'' ''bb'' ''0'')\<lparr>e_id := 4\<rparr>"
  let ?db = "empty_database\<lparr>transfer_events := [?e]\<rparr>"
  have pos: "0 < e_id ?e" by simp
  have "\<exists>db' s'. add_genesis_balances (\<lambda>_. []) 5 (\<lambda>hs s. Some (Inr (map (\<lambda>_. ''3'') hs), s)) ?db () = Some (None, db', s') \<and> db_ok db' \<and>
    transfer_events db' = transfer_events ?db \<and>
    (\<forall>e\<in>set (transfer_events ?db). \<forall>side\<in>{e_from_addr e, e_to_addr e}.
       blob_addr (\<lambda>_. []) side \<noteq> ZERO_ADDRESS \<longrightarrow> has_genesis db' (e_token_addr e) side)"
    by (rule add_genesis_balances_complete) (auto simp: genesis_page_of_one [OF pos] db_ok_one_transfer is_i64_def)
  then obtain db' s' where "add_genesis_balances (\<lambda>_. []) 5 (\<lambda>hs s. Some (Inr (map (\<lambda>_. ''3'') hs), s)) ?db () = Some (None, db', s')" "db_ok db'"
    by (elim exE conjE) (rule that)
  then show ?thesis by (intro exI [of _ ?db] exI [of _ db'] exI [of _ s'] conjI) simp_all
qed

end
