(* ===== verification/Writer.thy ===== *)
theory Writer
  imports Background Loops
begin

section \<open>The writer and what runs beside it (\<open>write_loop\<close>)\<close>

text \<open>
  One task takes the bundles off the queue and commits them, as many as are there up to 64; a commit
  that fails is tried again with the same bundles. Between its commits the genesis, repair,
  anchoring and stats tasks write to the same database, each holding it for one transaction: the
  machine's steps are the transactions, in any order.
\<close>

definition MAX_BATCH :: nat where
  "MAX_BATCH = 64"

definition QUEUE_CAP :: nat where
  "QUEUE_CAP = 1024"

subsection \<open>The other writers\<close>

inductive beside :: "database \<Rightarrow> database \<Rightarrow> bool" where
  genesis_page: "beside db (save_genesis_balances now balances cursor db)"
| metadata: "beside db (save_token_metadata now metas db)"
| anchoring_window: "beside db (store_window tools now logs hi db)"
| repair: "beside db (repair_derived_tables keccak now db)"
| stats: "beside db (set_kv now key value db)"

subsection \<open>The machine\<close>

record writer =
  wr_queue :: "block_bundle list"
  wr_batch :: "block_bundle list"
  wr_db :: database
  wr_stopped :: bool
  wr_sent :: "block_bundle list"
  wr_written :: "block_bundle list"

definition writer_start :: "database \<Rightarrow> writer" where
  "writer_start db = \<lparr> wr_queue = [], wr_batch = [], wr_db = db, wr_stopped = False, wr_sent = [], wr_written = [] \<rparr>"

text \<open>The first bundle is waited for, then as many as are queued are taken with it.\<close>

definition take_batch :: "writer \<Rightarrow> writer" where
  "take_batch w = w\<lparr>wr_batch := take MAX_BATCH (wr_queue w), wr_queue := drop MAX_BATCH (wr_queue w)\<rparr>"

inductive write_step :: "writer \<Rightarrow> writer \<Rightarrow> bool" where
  sends: "length (wr_queue w) < QUEUE_CAP \<Longrightarrow> write_step w (w\<lparr>wr_queue := wr_queue w @ [b], wr_sent := wr_sent w @ [b]\<rparr>)"
| takes: "\<not> wr_stopped w \<Longrightarrow> wr_batch w = [] \<Longrightarrow> wr_queue w \<noteq> [] \<Longrightarrow> write_step w (take_batch w)"
| commits: "\<not> wr_stopped w \<Longrightarrow> wr_batch w \<noteq> [] \<Longrightarrow> save_block_bundles now (wr_batch w) (wr_db w) = Inr db' \<Longrightarrow>
     write_step w (w\<lparr>wr_batch := [], wr_db := db', wr_written := wr_written w @ wr_batch w\<rparr>)"
| fails: "\<not> wr_stopped w \<Longrightarrow> wr_batch w \<noteq> [] \<Longrightarrow> write_step w w"
| others: "beside (wr_db w) db' \<Longrightarrow> write_step w (w\<lparr>wr_db := db'\<rparr>)"
| stops: "write_step w (w\<lparr>wr_stopped := True\<rparr>)"

section \<open>What every order of writes keeps\<close>

lemma recount_keeps_ok:
  assumes "db_ok db"
  shows "db_ok (fold (update_holder_count now) tokens db)"
proof -
  have u: "unique_keys (token_metas db)" using assms by (simp add: db_ok_def counts_ok_def)
  note rec = recount_spec [OF u, of now tokens]
  obtain ms where ms: "fold (update_holder_count now) tokens db = db\<lparr>token_metas := ms\<rparr>" using rec by blast
  have "k_holder_count row = int (count_holders db t)" if r: "map_of ms t = Some row" for t row
  proof -
    have "map_option k_holder_count (Some row) =
      (if t \<in> hex_blob ` set tokens then map_option (\<lambda>_. int (count_holders db t)) (map_of (token_metas db) t)
       else map_option k_holder_count (map_of (token_metas db) t))"
      using rec [unfolded ms, THEN conjunct2, THEN conjunct2, rule_format, of t] r by simp
    then show ?thesis using assms unfolding db_ok_def counts_ok_def
      by (cases "map_of (token_metas db) t") (auto split: if_splits)
  qed
  then show ?thesis using assms rec unfolding ms
    by (auto simp: db_ok_def counts_ok_def ledger_ok_def ledger_def balances_wf_def bal_def count_holders_def)
qed

lemma count_holders_same:
  assumes "balances_wf db" "balances_wf db'" "\<And>k. bal db k = bal db' k"
  shows "count_holders db t = count_holders db' t"
  by (simp add: count_holders_card [OF assms(1)] count_holders_card [OF assms(2)] assms(3))

lemma rebuild_keeps_ok:
  assumes "db_ok db"
  shows "db_ok (rebuild_token_balances keccak now db)"
proof -
  obtain bs where r: "rebuild_token_balances keccak now db = fold (update_holder_count now) (touched_tokens keccak db) (db\<lparr>token_balances := bs\<rparr>)"
    and wf: "balances_wf (db\<lparr>token_balances := bs\<rparr>)" and b: "\<And>k. bal (db\<lparr>token_balances := bs\<rparr>) k = ledger db k"
    using rebuilt_balances by blast
  let ?db = "db\<lparr>token_balances := bs\<rparr>"
  have "bal ?db k = bal db k" for k using b [of k] assms by (cases k) (simp add: db_ok_def ledger_ok_def)
  then have same: "count_holders ?db t = count_holders db t" for t
    by (intro count_holders_same [OF wf]) (use assms in \<open>simp_all add: db_ok_def ledger_ok_def\<close>)
  have "ledger ?db k = ledger db k" for k by (cases k) (simp add: ledger_def)
  then have "db_ok ?db" using assms wf b same by (auto simp: db_ok_def ledger_ok_def counts_ok_def)
  then show ?thesis unfolding r by (rule recount_keeps_ok)
qed

lemma beside_keeps_ok: "beside db db' \<Longrightarrow> db_ok db \<Longrightarrow> db_ok db'"
proof (induction rule: beside.cases)
  case (metadata db now metas)
  obtain ms where ms: "save_token_metadata now metas db = db\<lparr>token_metas := ms\<rparr>"
    unfolding save_token_metadata_def using upsert_token_metas_frame by blast
  have "counts_ok (save_token_metadata now metas db)"
    unfolding save_token_metadata_def by (rule upsert_token_metas_counts) (use metadata in \<open>simp add: db_ok_def\<close>)
  then show ?case using metadata unfolding ms by (simp add: db_ok_def ledger_ok_def ledger_def balances_wf_def bal_def)
next
  case (anchoring_window db tools now logs hi)
  obtain es ms where "store_window tools now logs hi db = db\<lparr>anchoring_events := es, kv := ms\<rparr>"
    using store_window_frame by blast
  then show ?case using anchoring_window by (simp add: db_ok_def ledger_ok_def ledger_def)
next
  case (repair db keccak now)
  then show ?case
    by (auto simp: repair_derived_tables_def Let_def sync_holder_counts_def rebuild_keeps_ok recount_keeps_ok)
qed (auto simp: save_genesis_balances_spec(1) set_kv_def)

lemma recount_frame: "unique_keys (token_metas db) \<Longrightarrow> \<exists>ms. fold (update_holder_count now) tokens db = db\<lparr>token_metas := ms\<rparr>"
  using recount_spec by blast

lemma repair_frame:
  assumes "unique_keys (token_metas db)"
  shows "\<exists>bs ms. repair_derived_tables keccak now db = db\<lparr>token_balances := bs, token_metas := ms\<rparr>"
proof -
  have keep: "\<exists>bs ms. db = db\<lparr>token_balances := bs, token_metas := ms\<rparr>"
    by (rule exI [of _ "token_balances db"], rule exI [of _ "token_metas db"]) simp
  obtain ms where "sync_holder_counts keccak now db = db\<lparr>token_metas := ms\<rparr>"
    unfolding sync_holder_counts_def using recount_frame [OF assms] by blast
  then have sync: "sync_holder_counts keccak now db = db\<lparr>token_balances := token_balances db, token_metas := ms\<rparr>" by simp
  obtain bs where "rebuild_token_balances keccak now db = fold (update_holder_count now) (touched_tokens keccak db) (db\<lparr>token_balances := bs\<rparr>)"
    using rebuilt_balances by blast
  moreover obtain ms' where "fold (update_holder_count now) (touched_tokens keccak db) (db\<lparr>token_balances := bs\<rparr>) =
      db\<lparr>token_balances := bs\<rparr>\<lparr>token_metas := ms'\<rparr>"
    using recount_frame [of "db\<lparr>token_balances := bs\<rparr>" now "touched_tokens keccak db"] assms by auto
  ultimately have rebuild: "rebuild_token_balances keccak now db = db\<lparr>token_balances := bs, token_metas := ms'\<rparr>" by simp
  have "repair_derived_tables keccak now db \<in> {rebuild_token_balances keccak now db, sync_holder_counts keccak now db, db}"
    by (simp add: repair_derived_tables_def Let_def)
  then show ?thesis
  proof (elim insertE emptyE)
    assume "repair_derived_tables keccak now db = rebuild_token_balances keccak now db"
    then show ?thesis unfolding rebuild by blast
  next
    assume "repair_derived_tables keccak now db = sync_holder_counts keccak now db"
    then show ?thesis unfolding sync by blast
  next
    assume "repair_derived_tables keccak now db = db"
    then show ?thesis using keep by simp
  qed
qed

lemma beside_keeps_events:
  assumes "beside db db'" and ok: "db_ok db"
  shows "blocks db' = blocks db" "transfer_events db' = transfer_events db"
    "anchoring_key ` set (anchoring_events db) \<subseteq> anchoring_key ` set (anchoring_events db')"
proof -
  have "blocks db' = blocks db \<and> transfer_events db' = transfer_events db \<and>
    anchoring_key ` set (anchoring_events db) \<subseteq> anchoring_key ` set (anchoring_events db')"
    using assms(1)
  proof cases
    case (genesis_page now balances cursor)
    then show ?thesis using save_genesis_balances_spec(5) [OF ok, of now balances cursor] by auto
  next
    case (metadata now metas)
    obtain ms where "save_token_metadata now metas db = db\<lparr>token_metas := ms\<rparr>"
      unfolding save_token_metadata_def using upsert_token_metas_frame by blast
    then show ?thesis using metadata by simp
  next
    case (anchoring_window tools now logs hi)
    then show ?thesis using store_window_frame [of tools now logs hi db] store_window_grows by auto
  next
    case (repair keccak now)
    have "unique_keys (token_metas db)" using ok by (simp add: db_ok_def counts_ok_def)
    then show ?thesis using repair repair_frame [of db keccak now] by auto
  qed (simp add: set_kv_def)
  then show "blocks db' = blocks db" "transfer_events db' = transfer_events db"
    "anchoring_key ` set (anchoring_events db) \<subseteq> anchoring_key ` set (anchoring_events db')" by blast+
qed

lemma beside_keeps_bundle: "beside db db' \<Longrightarrow> db_ok db \<Longrightarrow> holds_events db b \<Longrightarrow> holds_events db' b"
  unfolding holds_events_def using beside_keeps_events [of db db'] by (metis subset_trans)

lemma add_to_counter_ok: "db_ok (add_to_counter t d db) = db_ok db"
  using add_to_counter_frame [of t d db] by auto

lemma add_to_counter_holds: "holds_events (add_to_counter t d db) b = holds_events db b"
  using add_to_counter_frame [of t d db] by (auto simp: holds_events_def)

lemma commit_facts:
  assumes "save_block_bundles now bundles db = Inr db'"
  shows "db_ok db \<Longrightarrow> db_ok db'" "holds_events db b \<Longrightarrow> holds_events db' b" "b \<in> set bundles \<Longrightarrow> holds_events db' b"
  using assms
  by (auto elim!: save_block_bundles_cases simp: add_to_counter_ok add_to_counter_holds
      dest: write_blocks_ledger write_blocks_later write_blocks_holds)

definition writer_ok :: "writer \<Rightarrow> bool" where
  "writer_ok w \<longleftrightarrow> wr_sent w = wr_written w @ wr_batch w @ wr_queue w \<and> length (wr_batch w) \<le> MAX_BATCH \<and> db_ok (wr_db w) \<and>
     (\<forall>b\<in>set (wr_written w). holds_events (wr_db w) b)"

lemma writer_ok_step: "write_step w w' \<Longrightarrow> writer_ok w \<Longrightarrow> writer_ok w'"
proof (induction rule: write_step.cases)
  case (commits w now db')
  have "holds_events db' b" if "b \<in> set (wr_written w) \<union> set (wr_batch w)" for b
    using that commits commit_facts(2,3) [OF commits(5)] unfolding writer_ok_def by blast
  moreover have "db_ok db'" using commits commit_facts(1) [OF commits(5)] by (simp add: writer_ok_def)
  ultimately show ?case using commits by (auto simp: writer_ok_def)
next
  case (others w db')
  have ok: "db_ok (wr_db w)" using others by (simp add: writer_ok_def)
  have "\<forall>b\<in>set (wr_written w). holds_events db' b"
    using others beside_keeps_bundle [OF others(3) ok] unfolding writer_ok_def by blast
  moreover have "db_ok db'" by (rule beside_keeps_ok [OF others(3) ok])
  ultimately show ?case using others by (simp add: writer_ok_def)
qed (auto simp: writer_ok_def take_batch_def)

text \<open>
  C4. Whatever the order of the writer's commits, its failed tries and the other tasks' writes: the
  blocks are written in the order they were sent, none twice, none left out but those still in hand
  or queued; every block written has its row, its transfers and its anchoring events; and the
  balances and holder counts are at every moment those of the stored transfers.
\<close>

theorem writer_keeps_order_and_ledger:
  assumes "write_step\<^sup>*\<^sup>* (writer_start db) w" and "db_ok db"
  shows "wr_sent w = wr_written w @ wr_batch w @ wr_queue w \<and> db_ok (wr_db w) \<and>
    (\<forall>b\<in>set (wr_written w). holds_events (wr_db w) b)"
proof -
  have "writer_ok w" using assms(1)
  proof (induction rule: rtranclp_induct)
    case base
    then show ?case using assms(2) by (simp add: writer_ok_def writer_start_def MAX_BATCH_def)
  qed (rule writer_ok_step)
  then show ?thesis by (simp add: writer_ok_def)
qed

text \<open>A bundle sent, taken and committed, and a token's metadata stored in between.\<close>

theorem writer_keeps_order_and_ledger_witness:
  "\<exists>w. write_step\<^sup>*\<^sup>* (writer_start empty_database) w \<and> wr_written w = [sample_bundle] \<and> wr_queue w = [] \<and> db_ok (wr_db w) \<and>
     holds_events (wr_db w) sample_bundle"
proof -
  obtain db where db: "save_block_bundles 5 [sample_bundle] empty_database = Inr db" by (rule sample_saved)
  let ?w1 = "(writer_start empty_database)\<lparr>wr_queue := wr_queue (writer_start empty_database) @ [sample_bundle],
      wr_sent := wr_sent (writer_start empty_database) @ [sample_bundle]\<rparr>"
  let ?w2 = "take_batch ?w1"
  let ?w3 = "?w2\<lparr>wr_batch := [], wr_db := db, wr_written := wr_written ?w2 @ wr_batch ?w2\<rparr>"
  have 1: "write_step (writer_start empty_database) ?w1"
    by (rule write_step.sends) (simp add: writer_start_def QUEUE_CAP_def)
  have 2: "write_step ?w1 ?w2"
    by (rule write_step.takes) (simp_all add: writer_start_def)
  have 3: "write_step ?w2 ?w3"
    by (rule write_step.commits [where now = 5]) (simp_all add: writer_start_def take_batch_def MAX_BATCH_def db)
  have r: "write_step\<^sup>*\<^sup>* (writer_start empty_database) ?w3"
    using 1 2 3 by (meson converse_rtranclp_into_rtranclp rtranclp.rtrancl_refl)
  have w: "wr_written ?w3 = [sample_bundle]" "wr_queue ?w3 = []" by (simp_all add: writer_start_def take_batch_def MAX_BATCH_def)
  show ?thesis
    using writer_keeps_order_and_ledger [OF r db_ok_empty] r w by (intro exI [of _ ?w3]) auto
qed

end
