(* ===== verification/Tempo_Address.thy ===== *)
theory Tempo_Address
  imports Address
begin

section \<open>Virtual addresses (\<open>src/tempo_address.rs\<close>)\<close>

text \<open>
  A TIP-1022 address: four bytes of a master id, ten bytes of \<open>0xfd\<close>, six bytes of a user tag.
  The lemmas say that exactly the addresses \<open>virtual_address\<close> builds are read as virtual, in any
  spelling of their letters, and that the two fields read back.
\<close>

definition VIRTUAL_MAGIC :: bytes where
  "VIRTUAL_MAGIC = replicate 10 (char_of (253::nat))"

record virtual_parts =
  va_master_id :: string
  va_user_tag :: string

definition address_bytes :: "string \<Rightarrow> bytes option" where
  "address_bytes address = opt_filter (\<lambda>b. length b = 20) (hex_decode (strip_0x (trim address)))"

definition parse_virtual :: "string \<Rightarrow> virtual_parts option" where
  "parse_virtual address =
     (case address_bytes address of
        None \<Rightarrow> None
      | Some b \<Rightarrow>
          if take 10 (drop 4 b) \<noteq> VIRTUAL_MAGIC then None
          else Some \<lparr> va_master_id = ''0x'' @ hex_encode (take 4 b),
                      va_user_tag = ''0x'' @ hex_encode (drop 14 b) \<rparr>)"

definition is_virtual :: "string \<Rightarrow> bool" where
  "is_virtual address \<longleftrightarrow> parse_virtual address \<noteq> None"

definition virtual_address :: "keccak \<Rightarrow> bytes \<Rightarrow> bytes \<Rightarrow> string" where
  "virtual_address keccak master_id user_tag =
     checksum_address keccak (''0x'' @ hex_encode (master_id @ VIRTUAL_MAGIC @ user_tag))"

subsection \<open>Lemmas\<close>

lemma length_VIRTUAL_MAGIC [simp]: "length VIRTUAL_MAGIC = 10"
  by (simp add: VIRTUAL_MAGIC_def)

lemma strip_0x_hex: "strip_0x (''0x'' @ r) = r"
  by simp

lemma address_bytes_blob_hex: "length b = 20 \<Longrightarrow> address_bytes (blob_hex b) = Some b"
proof -
  assume "length b = 20"
  moreover have "trim (blob_hex b) = blob_hex b"
    unfolding blob_hex_def by (rule trim_hex_text) (use set_hex_encode in blast)
  ultimately show ?thesis
    by (simp add: address_bytes_def blob_hex_def opt_filter_def)
qed

text \<open>An address is its twenty bytes, whatever the case of its letters.\<close>

lemma is_address_bytes:
  assumes "is_address a"
  obtains b where "length b = 20" and "address_bytes a = Some b" and "lower a = blob_hex b"
proof -
  obtain r where a: "a = ''0x'' @ r" and r: "length r = 40" "\<forall>c\<in>set r. is_hex_digit c"
    using assms by (auto simp: is_address_def)
  obtain b where b: "hex_decode r = Some b" using r hex_decode_Some_iff [of r] by auto
  have "length b = 20" using length_hex_decode [OF b] r(1) by simp
  moreover have "address_bytes a = Some b"
    unfolding address_bytes_def a trim_hex_text [OF r(2)] strip_0x_hex b
    using \<open>length b = 20\<close> by (simp add: opt_filter_def)
  moreover have "lower a = blob_hex b"
    using hex_encode_decode [OF b]
    by (simp add: a blob_hex_def lower_char_def is_upper_def)
  ultimately show ?thesis by (rule that)
qed

lemma checksum_address_blob:
  assumes "is_address a" "address_bytes a = Some b" "lower a = blob_hex b" "length b = 20"
  shows "checksum_address keccak a = blob_addr keccak b"
  unfolding blob_addr_def
proof (rule checksum_address_case)
  show "is_address a" by fact
  show "is_address (blob_hex b)" using assms(4) by (simp add: is_address_blob_hex)
  show "lower a = lower (blob_hex b)" using assms(3) by (metis lower_idem)
qed

lemma blob_addr_inj: "blob_addr keccak a = blob_addr keccak b \<longleftrightarrow> a = b"
  by (metis hex_blob_blob_addr)

lemma virtual_address_blob_addr:
  "virtual_address keccak m t = blob_addr keccak (m @ VIRTUAL_MAGIC @ t)"
  by (simp add: virtual_address_def blob_addr_def blob_hex_def)

lemma virtual_bytes:
  assumes "length b = 20" "length m = 4" "length t = 6"
  shows "b = m @ VIRTUAL_MAGIC @ t
    \<longleftrightarrow> take 10 (drop 4 b) = VIRTUAL_MAGIC \<and> take 4 b = m \<and> drop 14 b = t"
proof
  assume *: "take 10 (drop 4 b) = VIRTUAL_MAGIC \<and> take 4 b = m \<and> drop 14 b = t"
  have "b = take 4 b @ take 10 (drop 4 b) @ drop 10 (drop 4 b)"
    by (simp only: append_take_drop_id)
  with * show "b = m @ VIRTUAL_MAGIC @ t" by simp
qed (use assms in simp)

text \<open>
  C39. An address, in any spelling, is read as the virtual address with master id \<open>m\<close> and user
  tag \<open>t\<close> exactly when it is the address an operator builds from \<open>m\<close> and \<open>t\<close>: what
  \<open>virtual_address\<close> builds reads back field for field, and no other address is taken for it.
\<close>

theorem parse_virtual_iff_built:
  assumes "is_address a" and "length m = 4" and "length t = 6"
  shows "parse_virtual a = Some \<lparr> va_master_id = ''0x'' @ hex_encode m, va_user_tag = ''0x'' @ hex_encode t \<rparr>
    \<longleftrightarrow> checksum_address keccak a = virtual_address keccak m t"
proof -
  obtain b where b: "length b = 20" "address_bytes a = Some b" "lower a = blob_hex b"
    using assms(1) by (rule is_address_bytes)
  have "checksum_address keccak a = virtual_address keccak m t \<longleftrightarrow> b = m @ VIRTUAL_MAGIC @ t"
    using checksum_address_blob [OF assms(1) b(2,3,1)]
    by (simp add: virtual_address_blob_addr blob_addr_inj)
  also have "\<dots> \<longleftrightarrow> parse_virtual a =
      Some \<lparr> va_master_id = ''0x'' @ hex_encode m, va_user_tag = ''0x'' @ hex_encode t \<rparr>"
    using virtual_bytes [OF b(1) assms(2,3)]
    by (auto simp: parse_virtual_def b(2) hex_encode_inj)
  finally show ?thesis by blast
qed

lemma parse_virtual_iff_built_witness:
  "parse_virtual (virtual_address (\<lambda>_. replicate 32 (CHR 0xFF)) ''abcd'' ''012345'') =
     Some \<lparr> va_master_id = ''0x61626364'', va_user_tag = ''0x303132333435'' \<rparr>"
proof -
  let ?k = "\<lambda>_. replicate 32 (CHR 0xFF)"
  let ?v = "virtual_address ?k ''abcd'' ''012345''"
  have blob: "is_address (blob_hex (''abcd'' @ VIRTUAL_MAGIC @ ''012345''))"
    by (simp add: is_address_blob_hex)
  then have addr: "is_address ?v"
    unfolding virtual_address_blob_addr blob_addr_def by (rule is_address_checksum)
  have hex: "hex_encode ''abcd'' = ''61626364''" "hex_encode ''012345'' = ''303132333435''"
    by code_simp+
  have "checksum_address ?k ?v = ?v"
    unfolding virtual_address_blob_addr blob_addr_def
    using checksum_address_case [OF is_address_checksum [OF blob] blob lower_checksum_address [OF blob]] .
  then show ?thesis
    using parse_virtual_iff_built [OF addr, of "''abcd''" "''012345''" ?k] hex by simp
qed

text \<open>The magic decides, wherever else its bytes appear: an address that only starts or ends with
  them is an ordinary one.\<close>

lemma is_virtual_iff:
  assumes "length b = 20"
  shows "is_virtual (blob_hex b) \<longleftrightarrow> take 10 (drop 4 b) = VIRTUAL_MAGIC"
  using assms by (auto simp: is_virtual_def parse_virtual_def address_bytes_blob_hex)

end
