(* ===== verification/Memo.thy ===== *)
theory Memo
  imports Decoder
begin

section \<open>Transfer memos (\<open>src/memo.rs\<close>)\<close>

text \<open>
  What a TIP-20 memo shows: a note when its bytes are readable text, the attribution marker of a
  machine payload, or nothing. The lemmas say what a shown note is made of, and that a note padded
  into a field from either side reads back.
\<close>

definition MPP_ATTRIBUTION_PREFIX :: string where
  "MPP_ATTRIBUTION_PREFIX = ''ef1ed712''"

datatype memo = Note string | Attribution | Nothing

definition is_mpp_attribution :: "bytes \<Rightarrow> bool" where
  "is_mpp_attribution memo \<longleftrightarrow> length memo = 32 \<and> hex_encode (take 4 memo) = MPP_ATTRIBUTION_PREFIX"

text \<open>The bytes between the first and the last that are not NUL.\<close>

definition unpadded :: "bytes \<Rightarrow> bytes option" where
  "unpadded memo =
     (case dropWhile (\<lambda>b. byte_val b = 0) memo of
        [] \<Rightarrow> None
      | s \<Rightarrow> Some (rev (dropWhile (\<lambda>b. byte_val b = 0) (rev s))))"

text \<open>\<open>text.split_whitespace()\<close>, on characters: the maximal runs without white space.\<close>

fun split_whitespace :: "bytes list \<Rightarrow> bytes list list" where
  "split_whitespace [] = []"
| "split_whitespace (c # cs) =
     (if ws_char c then split_whitespace cs
      else case cs of
        [] \<Rightarrow> [[c]]
      | d # ds \<Rightarrow>
          if ws_char d then [c] # split_whitespace cs
          else case split_whitespace cs of
            [] \<Rightarrow> [[c]]
          | w # ws \<Rightarrow> (c # w) # ws)"

text \<open>\<open>.collect::<Vec<_>>().join(" ")\<close>, still as characters.\<close>

fun join_words :: "bytes list list \<Rightarrow> bytes list" where
  "join_words [] = []"
| "join_words [w] = w"
| "join_words (w # v # ws) = w @ ('' '' # join_words (v # ws))"

definition is_control :: "bytes \<Rightarrow> bool" where
  "is_control c \<longleftrightarrow> (let code = char_code c in code \<le> 31 \<or> (127 \<le> code \<and> code \<le> 159))"

definition decode_for_display :: "bytes \<Rightarrow> string option" where
  "decode_for_display memo =
     (case unpadded memo of
        None \<Rightarrow> None
      | Some b \<Rightarrow>
          (case utf8_chars b of
             None \<Rightarrow> None
           | Some cs \<Rightarrow>
               (let normalized = join_words (split_whitespace cs) in
                if normalized = [] \<or> list_ex is_control normalized then None
                else Some (concat normalized))))"

definition read_memo :: "string \<Rightarrow> memo" where
  "read_memo memo =
     (case hex_decode (strip_0x memo) of
        None \<Rightarrow> Nothing
      | Some b \<Rightarrow>
          if is_mpp_attribution b then Attribution
          else (case decode_for_display b of None \<Rightarrow> Nothing | Some text \<Rightarrow> Note text))"

subsection \<open>White space collapsed\<close>

definition word :: "bytes list \<Rightarrow> bool" where
  "word w \<longleftrightarrow> w \<noteq> [] \<and> list_all (\<lambda>c. \<not> ws_char c) w"

lemma word_Cons: "word v \<or> v = [] \<Longrightarrow> \<not> ws_char c \<Longrightarrow> word (c # v)"
  by (auto simp: word_def)

lemma split_whitespace_words: "w \<in> set (split_whitespace cs) \<Longrightarrow> word w"
proof (induction cs arbitrary: w)
  case (Cons c cs)
  show ?case
  proof (cases "ws_char c")
    case True
    with Cons show ?thesis by simp
  next
    case c: False
    show ?thesis
    proof (cases cs)
      case Nil
      with c Cons.prems show ?thesis by (simp add: word_def)
    next
      case (Cons d ds)
      show ?thesis
      proof (cases "ws_char d")
        case True
        then have "w = [c] \<or> w \<in> set (split_whitespace cs)" using Cons.prems c Cons by simp
        then show ?thesis using Cons.IH [of w] c by (elim disjE) (simp_all add: word_def)
      next
        case False
        then have "split_whitespace (c # cs) =
            (case split_whitespace cs of [] \<Rightarrow> [[c]] | v # vs \<Rightarrow> (c # v) # vs)"
          using c Cons by simp
        with Cons.prems have "w \<in> set (case split_whitespace cs of [] \<Rightarrow> [[c]] | v # vs \<Rightarrow> (c # v) # vs)"
          by (simp only:)
        then have "w = [c] \<or> (\<exists>v\<in>set (split_whitespace cs). w = c # v) \<or> w \<in> set (split_whitespace cs)"
          by (cases "split_whitespace cs") auto
        then show ?thesis
          using Cons.IH c by (elim disjE bexE) (simp_all add: word_Cons)
      qed
    qed
  qed
qed simp

lemma split_whitespace_word: "word w \<Longrightarrow> split_whitespace w = [w]"
proof (induction w)
  case (Cons c w)
  then show ?case by (cases w) (auto simp: word_def)
qed (simp add: word_def)

lemma split_whitespace_word_space:
  "word w \<Longrightarrow> ws_char s \<Longrightarrow> split_whitespace (w @ s # cs) = w # split_whitespace cs"
proof (induction w)
  case (Cons c w)
  show ?case
  proof (cases w)
    case (Cons d w')
    then have "word w" using Cons.prems(1) by (simp add: word_def)
    then have "split_whitespace (w @ s # cs) = w # split_whitespace cs"
      using Cons.IH Cons.prems(2) by simp
    then show ?thesis using Cons Cons.prems(1) by (simp add: word_def)
  qed (use Cons.prems in \<open>simp add: word_def\<close>)
qed (simp add: word_def)

lemma ws_code_space [simp]: "ws_code 32"
  by (simp add: ws_code_def)

lemma split_join_words: "\<forall>w\<in>set ws. word w \<Longrightarrow> split_whitespace (join_words ws) = ws"
  by (induction ws rule: join_words.induct)
    (simp_all add: split_whitespace_word split_whitespace_word_space)

text \<open>What is shown: words without white space or control characters, one space between two.\<close>

lemma decode_for_display_words:
  assumes "decode_for_display memo = Some text"
  shows "\<exists>ws. ws \<noteq> [] \<and> (\<forall>w\<in>set ws. word w \<and> list_all (\<lambda>c. \<not> is_control c) w)
    \<and> text = concat (join_words ws)"
proof -
  obtain cs where t: "text = concat (join_words (split_whitespace cs))"
    and n: "join_words (split_whitespace cs) \<noteq> []"
    and c: "\<not> list_ex is_control (join_words (split_whitespace cs))"
    using assms by (auto simp: decode_for_display_def Let_def split: option.splits if_splits)
  have "set (join_words ws) \<supseteq> \<Union> (set ` set ws)" for ws
    by (induction ws rule: join_words.induct) auto
  then have "\<forall>w\<in>set (split_whitespace cs). list_all (\<lambda>c. \<not> is_control c) w"
    using c by (fastforce simp: list_ex_iff list_all_iff)
  moreover have "split_whitespace cs \<noteq> []" using n by auto
  ultimately show ?thesis using t split_whitespace_words by blast
qed

subsection \<open>A padded note\<close>

text \<open>A word of printable ASCII.\<close>

definition plain_word :: "string \<Rightarrow> bool" where
  "plain_word w \<longleftrightarrow> w \<noteq> [] \<and> (\<forall>c\<in>set w. 33 \<le> byte_val c \<and> byte_val c \<le> 126)"

definition singles :: "string \<Rightarrow> bytes list" where
  "singles s = map (\<lambda>c. [c]) s"

lemma concat_singles [simp]: "concat (singles s) = s"
  unfolding singles_def by (induction s) auto

lemma singles_join: "singles (join '' '' ws) = join_words (map singles ws)"
  by (induction "'' ''" ws rule: join.induct) (simp_all add: singles_def)

lemma plain_word_singles: "plain_word w \<Longrightarrow> word (singles w)"
  by (auto simp: plain_word_def word_def singles_def list_all_iff ws_code_def)

lemma join_plain:
  assumes "\<forall>w\<in>set ws. plain_word w" "c \<in> set (join '' '' ws)"
  shows "32 \<le> byte_val c \<and> byte_val c \<le> 126"
  using assms by (induction "'' ''" ws rule: join.induct) (auto simp: plain_word_def)

lemma join_neq_Nil: "ws \<noteq> [] \<Longrightarrow> \<forall>w\<in>set ws. plain_word w \<Longrightarrow> join '' '' ws \<noteq> []"
  by (cases "('' '', ws)" rule: join.cases) (auto simp: plain_word_def)

lemma dropWhile_replicate_append: "P x \<Longrightarrow> dropWhile P (replicate n x @ xs) = dropWhile P xs"
  by (induction n) auto

lemma unpadded_note:
  assumes "t \<noteq> []" "\<forall>c\<in>set t. byte_val c \<noteq> 0"
  shows "unpadded (replicate i (CHR 0x00) @ t @ replicate j (CHR 0x00)) = Some t"
proof -
  have front: "dropWhile (\<lambda>b. byte_val b = 0) (t @ r) = t @ r" for r
    using assms by (cases t) auto
  have "list_all (\<lambda>b. \<not> byte_val b = 0) (rev t)" using assms(2) by (simp add: list_all_iff)
  then have rear: "dropWhile (\<lambda>b. byte_val b = 0) (rev t) = rev t" by (rule dropWhile_none)
  have "unpadded m = (let s = dropWhile (\<lambda>b. byte_val b = 0) m in
      if s = [] then None else Some (rev (dropWhile (\<lambda>b. byte_val b = 0) (rev s))))" for m
    by (cases "dropWhile (\<lambda>b. byte_val b = 0) m") (simp_all add: unpadded_def Let_def del: dropWhile_eq_Nil_conv)
  then show ?thesis
    using assms(1) by (simp add: dropWhile_replicate_append front rear Let_def del: dropWhile_eq_Nil_conv)
qed

lemma decode_padded_note:
  assumes "ws \<noteq> []" "\<forall>w\<in>set ws. plain_word w"
  shows "decode_for_display (replicate i (CHR 0x00) @ join '' '' ws @ replicate j (CHR 0x00))
    = Some (join '' '' ws)"
proof -
  let ?t = "join '' '' ws"
  have r: "\<forall>c\<in>set ?t. 32 \<le> byte_val c \<and> byte_val c \<le> 126" using join_plain assms(2) by blast
  have "\<forall>c\<in>set ?t. byte_val c \<noteq> 0" using r by (metis not_numeral_le_zero)
  with join_neq_Nil [OF assms] have u:
    "unpadded (replicate i (CHR 0x00) @ ?t @ replicate j (CHR 0x00)) = Some ?t"
    by (rule unpadded_note)
  have "ascii ?t" using r unfolding ascii_def by fastforce
  then have chars: "utf8_chars ?t = Some (singles ?t)" by (simp add: utf8_chars_ascii singles_def)
  have "\<forall>w\<in>set (map singles ws). word w" using assms(2) plain_word_singles by auto
  then have split: "join_words (split_whitespace (singles ?t)) = singles ?t"
    by (simp add: singles_join split_join_words)
  have "\<not> list_ex is_control (singles ?t)"
    using r by (fastforce simp: list_ex_iff singles_def is_control_def)
  moreover have "singles ?t \<noteq> []" using join_neq_Nil [OF assms] by (simp add: singles_def)
  ultimately show ?thesis
    unfolding decode_for_display_def u by (simp add: chars split)
qed

lemma attribution_head:
  assumes "is_mpp_attribution b"
  shows "\<exists>r. b = CHR 0xEF # r"
proof -
  have "hex_encode [CHR 0xEF, CHR 0x1E, CHR 0xD7, CHR 0x12] = MPP_ATTRIBUTION_PREFIX" by code_simp
  then have "hex_encode (take 4 b) = hex_encode [CHR 0xEF, CHR 0x1E, CHR 0xD7, CHR 0x12]"
    using assms by (simp only: is_mpp_attribution_def)
  then have "take 4 b = [CHR 0xEF, CHR 0x1E, CHR 0xD7, CHR 0x12]" by (simp only: hex_encode_inj)
  then show ?thesis by (cases b) auto
qed



text \<open>What is withheld: no bytes, bytes that are not UTF-8, a control character.\<close>

lemma payloads_without_a_note:
  "decode_for_display (replicate n (CHR 0x00)) = None"
  "decode_for_display [CHR 0xFF, CHR 0xFE, CHR 0xFD] = None"
  "decode_for_display (''bell'' @ [CHR 0x07] @ ''here'') = None"
  by (simp_all add: decode_for_display_def unpadded_def dropWhile_replicate_append [where xs = "[]", simplified]
      utf8_chars.simps utf8_ok2_def utf8_ok3_def utf8_ok4_def cont_byte_def ws_code_def is_control_def)

end
