(* ===== verification/Anchoring.thy ===== *)
theory Anchoring
  imports Indexer Contracts
begin

section \<open>The anchoring contract (\<open>src/anchoring.rs\<close>)\<close>

text \<open>
  The registries and records of the contract at \<open>0x...0a00\<close>, read from the node. What the ABI
  library encodes and decodes, and the reading of a storage word, is the parameter
  \<open>contract_codec\<close>; the node is the parameter \<open>send\<close> of \<open>Rpc\<close>. An unsigned 64-bit integer is a
  \<open>nat\<close>; a page is the 1-based page of a listing, so it is at least 1 wherever it is used.
\<close>

record anchored_record =
  r_uri :: string
  r_checksum :: string
  r_checksum_algo :: string
  r_metadata :: string
  r_timestamp :: string
  r_status :: string
  r_record_id :: nat
  r_index :: nat
  r_is_latest :: bool
  r_registry_id :: nat

record anchored_registry =
  g_id :: nat
  g_name :: string
  g_description :: string
  g_creator :: string
  g_created_at :: string
  g_metadata :: string

record page_request =
  pg_key :: bytes
  pg_offset :: nat
  pg_limit :: nat
  pg_count_total :: bool
  pg_reverse :: bool

definition default_page :: page_request where
  "default_page = \<lparr> pg_key = [], pg_offset = 0, pg_limit = 0, pg_count_total = False, pg_reverse = False \<rparr>"

datatype contract_call =
    Records_Call nat string nat nat page_request
  | Registries_Call nat page_request
  | Registries_By_Name_Call string nat page_request

record contract_codec =
  call_bytes :: "contract_call \<Rightarrow> bytes"
  registries_out :: "bytes \<Rightarrow> anchored_registry list option"
  records_out :: "bytes \<Rightarrow> anchored_record list option"
  u256_of :: "string \<Rightarrow> nat option"

subsection \<open>Views and storage words\<close>

definition view :: "contract_codec \<Rightarrow> contract_call \<Rightarrow> rpc_call" where
  "view lib call =
     (''eth_call'',
      JArr [JObj [(''to'', JStr ANCHORING_ADDRESS), (''data'', JStr (''0x'' @ hex_encode (call_bytes lib call)))],
            JStr ''latest''])"

definition returns :: "(bytes \<Rightarrow> 'a option) \<Rightarrow> json \<Rightarrow> failure + 'a" where
  "returns decode result =
     (case hex_decode (trim_start_matches ''0x'' (unwrap_or [] (as_str result))) of
        None \<Rightarrow> Inl Other_Error
      | Some data \<Rightarrow> (case decode data of None \<Rightarrow> Inl Other_Error | Some v \<Rightarrow> Inr v))"

definition storage_word :: "bytes \<Rightarrow> rpc_call" where
  "storage_word slot =
     (''eth_getStorageAt'', JArr [JStr ANCHORING_ADDRESS, JStr (''0x'' @ hex_encode slot), JStr ''latest''])"

definition word_value :: "contract_codec \<Rightarrow> json \<Rightarrow> failure + nat" where
  "word_value lib answer =
     (case u256_of lib (unwrap_or [] (as_str answer)) of None \<Rightarrow> Inl Other_Error | Some w \<Rightarrow> Inr w)"

definition saturating_to_u64 :: "nat \<Rightarrow> nat" where
  "saturating_to_u64 w = min w U64_MAX"

definition REGISTRY_COUNT :: bytes where
  "REGISTRY_COUNT = be_bytes 32 3"

definition registry_total :: "contract_codec \<Rightarrow> json \<Rightarrow> failure + nat" where
  "registry_total lib answer =
     (case word_value lib answer of Inl e \<Rightarrow> Inl e | Inr w \<Rightarrow> Inr (saturating_to_u64 (w div 2 ^ 160)))"

definition record_count :: "keccak \<Rightarrow> nat \<Rightarrow> bytes" where
  "record_count keccak registry_id = keccak (be_bytes 32 registry_id @ be_bytes 32 5)"

text \<open>The early return of \<open>?\<close>, on a value, and on a request that may never return.\<close>

definition try_sum :: "failure + 'a \<Rightarrow> ('a \<Rightarrow> failure + 'b) \<Rightarrow> failure + 'b" where
  "try_sum r f = (case r of Inl e \<Rightarrow> Inl e | Inr v \<Rightarrow> f v)"

definition try_ask :: "((failure + 'a) \<times> 's) option \<Rightarrow> ('a \<Rightarrow> 's \<Rightarrow> ((failure + 'b) \<times> 's) option)
    \<Rightarrow> ((failure + 'b) \<times> 's) option" where
  "try_ask r f =
     (case r of
        None \<Rightarrow> None
      | Some (Inl e, s) \<Rightarrow> Some (Inl e, s)
      | Some (Inr v, s) \<Rightarrow> f v s)"

definition answered :: "rpc_error + json \<Rightarrow> failure + json" where
  "answered r = (case r of Inl e \<Rightarrow> Inl (Rpc_Error e) | Inr v \<Rightarrow> Inr v)"

definition ask_all ::
  "bool \<Rightarrow> (json \<Rightarrow> 's \<Rightarrow> reply \<times> 's) \<Rightarrow> rpc_call list \<Rightarrow> 's \<Rightarrow> ((failure + (rpc_error + json) list) \<times> 's) option" where
  "ask_all paced send calls s =
     try_ask (batch_call paced send calls s)
       (\<lambda>answers s'. Some (if length answers = length calls then Inr answers else Inl Other_Error, s'))"

subsection \<open>Pages\<close>

definition newest_first :: "nat \<Rightarrow> nat \<Rightarrow> nat \<Rightarrow> (nat \<times> nat) option" where
  "newest_first held page per_page =
     (case opt_filter (\<lambda>i. 0 < i) (checked_sub held ((page - 1) * per_page)) of
        None \<Rightarrow> None
      | Some final \<Rightarrow> Some (max (final - (per_page - 1)) 1, final))"

definition version :: "nat \<Rightarrow> nat \<Rightarrow> nat \<Rightarrow> page_request \<Rightarrow> contract_call" where
  "version registry_id record_id index pagination =
     Records_Call registry_id [] record_id index pagination"

subsection \<open>Operations\<close>

definition registries ::
  "contract_codec \<Rightarrow> bool \<Rightarrow> (json \<Rightarrow> 's \<Rightarrow> reply \<times> 's) \<Rightarrow> nat \<Rightarrow> nat \<Rightarrow> 's
     \<Rightarrow> ((failure + anchored_registry list \<times> nat) \<times> 's) option" where
  "registries lib paced send page per_page s =
     (let pagination = default_page\<lparr>pg_offset := (page - 1) * per_page, pg_limit := per_page, pg_reverse := True\<rparr>;
          call = Registries_Call 0 pagination
      in try_ask (ask_all paced send [storage_word REGISTRY_COUNT, view lib call] s)
           (\<lambda>answers s'. Some
             (try_sum (answered (answers ! 0)) (\<lambda>t.
              try_sum (registry_total lib t) (\<lambda>total.
                if total = 0 then Inr ([], 0)
                else try_sum (answered (answers ! 1)) (\<lambda>l.
                  try_sum (returns (registries_out lib) l) (\<lambda>listed. Inr (listed, total))))), s')))"

definition find_registry ::
  "keccak \<Rightarrow> contract_codec \<Rightarrow> bool \<Rightarrow> (json \<Rightarrow> 's \<Rightarrow> reply \<times> 's) \<Rightarrow> nat \<Rightarrow> 's
     \<Rightarrow> ((failure + (anchored_registry \<times> nat) option) \<times> 's) option" where
  "find_registry keccak lib paced send registry_id s =
     (if registry_id = 0 then Some (Inr None, s)
      else try_ask (ask_all paced send
             [storage_word REGISTRY_COUNT, view lib (Registries_Call registry_id default_page),
              storage_word (record_count keccak registry_id)] s)
           (\<lambda>answers s'. Some
             (try_sum (answered (answers ! 0)) (\<lambda>held.
              try_sum (registry_total lib held) (\<lambda>total.
                if \<not> (1 \<le> registry_id \<and> registry_id \<le> total) then Inr None
                else try_sum (answered (answers ! 1)) (\<lambda>g.
                  try_sum (returns (registries_out lib) g) (\<lambda>listed.
                  try_sum (answered (answers ! 2)) (\<lambda>n.
                  try_sum (word_value lib n) (\<lambda>records.
                    if listed = [] then Inl Other_Error
                    else Inr (Some (last listed, saturating_to_u64 records)))))))), s')))"

definition registry_page ::
  "keccak \<Rightarrow> contract_codec \<Rightarrow> bool \<Rightarrow> (json \<Rightarrow> 's \<Rightarrow> reply \<times> 's) \<Rightarrow> nat \<Rightarrow> nat \<Rightarrow> nat \<Rightarrow> 's
     \<Rightarrow> ((failure + (anchored_registry \<times> anchored_record list \<times> nat) option) \<times> 's) option" where
  "registry_page keccak lib paced send registry_id page per_page s =
     try_ask (find_registry keccak lib paced send registry_id s)
       (\<lambda>found s1. case found of
          None \<Rightarrow> Some (Inr None, s1)
        | Some (g, held) \<Rightarrow>
            (case newest_first held page per_page of
               None \<Rightarrow> Some (Inr (Some (g, [], held)), s1)
             | Some (start, end') \<Rightarrow>
                 (let pagination = default_page\<lparr>pg_offset := start - 1, pg_limit := end' - start + 1\<rparr>
                  in try_ask (ask_all paced send [view lib (version registry_id 0 0 pagination)] s1)
                       (\<lambda>answers s2. Some
                         (try_sum (answered (answers ! 0)) (\<lambda>rs.
                          try_sum (returns (records_out lib) rs) (\<lambda>records.
                            Inr (Some (g, rev records, held)))), s2)))))"

definition latest ::
  "keccak \<Rightarrow> contract_codec \<Rightarrow> bool \<Rightarrow> (json \<Rightarrow> 's \<Rightarrow> reply \<times> 's) \<Rightarrow> nat \<Rightarrow> nat \<Rightarrow> 's
     \<Rightarrow> ((failure + anchored_record option) \<times> 's) option" where
  "latest keccak lib paced send registry_id record_id s =
     (if record_id = 0 then Some (Inr None, s)
      else try_ask (ask_all paced send
             [storage_word (record_count keccak registry_id),
              view lib (version registry_id record_id 0 default_page)] s)
           (\<lambda>answers s'. Some
             (try_sum (answered (answers ! 0)) (\<lambda>c.
              try_sum (word_value lib c) (\<lambda>w.
                if \<not> (1 \<le> record_id \<and> record_id \<le> saturating_to_u64 w) then Inr None
                else try_sum (answered (answers ! 1)) (\<lambda>l.
                  try_sum (returns (records_out lib) l) (\<lambda>records.
                    if records = [] then Inl Other_Error else Inr (Some (last records)))))), s')))"

text \<open>The versions of a record: the first answer that is an error stops the reading.\<close>

fun read_versions :: "contract_codec \<Rightarrow> (rpc_error + json) list \<Rightarrow> failure + anchored_record list" where
  "read_versions lib [] = Inr []"
| "read_versions lib (r # rs) =
     try_sum (answered r) (\<lambda>v.
     try_sum (returns (records_out lib) v) (\<lambda>records.
     try_sum (read_versions lib rs) (\<lambda>more. Inr (records @ more))))"

definition anchored_versions ::
  "keccak \<Rightarrow> contract_codec \<Rightarrow> bool \<Rightarrow> (json \<Rightarrow> 's \<Rightarrow> reply \<times> 's) \<Rightarrow> nat \<Rightarrow> nat \<Rightarrow> nat \<Rightarrow> nat \<Rightarrow> 's
     \<Rightarrow> ((failure + (anchored_record \<times> anchored_record list) option) \<times> 's) option" where
  "anchored_versions keccak lib paced send registry_id record_id page per_page s =
     try_ask (latest keccak lib paced send registry_id record_id s)
       (\<lambda>found s1. case found of
          None \<Rightarrow> Some (Inr None, s1)
        | Some r \<Rightarrow>
            (case newest_first (r_index r) page per_page of
               None \<Rightarrow> Some (Inr (Some (r, [])), s1)
             | Some (start, end') \<Rightarrow>
                 (let calls = map (\<lambda>index. view lib (version registry_id record_id index default_page))
                                (rev [start..<end' + 1])
                  in try_ask (batch_call paced send calls s1)
                       (\<lambda>answers s2. Some
                         (try_sum (read_versions lib answers) (\<lambda>versions. Inr (Some (r, versions))), s2)))))"

definition lookup_anchored ::
  "contract_codec \<Rightarrow> bool \<Rightarrow> (json \<Rightarrow> 's \<Rightarrow> reply \<times> 's) \<Rightarrow> string \<Rightarrow> 's
     \<Rightarrow> ((failure + anchored_registry list \<times> anchored_record list) \<times> 's) option" where
  "lookup_anchored lib paced send q s =
     try_ask (ask_all paced send
         [view lib (Registries_By_Name_Call q 1 default_page), view lib (Records_Call 0 q 0 0 default_page)] s)
       (\<lambda>answers s'. Some
         (try_sum (answered (answers ! 0)) (\<lambda>n.
          try_sum (returns (registries_out lib) n) (\<lambda>named.
          try_sum (answered (answers ! 1)) (\<lambda>a.
          try_sum (returns (records_out lib) a) (\<lambda>found. Inr (named, found))))), s'))"

subsection \<open>Every id on one page\<close>

text \<open>The ids of a page, in the order they are listed.\<close>

definition page_ids :: "nat \<Rightarrow> nat \<Rightarrow> nat \<Rightarrow> nat list" where
  "page_ids held page per_page =
     (case newest_first held page per_page of None \<Rightarrow> [] | Some (start, end') \<Rightarrow> rev [start..<end' + 1])"

lemma newest_first_Some:
  "newest_first held page per_page = Some (start, end') \<longleftrightarrow>
     (page - 1) * per_page < held \<and> end' = held - (page - 1) * per_page
     \<and> start = max (end' - (per_page - 1)) 1"
  by (auto simp: newest_first_def checked_sub_def opt_filter_def split: if_splits)

lemma newest_first_None: "newest_first held page per_page = None \<longleftrightarrow> held \<le> (page - 1) * per_page"
  by (auto simp: newest_first_def checked_sub_def opt_filter_def split: if_splits)

text \<open>A page is a slice of the listing turned round, so it can be asked for as one ascending slice.\<close>

lemma newest_slice:
  assumes "0 < per_page" and "newest_first (length xs) page per_page = Some (start, end')"
  shows "rev (take (end' - start + 1) (drop (start - 1) xs)) = page_of per_page ((page - 1) * per_page) (rev xs)"
proof -
  let ?d = "(page - 1) * per_page"
  have d: "?d < length xs" and e: "end' = length xs - ?d" and s: "start = max (end' - (per_page - 1)) 1"
    using assms(2) by (auto simp: newest_first_Some)
  have "start - 1 = end' - per_page" using s assms(1) by linarith
  moreover have "end' - start + 1 = end' - (end' - per_page)"
    using s assms(1) d e by linarith
  moreover have "page_of per_page ?d (rev xs) = rev (drop (end' - per_page) (take end' xs))"
    using d by (simp add: page_of_def drop_rev take_rev e)
  ultimately show ?thesis by (simp add: take_drop)
qed

lemma newest_empty: "newest_first (length xs) page per_page = None \<Longrightarrow>
    page_of per_page ((page - 1) * per_page) (rev xs) = []"
  by (simp add: newest_first_None page_of_def)

lemma page_ids_page_of:
  assumes "0 < per_page"
  shows "page_ids held page per_page = page_of per_page ((page - 1) * per_page) (rev [1..<held + 1])"
proof (cases "newest_first held page per_page")
  case None
  then show ?thesis
    using newest_empty [of "[1..<held + 1]" page per_page] by (simp add: page_ids_def del: upt_Suc)
next
  case (Some se)
  obtain start end' where se: "se = (start, end')" by (cases se)
  have b: "1 \<le> start" "start \<le> end'" "end' \<le> held"
    using Some by (auto simp: se newest_first_Some max_def intro: diff_le_mono2)
  have "take (end' - start + 1) (drop (start - 1) [1..<held + 1]) = [start..<end' + 1]"
    using b by (simp add: drop_upt take_upt del: upt_Suc)
  then show ?thesis
    using newest_slice [OF assms, of "[1..<held + 1]" page start end'] Some
    by (simp add: se page_ids_def del: upt_Suc)
qed

lemma pages_prefix: "concat (map (\<lambda>p. page_of n ((p - 1) * n) xs) [1..<Suc k]) = take (k * n) xs"
proof (induction k)
  case (Suc k)
  have "take (k * n) xs @ take n (drop (k * n) xs) = take (Suc k * n) xs"
    by (simp add: take_add [symmetric] add.commute)
  with Suc show ?case by (simp add: page_of_def)
qed simp

text \<open>
  The pages of a listing hold every id once, newest first: read one after another they are the
  ids from the last one down to 1, and a page past the end holds none.
\<close>

theorem pages_list_every_id_once:
  assumes "0 < per_page" and "held \<le> pages * per_page"
  shows "concat (map (\<lambda>page. page_ids held page per_page) [1..<Suc pages]) = rev [1..<held + 1]
    \<and> newest_first held (Suc pages) per_page = None"
  using assms pages_prefix [where n = per_page and xs = "rev [1..<held + 1]" and k = pages]
  by (simp add: page_ids_page_of newest_first_None del: upt_Suc)

lemma pages_list_every_id_once_witness:
  "concat (map (\<lambda>page. page_ids 60 page 25) [1..<Suc 3]) = rev [1..<60 + 1] \<and> newest_first 60 (Suc 3) 25 = None"
  by (rule pages_list_every_id_once) simp_all

subsection \<open>A registry's page, from a node that answers\<close>

text \<open>
  A node that answers each call of a request with the fields \<open>f\<close> gives for it, under the id the
  request carries.
\<close>

definition call_of :: "json \<Rightarrow> rpc_call" where
  "call_of body = (unwrap_or [] (get_str ''method'' body), jidx ''params'' body)"

definition response :: "(rpc_call \<Rightarrow> (string \<times> json) list) \<Rightarrow> json \<Rightarrow> json" where
  "response f body = JObj ((''id'', jidx ''id'' body) # f (call_of body))"

definition answering :: "(rpc_call \<Rightarrow> (string \<times> json) list) \<Rightarrow> json \<Rightarrow> 's \<Rightarrow> reply \<times> 's" where
  "answering f body s =
     (Answered 200 (Some (case body of JArr bs \<Rightarrow> JArr (map (response f) bs) | b \<Rightarrow> response f b)), s)"

definition outcome :: "(rpc_call \<Rightarrow> (string \<times> json) list) \<Rightarrow> rpc_call \<Rightarrow> rpc_error + json" where
  "outcome f c = read_item (Some (JObj (f c)))"

lemma read_response: "read_item (Some (response f (request_body i c))) = outcome f c"
proof -
  have r: "response f (request_body i c) = JObj ((''id'', JNum (PosInt i)) # f c)"
    by (simp add: response_def call_of_def request_body_def json_access)
  have "rpc_error_of (JObj ((''id'', v) # fs)) = rpc_error_of (JObj fs)"
    and "take_result (JObj ((''id'', v) # fs)) = take_result (JObj fs)" for v fs
    by (simp_all add: rpc_error_of_def take_result_def json_access)
  then show ?thesis by (simp add: outcome_def read_item_def r split: option.split)
qed

lemma item_id_response: "item_id (response f (request_body i c)) = Some i"
  by (simp add: item_id_def response_def request_body_def json_access)

lemma batch_call_answering:
  "batch_call paced (answering f) calls s = Some (Inr (map (outcome f) calls), s)"
proof (cases "\<exists>c. calls = [c]")
  case True
  then obtain c where calls: "calls = [c]" by blast
  have "read_item (Some (response f (request_body 1 c))) = outcome f c" by (rule read_response)
  then show ?thesis
    by (auto simp: calls batch_call_def rpc_call1_def answering_def request_body_def read_item_def
        split: option.splits)
next
  case False
  let ?rs = "map (\<lambda>i. response f (request_body (i + 1) (calls ! i))) [0..<length calls]"
  have payload: "batch_payload calls = JArr (map (\<lambda>i. request_body (i + 1) (calls ! i)) [0..<length calls])"
    by (auto simp: batch_payload_def intro!: nth_equalityI split: prod.splits simp: nth_enumerate_eq)
  have "demux (length calls) ?rs = map (outcome f) calls"
  proof (rule nth_equalityI)
    fix i assume "i < length (demux (length calls) ?rs)"
    then have i: "i < length calls" by simp
    then have "demux (length calls) ?rs ! i = read_item (Some (?rs ! i))"
      by (intro demux_nth) (auto simp: item_id_response)
    then show "demux (length calls) ?rs ! i = map (outcome f) calls ! i"
      using i by (simp add: read_response del: One_nat_def add_Suc_right)
  qed simp
  moreover have "batch_call paced (answering f) calls s =
      (case post_batch paced (answering f) (batch_payload calls) s of
         None \<Rightarrow> None | Some (r, s') \<Rightarrow> Some (read_batch (length calls) r, s'))"
    using False by (auto simp: batch_call_def split: list.splits)
  ultimately show ?thesis
    by (simp add: post_batch.simps answering_def payload too_many_requests_def read_batch_def comp_def)
qed

lemma ask_all_answering: "ask_all paced (answering f) calls s = Some (Inr (map (outcome f) calls), s)"
  by (simp add: ask_all_def try_ask_def batch_call_answering)

lemma try_sum_Inr [simp]: "try_sum (Inr v) g = g v"
  by (simp add: try_sum_def)

lemma try_sum_Inl [simp]: "try_sum (Inl e) g = Inl e"
  by (simp add: try_sum_def)

lemma try_ask_Some [simp]: "try_ask (Some (Inr v, s)) g = g v s" "try_ask (Some (Inl e, s)) g = Some (Inl e, s)"
  by (simp_all add: try_ask_def)

text \<open>What the contract holds of one registry, as its views and its storage answer.\<close>

definition read_count :: "contract_codec \<Rightarrow> (rpc_call \<Rightarrow> (string \<times> json) list) \<Rightarrow> failure + nat" where
  "read_count lib f = try_sum (answered (outcome f (storage_word REGISTRY_COUNT))) (registry_total lib)"

definition serves_registry ::
  "keccak \<Rightarrow> contract_codec \<Rightarrow> (rpc_call \<Rightarrow> (string \<times> json) list) \<Rightarrow> nat \<Rightarrow> anchored_registry
     \<Rightarrow> anchored_record list \<Rightarrow> bool" where
  "serves_registry keccak lib f i g recs \<longleftrightarrow>
     (\<exists>n. read_count lib f = Inr n \<and> 1 \<le> i \<and> i \<le> n) \<and>
     try_sum (answered (outcome f (view lib (Registries_Call i default_page)))) (returns (registries_out lib))
       = Inr [g] \<and>
     try_sum (answered (outcome f (storage_word (record_count keccak i)))) (word_value lib) = Inr (length recs) \<and>
     length recs \<le> U64_MAX \<and>
     (\<forall>start n. try_sum (answered (outcome f (view lib (version i 0 0
           (default_page\<lparr>pg_offset := start, pg_limit := n\<rparr>))))) (returns (records_out lib))
         = Inr (take n (drop start recs)))"

lemma try_sum_assoc: "try_sum (try_sum r g) h = try_sum r (\<lambda>v. try_sum (g v) h)"
  by (cases r) auto

lemma find_registry_served:
  assumes "serves_registry keccak lib f i g recs"
  shows "find_registry keccak lib paced (answering f) i s = Some (Inr (Some (g, length recs)), s)"
proof -
  obtain n c gj rj where
    c: "answered (outcome f (storage_word REGISTRY_COUNT)) = Inr c" "registry_total lib c = Inr n"
    and i: "1 \<le> i" "i \<le> n"
    and g: "answered (outcome f (view lib (Registries_Call i default_page))) = Inr gj"
      "returns (registries_out lib) gj = Inr [g]"
    and r: "answered (outcome f (storage_word (record_count keccak i))) = Inr rj"
      "word_value lib rj = Inr (length recs)" and len: "length recs \<le> U64_MAX"
    using assms unfolding serves_registry_def read_count_def try_sum_def
    by (auto split: sum.splits)
  show ?thesis
    using i len unfolding find_registry_def ask_all_answering
    by (simp add: c g r saturating_to_u64_def min_absorb1)
qed

text \<open>
  C21. A registry's page shows its records newest first: with a node that answers as the contract
  does, page \<open>p\<close> is the registry, the \<open>p\<close>-th slice of its records read from the last back, and how
  many records there are; a page past the end is the registry with no records, not an error.
\<close>

theorem registry_page_newest_first:
  assumes "serves_registry keccak lib f i g recs" and "0 < per_page"
  shows "registry_page keccak lib paced (answering f) i page per_page s =
    Some (Inr (Some (g, page_of per_page ((page - 1) * per_page) (rev recs), length recs)), s)"
proof (cases "newest_first (length recs) page per_page")
  case None
  then show ?thesis
    using newest_empty [OF None]
    by (simp add: registry_page_def find_registry_served [OF assms(1)])
next
  case (Some se)
  obtain start end' where se: "se = (start, end')" by (cases se)
  have "try_sum (answered (outcome f (view lib (version i 0 0
      (default_page\<lparr>pg_offset := start - 1, pg_limit := end' - start + 1\<rparr>))))) (returns (records_out lib))
    = Inr (take (end' - start + 1) (drop (start - 1) recs))"
    using assms(1) unfolding serves_registry_def by blast
  then obtain rj where
    "answered (outcome f (view lib (version i 0 0
      (default_page\<lparr>pg_offset := start - 1, pg_limit := end' - start + 1\<rparr>)))) = Inr rj"
    "returns (records_out lib) rj = Inr (take (end' - start + 1) (drop (start - 1) recs))"
    unfolding try_sum_def by (auto split: sum.splits)
  then show ?thesis
    using newest_slice [OF assms(2), of recs page start end'] Some
    by (simp add: registry_page_def find_registry_served [OF assms(1)] se ask_all_answering)
qed

text \<open>A contract with one registry of three records; its words and calldata are spelled in unary.\<close>

definition sample_record :: "char \<Rightarrow> anchored_record" where
  "sample_record c = \<lparr> r_uri = [], r_checksum = [c], r_checksum_algo = [], r_metadata = [], r_timestamp = [],
     r_status = [], r_record_id = byte_val c, r_index = 1, r_is_latest = True, r_registry_id = 1 \<rparr>"

definition sample_registry :: anchored_registry where
  "sample_registry = \<lparr> g_id = 1, g_name = ''Fund Alpha'', g_description = [], g_creator = [],
     g_created_at = [], g_metadata = [] \<rparr>"

definition sample_codec :: contract_codec where
  "sample_codec = \<lparr>
     call_bytes = (\<lambda>call. case call of
         Records_Call _ _ _ _ pg \<Rightarrow> replicate (pg_offset pg) CHR ''o'' @ replicate (pg_limit pg) CHR ''l''
       | _ \<Rightarrow> []),
     registries_out = (\<lambda>_. Some [sample_registry]),
     records_out = (\<lambda>b. Some (map sample_record b)),
     u256_of = (\<lambda>s. Some (if s = ''c'' then 2 ^ 160 else length s)) \<rparr>"

definition sample_answer :: "rpc_call \<Rightarrow> (string \<times> json) list" where
  "sample_answer c =
     (if fst c = ''eth_getStorageAt''
      then [(''result'', JStr (if c = storage_word REGISTRY_COUNT then ''c'' else ''abc''))]
      else (let data = (case snd c of JArr (JObj [_, (_, JStr d)] # _) \<Rightarrow> unwrap_or [] (hex_decode (drop 2 d)) | _ \<Rightarrow> []);
                o' = length (filter (\<lambda>x. x = CHR ''o'') data); l = length (filter (\<lambda>x. x = CHR ''l'') data)
            in [(''result'', JStr (hex_encode (take l (drop o' ''abc''))))]))"

lemma trim_start_matches_hex: "trim_start_matches ''0x'' (hex_encode b) = hex_encode b"
proof -
  have "strip_prefix ''0x'' (hex_encode b) = None"
  proof (cases "strip_prefix ''0x'' (hex_encode b)")
    case (Some r)
    then have "hex_encode b = ''0x'' @ r" by (simp only: strip_prefix_Some)
    then have "is_hex_digit (CHR ''x'')" using set_hex_encode [of "CHR ''x''" b] by simp
    then show ?thesis by (simp add: is_hex_digit_def hex_val_def digit_val_def)
  qed
  then show ?thesis by (simp add: trim_start_matches.simps)
qed

lemma sample_serves:
  "serves_registry (\<lambda>_. replicate 32 (CHR 0x00)) sample_codec sample_answer 1 sample_registry (map sample_record ''abc'')"
proof -
  have slot: "storage_word (record_count (\<lambda>_. replicate 32 (CHR 0x00)) 1) \<noteq> storage_word REGISTRY_COUNT"
  proof -
    have "REGISTRY_COUNT \<noteq> replicate 32 (CHR 0x00)" by code_simp
    then show ?thesis by (simp add: storage_word_def record_count_def hex_encode_inj)
  qed
  have out: "outcome sample_answer c = Inr v" if "sample_answer c = [(''result'', v)]" for c v
    using that by (simp add: outcome_def read_item_def rpc_error_of_def take_result_def json_access)
  have "sample_answer (view sample_codec (version 1 0 0 (default_page\<lparr>pg_offset := start, pg_limit := n\<rparr>)))
      = [(''result'', JStr (hex_encode (take n (drop start ''abc''))))]" for start n
    by (simp add: sample_answer_def view_def version_def sample_codec_def)
  then have recs: "outcome sample_answer
        (view sample_codec (version 1 0 0 (default_page\<lparr>pg_offset := start, pg_limit := n\<rparr>)))
      = Inr (JStr (hex_encode (take n (drop start ''abc''))))" for start n
    by (rule out)
  have gj: "outcome sample_answer (view sample_codec (Registries_Call 1 default_page)) = Inr (JStr [])"
    by (rule out) (simp add: sample_answer_def view_def sample_codec_def)
  have counts: "outcome sample_answer (storage_word REGISTRY_COUNT) = Inr (JStr ''c'')"
    "outcome sample_answer (storage_word (record_count (\<lambda>_. replicate 32 (CHR 0x00)) 1)) = Inr (JStr ''abc'')"
    using slot by (auto intro!: out simp: sample_answer_def storage_word_def)
  have reads: "returns (records_out sample_codec) (JStr (hex_encode b)) = Inr (map sample_record b)" for b
    by (simp add: returns_def json_access trim_start_matches_hex sample_codec_def)
  have "returns (registries_out sample_codec) (JStr (hex_encode [])) = Inr [sample_registry]"
    unfolding returns_def json_access json.case option.case trim_start_matches_hex hex_decode_encode
    by (simp add: sample_codec_def)
  then have reads_none: "returns (registries_out sample_codec) (JStr []) = Inr [sample_registry]" by simp
  have "registry_total sample_codec (JStr ''c'') = Inr 1" "word_value sample_codec (JStr ''abc'') = Inr 3"
    by (simp_all add: registry_total_def word_value_def sample_codec_def json_access saturating_to_u64_def)
  moreover have "map sample_record (take n (drop start ''abc'')) = take n (drop start (map sample_record ''abc''))" for start n
    by (simp only: take_map drop_map)
  ultimately show ?thesis
    unfolding serves_registry_def read_count_def counts gj recs
    by (simp add: answered_def reads reads_none del: list.map)
qed

lemma registry_page_newest_first_witness:
  "registry_page (\<lambda>_. replicate 32 (CHR 0x00)) sample_codec True (answering sample_answer) 1 2 2 () =
     Some (Inr (Some (sample_registry, [sample_record CHR ''a''], 3)), ())"
  using registry_page_newest_first [OF sample_serves, of 2 True 2 "()"]
  by (simp add: page_of_def)

subsection \<open>What is missing\<close>

text \<open>
  The count decides whether an id exists, so that a view reverting for a missing one is never seen;
  a count the node does not give is an error.
\<close>

lemma find_registry_missing:
  assumes "read_count lib f = Inr n" and "n < i"
  shows "find_registry keccak lib paced (answering f) i s = Some (Inr None, s)"
proof -
  obtain c where "answered (outcome f (storage_word REGISTRY_COUNT)) = Inr c" "registry_total lib c = Inr n"
    using assms(1) unfolding read_count_def try_sum_def by (auto split: sum.splits)
  then show ?thesis
    using assms(2) unfolding find_registry_def ask_all_answering by simp
qed

lemma find_registry_count_failed:
  assumes "read_count lib f = Inl e" and "0 < i"
  shows "find_registry keccak lib paced (answering f) i s = Some (Inl e, s)"
proof -
  have "try_sum (answered (outcome f (storage_word REGISTRY_COUNT)))
      (\<lambda>c. try_sum (registry_total lib c) g) = Inl e" for g :: "nat \<Rightarrow> failure + (anchored_registry \<times> nat) option"
    using assms(1) unfolding read_count_def by (auto simp: try_sum_def split: sum.splits)
  then show ?thesis
    using assms(2) unfolding find_registry_def ask_all_answering by simp
qed

end
