(* ===== verification/Name_Search.thy ===== *)
theory Name_Search
  imports Anchoring "HOL-Library.Product_Lexorder"
begin

section \<open>The registry name index (\<open>src/name_search.rs\<close>)\<close>

text \<open>
  The names the node's index returns, ranked and cut. The folding of letters is a parameter
  \<open>lc\<close>, for a name is free text; so is the reading \<open>named_of\<close> of a row of the answer. A request
  that times out is a request that fails. \<open>None\<close> is a request that never returns.
\<close>

definition OVERFETCH :: nat where
  "OVERFETCH = 8"

definition saturating_mul :: "nat \<Rightarrow> nat \<Rightarrow> nat" where
  "saturating_mul a b = min (a * b) U64_MAX"

text \<open>0 for the name itself, 1 for one that begins with it, 2 for the rest.\<close>

definition name_tier :: "(string \<Rightarrow> string) \<Rightarrow> string \<Rightarrow> anchored_registry \<Rightarrow> nat" where
  "name_tier lc folded n =
     (let name = lc (g_name n) in
      if name = folded then 0 else if starts_with folded name then 1 else 2)"

definition rank :: "(string \<Rightarrow> string) \<Rightarrow> string \<Rightarrow> anchored_registry list \<Rightarrow> anchored_registry list" where
  "rank lc folded named = sort_key (\<lambda>n. (name_tier lc folded n, g_id n)) named"

text \<open>The rows of the answer: a missing list is an empty one, a row that is no registry an error.\<close>

definition answer_rows :: "(json \<Rightarrow> anchored_registry option) \<Rightarrow> json \<Rightarrow> failure + anchored_registry list" where
  "answer_rows named_of answer =
     (case as_object answer of
        None \<Rightarrow> Inl Other_Error
      | Some _ \<Rightarrow>
          (case jget ''registries'' answer of
             None \<Rightarrow> Inr []
           | Some rows \<Rightarrow>
               (case as_array rows of
                  None \<Rightarrow> Inl Other_Error
                | Some vs \<Rightarrow>
                    if list_ex (\<lambda>v. named_of v = None) vs then Inl Other_Error
                    else Inr (map (the \<circ> named_of) vs))))"

definition name_call :: "string \<Rightarrow> nat \<Rightarrow> rpc_call" where
  "name_call q limit =
     (''anchoring_searchRegistriesByName'',
      JArr [JObj [(''name'', JStr q), (''mode'', JStr ''contains''),
                  (''limit'', json_nat (saturating_mul limit OVERFETCH))]])"

definition ask ::
  "(string \<Rightarrow> string) \<Rightarrow> (json \<Rightarrow> anchored_registry option) \<Rightarrow> (json \<Rightarrow> 's \<Rightarrow> reply \<times> 's)
     \<Rightarrow> string \<Rightarrow> nat \<Rightarrow> 's \<Rightarrow> (failure + anchored_registry list) \<times> 's" where
  "ask lc named_of send q limit s =
     (case rpc_call1 send (name_call q limit) s of
        (Inl e, s') \<Rightarrow> (Inl e, s')
      | (Inr answer, s') \<Rightarrow>
          (try_sum (answer_rows named_of answer) (\<lambda>named. Inr (take limit (rank lc (lc q) named))), s'))"

definition matching ::
  "(string \<Rightarrow> string) \<Rightarrow> (json \<Rightarrow> anchored_registry option) \<Rightarrow> (json \<Rightarrow> 's \<Rightarrow> reply \<times> 's)
     \<Rightarrow> string \<Rightarrow> nat \<Rightarrow> 's \<Rightarrow> anchored_registry list \<times> 's" where
  "matching lc named_of send q limit s =
     (case ask lc named_of send q limit s of (Inr named, s') \<Rightarrow> (named, s') | (Inl _, s') \<Rightarrow> ([], s'))"

subsection \<open>The ranking\<close>

lemma mset_rank [simp]: "mset (rank lc folded named) = mset named"
  by (simp add: rank_def)

lemma rank_sorted: "sorted (map (\<lambda>n. (name_tier lc folded n, g_id n)) (rank lc folded named))"
  by (simp add: rank_def)

lemma name_tier_exact: "name_tier lc folded n = 0 \<longleftrightarrow> lc (g_name n) = folded"
  by (simp add: name_tier_def Let_def)

text \<open>Rows with one key keep the order they came in: the sort is stable.\<close>

lemma rank_stable:
  "filter (\<lambda>n. (name_tier lc folded n, g_id n) = k) (rank lc folded named)
     = filter (\<lambda>n. (name_tier lc folded n, g_id n) = k) named"
  unfolding rank_def by (rule sort_key_stable)

lemma rank_exact_first:
  assumes "\<exists>n\<in>set named. lc (g_name n) = folded"
  shows "rank lc folded named \<noteq> [] \<and> lc (g_name (hd (rank lc folded named))) = folded"
proof -
  let ?r = "rank lc folded named"
  have set: "set ?r = set named" by (metis mset_rank set_mset_mset)
  obtain n where n: "n \<in> set ?r" "lc (g_name n) = folded" using assms set by auto
  then obtain h t where r: "?r = h # t" by (cases ?r) auto
  have "(name_tier lc folded h, g_id h) \<le> (name_tier lc folded n, g_id n)"
    using rank_sorted [of lc folded named] n(1) unfolding r by auto
  then have "name_tier lc folded h = 0"
    using n(2) name_tier_exact [of lc folded n] by (auto simp: less_eq_prod_def)
  then show ?thesis using r name_tier_exact [of lc folded h] by simp
qed

text \<open>
  What the search box shows of the index's answer: the rows answered, best first by how the
  name matches and then by id, and the first \<open>limit\<close> of those. A registry with the very name typed
  therefore heads the list, whatever its id, whenever the index answered it. Anything that goes
  wrong with the request shows no row.
\<close>

theorem matching_best_first:
  assumes "rpc_call1 send (name_call q limit) s = (Inr answer, s')"
    and "answer_rows named_of answer = Inr named"
  shows "\<exists>ranked. matching lc named_of send q limit s = (take limit ranked, s')
    \<and> mset ranked = mset named
    \<and> sorted (map (\<lambda>n. (name_tier lc (lc q) n, g_id n)) ranked)
    \<and> ((\<exists>n\<in>set named. lc (g_name n) = lc q) \<longrightarrow> lc (g_name (hd ranked)) = lc q)"
proof -
  have "matching lc named_of send q limit s = (take limit (rank lc (lc q) named), s')"
    using assms by (simp add: matching_def ask_def)
  then show ?thesis
    using rank_sorted [of lc "lc q" named] rank_exact_first [of named lc "lc q"] mset_rank [of lc "lc q" named]
    by blast
qed

lemma matching_nothing:
  assumes "fst (ask lc named_of send q limit s) = Inl e"
  shows "fst (matching lc named_of send q limit s) = []"
  using assms by (auto simp: matching_def split: prod.splits sum.splits)

definition sample_named :: "nat \<Rightarrow> string \<Rightarrow> anchored_registry" where
  "sample_named i name = \<lparr> g_id = i, g_name = name, g_description = [], g_creator = [], g_created_at = [],
     g_metadata = [] \<rparr>"

definition sample_row :: "json \<Rightarrow> anchored_registry option" where
  "sample_row v = map_option (sample_named 7) (as_str v)"

definition sample_index :: "json \<Rightarrow> unit \<Rightarrow> reply \<times> unit" where
  "sample_index body u =
     (Answered 200 (Some (JObj [(''result'', JObj [(''registries'', JArr [JStr ''us-washd'', JStr ''us-wash''])])])), u)"

lemma matching_best_first_witness:
  "\<exists>ranked. matching lower sample_row sample_index ''us-wash'' 1 () = (take 1 ranked, ())
    \<and> lower (g_name (hd ranked)) = lower ''us-wash''"
proof -
  have call: "rpc_call1 sample_index (name_call ''us-wash'' 1) () =
      (Inr (JObj [(''registries'', JArr [JStr ''us-washd'', JStr ''us-wash''])]), ())"
    by (simp add: rpc_call1_def sample_index_def rpc_error_of_def take_result_def json_access)
  have rows: "answer_rows sample_row (JObj [(''registries'', JArr [JStr ''us-washd'', JStr ''us-wash''])]) =
      Inr [sample_named 7 ''us-washd'', sample_named 7 ''us-wash'']"
    by (simp add: answer_rows_def sample_row_def json_access)
  show ?thesis
    using matching_best_first [OF call rows, of lower] by (auto simp: sample_named_def)
qed

end
