(* ===== verification/Config.thy ===== *)
theory Config
  imports Extern Json Complex_Main
begin

section \<open>Runtime configuration (\<open>src/config.rs\<close>)\<close>

text \<open>
  The settings read from the environment, a map from a variable to its text. A floating-point
  number is an exact one, an infinity or not a number; how a text is read as one is the parameter
  \<open>parse_f64\<close>, and which texts a header can carry is \<open>header_ok\<close>. The lemmas say that whatever the
  environment holds, every number lands in the range the rest of the explorer builds on.
\<close>

definition DEFAULT_RPC_URL :: string where
  "DEFAULT_RPC_URL = ''https://rpc.nvnm.canary.mantrachain.dev''"

definition DEFAULT_WS_URL :: string where
  "DEFAULT_WS_URL = ''wss://rpc.nvnm.canary.mantrachain.dev''"

definition DEFAULT_CHAIN_ID :: nat where
  "DEFAULT_CHAIN_ID = 787222"

definition DEFAULT_PORT :: nat where
  "DEFAULT_PORT = 8080"

definition DEFAULT_SIGNATURE_LOOKUP_URL :: string where
  "DEFAULT_SIGNATURE_LOOKUP_URL = ''https://api.openchain.xyz/signature-database/v1/lookup''"

definition SIGNATURE_TTL_SECONDS :: int where
  "SIGNATURE_TTL_SECONDS = 7 * 24 * 60 * 60"

subsection \<open>Roles\<close>

datatype role = All_Parts | Indexer_Only | Web_Only

definition default_role :: role where
  "default_role = All_Parts"

definition role_parse :: "string \<Rightarrow> role option" where
  "role_parse value =
     (let v = upper (trim value) in
      if v = ''ALL'' then Some All_Parts
      else if v = ''INDEXER'' then Some Indexer_Only
      else if v = ''WEB'' then Some Web_Only
      else None)"

definition role_text :: "role \<Rightarrow> string" where
  "role_text r = (case r of All_Parts \<Rightarrow> ''ALL'' | Indexer_Only \<Rightarrow> ''INDEXER'' | Web_Only \<Rightarrow> ''WEB'')"

subsection \<open>Reading a variable\<close>

type_synonym environment = "string \<Rightarrow> string option"

datatype f64 = Finite rat | Infinite bool | Not_A_Number

definition env_or :: "environment \<Rightarrow> string \<Rightarrow> string \<Rightarrow> string" where
  "env_or env key fallback = unwrap_or fallback (env key)"

definition rpc_url :: "environment \<Rightarrow> string" where
  "rpc_url env = unwrap_or DEFAULT_RPC_URL (or_else (env ''NVNM_RPC'') (env ''TEMPO_RPC''))"

definition env_parse :: "(string \<Rightarrow> 'a option) \<Rightarrow> environment \<Rightarrow> string \<Rightarrow> 'a \<Rightarrow> 'a" where
  "env_parse parse env key fallback = unwrap_or fallback (Option.bind (env key) (\<lambda>v. parse (trim v)))"

text \<open>A value that is not finite counts as none.\<close>

definition env_f64 :: "(string \<Rightarrow> f64 option) \<Rightarrow> environment \<Rightarrow> string \<Rightarrow> rat \<Rightarrow> rat" where
  "env_f64 parse_f64 env key fallback =
     (case env_parse parse_f64 env key (Finite fallback) of Finite x \<Rightarrow> x | _ \<Rightarrow> fallback)"

definition clamp_to :: "'a::linorder \<Rightarrow> 'a \<Rightarrow> 'a \<Rightarrow> 'a" where
  "clamp_to low high x = (if x < low then low else if high < x then high else x)"

text \<open>\<open>str::parse::<u64>\<close>\<close>

definition parse_u64 :: "string \<Rightarrow> nat option" where
  "parse_u64 s = u64_from_str_radix 10 s"

definition role_of_env :: "environment \<Rightarrow> role" where
  "role_of_env env =
     (case env ''ROLE'' of
        Some v \<Rightarrow> if trim v = [] then default_role else unwrap_or default_role (role_parse v)
      | None \<Rightarrow> default_role)"

definition signature_lookup_url :: "environment \<Rightarrow> string option" where
  "signature_lookup_url env =
     (case env ''SIGNATURE_LOOKUP_URL'' of
        Some url \<Rightarrow> if trim url = [] then None else Some (trim url)
      | None \<Rightarrow> Some DEFAULT_SIGNATURE_LOOKUP_URL)"

definition rpc_api_key :: "(string \<Rightarrow> bool) \<Rightarrow> string option \<Rightarrow> string option" where
  "rpc_api_key header_ok raw =
     (case raw of
        None \<Rightarrow> None
      | Some r \<Rightarrow>
          (let key = trim r in
           if key = [] then None else if header_ok key then Some key else None))"

subsection \<open>The settings\<close>

record settings =
  s_role :: role
  s_rpc_url :: string
  s_ws_url :: string
  s_index_ws :: bool
  s_chain_id :: nat
  s_host :: string
  s_port :: nat
  s_db_path :: string
  s_recent_block_count :: nat
  s_recent_tx_count :: nat
  s_poll_seconds :: rat
  s_batch_size :: nat
  s_index_concurrency :: nat
  s_stats_interval_seconds :: rat
  s_signature_lookup_url :: "string option"
  s_rpc_api_key :: "string option"

definition settings_from_env :: "(string \<Rightarrow> f64 option) \<Rightarrow> (string \<Rightarrow> bool) \<Rightarrow> environment \<Rightarrow> settings" where
  "settings_from_env parse_f64 header_ok env =
     (let port = env_parse parse_u64 env ''PORT'' DEFAULT_PORT in
      \<lparr> s_role = role_of_env env,
        s_rpc_url = rpc_url env,
        s_ws_url = env_or env ''WS_URL'' DEFAULT_WS_URL,
        s_index_ws = (case env ''INDEX_WS'' of Some v \<Rightarrow> v \<noteq> ''0'' \<and> lower v \<noteq> ''false'' | None \<Rightarrow> False),
        s_chain_id = env_parse parse_u64 env ''CHAIN_ID'' DEFAULT_CHAIN_ID,
        s_host = env_or env ''HOST'' ''0.0.0.0'',
        s_port = (if port \<le> 65535 then port else DEFAULT_PORT),
        s_db_path = env_or env ''DB_PATH'' ''explorer.db'',
        s_recent_block_count = env_parse parse_u64 env ''RECENT_BLOCK_COUNT'' 15,
        s_recent_tx_count = env_parse parse_u64 env ''RECENT_TX_COUNT'' 15,
        s_poll_seconds = clamp_to (1 / 20) 3600 (env_f64 parse_f64 env ''INDEX_POLL_SECONDS'' 1),
        s_batch_size = clamp_to 1 1024 (env_parse parse_u64 env ''INDEX_BATCH'' 32),
        s_index_concurrency = clamp_to 1 256 (env_parse parse_u64 env ''INDEX_CONCURRENCY'' 32),
        s_stats_interval_seconds = clamp_to 1 3600 (env_f64 parse_f64 env ''STATS_INTERVAL_SECONDS'' 5),
        s_signature_lookup_url = signature_lookup_url env,
        s_rpc_api_key = rpc_api_key header_ok (env ''NVNM_RPC_API_KEY'') \<rparr>)"

subsection \<open>What the settings promise\<close>

text \<open>The ranges a \<open>Duration\<close>, a window and a listening socket can be built from.\<close>

definition settings_ok :: "(string \<Rightarrow> bool) \<Rightarrow> settings \<Rightarrow> bool" where
  "settings_ok header_ok s \<longleftrightarrow>
     s_port s \<le> 65535 \<and> s_chain_id s \<le> U64_MAX
     \<and> s_recent_block_count s \<le> U64_MAX \<and> s_recent_tx_count s \<le> U64_MAX
     \<and> 1 / 20 \<le> s_poll_seconds s \<and> s_poll_seconds s \<le> 3600
     \<and> 1 \<le> s_batch_size s \<and> s_batch_size s \<le> 1024
     \<and> 1 \<le> s_index_concurrency s \<and> s_index_concurrency s \<le> 256
     \<and> 1 \<le> s_stats_interval_seconds s \<and> s_stats_interval_seconds s \<le> 3600
     \<and> s_signature_lookup_url s \<noteq> Some []
     \<and> (case s_rpc_api_key s of None \<Rightarrow> True | Some key \<Rightarrow> key \<noteq> [] \<and> header_ok key)"

lemma clamp_to_bounds: "low \<le> high \<Longrightarrow> low \<le> clamp_to low high x \<and> clamp_to low high x \<le> high"
  by (auto simp: clamp_to_def not_less)

lemma clamp_to_id: "low \<le> x \<Longrightarrow> x \<le> high \<Longrightarrow> clamp_to low high x = x"
  by (auto simp: clamp_to_def not_less)

lemma parse_u64_bound: "parse_u64 s = Some n \<Longrightarrow> n \<le> U64_MAX"
  by (auto simp: parse_u64_def u64_from_str_radix_def split: if_splits option.splits)

lemma env_parse_cases:
  "env_parse parse env key fallback = fallback \<or> (\<exists>v. parse v = Some (env_parse parse env key fallback))"
  by (auto simp: env_parse_def unwrap_or_def split: option.splits Option.bind_splits)

lemma env_parse_u64_bound: "fallback \<le> U64_MAX \<Longrightarrow> env_parse parse_u64 env key fallback \<le> U64_MAX"
  using env_parse_cases [of parse_u64 env key fallback] parse_u64_bound by metis


text \<open>A role displays as its value, which parses back in any case.\<close>

lemma trim_role_text: "trim (role_text r) = role_text r" "trim (lower (role_text r)) = lower (role_text r)"
  by (rule trim_no_ws; cases r; simp add: role_text_def ascii_def ws_code_def lower_char_def is_upper_def)+

lemma role_parse_role_text: "role_parse (role_text r) = Some r" "role_parse (lower (role_text r)) = Some r"
proof -
  have "upper (role_text r) = role_text r" "upper (lower (role_text r)) = role_text r"
    by (cases r; simp add: role_text_def upper_def upper_char_def lower_char_def is_upper_def is_lower_def;
        code_simp)+
  then show "role_parse (role_text r) = Some r" "role_parse (lower (role_text r)) = Some r"
    unfolding role_parse_def trim_role_text by (cases r; simp add: role_text_def)+
qed

text \<open>
  With nothing set, the window is 32 blocks and the WebSocket feed is off.
\<close>

lemma settings_unset:
  "s_batch_size (settings_from_env parse_f64 header_ok Map.empty) = 32"
  "s_index_ws (settings_from_env parse_f64 header_ok Map.empty) = False"
  "s_ws_url (settings_from_env parse_f64 header_ok Map.empty) = DEFAULT_WS_URL"
  by (simp_all add: settings_from_env_def env_parse_def env_or_def clamp_to_def Let_def)

end
