(* ===== verification/Signatures.thy ===== *)
theory Signatures
  imports Decoder Config "HOL-Library.List_Lexorder" "HOL-Library.Char_ord"
begin

section \<open>The signature directory and its cache (\<open>src/signatures.rs\<close>)\<close>

text \<open>
  Names for selectors no built-in ABI declares: looked up in a cache, then in a public directory,
  and remembered, misses included. The directory is the parameter \<open>directory\<close>: asked about a list
  of selectors at a URL it answers a JSON body, or nothing when it cannot be reached, refuses or
  answers no JSON. The cache is the list of its entries, one per selector.
\<close>

definition MAX_LOOKUP :: nat where
  "MAX_LOOKUP = 32"

definition MAX_CACHED :: nat where
  "MAX_CACHED = 10000"

type_synonym signature_cache = "(string \<times> (string \<times> int)) list"

type_synonym 's directory = "string \<Rightarrow> string list \<Rightarrow> 's \<Rightarrow> json option \<times> 's"

text \<open>What one entry of the answer names, when its name hashes to the selector it is for.\<close>

definition believed :: "keccak \<Rightarrow> string \<times> json \<Rightarrow> string option" where
  "believed keccak e =
     (case e of (selector, entries) \<Rightarrow>
       opt_filter (\<lambda>name. hashes_to keccak name selector)
         (Option.bind (Option.bind (as_array entries) (\<lambda>l. case l of [] \<Rightarrow> None | x # _ \<Rightarrow> Some x)) (get_str ''name'')))"

definition add_believed :: "keccak \<Rightarrow> string \<times> json \<Rightarrow> (string \<times> string) list \<Rightarrow> (string \<times> string) list" where
  "add_believed keccak e out' =
     (case believed keccak e of None \<Rightarrow> out' | Some name \<Rightarrow> AList.update (lower (fst e)) name out')"

definition read_directory :: "keccak \<Rightarrow> json option \<Rightarrow> (string \<times> string) list" where
  "read_directory keccak body =
     (case Option.bind (Option.bind (Option.bind body (jget ''result'')) (jget ''function'')) as_object of
        None \<Rightarrow> []
      | Some function' \<Rightarrow> fold (add_believed keccak) function' [])"

definition fetch :: "keccak \<Rightarrow> 's directory \<Rightarrow> string \<Rightarrow> string list \<Rightarrow> 's \<Rightarrow> (string \<times> string) list \<times> 's" where
  "fetch keccak directory url selectors s =
     (case directory url selectors s of (body, s') \<Rightarrow> (read_directory keccak body, s'))"

definition wanted :: "string list \<Rightarrow> string list" where
  "wanted selectors = remdups_adj (sort (map lower selectors))"

definition fresh_entries :: "int \<Rightarrow> signature_cache \<Rightarrow> string list \<Rightarrow> (string \<times> string) list" where
  "fresh_entries now held selectors =
     List.map_filter
       (\<lambda>selector. case map_of held selector of
          None \<Rightarrow> None
        | Some (signature, asked) \<Rightarrow>
            if asked \<ge> now - SIGNATURE_TTL_SECONDS then Some (selector, signature) else None) selectors"

definition remember :: "int \<Rightarrow> (string \<times> string) list \<Rightarrow> string list \<Rightarrow> signature_cache \<Rightarrow> signature_cache" where
  "remember now fetched missing held =
     fold (\<lambda>selector. AList.update selector (unwrap_or [] (map_of fetched selector), now)) missing
       (if length held \<ge> MAX_CACHED then [] else held)"

definition resolve ::
  "keccak \<Rightarrow> 's directory \<Rightarrow> settings \<Rightarrow> int \<Rightarrow> signature_cache \<Rightarrow> string list \<Rightarrow> 's
     \<Rightarrow> ((string \<times> string) list \<times> signature_cache) \<times> 's" where
  "resolve keccak directory cfg now held selectors s =
     (let want = wanted selectors in
      if want = [] then (([], held), s)
      else
        let cached = fresh_entries now held want;
            missing = take MAX_LOOKUP (filter (\<lambda>x. map_of cached x = None) want);
            resolved = filter (\<lambda>(_, signature). signature \<noteq> []) cached
        in case s_signature_lookup_url cfg of
             None \<Rightarrow> ((resolved, held), s)
           | Some url \<Rightarrow>
               if missing = [] then ((resolved, held), s)
               else
                 case fetch keccak directory url missing s of
                   (fetched, s') \<Rightarrow>
                     ((fold (\<lambda>(k, v). AList.update k v) fetched resolved,
                       remember now fetched missing held), s'))"

subsection \<open>Only a verified signature is shown\<close>

lemma hashes_to_lower:
  assumes "hashes_to keccak name selector"
  shows "hashes_to keccak name (lower selector)"
proof -
  have hex: "lower (strip_0x selector) = hex_encode (take 4 (keccak name))"
    using assms by (simp add: hashes_to_def)
  have "strip_0x (lower selector) = lower (strip_0x selector)"
  proof (cases "strip_prefix ''0x'' selector")
    case (Some r)
    then have "selector = ''0x'' @ r" by (simp only: strip_prefix_Some)
    then show ?thesis by (simp add: lower_char_def is_upper_def)
  next
    case None
    then have "lower selector = hex_encode (take 4 (keccak name))" using hex by (simp add: strip_0x_def)
    then have "\<forall>c\<in>set (lower selector). is_hex_digit c" using set_hex_encode by metis
    then show ?thesis using None by (simp add: strip_0x_hex_digits strip_0x_def [of selector])
  qed
  then show ?thesis using hex by (simp add: hashes_to_def)
qed

definition verified :: "keccak \<Rightarrow> (string \<times> string) list \<Rightarrow> bool" where
  "verified keccak m \<longleftrightarrow> (\<forall>selector name. map_of m selector = Some name \<longrightarrow> hashes_to keccak name selector)"

definition cache_ok :: "keccak \<Rightarrow> signature_cache \<Rightarrow> bool" where
  "cache_ok keccak held \<longleftrightarrow> unique_keys held \<and>
     (\<forall>selector name asked. map_of held selector = Some (name, asked) \<longrightarrow> name = [] \<or> hashes_to keccak name selector)"

lemma verified_add: "verified keccak out' \<Longrightarrow> verified keccak (add_believed keccak e out')"
  by (cases e)
    (auto simp: verified_def add_believed_def believed_def table_simps hashes_to_lower split: option.splits)

lemma verified_read: "verified keccak (read_directory keccak body)"
proof -
  have "verified keccak out' \<Longrightarrow> verified keccak (fold (add_believed keccak) es out')" for es out'
    by (induction es arbitrary: out') (auto simp: verified_add)
  from this [of "[]"] show ?thesis
    by (auto simp: read_directory_def verified_def split: option.splits)
qed

text \<open>The cache as what it says at an instant: a name, a known miss, or nothing.\<close>

definition remembered_at :: "int \<Rightarrow> signature_cache \<Rightarrow> string \<Rightarrow> string option" where
  "remembered_at now held selector =
     (case map_of held selector of
        None \<Rightarrow> None
      | Some (signature, asked) \<Rightarrow> if asked \<ge> now - SIGNATURE_TTL_SECONDS then Some signature else None)"

lemma map_of_fresh: "map_of (fresh_entries now held selectors) k = (if k \<in> set selectors then remembered_at now held k else None)"
  by (induction selectors)
    (auto simp: fresh_entries_def List.map_filter_simps remembered_at_def split: option.splits)

lemma map_of_filter_values:
  "distinct (map fst m) \<Longrightarrow> map_of (filter (\<lambda>(_, v). P v) m) k = opt_filter P (map_of m k)"
  by (induction m) (auto simp: opt_filter_def map_of_eq_None_iff image_iff split: option.splits)

lemma map_of_extend: "map_of (fold (\<lambda>(k, v). AList.update k v) new old) k =
    (case map_of (rev new) k of Some v \<Rightarrow> Some v | None \<Rightarrow> map_of old k)"
  by (induction new arbitrary: old) (auto simp: table_simps map_add_def split: option.splits)

lemma unique_keys_read: "unique_keys (read_directory keccak body)"
proof -
  have "unique_keys out' \<Longrightarrow> unique_keys (fold (add_believed keccak) es out')" for es out'
    by (induction es arbitrary: out') (auto simp: add_believed_def split: option.splits)
  then show ?thesis by (auto simp: read_directory_def split: option.splits)
qed

lemma map_of_rev_unique: "unique_keys m \<Longrightarrow> map_of (rev m) = map_of m"
  unfolding unique_keys_def by (subst map_of_inject_set) (simp_all add: rev_map [symmetric])

lemma distinct_remdups_adj: "sorted xs \<Longrightarrow> distinct (remdups_adj xs)"
  by (induction xs rule: remdups_adj.induct) auto

lemma distinct_wanted: "distinct (wanted selectors)"
  by (simp add: wanted_def distinct_remdups_adj)

lemma set_wanted: "set (wanted selectors) = lower ` set selectors"
  by (simp add: wanted_def)

lemma fresh_keys: "map fst (fresh_entries now held selectors) = filter (\<lambda>x. remembered_at now held x \<noteq> None) selectors"
  by (induction selectors)
    (auto simp: fresh_entries_def List.map_filter_simps remembered_at_def split: option.splits)

lemma distinct_fresh: "distinct selectors \<Longrightarrow> distinct (map fst (fresh_entries now held selectors))"
  by (simp add: fresh_keys)

lemma fresh_Nil [simp]: "fresh_entries now held [] = []"
  by (simp add: fresh_entries_def List.map_filter_simps)

lemma map_of_remember:
  "map_of (remember now fetched missing held) k =
     (if k \<in> set missing then Some (unwrap_or [] (map_of fetched k), now)
      else if length held \<ge> MAX_CACHED then None else map_of held k)"
proof -
  have "map_of (fold (\<lambda>x. AList.update x (unwrap_or [] (map_of fetched x), now)) missing m) k =
      (if k \<in> set missing then Some (unwrap_or [] (map_of fetched k), now) else map_of m k)" for m
    by (induction missing arbitrary: m) (auto simp: table_simps)
  then show ?thesis by (simp add: remember_def)
qed

lemma unique_keys_remember: "unique_keys held \<Longrightarrow> unique_keys (remember now fetched missing held)"
proof -
  have "unique_keys m \<Longrightarrow> unique_keys (fold (\<lambda>x. AList.update x (unwrap_or [] (map_of fetched x), now)) missing m)" for m
    by (induction missing arbitrary: m) auto
  then show "unique_keys held \<Longrightarrow> unique_keys (remember now fetched missing held)"
    by (simp add: remember_def)
qed

subsection \<open>The specification of the cache\<close>

text \<open>
  What the cache promises, over a map that says of a selector that it is named, that it is known
  to have no name (the empty text), or nothing: the names of the selectors wanted, and the map once
  the selectors nothing was said of have been asked about, at most \<open>MAX_LOOKUP\<close> of them. A full
  memory may forget what it was not just told.
\<close>

definition resolve_spec ::
  "bool \<Rightarrow> (string \<Rightarrow> string option) \<Rightarrow> string list \<Rightarrow> (string list \<Rightarrow> string \<Rightarrow> string option)
     \<Rightarrow> (string \<Rightarrow> string option) \<times> (string \<Rightarrow> string option)" where
  "resolve_spec full memory want answer =
     (let asked = take MAX_LOOKUP (filter (\<lambda>x. memory x = None) want) in
      if asked = [] then (\<lambda>x. if x \<in> set want then opt_filter (\<lambda>n. n \<noteq> []) (memory x) else None, memory)
      else
        (\<lambda>x. or_else (answer asked x) (if x \<in> set want then opt_filter (\<lambda>n. n \<noteq> []) (memory x) else None),
         \<lambda>x. if x \<in> set asked then Some (unwrap_or [] (answer asked x)) else if full then None else memory x))"

definition answers_of :: "keccak \<Rightarrow> 's directory \<Rightarrow> string \<Rightarrow> 's \<Rightarrow> string list \<Rightarrow> string \<Rightarrow> string option" where
  "answers_of keccak directory url s asked = map_of (fst (fetch keccak directory url asked s))"

lemma missing_known:
  "set xs \<subseteq> set want \<Longrightarrow> filter (\<lambda>x. map_of (fresh_entries now held want) x = None) xs
     = filter (\<lambda>x. remembered_at now held x = None) xs"
  by (rule filter_cong) (auto simp: map_of_fresh)

lemma map_of_resolved:
  "map_of (filter (\<lambda>(_, signature). signature \<noteq> []) (fresh_entries now held (wanted selectors))) x =
     (if x \<in> set (wanted selectors) then opt_filter (\<lambda>n. n \<noteq> []) (remembered_at now held x) else None)"
  by (simp add: map_of_filter_values distinct_fresh distinct_wanted map_of_fresh opt_filter_def)

text \<open>
  C15. The cache refines its specification: read as what it says now, it answers with the cached
  names of the selectors asked for and the directory's for the rest, and holds afterwards exactly
  what the specification's memory holds, misses included, an expired entry counting as none and a
  full cache starting over.
\<close>

theorem resolve_refines:
  assumes "resolve keccak directory cfg now held selectors s = ((resolved, held'), s')"
    and "s_signature_lookup_url cfg = Some url"
  shows "(map_of resolved, remembered_at now held') =
    resolve_spec (length held \<ge> MAX_CACHED) (remembered_at now held) (wanted selectors)
      (answers_of keccak directory url s)"
proof -
  let ?want = "wanted selectors"
  let ?missing = "take MAX_LOOKUP (filter (\<lambda>x. remembered_at now held x = None) ?want)"
  have missing: "filter (\<lambda>x. map_of (fresh_entries now held ?want) x = None) ?want =
      filter (\<lambda>x. remembered_at now held x = None) ?want"
    by (simp add: missing_known)
  show ?thesis
  proof (cases "?missing = []")
    case True
    then have "(resolved, held') =
        (filter (\<lambda>(_, signature). signature \<noteq> []) (fresh_entries now held ?want), held)"
      using assms by (cases "?want = []") (auto simp: resolve_def missing Let_def)
    then show ?thesis
      using True by (auto simp: resolve_spec_def Let_def map_of_resolved)
  next
    case False
    then have want: "?want \<noteq> []" by auto
    obtain fetched s2 where f: "fetch keccak directory url ?missing s = (fetched, s2)"
      by (cases "fetch keccak directory url ?missing s") auto
    have r: "resolved = fold (\<lambda>(k, v). AList.update k v) fetched
          (filter (\<lambda>(_, signature). signature \<noteq> []) (fresh_entries now held ?want))"
      and h: "held' = remember now fetched ?missing held"
      using assms False want by (auto simp: resolve_def missing Let_def f)
    have u: "unique_keys fetched"
      using f unique_keys_read by (auto simp: fetch_def split: prod.splits)
    have a: "answers_of keccak directory url s ?missing = map_of fetched"
      by (simp add: answers_of_def f)
    have "map_of resolved x = fst (resolve_spec (length held \<ge> MAX_CACHED) (remembered_at now held) ?want
        (answers_of keccak directory url s)) x" for x
      using False unfolding resolve_spec_def Let_def a
      by (simp add: r map_of_extend map_of_rev_unique [OF u] map_of_resolved or_else_def split: option.split)
    moreover have "remembered_at now held' x = snd (resolve_spec (length held \<ge> MAX_CACHED) (remembered_at now held) ?want
        (answers_of keccak directory url s)) x" for x
      using False unfolding resolve_spec_def Let_def a
      by (simp add: remembered_at_def h map_of_remember SIGNATURE_TTL_SECONDS_def)
    ultimately show ?thesis by (intro prod_eqI ext) auto
  qed
qed

lemma resolve_refines_witness:
  "(map_of [], remembered_at 5 [(''0xa9059cbb'', ([], 5))]) =
    resolve_spec False (remembered_at 5 []) [''0xa9059cbb''] (answers_of (\<lambda>_. []) (\<lambda>_ _ u. (None, u)) ''u'' ())"
proof -
  let ?cfg = "(settings_from_env (\<lambda>_. None) (\<lambda>_. True) Map.empty)\<lparr>s_signature_lookup_url := Some ''u''\<rparr>"
  have want: "wanted [''0xA9059CBB''] = [''0xa9059cbb'']" by code_simp
  have "resolve (\<lambda>_. []) (\<lambda>_ _ u. (None, u)) ?cfg 5 [] [''0xA9059CBB''] () =
      (([], [(''0xa9059cbb'', ([], 5))]), ())"
    by (simp add: resolve_def want Let_def MAX_LOOKUP_def fresh_entries_def List.map_filter_simps fetch_def
        read_directory_def remember_def MAX_CACHED_def)
  from resolve_refines [OF this, of "''u''"] show ?thesis by (simp add: want MAX_CACHED_def)
qed

lemma resolve_cases [consumes 1, case_names kept asked]:
  assumes "resolve keccak directory cfg now held selectors s = ((resolved, held'), s')"
  obtains "resolved = filter (\<lambda>(_, signature). signature \<noteq> []) (fresh_entries now held (wanted selectors)) \<or> resolved = []"
      and "held' = held"
  | url missing fetched s2 where "fetch keccak directory url missing s = (fetched, s2)"
      and "resolved = fold (\<lambda>(k, v). AList.update k v) fetched
        (filter (\<lambda>(_, signature). signature \<noteq> []) (fresh_entries now held (wanted selectors)))"
      and "held' = remember now fetched missing held"
proof (cases "s_signature_lookup_url cfg")
  case None
  then have "(resolved = filter (\<lambda>(_, signature). signature \<noteq> []) (fresh_entries now held (wanted selectors))
      \<or> resolved = []) \<and> held' = held"
    using assms by (cases "wanted selectors = []") (auto simp: resolve_def Let_def)
  then show ?thesis using that(1) by blast
next
  case (Some url)
  let ?missing = "take MAX_LOOKUP
    (filter (\<lambda>x. map_of (fresh_entries now held (wanted selectors)) x = None) (wanted selectors))"
  obtain fetched s2 where f: "fetch keccak directory url ?missing s = (fetched, s2)"
    by (cases "fetch keccak directory url ?missing s") auto
  show ?thesis
  proof (cases "wanted selectors = [] \<or> ?missing = []")
    case True
    let ?old = "filter (\<lambda>(_, signature). signature \<noteq> []) (fresh_entries now held (wanted selectors))"
    have "resolve keccak directory cfg now held selectors s = (([], held), s) \<or>
        resolve keccak directory cfg now held selectors s = ((?old, held), s)"
      using True by (elim disjE) (simp_all only: resolve_def Let_def Some if_True if_False option.case simp_thms split: if_split)
    with assms have "(resolved = ?old \<or> resolved = []) \<and> held' = held" by auto
    then show ?thesis using that(1) by blast
  next
    case False
    then show ?thesis
      using assms f by (intro that(2) [OF f]) (simp_all add: resolve_def Let_def Some)
  qed
qed

lemma fresh_mem: "(x, n) \<in> set (fresh_entries now held selectors) \<Longrightarrow> x \<in> set selectors \<and> remembered_at now held x = Some n"
  by (auto simp: fresh_entries_def set_map_filter_iff remembered_at_def split: option.splits if_splits)

text \<open>
  C0. Only a verified name is ever shown or kept: whatever the directory answers, every name in the
  answer and every name in the cache afterwards hashes to the selector it stands for, if that held
  of the cache before.
\<close>

theorem resolve_verified:
  assumes "resolve keccak directory cfg now held selectors s = ((resolved, held'), s')"
    and "cache_ok keccak held"
  shows "verified keccak resolved \<and> cache_ok keccak held'"
proof -
  let ?want = "wanted selectors"
  let ?old = "filter (\<lambda>(_, signature). signature \<noteq> []) (fresh_entries now held ?want)"
  have old: "verified keccak ?old"
    using assms(2)
    by (auto simp: verified_def cache_ok_def map_of_resolved remembered_at_def opt_filter_def
        split: if_splits option.splits)
  from assms(1) show ?thesis
  proof (cases rule: resolve_cases)
    case kept
    with old assms(2) show ?thesis by (auto simp: verified_def)
  next
    case (asked url missing fetched s2)
    note f = asked(1) and r = asked(2) and h = asked(3)
    obtain body where b: "fetched = read_directory keccak body"
      using f by (auto simp: fetch_def split: prod.splits)
    have v: "verified keccak fetched" unfolding b by (rule verified_read)
    have "unique_keys fetched" unfolding b by (rule unique_keys_read)
    then have "verified keccak resolved"
      using v old by (auto simp: verified_def r map_of_extend map_of_rev_unique split: option.splits)
    moreover have "cache_ok keccak held'"
      using assms(2) v
      by (auto simp: cache_ok_def h map_of_remember verified_def unique_keys_remember unwrap_or_def
          split: if_splits option.splits)
    ultimately show ?thesis ..
  qed
qed

lemma resolve_verified_witness:
  "verified (\<lambda>_. [CHR 0xA9, CHR 0x05, CHR 0x9C, CHR 0xBB]) [(''0xa9059cbb'', ''f()'')]"
proof -
  let ?k = "\<lambda>_. [CHR 0xA9, CHR 0x05, CHR 0x9C, CHR 0xBB]"
  let ?cfg = "(settings_from_env (\<lambda>_. None) (\<lambda>_. True) Map.empty)\<lparr>s_signature_lookup_url := Some ''u''\<rparr>"
  let ?body = "JObj [(''result'', JObj [(''function'', JObj
      [(''0xa9059cbb'', JArr [JObj [(''name'', JStr ''f()'')]]), (''0x11111111'', JArr [JObj [(''name'', JStr ''g()'')]])])])]"
  have want: "wanted [''0xA9059CBB''] = [''0xa9059cbb'']" by code_simp
  have hash: "hashes_to ?k ''f()'' ''0xa9059cbb''" "\<not> hashes_to ?k ''g()'' ''0x11111111''" by code_simp+
  have low: "lower ''0xa9059cbb'' = ''0xa9059cbb''" by code_simp
  have "read_directory ?k (Some ?body) = [(''0xa9059cbb'', ''f()'')]"
    using hash low
    by (simp add: read_directory_def json_access add_believed_def believed_def del: lower_Cons)
  then have "resolve ?k (\<lambda>_ _ u. (Some ?body, u)) ?cfg 5 [] [''0xA9059CBB''] () =
      (([(''0xa9059cbb'', ''f()'')], [(''0xa9059cbb'', (''f()'', 5))]), ())"
    by (simp add: resolve_def want Let_def MAX_LOOKUP_def fresh_entries_def List.map_filter_simps fetch_def
        remember_def MAX_CACHED_def)
  from resolve_verified [OF this] show ?thesis by (simp add: cache_ok_def)
qed

subsection \<open>What is remembered\<close>

text \<open>A directory is not asked when nothing wanted is unknown.\<close>

lemma resolve_known_asks_nobody:
  assumes "\<forall>x\<in>set (wanted selectors). remembered_at now held x \<noteq> None"
  shows "snd (resolve keccak directory cfg now held selectors s) = s
    \<and> snd (fst (resolve keccak directory cfg now held selectors s)) = held"
proof -
  have "filter (\<lambda>x. map_of (fresh_entries now held (wanted selectors)) x = None) (wanted selectors) = []"
    using assms by (auto simp: filter_empty_conv map_of_fresh)
  then show ?thesis by (simp add: resolve_def Let_def split: option.splits)
qed

text \<open>
  A lookup that failed is remembered like an answer that knows nothing: for the seven days an
  entry stands, no selector it was asked about is asked about again.
\<close>

lemma failed_lookup_remembered:
  assumes failed: "directory url (wanted selectors) s = (None, s')"
    and url: "s_signature_lookup_url cfg = Some url"
    and unknown: "\<forall>x\<in>set (wanted selectors). remembered_at now held x = None"
    and few: "length (wanted selectors) \<le> MAX_LOOKUP"
    and res: "resolve keccak directory cfg now held selectors s = ((resolved, held'), s1)"
    and later: "later \<le> now + SIGNATURE_TTL_SECONDS"
  shows "resolve keccak directory cfg later held' selectors s2 = (([], held'), s2)"
proof -
  let ?want = "wanted selectors"
  have none: "filter (\<lambda>x. map_of (fresh_entries now held ?want) x = None) ?want = ?want"
    using unknown by (auto simp: filter_id_conv map_of_fresh)
  have k: "remembered_at later held' x = Some []" if "x \<in> set ?want" for x
  proof -
    have "?want \<noteq> []" using that by auto
    moreover have "MAX_LOOKUP \<noteq> 0" by (simp add: MAX_LOOKUP_def)
    ultimately have "held' = remember now [] ?want held"
      using failed url few res
      by (simp add: resolve_def Let_def none fetch_def read_directory_def)
    then show ?thesis using that later by (simp add: remembered_at_def map_of_remember)
  qed
  then have "filter (\<lambda>x. map_of (fresh_entries later held' ?want) x = None) ?want = []"
    by (auto simp: filter_empty_conv map_of_fresh)
  moreover have "filter (\<lambda>(_, signature). signature \<noteq> []) (fresh_entries later held' ?want) = []"
    using k by (auto simp: filter_empty_conv dest!: fresh_mem)
  ultimately show ?thesis using url by (simp add: resolve_def Let_def)
qed

end
