(* ===== verification/Heads.thy ===== *)
theory Heads
  imports Rpc
begin

section \<open>The head feed (\<open>src/ws.rs\<close>)\<close>

text \<open>
  The watcher that tells the indexer of new heads: a WebSocket subscription that is retried with a
  growing pause, and polling that never stops beside it. What the socket delivers, what the node
  answers, whether the consumer is still there and what wakes a pause are the inputs, one entry per
  turn of a loop; an input that ends leaves the loop running. Times are milliseconds.
\<close>

definition RETRY_BASE :: nat where
  "RETRY_BASE = 500"

definition RETRY_CAP :: nat where
  "RETRY_CAP = 300 * 1000"

subsection \<open>A subscription\<close>

definition parse_head :: "json \<Rightarrow> nat option" where
  "parse_head value =
     (case Option.bind (Option.bind (Option.bind (jget ''params'' value) (jget ''result'')) (jget ''number'')) as_str of
        None \<Rightarrow> None
      | Some number \<Rightarrow> u64_from_str_radix 16 (strip_0x number))"

text \<open>A message of the socket; a text carries its JSON, if it is some.\<close>

datatype frame = Text_Frame "json option" | Ping_Frame bool | Close_Frame | Other_Frame | Read_Failed

datatype ended = Ended_Ok | Ended_Err

text \<open>
  What the loop over the messages forwards, and how it ends; \<open>gone n\<close> says that the consumer is
  gone when the head \<open>n\<close> is sent, and a ping whose answer cannot be sent ends it.
\<close>

fun read_frames :: "(nat \<Rightarrow> bool) \<Rightarrow> frame list \<Rightarrow> nat list \<times> ended" where
  "read_frames gone [] = ([], Ended_Ok)"
| "read_frames gone (Read_Failed # fs) = ([], Ended_Err)"
| "read_frames gone (Close_Frame # fs) = ([], Ended_Ok)"
| "read_frames gone (Other_Frame # fs) = read_frames gone fs"
| "read_frames gone (Ping_Frame answered # fs) =
     (if answered then read_frames gone fs else ([], Ended_Err))"
| "read_frames gone (Text_Frame None # fs) = read_frames gone fs"
| "read_frames gone (Text_Frame (Some value) # fs) =
     (case jget ''error'' value of
        Some _ \<Rightarrow> ([], Ended_Err)
      | None \<Rightarrow>
          (case parse_head value of
             None \<Rightarrow> read_frames gone fs
           | Some number \<Rightarrow>
               if gone number then ([], Ended_Ok)
               else (case read_frames gone fs of (heads, e) \<Rightarrow> (number # heads, e))))"

definition subscribe_ws :: "bool \<Rightarrow> bool \<Rightarrow> (nat \<Rightarrow> bool) \<Rightarrow> frame list \<Rightarrow> nat list \<times> ended" where
  "subscribe_ws connected subscribed gone frames =
     (if connected \<and> subscribed then read_frames gone frames else ([], Ended_Err))"

subsection \<open>Polling\<close>

text \<open>What ends the wait of a turn: the future it polls beside, the time, or the shutdown channel.\<close>

datatype wake = Stop_Resolved | Slept | Shutdown_Changed bool

record poll_turn =
  pt_shutdown :: bool
  pt_head :: "nat option"
  pt_gone :: bool
  pt_wake :: wake

datatype polled = Stop_Seen | Consumer_Or_Shutdown | Polling

fun poll_until :: "poll_turn list \<Rightarrow> nat list \<times> polled" where
  "poll_until [] = ([], Polling)"
| "poll_until (t # ts) =
     (if pt_shutdown t then ([], Consumer_Or_Shutdown)
      else if pt_head t \<noteq> None \<and> pt_gone t then ([], Consumer_Or_Shutdown)
      else
        let sent = (case pt_head t of Some head \<Rightarrow> [head] | None \<Rightarrow> []) in
        case pt_wake t of
          Stop_Resolved \<Rightarrow> (sent, Stop_Seen)
        | Shutdown_Changed down \<Rightarrow>
            if down then (sent, Consumer_Or_Shutdown)
            else (case poll_until ts of (heads, r) \<Rightarrow> (sent @ heads, r))
        | Slept \<Rightarrow> (case poll_until ts of (heads, r) \<Rightarrow> (sent @ heads, r)))"

subsection \<open>The retry\<close>

record watcher =
  wt_retry :: nat
  wt_failures :: nat

definition watcher_start :: watcher where
  "watcher_start = \<lparr> wt_retry = RETRY_BASE, wt_failures = 0 \<rparr>"

text \<open>The pause after a subscription ended, and the watcher after it.\<close>

definition after_subscription :: "ended \<Rightarrow> watcher \<Rightarrow> nat \<times> watcher" where
  "after_subscription e w =
     (case e of
        Ended_Ok \<Rightarrow> (250, w\<lparr>wt_retry := RETRY_BASE, wt_failures := 0\<rparr>)
      | Ended_Err \<Rightarrow>
          (wt_retry w, w\<lparr>wt_retry := min (wt_retry w * 2) RETRY_CAP, wt_failures := wt_failures w + 1\<rparr>))"

text \<open>
  A round of the watcher: it polls until the subscription ends, then through the pause. A round is
  given the turns of both waits and how the subscription ended; the watcher stops in either wait
  when the consumer is gone or shutdown was asked for.
\<close>

record round =
  rd_beside :: "poll_turn list"
  rd_ended :: ended
  rd_pausing :: "poll_turn list"

fun watch_rounds :: "round list \<Rightarrow> watcher \<Rightarrow> nat list \<times> nat list \<times> bool" where
  "watch_rounds [] w = ([], [], False)"
| "watch_rounds (r # rs) w =
     (case poll_until (rd_beside r) of
        (heads, Stop_Seen) \<Rightarrow>
          (case after_subscription (rd_ended r) w of
             (pause, w') \<Rightarrow>
               (case poll_until (rd_pausing r) of
                  (later, Stop_Seen) \<Rightarrow>
                    (case watch_rounds rs w' of
                       (heads', pauses, stopped) \<Rightarrow> (heads @ later @ heads', pause # pauses, stopped))
                | (later, Consumer_Or_Shutdown) \<Rightarrow> (heads @ later, [pause], True)
                | (later, Polling) \<Rightarrow> (heads @ later, [pause], False)))
      | (heads, Consumer_Or_Shutdown) \<Rightarrow> (heads, [], True)
      | (heads, Polling) \<Rightarrow> (heads, [], False))"

definition head_watcher :: "bool \<Rightarrow> poll_turn list \<Rightarrow> round list \<Rightarrow> nat list \<times> nat list \<times> bool" where
  "head_watcher index_ws turns rounds =
     (if \<not> index_ws then (case poll_until turns of (heads, r) \<Rightarrow> (heads, [], r = Consumer_Or_Shutdown))
      else watch_rounds rounds watcher_start)"

subsection \<open>Lemmas\<close>

text \<open>A turn in which the node answers forwards the head it answered, whatever wakes it.\<close>

lemma poll_until_forwards:
  assumes "\<not> pt_shutdown t" "pt_head t = Some head" "\<not> pt_gone t"
  shows "\<exists>rest. fst (poll_until (t # ts)) = head # rest"
  using assms by (auto simp: Let_def split: wake.split prod.split)

text \<open>A node that does not answer stops nothing.\<close>

lemma poll_until_silent:
  assumes "\<not> pt_shutdown t" "pt_head t = None" "pt_wake t = Slept"
  shows "poll_until (t # ts) = poll_until ts"
  using assms by (simp split: prod.split)

lemma poll_until_shutdown: "pt_shutdown t \<Longrightarrow> poll_until (t # ts) = ([], Consumer_Or_Shutdown)"
  by simp

text \<open>The pause doubles with each failure in a row up to five minutes, and starts over after a
  subscription that ran.\<close>

definition retry_ok :: "watcher \<Rightarrow> bool" where
  "retry_ok w \<longleftrightarrow> wt_retry w = min (RETRY_BASE * 2 ^ wt_failures w) RETRY_CAP"

lemma retry_ok_start: "retry_ok watcher_start"
  by (simp add: retry_ok_def watcher_start_def RETRY_BASE_def RETRY_CAP_def)

lemma min_double: "min (min a c * 2) c = min (a * 2) c" for a c :: nat
  by (simp add: min_def)

lemma after_subscription_ok:
  assumes "retry_ok w" "after_subscription e w = (pause, w')"
  shows "retry_ok w' \<and> pause \<le> RETRY_CAP \<and>
    (e = Ended_Err \<longrightarrow> pause = min (RETRY_BASE * 2 ^ wt_failures w) RETRY_CAP)"
  using assms
  by (cases e)
    (auto simp: after_subscription_def retry_ok_def RETRY_CAP_def RETRY_BASE_def min_double mult.assoc
      mult.commute [of _ 2] simp flip: min_double)



end
