(* ===== verification/Phrases.thy ===== *)
theory Phrases
  imports Main
begin

section \<open>How each event reads (\<open>src/summary.rs\<close>)\<close>

text \<open>
  The phrase table: every event the built-in ABIs declare, by its canonical signature, with its
  kind, its verb phrase, the pieces of its sentence and the details shown beneath it. The source's
  one list is the parts \<open>PHRASES_1\<close> to the last, in its order.
\<close>

datatype slot =
    Slot_Word string
  | Slot_Amount string
  | Slot_Amount_Of string string
  | Slot_Account string
  | Slot_Token string
  | Slot_Value string
  | Slot_Hex string
  | Slot_Role string

record phrase =
  ph_signature :: string
  ph_kind :: string
  ph_action :: string
  ph_slots :: "slot list"
  ph_notes :: "(string \<times> slot) list"

definition reads_as :: "string \<Rightarrow> string \<Rightarrow> string \<Rightarrow> slot list \<Rightarrow> (string \<times> slot) list \<Rightarrow> phrase" where
  "reads_as signature kind action slots notes' =
     \<lparr> ph_signature = signature, ph_kind = kind, ph_action = action, ph_slots = slots, ph_notes = notes' \<rparr>"

definition PHRASES_1 :: "phrase list" where
  "PHRASES_1 =
    [reads_as ''Transfer(address,address,uint256)'' ''send'' ''Send''
       [Slot_Amount ''amount'', Slot_Word ''to'', Slot_Account ''to'']
       [],
     reads_as ''TransferWithMemo(address,address,uint256,bytes32)'' ''send'' ''Send''
       [Slot_Amount ''amount'', Slot_Word ''to'', Slot_Account ''to'']
       [],
     reads_as ''Mint(address,uint256)'' ''mint'' ''Mint''
       [Slot_Amount ''amount'', Slot_Word ''to'', Slot_Account ''to'']
       [],
     reads_as ''Burn(address,uint256)'' ''burn'' ''Burn''
       [Slot_Amount ''amount'', Slot_Word ''from'', Slot_Account ''from'']
       [],
     reads_as ''BurnBlocked(address,uint256)'' ''burn blocked'' ''Burn Blocked''
       [Slot_Amount ''amount'', Slot_Word ''from'', Slot_Account ''from'']
       [],
     reads_as ''Approval(address,address,uint256)'' ''approval'' ''Approve''
       [Slot_Amount ''amount'', Slot_Word ''for spender'', Slot_Account ''spender'']
       [],
     reads_as ''RewardDistributed(address,uint256)'' ''reward distributed'' ''Distribute Reward''
       [Slot_Amount ''amount'', Slot_Word ''from'', Slot_Account ''funder'']
       [],
     reads_as ''RewardRecipientSet(address,address)'' ''reward recipient set'' ''Set Reward Recipient''
       [Slot_Account ''recipient'', Slot_Word ''for holder'', Slot_Account ''holder'']
       [],
     reads_as ''RoleMembershipUpdated(bytes32,address,address,bool)'' ''role membership'' ''Grant Role''
       [Slot_Role ''role'', Slot_Word ''to'', Slot_Account ''account'']
       [(''Sender'', Slot_Account ''sender'')],
     reads_as ''RoleAdminUpdated(bytes32,bytes32,address)'' ''role admin updated'' ''Update Role Admin''
       [Slot_Role ''role'', Slot_Word ''to'', Slot_Role ''newAdminRole'']
       [(''Sender'', Slot_Account ''sender'')],
     reads_as ''PauseStateUpdate(address,bool)'' ''pause'' ''Pause Transfers''
       []
       [(''Updater'', Slot_Account ''updater'')],
     reads_as ''SupplyCapUpdate(address,uint256)'' ''supply cap update'' ''Update Supply Cap''
       []
       [(''New'', Slot_Amount ''newSupplyCap''), (''Updater'', Slot_Account ''updater'')],
     reads_as ''TransferPolicyUpdate(address,uint64)'' ''transfer policy update'' ''Update Transfer Policy''
       [Slot_Word ''to'', Slot_Value ''newPolicyId'']
       [(''Updater'', Slot_Account ''updater'')],
     reads_as ''QuoteTokenUpdate(address,address)'' ''quote token update'' ''Update Quote Token''
       [Slot_Word ''to'', Slot_Token ''newQuoteToken'']
       [(''Updater'', Slot_Account ''updater'')],
     reads_as ''NextQuoteTokenSet(address,address)'' ''next quote token set'' ''Set Next Quote Token''
       [Slot_Word ''to'', Slot_Token ''nextQuoteToken'']
       [(''Updater'', Slot_Account ''updater'')],
     reads_as ''LogoURIUpdated(address,string)'' ''logo updated'' ''Update Logo''
       []
       [(''URI'', Slot_Value ''newLogoURI''), (''Updater'', Slot_Account ''updater'')]]"

definition PHRASES_2 :: "phrase list" where
  "PHRASES_2 =
    [reads_as ''TokenCreated(address,string,string,string,address,address,bytes32)'' ''create token'' ''Create Token''
       [Slot_Value ''symbol'']
       [(''Name'', Slot_Value ''name''), (''Currency'', Slot_Value ''currency''), (''Admin'', Slot_Account ''admin'')],
     reads_as ''PolicyCreated(uint64,address,uint8)'' ''policy created'' ''Create Transfer Policy''
       [Slot_Value ''policyId'']
       [],
     reads_as ''CompoundPolicyCreated(uint64,address,uint64,uint64,uint64)'' ''compound policy created'' ''Create Compound Policy''
       [Slot_Value ''policyId'']
       [],
     reads_as ''PolicyAdminUpdated(uint64,address,address)'' ''policy admin updated'' ''Update Policy Admin''
       [Slot_Word ''of policy'', Slot_Value ''policyId'', Slot_Word ''to'', Slot_Account ''admin'']
       [],
     reads_as ''BlacklistUpdated(uint64,address,address,bool)'' ''blacklist updated'' ''Blacklist''
       [Slot_Account ''account'', Slot_Word ''under policy'', Slot_Value ''policyId'']
       [(''Updater'', Slot_Account ''updater'')],
     reads_as ''WhitelistUpdated(uint64,address,address,bool)'' ''whitelist updated'' ''Whitelist''
       [Slot_Account ''account'', Slot_Word ''under policy'', Slot_Value ''policyId'']
       [(''Updater'', Slot_Account ''updater'')],
     reads_as ''ReceivePolicyUpdated(address,uint64,uint64,address)'' ''receive policy updated'' ''Update Receive Policy''
       [Slot_Word ''for'', Slot_Account ''account'']
       [(''Sender Policy'', Slot_Value ''senderPolicyId''), (''Token Filter'', Slot_Value ''tokenFilterId''), (''Recovery'', Slot_Account ''recoveryAuthority'')],
     reads_as ''TransferBlocked(address,address,uint64,uint256,uint8,bytes)'' ''transfer blocked'' ''Transfer Blocked''
       [Slot_Amount_Of ''amount'' ''token'', Slot_Word ''to'', Slot_Account ''receiver'']
       [],
     reads_as ''ReceiptClaimed(address,address,uint64,uint64,uint8,address,address,address,address,address,uint256)'' ''receipt claimed'' ''Claim Blocked Transfer''
       [Slot_Amount_Of ''amount'' ''token'', Slot_Word ''to'', Slot_Account ''to'']
       [(''Receiver'', Slot_Account ''receiver''), (''Originator'', Slot_Account ''originator'')],
     reads_as ''ReceiptBurned(address,address,uint64,uint64,uint8,address,address,address,address,uint256)'' ''receipt burned'' ''Burn Blocked Receipt''
       [Slot_Amount_Of ''amount'' ''token'', Slot_Word ''for'', Slot_Account ''receiver'']
       [(''Originator'', Slot_Account ''originator'')],
     reads_as ''FeesDistributed(address,address,uint256)'' ''fees distributed'' ''Distribute Fees''
       [Slot_Amount_Of ''amount'' ''token'', Slot_Word ''to validator'', Slot_Account ''validator'']
       [],
     reads_as ''UserTokenSet(address,address)'' ''user token set'' ''Set Fee Token''
       [Slot_Token ''token'', Slot_Word ''for'', Slot_Account ''user'']
       []]"

definition PHRASES_3 :: "phrase list" where
  "PHRASES_3 =
    [reads_as ''ValidatorTokenSet(address,address)'' ''validator token set'' ''Set Validator Fee Token''
       [Slot_Token ''token'', Slot_Word ''for'', Slot_Account ''validator'']
       [],
     reads_as ''Mint(address,address,address,address,uint256,uint256)'' ''add liquidity'' ''Add Fee Liquidity''
       [Slot_Amount_Of ''amountValidatorToken'' ''validatorToken'', Slot_Word ''for'', Slot_Account ''to'']
       [(''Liquidity'', Slot_Value ''liquidity'')],
     reads_as ''Burn(address,address,address,uint256,uint256,uint256,address)'' ''remove liquidity'' ''Remove Fee Liquidity''
       [Slot_Amount_Of ''amountValidatorToken'' ''validatorToken'', Slot_Word ''to'', Slot_Account ''to'']
       [(''Liquidity'', Slot_Value ''liquidity'')],
     reads_as ''RebalanceSwap(address,address,address,uint256,uint256)'' ''rebalance swap'' ''Rebalance''
       [Slot_Amount_Of ''amountIn'' ''userToken'', Slot_Word ''for'', Slot_Amount_Of ''amountOut'' ''validatorToken'']
       [],
     reads_as ''OrderPlaced(uint128,address,address,uint128,bool,int16,bool,int16)'' ''order placed'' ''Limit Buy''
       [Slot_Amount_Of ''amount'' ''token'', Slot_Word ''at tick'', Slot_Value ''tick'']
       [(''Order'', Slot_Value ''orderId'')],
     reads_as ''OrderFilled(uint128,address,address,uint128,bool)'' ''order filled'' ''Fill Order''
       [Slot_Value ''orderId'']
       [(''Maker'', Slot_Account ''maker''), (''Taker'', Slot_Account ''taker''), (''Filled'', Slot_Value ''amountFilled'')],
     reads_as ''OrderFlipped(uint128,address,address,uint128,bool,int16,int16)'' ''order flipped'' ''Flip Order''
       [Slot_Value ''orderId'', Slot_Word ''to tick'', Slot_Value ''flipTick'']
       [(''Maker'', Slot_Account ''maker'')],
     reads_as ''OrderCancelled(uint128)'' ''order cancelled'' ''Cancel Order''
       [Slot_Value ''orderId'']
       [],
     reads_as ''FlipFailed(uint128,address,bytes4)'' ''flip failed'' ''Order Flip Failed''
       [Slot_Value ''orderId'']
       [(''Reason'', Slot_Hex ''reason'')],
     reads_as ''PairCreated(bytes32,address,address)'' ''pair created'' ''Create Pair''
       [Slot_Token ''base'', Slot_Word ''/'', Slot_Token ''quote'']
       [],
     reads_as ''KeyAuthorized(address,address,uint8,uint64)'' ''key authorized'' ''Authorize Key''
       [Slot_Account ''publicKey'', Slot_Word ''for'', Slot_Account ''account'']
       [(''Expiry'', Slot_Value ''expiry'')],
     reads_as ''AdminKeyAuthorized(address,address)'' ''admin key authorized'' ''Authorize Admin Key''
       [Slot_Account ''publicKey'', Slot_Word ''for'', Slot_Account ''account'']
       []]"

definition PHRASES_4 :: "phrase list" where
  "PHRASES_4 =
    [reads_as ''KeyRevoked(address,address)'' ''key revoked'' ''Revoke Key''
       [Slot_Account ''publicKey'', Slot_Word ''for'', Slot_Account ''account'']
       [],
     reads_as ''KeyAuthorizationWitness(address,bytes32)'' ''key witness'' ''Record Key Witness''
       [Slot_Hex ''witness'']
       [],
     reads_as ''KeyAuthorizationWitnessBurned(address,bytes32)'' ''key witness burned'' ''Burn Key Witness''
       [Slot_Hex ''witness'']
       [],
     reads_as ''AccessKeySpend(address,address,address,uint256,uint256)'' ''access key spend'' ''Spend From Access Key''
       [Slot_Amount_Of ''amount'' ''token'', Slot_Word ''by'', Slot_Account ''publicKey'']
       [(''Remaining'', Slot_Amount_Of ''remainingLimit'' ''token'')],
     reads_as ''SpendingLimitUpdated(address,address,address,uint256)'' ''spending limit updated'' ''Update Spending Limit''
       [Slot_Word ''for'', Slot_Account ''publicKey'', Slot_Word ''to'', Slot_Amount_Of ''newLimit'' ''token'']
       [(''Account'', Slot_Account ''account'')],
     reads_as ''NonceIncremented(address,uint256,uint64)'' ''nonce incremented'' ''Increment Nonce''
       [Slot_Word ''for'', Slot_Account ''account'']
       [(''New Nonce'', Slot_Value ''newNonce'')],
     reads_as ''MasterRegistered(bytes4,address)'' ''master registered'' ''Register Virtual Master''
       [Slot_Hex ''masterId'', Slot_Word ''to'', Slot_Account ''masterAddress'']
       [],
     reads_as ''ChannelOpened(bytes32,address,address,address,address,address,bytes32,bytes32,uint96)'' ''channel opened'' ''Open Payment Channel''
       [Slot_Amount_Of ''deposit'' ''token'', Slot_Word ''to'', Slot_Account ''payee'']
       [(''Channel'', Slot_Hex ''channelId'')],
     reads_as ''Settled(bytes32,address,address,uint96,uint96,uint96)'' ''channel settled'' ''Settle Channel''
       [Slot_Value ''deltaPaid'', Slot_Word ''to'', Slot_Account ''payee'']
       [(''Channel'', Slot_Hex ''channelId'')],
     reads_as ''TopUp(bytes32,address,address,uint96,uint96)'' ''channel top up'' ''Top Up Channel''
       [Slot_Value ''additionalDeposit'']
       [(''Channel'', Slot_Hex ''channelId'')],
     reads_as ''CloseRequested(bytes32,address,address,uint256)'' ''channel close requested'' ''Request Channel Close''
       []
       [(''Channel'', Slot_Hex ''channelId'')],
     reads_as ''CloseRequestCancelled(bytes32,address,address)'' ''channel close cancelled'' ''Cancel Channel Close''
       []
       [(''Channel'', Slot_Hex ''channelId'')],
     reads_as ''ChannelClosed(bytes32,address,address,uint96,uint96)'' ''channel closed'' ''Close Channel''
       [Slot_Value ''settledToPayee'', Slot_Word ''to'', Slot_Account ''payee'']
       [(''Refunded'', Slot_Value ''refundedToPayer'')],
     reads_as ''ValidatorAdded(uint64,address,bytes32,string,string,address)'' ''validator added'' ''Add Validator''
       [Slot_Account ''validatorAddress'']
       [(''Index'', Slot_Value ''index'')]]"

definition PHRASES_5 :: "phrase list" where
  "PHRASES_5 =
    [reads_as ''ValidatorDeactivated(uint64,address)'' ''validator deactivated'' ''Deactivate Validator''
       [Slot_Account ''validatorAddress'']
       [],
     reads_as ''ValidatorMigrated(uint64,address,bytes32)'' ''validator migrated'' ''Migrate Validator''
       [Slot_Account ''validatorAddress'']
       [],
     reads_as ''SkippedValidatorMigration(uint64,address,bytes32)'' ''validator migration skipped'' ''Skip Validator Migration''
       [Slot_Account ''validatorAddress'']
       [],
     reads_as ''ValidatorRotated(uint64,uint64,address,bytes32,bytes32,string,string,address)'' ''validator rotated'' ''Rotate Validator''
       [Slot_Account ''validatorAddress'']
       [(''Index'', Slot_Value ''index'')],
     reads_as ''ValidatorOwnershipTransferred(uint64,address,address,address)'' ''validator ownership transferred'' ''Transfer Validator Ownership''
       [Slot_Account ''oldAddress'', Slot_Word ''to'', Slot_Account ''newAddress'']
       [],
     reads_as ''FeeRecipientUpdated(uint64,address,address)'' ''fee recipient updated'' ''Update Fee Recipient''
       [Slot_Word ''to'', Slot_Account ''feeRecipient'']
       [],
     reads_as ''IpAddressesUpdated(uint64,string,string,address)'' ''ip addresses updated'' ''Update Validator Addresses''
       []
       [(''Ingress'', Slot_Value ''ingress''), (''Egress'', Slot_Value ''egress'')],
     reads_as ''NetworkIdentityRotationEpochSet(uint64,uint64)'' ''rotation epoch set'' ''Set Rotation Epoch''
       [Slot_Word ''to'', Slot_Value ''nextEpoch'']
       [],
     reads_as ''OwnershipTransferred(address,address)'' ''ownership transferred'' ''Transfer Ownership''
       [Slot_Word ''to'', Slot_Account ''newOwner'']
       [],
     reads_as ''Upgraded(address)'' ''upgraded'' ''Upgrade''
       [Slot_Word ''to'', Slot_Account ''implementation'']
       [],
     reads_as ''Initialized(uint64)'' ''initialized'' ''Initialize''
       [Slot_Word ''at height'', Slot_Value ''height'']
       [],
     reads_as ''ContractCreation(address)'' ''contract created'' ''Deploy Contract''
       [Slot_Account ''newContract'']
       [],
     reads_as ''ContractCreation(address,bytes32)'' ''contract created'' ''Deploy Contract''
       [Slot_Account ''newContract'']
       [(''Salt'', Slot_Hex ''salt'')],
     reads_as ''Create3ProxyContractCreation(address,bytes32)'' ''proxy created'' ''Deploy CREATE3 Proxy''
       [Slot_Account ''newContract'']
       [(''Salt'', Slot_Hex ''salt'')],
     reads_as ''Approval(address,address,address,uint160,uint48)'' ''approval'' ''Approve''
       [Slot_Amount_Of ''amount'' ''token'', Slot_Word ''for spender'', Slot_Account ''spender'']
       [(''Expires'', Slot_Value ''expiration'')],
     reads_as ''Permit(address,address,address,uint160,uint48,uint48)'' ''permit'' ''Permit''
       [Slot_Account ''spender'', Slot_Word ''to spend'', Slot_Amount_Of ''amount'' ''token'']
       [(''Expires'', Slot_Value ''expiration'')],
     reads_as ''Lockdown(address,address,address)'' ''lockdown'' ''Revoke Approval''
       [Slot_Word ''for'', Slot_Account ''spender'', Slot_Word ''on'', Slot_Token ''token'']
       []]"

definition PHRASES_6 :: "phrase list" where
  "PHRASES_6 =
    [reads_as ''NonceInvalidation(address,address,address,uint48,uint48)'' ''nonce invalidated'' ''Invalidate Nonce''
       [Slot_Word ''to'', Slot_Value ''newNonce'']
       [(''Spender'', Slot_Account ''spender'')],
     reads_as ''UnorderedNonceInvalidation(address,uint256,uint256)'' ''nonce invalidated'' ''Invalidate Nonces''
       [Slot_Word ''in word'', Slot_Value ''word'']
       [(''Owner'', Slot_Account ''owner'')],
     reads_as ''AddRegistry(address,uint64,string)'' ''registry added'' ''Add Registry''
       [Slot_Value ''name'']
       [(''Registry'', Slot_Value ''registryId'')],
     reads_as ''AddRecord(address,uint64,uint64,uint64,string)'' ''record added'' ''Add Record''
       [Slot_Word ''version'', Slot_Value ''index'', Slot_Word ''of'', Slot_Value ''checksum'']
       [(''Registry'', Slot_Value ''registryId''), (''Record'', Slot_Value ''recordId'')],
     reads_as ''UpdateRecordStatus(address,uint64,uint64,uint64,string)'' ''record status updated'' ''Update Record Status''
       [Slot_Value ''status'', Slot_Word ''on version'', Slot_Value ''index'']
       [(''Registry'', Slot_Value ''registryId''), (''Record'', Slot_Value ''recordId'')],
     reads_as ''GrantRole(address,uint64,string,address,string)'' ''role granted'' ''Grant Role''
       [Slot_Value ''role'', Slot_Word ''to'', Slot_Account ''account'']
       [(''Registry'', Slot_Value ''registryId''), (''Record'', Slot_Value ''checksum'')],
     reads_as ''RevokeRole(address,uint64,string,address,string)'' ''role revoked'' ''Revoke Role''
       [Slot_Value ''role'', Slot_Word ''from'', Slot_Account ''account'']
       [(''Registry'', Slot_Value ''registryId''), (''Record'', Slot_Value ''checksum'')],
     reads_as ''ZoneCreated(uint32,address,address,bool,bool,address,address[],uint8,address)'' ''zone created'' ''Create Zone''
       [Slot_Value ''zoneId'', Slot_Word ''at'', Slot_Account ''portal'']
       [(''Admin'', Slot_Account ''admin''), (''Token'', Slot_Token ''initialToken'')],
     reads_as ''SequencerSetUpdated(uint64,uint8,address[])'' ''sequencer set updated'' ''Update Sequencer Set''
       [Slot_Word ''with threshold'', Slot_Value ''threshold'']
       [(''Nonce'', Slot_Value ''nonce'')],
     reads_as ''TokenEnabled(address,string,string,string)'' ''token enabled'' ''Enable Token''
       [Slot_Token ''token'']
       [],
     reads_as ''RoleUpdated(address,uint8,uint8)'' ''role updated'' ''Update Role''
       [Slot_Word ''for'', Slot_Account ''account'']
       [(''From'', Slot_Value ''prev''), (''To'', Slot_Value ''next'')],
     reads_as ''EnforcementModesUpdated(bool,bool)'' ''enforcement modes updated'' ''Update Enforcement Modes''
       []
       [(''Access mode'', Slot_Value ''accessMode''), (''Gateway mode'', Slot_Value ''gatewayMode'')],
     reads_as ''LeaderUpdated(address,address,uint64,uint64)'' ''leader updated'' ''Update Leader''
       [Slot_Word ''to'', Slot_Account ''newLeader'']
       [(''Epoch'', Slot_Value ''leaderEpoch'')],
     reads_as ''ProxyCreation(address,address)'' ''multisig deployed'' ''Deploy Multisig''
       [Slot_Account ''proxy'']
       [],
     reads_as ''SafeSetup(address,address[],uint256,address,address)'' ''multisig set up'' ''Set Up Multisig''
       [Slot_Word ''with threshold'', Slot_Value ''threshold'']
       [],
     reads_as ''SafeMultiSigTransaction(address,uint256,bytes,uint8,uint256,uint256,uint256,address,address,bytes,bytes)'' ''multisig call'' ''Multisig Call''
       [Slot_Word ''to'', Slot_Account ''to'']
       []]"

definition PHRASES_7 :: "phrase list" where
  "PHRASES_7 =
    [reads_as ''SafeModuleTransaction(address,address,uint256,bytes,uint8)'' ''module call'' ''Module Call''
       [Slot_Word ''to'', Slot_Account ''to'']
       [],
     reads_as ''ExecutionSuccess(bytes32,uint256)'' ''multisig executed'' ''Execute Multisig Transaction''
       [Slot_Hex ''txHash'']
       [],
     reads_as ''ExecutionFailure(bytes32,uint256)'' ''multisig reverted'' ''Multisig Transaction Failed''
       [Slot_Hex ''txHash'']
       [],
     reads_as ''ExecutionFromModuleSuccess(address)'' ''module executed'' ''Execute Module Transaction''
       [Slot_Word ''from'', Slot_Account ''module'']
       [],
     reads_as ''ExecutionFromModuleFailure(address)'' ''module reverted'' ''Module Transaction Failed''
       [Slot_Word ''from'', Slot_Account ''module'']
       [],
     reads_as ''ApproveHash(bytes32,address)'' ''hash approved'' ''Approve Hash''
       [Slot_Hex ''approvedHash'', Slot_Word ''by'', Slot_Account ''owner'']
       [],
     reads_as ''SignMsg(bytes32)'' ''message signed'' ''Sign Message''
       [Slot_Hex ''msgHash'']
       [],
     reads_as ''AddedOwner(address)'' ''owner added'' ''Add Owner''
       [Slot_Account ''owner'']
       [],
     reads_as ''RemovedOwner(address)'' ''owner removed'' ''Remove Owner''
       [Slot_Account ''owner'']
       [],
     reads_as ''ChangedThreshold(uint256)'' ''threshold changed'' ''Change Threshold''
       [Slot_Word ''to'', Slot_Value ''threshold'']
       [],
     reads_as ''EnabledModule(address)'' ''module enabled'' ''Enable Module''
       [Slot_Account ''module'']
       [],
     reads_as ''DisabledModule(address)'' ''module disabled'' ''Disable Module''
       [Slot_Account ''module'']
       [],
     reads_as ''ChangedFallbackHandler(address)'' ''fallback handler changed'' ''Change Fallback Handler''
       [Slot_Word ''to'', Slot_Account ''handler'']
       [],
     reads_as ''ChangedGuard(address)'' ''guard changed'' ''Change Guard''
       [Slot_Word ''to'', Slot_Account ''guard'']
       [],
     reads_as ''SafeReceived(address,uint256)'' ''multisig funded'' ''Receive''
       [Slot_Word ''from'', Slot_Account ''sender'']
       []]"

definition PHRASES :: "phrase list" where
  "PHRASES = PHRASES_1 @ PHRASES_2 @ PHRASES_3 @ PHRASES_4 @ PHRASES_5 @ PHRASES_6 @ PHRASES_7"

definition phrase_for :: "string \<Rightarrow> phrase option" where
  "phrase_for signature = find (\<lambda>p. ph_signature p = signature) PHRASES"

end
