(* ===== verification/Summary.thy ===== *)
theory Summary
  imports Phrases Memo Tempo_Address Tokens Storage Contracts
begin

section \<open>Decoded logs in words (\<open>src/summary.rs\<close>)\<close>

text \<open>
  What a decoded log reads as, which of a receipt's sentences heads the page, and what a failed
  transaction says of its failure. Token metadata is a map from the lowercase address. A step that
  would panic, the slice of a text inside a character, is \<open>None\<close> of the outer option; a missing
  parameter is \<open>None\<close> of the inner one. Texts are folded as ASCII.
\<close>

record token_display =
  td_symbol :: string
  td_decimals :: int

type_synonym tokens = "string \<rightharpoonup> token_display"

text \<open>\<open>truncate\<close>\<close>

definition truncate_text :: "string \<Rightarrow> string option" where
  "truncate_text value = truncate_hash value 4 4"

definition KNOWN_ROLES :: "string list" where
  "KNOWN_ROLES = [''DEFAULT_ADMIN_ROLE'', ''ISSUER_ROLE'', ''PAUSE_ROLE'', ''UNPAUSE_ROLE'', ''BURN_BLOCKED_ROLE'']"

definition role_name :: "keccak \<Rightarrow> string \<Rightarrow> string option" where
  "role_name keccak hashed_word = List.find (\<lambda>role. keccak_hex keccak role = lower hashed_word) KNOWN_ROLES"

subsection \<open>Known events\<close>

record known_event =
  ke_kind :: string
  ke_action :: string
  ke_headline :: string
  ke_note :: "string option"
  ke_details :: "(string \<times> string) list"
  ke_from :: "string option"
  ke_to :: "string option"
  ke_accounts :: "string list"
  ke_is_fee :: bool
  ke_log_index :: nat

definition is_preferred :: "known_event \<Rightarrow> bool" where
  "is_preferred e \<longleftrightarrow> ke_kind e \<notin> {''key authorized'', ''key revoked'', ''nonce incremented'',
     ''access key spend'', ''multisig call'', ''module call''}"

definition token_meta_for :: "tokens \<Rightarrow> string \<Rightarrow> token_display option" where
  "token_meta_for tokens address = tokens (lower address)"

definition format_amount :: "tokens \<Rightarrow> string \<Rightarrow> string \<Rightarrow> string" where
  "format_amount tokens tok raw =
     (case token_meta_for tokens tok of
        Some meta \<Rightarrow>
          (let amount = format_token_amount raw (td_decimals meta) in
           if td_symbol meta = [] then amount else amount @ '' '' @ td_symbol meta)
      | None \<Rightarrow> raw)"

text \<open>A piece of a sentence, when the parameters it needs are there.\<close>

definition render_slot :: "keccak \<Rightarrow> slot \<Rightarrow> decoded_event \<Rightarrow> tokens \<Rightarrow> string option option" where
  "render_slot keccak s event tokens =
     (let truncated = (\<lambda>name. case event_param event name of
                         None \<Rightarrow> Some None | Some v \<Rightarrow> map_option Some (truncate_text v))
      in case s of
           Slot_Word w \<Rightarrow> Some (Some w)
         | Slot_Amount name \<Rightarrow>
             Some (map_option (format_amount tokens (de_contract event)) (event_param event name))
         | Slot_Amount_Of value tok \<Rightarrow>
             Some (Option.bind (event_param event tok) (\<lambda>t.
               map_option (format_amount tokens t) (event_param event value)))
         | Slot_Account name \<Rightarrow> truncated name
         | Slot_Token name \<Rightarrow>
             (case event_param event name of
                None \<Rightarrow> Some None
              | Some address \<Rightarrow>
                  (case opt_filter (\<lambda>meta. td_symbol meta \<noteq> []) (token_meta_for tokens address) of
                     Some meta \<Rightarrow> Some (Some (td_symbol meta))
                   | None \<Rightarrow> map_option Some (truncate_text address)))
         | Slot_Value name \<Rightarrow> Some (event_param event name)
         | Slot_Hex name \<Rightarrow> truncated name
         | Slot_Role name \<Rightarrow>
             (case event_param event name of
                None \<Rightarrow> Some None
              | Some w \<Rightarrow>
                  (case role_name keccak w of
                     Some r \<Rightarrow> Some (Some r)
                   | None \<Rightarrow> map_option Some (truncate_text w))))"

text \<open>Address equality that ignores checksum casing.\<close>

definition same_address :: "string \<Rightarrow> string \<Rightarrow> bool" where
  "same_address a b \<longleftrightarrow> eq_ic a b"

definition refine_send :: "decoded_event \<Rightarrow> known_event \<Rightarrow> known_event" where
  "refine_send event k =
     (let from' = unwrap_or [] (ke_from k); to' = unwrap_or [] (ke_to k) in
      if same_address to' FEE_MANAGER_ADDRESS \<and> \<not> same_address from' ZERO_ADDRESS
      then k\<lparr>ke_kind := ''fee transfer'', ke_action := ''Pay Fee'', ke_is_fee := True\<rparr>
      else
        case (case event_param event ''memo'' of None \<Rightarrow> Nothing | Some m \<Rightarrow> read_memo m) of
          Attribution \<Rightarrow> k\<lparr>ke_action := ''MPP Payment''\<rparr>
        | other \<Rightarrow>
            (let k = (case other of Note note' \<Rightarrow> k\<lparr>ke_note := Some note'\<rparr> | _ \<Rightarrow> k) in
             if is_virtual from' then k\<lparr>ke_action := ''Forwarded''\<rparr> else k))"

definition refine :: "known_event \<Rightarrow> decoded_event \<Rightarrow> string option \<Rightarrow> known_event" where
  "refine k event sender =
     (let flag = (\<lambda>name. event_param event name = Some ''true'');
          kind = ke_kind k;
          side = (if flag ''isBid'' then ''Buy'' else ''Sell'')
      in if kind = ''send'' then refine_send event k
         else if kind = ''mint'' then
           (case sender of
              None \<Rightarrow> k
            | Some s \<Rightarrow>
                if \<not> same_address s (unwrap_or [] (event_param event ''to''))
                then k\<lparr>ke_action := ''Mint to Recipient''\<rparr> else k)
         else if kind = ''role membership'' then
           (if \<not> flag ''hasRole'' then k\<lparr>ke_kind := ''revoke role'', ke_action := ''Revoke Role''\<rparr>
            else k\<lparr>ke_kind := ''grant role''\<rparr>)
         else if kind = ''pause'' then
           (if \<not> flag ''isPaused'' then k\<lparr>ke_kind := ''unpause'', ke_action := ''Resume Transfers''\<rparr> else k)
         else if kind = ''blacklist updated'' then
           (if \<not> flag ''restricted'' then k\<lparr>ke_action := ''Remove From Blacklist''\<rparr> else k)
         else if kind = ''whitelist updated'' then
           (if \<not> flag ''allowed'' then k\<lparr>ke_action := ''Remove From Whitelist''\<rparr> else k)
         else if kind = ''order placed'' then
           (if flag ''isFlipOrder''
            then k\<lparr>ke_kind := ''flip order placed'', ke_action := ''Flip '' @ side\<rparr>
            else k\<lparr>ke_action := ''Limit '' @ side\<rparr>)
         else if kind = ''order flipped'' then k\<lparr>ke_action := ''Flip Order to '' @ side\<rparr>
         else k)"

text \<open>The pieces that are there, in order; a panic in one is the panic of all.\<close>

definition rendered :: "('a \<Rightarrow> 'b option option) \<Rightarrow> 'a list \<Rightarrow> 'b list option" where
  "rendered f xs = map_option (List.map_filter (\<lambda>y. y)) (those (map f xs))"

definition tell_event ::
  "keccak \<Rightarrow> decoded_event \<Rightarrow> nat \<Rightarrow> tokens \<Rightarrow> string option \<Rightarrow> known_event option option" where
  "tell_event keccak event log_index tokens sender =
     (case Option.bind (de_signature event) phrase_for of
        None \<Rightarrow> Some None
      | Some definition' \<Rightarrow>
          do {
            details \<leftarrow> rendered (\<lambda>(label, s). map_option (map_option (Pair label)) (render_slot keccak s event tokens))
                        (ph_notes definition');
            let k = refine
              \<lparr> ke_kind = ph_kind definition', ke_action = ph_action definition', ke_headline = [],
                ke_note = None, ke_details = filter (\<lambda>(_, value). value \<noteq> []) details,
                ke_from = event_param event ''from'', ke_to = event_param event ''to'',
                ke_accounts = List.map_filter
                  (\<lambda>s. case s of Slot_Account name \<Rightarrow> event_param event name | _ \<Rightarrow> None) (ph_slots definition'),
                ke_is_fee = False, ke_log_index = log_index \<rparr> event sender;
            rest \<leftarrow> rendered (\<lambda>s. render_slot keccak s event tokens) (ph_slots definition');
            Some (Some (k\<lparr>ke_headline :=
              (if rest = [] then ke_action k else ke_action k @ '' '' @ join '' '' rest)\<rparr>))
          })"

text \<open>\<open>Transfer\<close>, then \<open>TransferWithMemo\<close> for the same send.\<close>

definition restated_by :: "decoded_event \<Rightarrow> decoded_event \<Rightarrow> bool" where
  "restated_by event next' \<longleftrightarrow>
     de_name event = Some ''Transfer'' \<and> de_name next' = Some ''TransferWithMemo''
     \<and> de_contract event = de_contract next'
     \<and> list_all (\<lambda>param. event_param event param = event_param next' param) [''from'', ''to'', ''amount'']"

definition told_apart :: "decoded_event list \<Rightarrow> (nat \<times> decoded_event) list" where
  "told_apart events =
     filter (\<lambda>(i, e). \<not> (i + 1 < length events \<and> restated_by e (events ! (i + 1)))) (enumerate 0 events)"

definition known_events ::
  "keccak \<Rightarrow> decoded_event list \<Rightarrow> tokens \<Rightarrow> string option \<Rightarrow> known_event list option" where
  "known_events keccak events tokens sender =
     rendered (\<lambda>(i, e). tell_event keccak e i tokens sender) (told_apart events)"

subsection \<open>The summary\<close>

record tx_summary =
  su_tone :: string
  su_headline :: string
  su_accounts :: "string list"
  su_details :: "string list"
  su_error :: "string option"
  su_raw_reason :: "string option"

record tx_failure =
  fl_revert_data :: "string option"
  fl_reason :: "string option"
  fl_function :: "string option"
  fl_contract :: "string option"
  fl_token :: "string option"

definition no_failure :: tx_failure where
  "no_failure = \<lparr> fl_revert_data = None, fl_reason = None, fl_function = None, fl_contract = None, fl_token = None \<rparr>"

definition sentence_case :: "string \<Rightarrow> string" where
  "sentence_case value = (case chars value of [] \<Rightarrow> [] | c # cs \<Rightarrow> upper c @ concat cs)"

definition humanize_char :: "nat \<times> bytes \<Rightarrow> bytes list" where
  "humanize_char ic =
     (case ic of (i, c) \<Rightarrow>
       (if 0 < i \<and> list_all is_upper c then ['' ''] else [])
       @ [if c = ''_'' \<or> c = ''-'' then '' '' else lower c])"

definition humanize_identifier :: "string \<Rightarrow> string" where
  "humanize_identifier value =
     (let out' = concat (join_words (split_whitespace (concat (map humanize_char (enumerate 0 (chars value))))))
      in case strip_prefix ''tip 20 '' out' of
           Some rest \<Rightarrow> ''TIP-20 '' @ rest
         | None \<Rightarrow> out')"

definition humanize_raw_reason :: "string \<Rightarrow> string option" where
  "humanize_raw_reason value =
     (let cleaned = trim (trim_start_matches '':'' (trim_start_matches ''reverted''
                      (trim_start_matches ''execution reverted'' (trim value))))
      in if cleaned = [] \<or> starts_with ''0x'' cleaned then None else Some cleaned)"

text \<open>The last two of a list, in order.\<close>

definition last_two :: "'a list \<Rightarrow> ('a \<times> 'a) option" where
  "last_two xs = (case rev xs of b # a # _ \<Rightarrow> Some (a, b) | _ \<Rightarrow> None)"

definition balance_token :: "keccak \<Rightarrow> decoded_error option \<Rightarrow> tx_failure \<Rightarrow> string option" where
  "balance_token keccak decoded failure =
     or_else (map_option dp_value (Option.bind decoded (\<lambda>d.
                List.find (\<lambda>p. dp_ty p = ''address'' \<and> is_valid_address (dp_value p)) (dx_params d))))
       (map_option (checksum_address keccak) (fl_token failure))"

definition insufficient_balance_summary ::
  "keccak \<Rightarrow> decoded_error option \<Rightarrow> tx_failure \<Rightarrow> tokens \<Rightarrow> string option \<Rightarrow> tx_summary option" where
  "insufficient_balance_summary keccak decoded failure tokens raw_reason =
     (let name = (case decoded of Some d \<Rightarrow> dx_name d | None \<Rightarrow> []);
          text' = lower (name @ '' '' @ unwrap_or [] raw_reason)
      in if \<not> contains text' ''insufficient'' \<or> \<not> contains text' ''balance'' then None
         else
           let tok = balance_token keccak decoded failure;
               label = (case opt_filter (\<lambda>m. td_symbol m \<noteq> []) (Option.bind tok (token_meta_for tokens)) of
                          Some meta \<Rightarrow> td_symbol meta @ '' balance''
                        | None \<Rightarrow> if tok \<noteq> None then ''TIP-20 balance'' else ''token balance'');
               numbers = (case decoded of
                            Some d \<Rightarrow> filter (\<lambda>p. starts_with ''uint'' (dp_ty p)) (dx_params d) | None \<Rightarrow> []);
               shown = (\<lambda>p. format_amount tokens (unwrap_or [] tok) (dp_value p));
               amounts = (case last_two numbers of
                            Some (available, required) \<Rightarrow>
                              '' Available '' @ shown available @ '', required '' @ shown required @ ''.''
                          | None \<Rightarrow> []);
               details = (case fl_contract failure of Some c \<Rightarrow> [''Failed at '' @ c @ ''.''] | None \<Rightarrow> [])
                         @ (case raw_reason of Some raw \<Rightarrow> [''Raw reason: '' @ raw] | None \<Rightarrow> [])
           in Some \<lparr> su_tone = ''failure'',
                su_headline = ''Transfer failed: insufficient '' @ label @ ''.'' @ amounts,
                su_accounts = [], su_details = details,
                su_error = Some (''insufficient '' @ label), su_raw_reason = raw_reason \<rparr>)"

definition failure_summary ::
  "keccak \<Rightarrow> codec \<Rightarrow> registry \<Rightarrow> tx_failure \<Rightarrow> known_event list \<Rightarrow> tokens \<Rightarrow> tx_summary" where
  "failure_summary keccak lib reg failure events tokens =
     (let revert_data = or_else (fl_revert_data failure) (Option.bind (fl_reason failure) revert_data_in);
          decoded = Option.bind revert_data (decode_revert keccak lib reg);
          raw_reason = or_else (fl_reason failure) (map_option call_form decoded)
      in case insufficient_balance_summary keccak decoded failure tokens raw_reason of
           Some summary \<Rightarrow> summary
         | None \<Rightarrow>
             let action = unwrap_or ''Transaction failed''
                   (or_else (map_option (\<lambda>f. sentence_case f @ '' failed'') (fl_function failure))
                     (map_option (\<lambda>e. ke_action e @ '' failed'') (List.find is_preferred events)));
                 error' = or_else (map_option (\<lambda>d. unwrap_or (humanize_identifier (dx_name d)) (error_reason d)) decoded)
                            (Option.bind (fl_reason failure) humanize_raw_reason);
                 details =
                   (case (fl_contract failure, fl_function failure) of
                      (Some c, Some f) \<Rightarrow> [''Failed call: '' @ c @ ''.'' @ f @ ''().'']
                    | (Some c, None) \<Rightarrow> [''Failed contract: '' @ c @ ''.'']
                    | _ \<Rightarrow> [])
                   @ (case decoded of
                        Some d \<Rightarrow> if error_reason d = None \<and> dx_params d \<noteq> [] then [''Revert: '' @ call_form d] else []
                      | None \<Rightarrow> [])
                   @ (case raw_reason of
                        Some raw \<Rightarrow> if Some raw \<noteq> error' then [''Raw reason: '' @ raw] else []
                      | None \<Rightarrow> [])
             in \<lparr> su_tone = ''failure'', su_headline = action @ ''.'', su_accounts = [], su_details = details,
                  su_error = error', su_raw_reason = raw_reason \<rparr>)"

text \<open>\<open>min_by_key\<close>: the first of the least, the pair of flags in order.\<close>

definition lead_key :: "known_event \<Rightarrow> nat \<times> nat" where
  "lead_key e = (of_bool (\<not> is_preferred e), of_bool (ke_is_fee e))"

fun first_min :: "('a \<Rightarrow> nat \<times> nat) \<Rightarrow> 'a list \<Rightarrow> 'a option" where
  "first_min f [] = None"
| "first_min f (x # xs) =
     (case first_min f xs of
        None \<Rightarrow> Some x
      | Some y \<Rightarrow> if fst (f y) < fst (f x) \<or> (fst (f y) = fst (f x) \<and> snd (f y) < snd (f x)) then Some y else Some x)"

definition build_summary ::
  "keccak \<Rightarrow> codec \<Rightarrow> registry \<Rightarrow> bool \<Rightarrow> known_event list \<Rightarrow> tx_failure option \<Rightarrow> tokens \<Rightarrow> tx_summary" where
  "build_summary keccak lib reg succeeded events failure tokens =
     (if \<not> succeeded then failure_summary keccak lib reg (unwrap_or no_failure failure) events tokens
      else case first_min lead_key events of
             None \<Rightarrow> \<lparr> su_tone = ''success'', su_headline = ''Transaction succeeded.'', su_accounts = [],
               su_details = [''No high-level events were detected for this transaction.''],
               su_error = None, su_raw_reason = None \<rparr>
           | Some event \<Rightarrow> \<lparr> su_tone = ''success'', su_headline = ke_headline event @ ''.'',
               su_accounts = ke_accounts event,
               su_details = [dec_nat (length events) @ '' interpreted event''
                             @ (if length events = 1 then [] else ''s'') @ '' detected.''],
               su_error = None, su_raw_reason = None \<rparr>)"

subsection \<open>Every log told once\<close>

lemma those_map_Some: "\<forall>x\<in>set xs. f x \<noteq> None \<Longrightarrow> those (map f xs) = Some (map (\<lambda>x. the (f x)) xs)"
  by (induction xs) auto

lemma rendered_total:
  "\<forall>x\<in>set xs. f x \<noteq> None \<Longrightarrow> rendered f xs = Some (List.map_filter (\<lambda>x. the (f x)) xs)"
  by (simp add: rendered_def those_map_Some List.map_filter_def filter_map comp_def)

lemma rendered_Some_iff: "(\<exists>ys. rendered f xs = Some ys) \<longleftrightarrow> (\<forall>x\<in>set xs. f x \<noteq> None)"
proof
  assume "\<exists>ys. rendered f xs = Some ys"
  then have "those (map f xs) \<noteq> None" by (auto simp: rendered_def)
  then show "\<forall>x\<in>set xs. f x \<noteq> None"
    by (induction xs) (auto split: option.splits)
qed (use rendered_total in blast)

definition ascii_event :: "decoded_event \<Rightarrow> bool" where
  "ascii_event e \<longleftrightarrow> list_all (\<lambda>p. ascii (dp_value p)) (de_params e)"

lemma ascii_event_param: "ascii_event e \<Longrightarrow> event_param e name = Some v \<Longrightarrow> ascii v"
  by (auto simp: ascii_event_def event_param_def list_all_iff find_Some_iff)

lemma render_slot_total:
  assumes "ascii_event e"
  shows "render_slot keccak s e tokens \<noteq> None"
proof -
  have t: "truncate_text v \<noteq> None" if "event_param e name = Some v" for name v
    using truncate_hash_ascii [OF ascii_event_param [OF assms that]] by (simp add: truncate_text_def)
  show ?thesis
    by (cases s) (auto simp: render_slot_def Let_def dest: t split: option.split)
qed

lemma refine_send_log_index: "ke_log_index (refine_send e k) = ke_log_index k"
  by (simp add: refine_send_def Let_def split: memo.split)

lemma keep_if: "ke_log_index x = n \<Longrightarrow> ke_log_index y = n \<Longrightarrow> ke_log_index (if b then x else y) = n"
  by simp

lemma keep_option:
  "ke_log_index x = n \<Longrightarrow> (\<And>v. ke_log_index (f v) = n) \<Longrightarrow>
    ke_log_index (case opt of None \<Rightarrow> x | Some v \<Rightarrow> f v) = n"
  by (cases opt) simp_all

lemma refine_log_index [simp]: "ke_log_index (refine k e sender) = ke_log_index k"
  unfolding refine_def Let_def by (intro keep_if keep_option refine_send_log_index) simp_all

lemma tell_event_total:
  assumes "ascii_event e"
  shows "\<exists>r. tell_event keccak e i tokens sender = Some r \<and>
    (r = None \<longleftrightarrow> Option.bind (de_signature e) phrase_for = None) \<and> (\<forall>k. r = Some k \<longrightarrow> ke_log_index k = i)"
proof (cases "Option.bind (de_signature e) phrase_for")
  case None
  then show ?thesis by (simp add: tell_event_def)
next
  case (Some p)
  have "\<exists>ds. rendered (\<lambda>(label, s). map_option (map_option (Pair label)) (render_slot keccak s e tokens)) (ph_notes p) = Some ds"
    unfolding rendered_Some_iff using render_slot_total [OF assms] by auto
  moreover have "\<exists>rs. rendered (\<lambda>s. render_slot keccak s e tokens) (ph_slots p) = Some rs"
    unfolding rendered_Some_iff using render_slot_total [OF assms] by auto
  ultimately show ?thesis
    using Some by (auto simp: tell_event_def Let_def)
qed

definition phrased :: "decoded_event \<Rightarrow> bool" where
  "phrased e \<longleftrightarrow> Option.bind (de_signature e) phrase_for \<noteq> None"

definition told :: "decoded_event list \<Rightarrow> nat \<Rightarrow> bool" where
  "told events i \<longleftrightarrow> phrased (events ! i) \<and>
     \<not> (i + 1 < length events \<and> restated_by (events ! i) (events ! (i + 1)))"

lemma map_filter_log_index:
  assumes "\<And>i e k. (i, e) \<in> set xs \<Longrightarrow> f (i, e) = Some k \<Longrightarrow> ke_log_index k = i"
    and "\<And>i e. (i, e) \<in> set xs \<Longrightarrow> f (i, e) = None \<longleftrightarrow> \<not> P e"
  shows "map ke_log_index (List.map_filter f xs) = map fst (filter (\<lambda>(i, e). P e) xs)"
  using assms
proof (induction xs)
  case (Cons x xs)
  obtain i e where x: "x = (i, e)" by (cases x)
  have IH: "map ke_log_index (List.map_filter f xs) = map fst (filter (\<lambda>(i, e). P e) xs)"
    by (rule Cons.IH) (use Cons.prems in auto)
  show ?case
  proof (cases "f (i, e)")
    case None
    then have "\<not> P e" using Cons.prems(2) [of i e] x by simp
    with None IH show ?thesis by (simp add: x List.map_filter_simps)
  next
    case (Some k)
    then have "P e" "ke_log_index k = i" using Cons.prems(1) [of i e k] Cons.prems(2) [of i e] x by auto
    with Some IH show ?thesis by (simp add: x List.map_filter_simps)
  qed
qed (simp add: List.map_filter_simps)

lemma filter_enumerate_nth:
  "map fst (filter (\<lambda>(i, e). P i e) (enumerate 0 xs)) = filter (\<lambda>i. P i (xs ! i)) [0..<length xs]"
proof -
  have e: "enumerate 0 xs = map (\<lambda>i. (i, xs ! i)) [0..<length xs]"
    by (rule nth_equalityI) (auto simp: nth_enumerate_eq)
  show ?thesis unfolding e by (simp add: filter_map comp_def)
qed

text \<open>
  C19. Every log of a receipt is told exactly once, in receipt order, and none panics: over logs
  whose values are ASCII, the sentences are those of the logs that have a phrase, each with the
  log's own index, except that a transfer the next log restates with its memo is left to that log.
\<close>

theorem known_events_tell_each_log_once:
  assumes "\<forall>e\<in>set events. ascii_event e"
  shows "\<exists>ks. known_events keccak events tokens sender = Some ks \<and>
    map ke_log_index ks = filter (told events) [0..<length events]"
proof -
  let ?f = "\<lambda>(i, e). tell_event keccak e i tokens sender"
  have mem: "e \<in> set events" if "(i, e) \<in> set (told_apart events)" for i e
    using that by (auto simp: told_apart_def in_set_enumerate_eq)
  have total: "\<exists>r. ?f (i, e) = Some r \<and> (r = None \<longleftrightarrow> \<not> phrased e) \<and> (\<forall>k. r = Some k \<longrightarrow> ke_log_index k = i)"
    if "(i, e) \<in> set (told_apart events)" for i e
    using tell_event_total [of e keccak i tokens sender] assms mem [OF that] by (auto simp: phrased_def)
  have "\<forall>x\<in>set (told_apart events). ?f x \<noteq> None" using total by fastforce
  then have "known_events keccak events tokens sender = Some (List.map_filter (\<lambda>x. the (?f x)) (told_apart events))"
    unfolding known_events_def by (rule rendered_total)
  moreover have "map ke_log_index (List.map_filter (\<lambda>x. the (?f x)) (told_apart events))
      = map fst (filter (\<lambda>(i, e). phrased e) (told_apart events))"
  proof (rule map_filter_log_index)
    fix i e k assume m: "(i, e) \<in> set (told_apart events)"
    show "the (?f (i, e)) = Some k \<Longrightarrow> ke_log_index k = i" using total [OF m] by auto
    show "the (?f (i, e)) = None \<longleftrightarrow> \<not> phrased e" using total [OF m] by auto
  qed
  moreover have "map fst (filter (\<lambda>(i, e). phrased e) (told_apart events)) = filter (told events) [0..<length events]"
    using filter_enumerate_nth [of "\<lambda>i e. phrased e \<and> \<not> (i + 1 < length events \<and> restated_by e (events ! (i + 1)))" events]
    by (simp add: told_apart_def told_def [abs_def] case_prod_unfold conj_commute)
  ultimately show ?thesis by auto
qed

definition transfer_log :: "string \<Rightarrow> string \<Rightarrow> decoded_param list \<Rightarrow> decoded_event" where
  "transfer_log name signature more_params =
     \<lparr> de_name = Some name, de_signature = Some signature, de_contract = ''0x20c0'',
       de_params = map (\<lambda>(n, v). \<lparr> dp_ty = ''address'', dp_name = n, dp_value = v, dp_indexed = False \<rparr>)
           [(''from'', ''0xab''), (''to'', ''0xcd''), (''amount'', ''7'')] @ more_params,
       de_topic0 = [], de_log_index = None, de_transaction_hash = None \<rparr>"

lemma known_events_tell_each_log_once_witness:
  "\<exists>ks. known_events (\<lambda>_. [])
      [transfer_log ''Transfer'' ''Transfer(address,address,uint256)'' [],
       transfer_log ''TransferWithMemo'' ''TransferWithMemo(address,address,uint256,bytes32)'' []]
      Map.empty None = Some ks \<and> map ke_log_index ks = [1]"
proof -
  let ?t = "transfer_log ''Transfer'' ''Transfer(address,address,uint256)'' []"
  let ?m = "transfer_log ''TransferWithMemo'' ''TransferWithMemo(address,address,uint256,bytes32)'' []"
  have phrase: "phrased ?m" by code_simp
  have restated: "restated_by ?t ?m" by (simp add: restated_by_def transfer_log_def event_param_def)
  have ascii: "\<forall>e\<in>set [?t, ?m]. ascii_event e"
    by (simp add: ascii_event_def transfer_log_def ascii_def)
  have "filter (told [?t, ?m]) [0..<length [?t, ?m]] = [1]"
    using phrase restated by (simp add: told_def upt_rec)
  then show ?thesis using known_events_tell_each_log_once [OF ascii, of "\<lambda>_. []" Map.empty None] by simp
qed

subsection \<open>What heads the page\<close>

abbreviation lex_le :: "nat \<times> nat \<Rightarrow> nat \<times> nat \<Rightarrow> bool" where
  "lex_le a b \<equiv> fst a < fst b \<or> (fst a = fst b \<and> snd a \<le> snd b)"

lemma first_min_None [simp]: "first_min f xs = None \<longleftrightarrow> xs = []"
  by (cases xs) (auto split: option.splits)

lemma first_min_split:
  "first_min f xs = Some y \<Longrightarrow>
    \<exists>pre post. xs = pre @ y # post \<and> (\<forall>x\<in>set pre. \<not> lex_le (f x) (f y)) \<and> (\<forall>x\<in>set post. lex_le (f y) (f x))"
proof (induction xs arbitrary: y)
  case (Cons x xs)
  show ?case
  proof (cases "first_min f xs")
    case None
    then show ?thesis using Cons.prems by (intro exI [of _ "[]"]) auto
  next
    case (Some z)
    obtain pre post where s: "xs = pre @ z # post" "\<forall>x\<in>set pre. \<not> lex_le (f x) (f z)"
      "\<forall>x\<in>set post. lex_le (f z) (f x)"
      using Cons.IH [OF Some] by blast
    show ?thesis
    proof (cases "fst (f z) < fst (f x) \<or> (fst (f z) = fst (f x) \<and> snd (f z) < snd (f x))")
      case True
      then have "y = z" using Cons.prems Some by simp
      moreover have "x # xs = (x # pre) @ z # post" using s(1) by simp
      moreover have x: "\<not> lex_le (f x) (f z)" using True by linarith
      have "\<forall>v\<in>set (x # pre). \<not> lex_le (f v) (f z)"
      proof
        fix v assume "v \<in> set (x # pre)"
        then have "v = x \<or> v \<in> set pre" by simp
        then show "\<not> lex_le (f v) (f z)" using x s(2) by blast
      qed
      ultimately show ?thesis using s(3) by (intro exI [of _ "x # pre"] exI [of _ post]) (simp only: simp_thms)
    next
      case False
      then have y: "y = x" using Cons.prems Some by (simp split: if_splits)
      have "lex_le (f x) (f z)" using False by auto
      then have "\<forall>v\<in>set xs. lex_le (f x) (f v)" using s by auto
      then show ?thesis using y by (intro exI [of _ "[]"] exI [of _ xs]) simp
    qed
  qed
qed simp

text \<open>
  C0. A successful transaction is headed by the first thing it did: when any of its sentences is
  neither bookkeeping nor the fee, the headline is the first such sentence in receipt order,
  whatever bookkeeping and fee transfers stand before it.
\<close>

theorem summary_leads_with_the_first_deed:
  assumes "\<exists>e\<in>set events. is_preferred e \<and> \<not> ke_is_fee e"
  shows "\<exists>pre lead post. events = pre @ lead # post \<and> is_preferred lead \<and> \<not> ke_is_fee lead
    \<and> (\<forall>e\<in>set pre. \<not> (is_preferred e \<and> \<not> ke_is_fee e))
    \<and> su_headline (build_summary keccak lib reg True events failure tokens) = ke_headline lead @ ''.''
    \<and> su_tone (build_summary keccak lib reg True events failure tokens) = ''success''"
proof -
  have "events \<noteq> []" using assms by auto
  then obtain lead where lead: "first_min lead_key events = Some lead"
    by (cases "first_min lead_key events") auto
  obtain pre post where s: "events = pre @ lead # post" "\<forall>x\<in>set pre. \<not> lex_le (lead_key x) (lead_key lead)"
    "\<forall>x\<in>set post. lex_le (lead_key lead) (lead_key x)"
    using first_min_split [OF lead] by blast
  have "is_preferred lead \<and> \<not> ke_is_fee lead"
  proof -
    obtain e where e: "e \<in> set events" "is_preferred e \<and> \<not> ke_is_fee e" using assms by blast
    have "lex_le (lead_key lead) (lead_key e)"
      using e(1) s by (auto simp: not_le)
    then show ?thesis using e(2) by (auto simp: lead_key_def of_bool_def split: if_splits)
  qed
  moreover have "\<forall>e\<in>set pre. \<not> (is_preferred e \<and> \<not> ke_is_fee e)"
  proof
    fix e assume "e \<in> set pre"
    then have "\<not> lex_le (lead_key e) (lead_key lead)" using s(2) by blast
    then show "\<not> (is_preferred e \<and> \<not> ke_is_fee e)" by (auto simp: lead_key_def)
  qed
  ultimately show ?thesis using s(1) lead unfolding build_summary_def by auto
qed

definition sample_deed :: "string \<Rightarrow> bool \<Rightarrow> known_event" where
  "sample_deed kind fee = \<lparr> ke_kind = kind, ke_action = kind, ke_headline = kind, ke_note = None, ke_details = [],
     ke_from = None, ke_to = None, ke_accounts = [], ke_is_fee = fee, ke_log_index = 0 \<rparr>"

lemma summary_leads_with_the_first_deed_witness:
  "su_tone (build_summary (\<lambda>_. []) silent_codec unnamed True
     [sample_deed ''nonce incremented'' False, sample_deed ''fee transfer'' True, sample_deed ''mint'' False]
     None Map.empty) = ''success''"
proof -
  have "\<exists>e\<in>set [sample_deed ''nonce incremented'' False, sample_deed ''fee transfer'' True, sample_deed ''mint'' False].
      is_preferred e \<and> \<not> ke_is_fee e"
    by (simp add: sample_deed_def is_preferred_def)
  from summary_leads_with_the_first_deed [OF this, of "\<lambda>_. []" silent_codec unnamed None Map.empty]
  show ?thesis by blast
qed

text \<open>A failed transaction never reads as a success, and never has an account to link.\<close>

lemma failure_tone:
  "su_tone (build_summary keccak lib reg False events failure tokens) = ''failure'' \<and>
   su_accounts (build_summary keccak lib reg False events failure tokens) = []"
proof -
  have "su_tone s = ''failure'' \<and> su_accounts s = []"
    if "insufficient_balance_summary keccak d f tokens r = Some s" for d f r s
    using that by (auto simp: insufficient_balance_summary_def Let_def split: if_splits)
  then show ?thesis by (auto simp: build_summary_def failure_summary_def Let_def split: option.split)
qed

text \<open>A transfer into the fee manager is the fee, whatever its memo says.\<close>

lemma fee_transfer_is_fee:
  assumes "ke_kind k = ''send''" "ke_to k = Some to'" "same_address to' FEE_MANAGER_ADDRESS"
    and "ke_from k = Some from'" "\<not> same_address from' ZERO_ADDRESS"
  shows "ke_is_fee (refine k e sender)"
  using assms by (simp add: refine_def refine_send_def Let_def)

text \<open>A machine payload is never shown as a note.\<close>

lemma attribution_has_no_note:
  assumes "ke_kind k = ''send''" "ke_note k = None" "event_param e ''memo'' = Some m" "read_memo m = Attribution"
  shows "ke_note (refine k e sender) = None"
  using assms by (simp add: refine_def refine_send_def Let_def)

end
