(* ===== verification/Feed.thy ===== *)
theory Feed
  imports Storage_Reads Ledger_Rewrite
begin

section \<open>The live feed (\<open>src/web.rs\<close>)\<close>

text \<open>
  The task that publishes new blocks and statistics, and the event stream of one client: the tip on
  connect, then every block published, with the blocks a slow client missed replayed from the
  database. The broadcast channel is the library's: it keeps the last \<open>cap\<close> messages, and a reader
  that fell further behind is told so once and resumes at the oldest message kept. Two reads of
  the database in one turn may see two states of it. The lemmas lead to what a client is shown: an
  unbroken run of blocks.
\<close>

subsection \<open>Events\<close>

definition partition_point :: "('a \<Rightarrow> bool) \<Rightarrow> 'a list \<Rightarrow> nat" where
  "partition_point P xs = length (takeWhile P xs)"

definition block_events_in_range :: "keccak \<Rightarrow> database \<Rightarrow> int \<Rightarrow> int \<Rightarrow> json list" where
  "block_events_in_range keccak db start end' =
     (let txs = get_transactions_in_range keccak db start end' List
      in map (\<lambda>b.
           let first = partition_point (\<lambda>t. t_block_number t < b_number b) txs;
               past = partition_point (\<lambda>t. t_block_number t \<le> b_number b) txs
           in block_event_json b (drop first (take past txs)) STREAM_TX_CAP)
         (rev (get_blocks_in_range db start end')))"

text \<open>\<open>payload.pointer("/block/number").and_then(Value::as_i64)\<close>\<close>

definition block_num :: "json \<Rightarrow> int option" where
  "block_num payload = Option.bind (Option.bind (jget ''block'' payload) (jget ''number'')) as_i64"

definition sse_event :: "json \<Rightarrow> string \<times> json" where
  "sse_event payload = (unwrap_or ''block'' (get_str ''type'' payload), payload)"

subsection \<open>The publisher\<close>

record feed_state =
  fd_sent :: int
  fd_stored :: string
  fd_stats :: json

definition tip :: "database \<Rightarrow> int" where
  "tip db = unwrap_or (- 1) (get_max_block_number db)"

definition feed_start :: "database \<Rightarrow> feed_state" where
  "feed_start db = \<lparr> fd_sent = tip db, fd_stored = [], fd_stats = JNull \<rparr>"

text \<open>
  A turn of the loop: what it publishes, in order. The tip is read from \<open>db\<close>, the rest from the
  later \<open>db'\<close>; \<open>parse\<close> reads the stored statistics.
\<close>

definition feed_turn ::
  "keccak \<Rightarrow> (string \<Rightarrow> json option) \<Rightarrow> database \<Rightarrow> database \<Rightarrow> feed_state \<Rightarrow> json list \<times> feed_state" where
  "feed_turn keccak parse db db' s =
     (let head = tip db;
          (blocks', s1) = (if head > fd_sent s
            then (block_events_in_range keccak db' (fd_sent s + 1) head, s\<lparr>fd_sent := head\<rparr>) else ([], s))
      in case opt_filter (\<lambda>stored. stored \<noteq> fd_stored s1) (get_kv db' ''stats'') of
           None \<Rightarrow> (blocks', s1)
         | Some stored \<Rightarrow>
             (case parse stored of
                Some value \<Rightarrow>
                  (blocks' @ [JObj [(''type'', JStr ''stats''), (''stats'', value)]],
                   s1\<lparr>fd_stats := value, fd_stored := stored\<rparr>)
              | None \<Rightarrow> (blocks', s1\<lparr>fd_stored := stored\<rparr>)))"

subsection \<open>The stream of a client\<close>

definition SSE_MAX_REPLAY :: nat where
  "SSE_MAX_REPLAY = 4096"

record sse_state =
  ss_pending :: "json list"
  ss_last_num :: int
  ss_sent_initial :: bool

definition sse_start :: sse_state where
  "sse_start = \<lparr> ss_pending = [], ss_last_num = - 1, ss_sent_initial = False \<rparr>"

datatype received = Received json | Lagged | Channel_Closed

datatype sse_out = Emit "string \<times> json" | Read_On | Stream_End

text \<open>
  One turn of the stream: what it yields, or that it reads on. \<open>shutdown\<close> is the flag at the turn,
  \<open>r\<close> what the channel gives when it is read.
\<close>

definition sse_turn ::
  "keccak \<Rightarrow> database \<Rightarrow> database \<Rightarrow> bool \<Rightarrow> received \<Rightarrow> sse_state \<Rightarrow> sse_out \<times> sse_state" where
  "sse_turn keccak db db' shutdown r s =
     (if shutdown then (Stream_End, s)
      else if \<not> ss_sent_initial s then
        (let s = s\<lparr>ss_sent_initial := True\<rparr> in
         case get_max_block_number db of
           Some t \<Rightarrow>
             (let s = s\<lparr>ss_last_num := t\<rparr> in
              case rev (block_events_in_range keccak db' t t) of
                payload # _ \<Rightarrow> (Emit (sse_event payload), s)
              | [] \<Rightarrow> (Emit (''block'', JNull), s))
         | None \<Rightarrow> (Emit (''block'', JNull), s))
      else case ss_pending s of
        v # vs \<Rightarrow> (Emit (sse_event v), s\<lparr>ss_pending := vs\<rparr>)
      | [] \<Rightarrow>
          (case r of
             Channel_Closed \<Rightarrow> (Stream_End, s)
           | Received payload \<Rightarrow>
               (case block_num payload of
                  Some n \<Rightarrow>
                    if n \<le> ss_last_num s then (Read_On, s)
                    else (Emit (sse_event payload), s\<lparr>ss_last_num := n\<rparr>)
                | None \<Rightarrow> (Emit (sse_event payload), s))
           | Lagged \<Rightarrow>
               (let t = unwrap_or (ss_last_num s) (get_max_block_number db);
                    start = ss_last_num s + 1;
                    end' = min t (start + int SSE_MAX_REPLAY - 1);
                    pending = block_events_in_range keccak db' start end';
                    s = s\<lparr>ss_last_num := max (ss_last_num s) end'\<rparr>
                in case pending of
                     v # vs \<Rightarrow> (Emit (sse_event v), s\<lparr>ss_pending := vs\<rparr>)
                   | [] \<Rightarrow> (Read_On, s))))"

subsection \<open>Runs of numbers\<close>

definition run :: "int \<Rightarrow> nat \<Rightarrow> int list" where
  "run a n = map (\<lambda>i. a + int i) [0..<n]"

lemma run_0 [simp]: "run a 0 = []"
  by (simp add: run_def)

lemma length_run [simp]: "length (run a n) = n"
  by (simp add: run_def)

lemma run_Suc: "run a (Suc n) = a # run (a + 1) n"
  by (simp add: run_def map_upt_Suc algebra_simps del: upt_Suc)

lemma run_append: "run a m @ run (a + int m) n = run a (m + n)"
proof (induction m arbitrary: a)
  case (Suc m)
  from Suc.IH [of "a + 1"] show ?case by (simp add: run_Suc add.assoc)
qed simp

lemma run_snoc: "run a m @ [a + int m] = run a (Suc m)"
  using run_append [of a m 1] by (simp add: run_Suc)

lemma set_run: "set (run a n) = {a..<a + int n}"
proof
  show "{a..<a + int n} \<subseteq> set (run a n)"
  proof
    fix x assume "x \<in> {a..<a + int n}"
    then have "x = a + int (nat (x - a))" "nat (x - a) < n" by auto
    then show "x \<in> set (run a n)" unfolding run_def by (metis atLeastLessThan_iff image_eqI list.set_map set_upt zero_le)
  qed
qed (auto simp: run_def)

lemma sorted_run: "sorted_wrt (<) (run a n)"
  by (induction n arbitrary: a) (auto simp: run_Suc set_run)

lemma run_unique:
  assumes "sorted_wrt (<) xs" "set xs = {a..<a + int n}"
  shows "xs = run a n"
  using strict_sorted_equal [OF assms(1) sorted_run] assms(2) by (simp add: set_run)

subsection \<open>The numbers of the events\<close>

definition nums :: "json list \<Rightarrow> int list" where
  "nums events = List.map_filter block_num events"

lemma nums_simps [simp]:
  "nums [] = []"
  "nums (xs @ ys) = nums xs @ nums ys"
  "nums (x # xs) = (case block_num x of Some n \<Rightarrow> n # nums xs | None \<Rightarrow> nums xs)"
  by (simp_all add: nums_def List.map_filter_def split: option.split)

lemma length_nums: "length (nums es) \<le> length es"
  by (simp add: nums_def List.map_filter_def)

definition blocks_ok :: "database \<Rightarrow> bool" where
  "blocks_ok db \<longleftrightarrow> unique_keys (blocks db) \<and> (\<forall>(n, r)\<in>set (blocks db). b_number r = n \<and> is_i64 n)"

lemma block_num_event: "is_i64 (b_number b) \<Longrightarrow> block_num (block_event_json b txs c) = Some (b_number b)"
  by (auto simp: block_num_def block_event_json_def json_access json_int_def is_i64_def)

lemma block_num_stats: "block_num (JObj [(''type'', JStr ''stats''), (''stats'', v)]) = None"
  by (simp add: block_num_def json_access)

lemma nums_events:
  assumes "blocks_ok db"
  shows "nums (block_events_in_range keccak db start end') = map b_number (rev (get_blocks_in_range db start end'))"
proof -
  have "\<forall>b\<in>set (get_blocks_in_range db start end'). is_i64 (b_number b)"
    using assms
    by (auto simp: get_blocks_in_range_def blocks_newest_def blocks_ok_def row_to_block_def)
  then have "\<forall>b\<in>set (rev (get_blocks_in_range db start end')). is_i64 (b_number b)" by simp
  then show ?thesis
    unfolding block_events_in_range_def Let_def nums_def
    by (induction "rev (get_blocks_in_range db start end')" rule: list.induct)
      (simp_all add: List.map_filter_def block_num_event comp_def)
qed

text \<open>
  A database that holds every block from \<open>base\<close> to its tip, as the forward loop and the writer
  leave it above the block they started from; what it holds below is no matter.
\<close>

definition held_run :: "int \<Rightarrow> database \<Rightarrow> bool" where
  "held_run base db \<longleftrightarrow> blocks_ok db \<and> (\<exists>t. get_max_block_number db = Some t \<and> base \<le> t
     \<and> (\<forall>n. base \<le> n \<and> n \<le> t \<longrightarrow> n \<in> fst ` set (blocks db)))"

lemma held_run_tip:
  assumes "held_run base db"
  shows "get_max_block_number db = Some (tip db)" "base \<le> tip db"
    "\<And>n. base \<le> n \<Longrightarrow> n \<le> tip db \<Longrightarrow> n \<in> fst ` set (blocks db)" "blocks_ok db"
  using assms by (auto simp: held_run_def tip_def)

lemma range_numbers:
  assumes ok: "blocks_ok db"
  shows "sorted_wrt (<) (map b_number (rev (get_blocks_in_range db lo hi)))"
    and "set (map b_number (rev (get_blocks_in_range db lo hi))) = {n \<in> fst ` set (blocks db). lo \<le> n \<and> n \<le> hi}"
proof -
  let ?rows = "filter (\<lambda>(n, _). lo \<le> n \<and> n \<le> hi) (blocks_newest db)"
  have mem: "set (blocks_newest db) = set (blocks db)" by (simp add: blocks_newest_def)
  have num: "b_number (row_to_block r) = n" if "(n, r) \<in> set (blocks db)" for n r
    using that ok by (auto simp: blocks_ok_def row_to_block_def)
  have nums: "map b_number (get_blocks_in_range db lo hi) = map fst ?rows"
    unfolding get_blocks_in_range_def by (auto simp: comp_def num mem)
  have "mset (map fst (blocks_newest db)) = mset (map fst (blocks db))"
    by (simp add: blocks_newest_def)
  then have "distinct (map fst (blocks_newest db))"
    using ok by (metis blocks_ok_def mset_eq_imp_distinct_iff unique_keys_def)
  then have "distinct (map (\<lambda>r. - fst r) (blocks_newest db))" by (simp add: distinct_map inj_on_def)
  moreover have "sorted (map (\<lambda>r. - fst r) (blocks_newest db))"
    by (simp add: blocks_newest_def case_prod_unfold)
  ultimately have "sorted_wrt (<) (map (\<lambda>r. - fst r) (blocks_newest db))"
    by (simp only: strict_sorted_iff)
  then have "sorted_wrt (>) (map fst (blocks_newest db))"
    by (simp add: sorted_wrt_map)
  then have "sorted_wrt (\<lambda>a b. fst a > fst b) ?rows"
    by (simp add: sorted_wrt_map sorted_wrt_filter)
  then have "sorted_wrt (>) (map b_number (get_blocks_in_range db lo hi))"
    unfolding nums by (simp add: sorted_wrt_map)
  then show "sorted_wrt (<) (map b_number (rev (get_blocks_in_range db lo hi)))"
    by (simp add: rev_map [symmetric] sorted_wrt_rev)
  show "set (map b_number (rev (get_blocks_in_range db lo hi))) = {n \<in> fst ` set (blocks db). lo \<le> n \<and> n \<le> hi}"
    using arg_cong [OF nums, of set] by (force simp: mem)
qed

lemma nums_events_run:
  assumes "held_run base db" "base \<le> lo" "hi \<le> tip db"
  shows "nums (block_events_in_range keccak db lo hi) = run lo (nat (hi + 1 - lo))"
proof -
  have ok: "blocks_ok db" using assms(1) by (rule held_run_tip(4))
  have "set (map b_number (rev (get_blocks_in_range db lo hi))) = {lo..<lo + int (nat (hi + 1 - lo))}"
    using held_run_tip(3) [OF assms(1)] assms(2,3) unfolding range_numbers(2) [OF ok]
    by (auto simp del: set_map)
  with range_numbers(1) [OF ok] show ?thesis unfolding nums_events [OF ok] by (rule run_unique)
qed

lemma events_numbered:
  assumes "blocks_ok db" "e \<in> set (block_events_in_range keccak db lo hi)"
  shows "block_num e \<noteq> None"
proof -
  obtain b txs where b: "b \<in> set (get_blocks_in_range db lo hi)" "e = block_event_json b txs STREAM_TX_CAP"
    using assms(2) by (auto simp: block_events_in_range_def Let_def)
  then have "is_i64 (b_number b)"
    using assms(1) by (auto simp: get_blocks_in_range_def blocks_newest_def blocks_ok_def row_to_block_def)
  then show ?thesis using b(2) by (simp add: block_num_event)
qed

lemma nums_single:
  assumes "\<forall>e\<in>set es. block_num e \<noteq> None" "nums es = [n]"
  shows "\<exists>e. es = [e] \<and> block_num e = Some n"
proof (cases es)
  case (Cons e rest)
  then obtain m where m: "block_num e = Some m" using assms(1) by auto
  then have rest: "nums rest = []" "m = n" using assms(2) Cons by auto
  have "rest = []"
  proof (cases rest)
    case (Cons e' rest')
    then obtain m' where "block_num e' = Some m'" using assms(1) \<open>es = e # rest\<close> by auto
    then show ?thesis using rest(1) Cons by simp
  qed
  then show ?thesis using Cons m rest by simp
qed (use assms(2) in simp)

subsection \<open>A client beside the writer and the publisher\<close>

record live =
  lv_db :: database
  lv_feed :: feed_state
  lv_batch :: "json list"
  lv_channel :: "json list"
  lv_at :: nat
  lv_client :: sse_state
  lv_out :: "(string \<times> json) list"

definition live_start :: "database \<Rightarrow> live" where
  "live_start db =
     \<lparr> lv_db = db, lv_feed = feed_start db, lv_batch = [], lv_channel = [], lv_at = 0, lv_client = sse_start,
       lv_out = [] \<rparr>"

text \<open>A later state of the database: the writer only adds above the tip what keeps the run whole.\<close>

definition grown :: "int \<Rightarrow> database \<Rightarrow> database \<Rightarrow> bool" where
  "grown base db db' \<longleftrightarrow> held_run base db' \<and> tip db \<le> tip db'"

definition emitted :: "sse_out \<Rightarrow> (string \<times> json) list" where
  "emitted r = (case r of Emit e \<Rightarrow> [e] | _ \<Rightarrow> [])"

definition reading :: "live \<Rightarrow> bool" where
  "reading l \<longleftrightarrow> ss_sent_initial (lv_client l) \<and> ss_pending (lv_client l) = []"

text \<open>
  How far behind a client may be when the broadcast tells it so: what the channel dropped, or the blocks
  up to the tip, are no more than a replay brings back.
\<close>

definition in_reach :: "nat \<Rightarrow> live \<Rightarrow> bool" where
  "in_reach cap l \<longleftrightarrow> length (lv_channel l) \<le> lv_at l + cap + SSE_MAX_REPLAY
     \<or> tip (lv_db l) \<le> ss_last_num (lv_client l) + int SSE_MAX_REPLAY"

text \<open>
  The interleavings: the writer commits, the publisher reads the database once and sends what it
  read one message at a time, and the client takes its turns. What the database may turn into between
  two looks at it is \<open>env\<close>. The rule \<open>lag\<close> is the broadcast telling the client that it fell behind,
  within the reach of a replay.
\<close>

inductive live_step :: "keccak \<Rightarrow> (string \<Rightarrow> json option) \<Rightarrow> nat \<Rightarrow> (database \<Rightarrow> database \<Rightarrow> bool) \<Rightarrow> live \<Rightarrow> live \<Rightarrow> bool"
  for keccak parse cap env where
  commit: "env (lv_db l) db' \<Longrightarrow> live_step keccak parse cap env l (l\<lparr>lv_db := db'\<rparr>)"
| feed: "lv_batch l = [] \<Longrightarrow> env (lv_db l) db' \<Longrightarrow>
    feed_turn keccak parse (lv_db l) db' (lv_feed l) = (es, f) \<Longrightarrow>
    live_step keccak parse cap env l (l\<lparr>lv_db := db', lv_batch := es, lv_feed := f\<rparr>)"
| send: "lv_batch l = e # es \<Longrightarrow>
    live_step keccak parse cap env l (l\<lparr>lv_batch := es, lv_channel := lv_channel l @ [e]\<rparr>)"
| turn: "\<not> reading l \<Longrightarrow> env (lv_db l) db' \<Longrightarrow>
    sse_turn keccak (lv_db l) db' False r (lv_client l) = (res, c) \<Longrightarrow>
    live_step keccak parse cap env l (l\<lparr>lv_db := db', lv_client := c, lv_out := lv_out l @ emitted res\<rparr>)"
| read: "reading l \<Longrightarrow> lv_at l < length (lv_channel l) \<Longrightarrow> length (lv_channel l) \<le> lv_at l + cap \<Longrightarrow>
    env (lv_db l) db' \<Longrightarrow>
    sse_turn keccak (lv_db l) db' False (Received (lv_channel l ! lv_at l)) (lv_client l) = (res, c) \<Longrightarrow>
    live_step keccak parse cap env l
      (l\<lparr>lv_db := db', lv_at := Suc (lv_at l), lv_client := c, lv_out := lv_out l @ emitted res\<rparr>)"
| lag: "reading l \<Longrightarrow> lv_at l + cap < length (lv_channel l) \<Longrightarrow>
    in_reach cap l \<Longrightarrow> env (lv_db l) db' \<Longrightarrow>
    sse_turn keccak (lv_db l) db' False Lagged (lv_client l) = (res, c) \<Longrightarrow>
    live_step keccak parse cap env l
      (l\<lparr>lv_db := db', lv_at := length (lv_channel l) - cap, lv_client := c, lv_out := lv_out l @ emitted res\<rparr>)"

definition live_run :: "keccak \<Rightarrow> (string \<Rightarrow> json option) \<Rightarrow> nat \<Rightarrow> int \<Rightarrow> database \<Rightarrow> live \<Rightarrow> bool" where
  "live_run keccak parse cap base db l \<longleftrightarrow> (live_step keccak parse cap (grown base))\<^sup>*\<^sup>* (live_start db) l"

text \<open>The messages the client has not read yet, sent or about to be.\<close>

definition ahead :: "live \<Rightarrow> json list" where
  "ahead l = drop (lv_at l) (lv_channel l @ lv_batch l)"

definition shown :: "live \<Rightarrow> int list" where
  "shown l = nums (map snd (lv_out l))"

definition feed_at :: "int \<Rightarrow> live \<Rightarrow> int \<Rightarrow> nat \<Rightarrow> bool" where
  "feed_at base l a k \<longleftrightarrow> held_run base (lv_db l) \<and> lv_at l \<le> length (lv_channel l)
     \<and> base \<le> fd_sent (lv_feed l) + 1 \<and> fd_sent (lv_feed l) \<le> tip (lv_db l)
     \<and> nums (ahead l) = run a k \<and> a + int k = fd_sent (lv_feed l) + 1
     \<and> (ss_sent_initial (lv_client l) \<longrightarrow> a \<le> ss_last_num (lv_client l) + 1)"

definition client_at :: "int \<Rightarrow> live \<Rightarrow> int \<Rightarrow> nat \<Rightarrow> bool" where
  "client_at base l f m \<longleftrightarrow> shown l @ nums (ss_pending (lv_client l)) = run f m
     \<and> f + int m = ss_last_num (lv_client l) + 1 \<and> 0 < m \<and> base \<le> f
     \<and> ss_last_num (lv_client l) \<le> tip (lv_db l)"

definition client_ok :: "int \<Rightarrow> live \<Rightarrow> bool" where
  "client_ok base l \<longleftrightarrow>
     (if ss_sent_initial (lv_client l) then \<exists>f m. client_at base l f m
      else lv_out l = [] \<and> ss_pending (lv_client l) = [])"

definition live_ok :: "int \<Rightarrow> live \<Rightarrow> bool" where
  "live_ok base l \<longleftrightarrow> (\<exists>a k. feed_at base l a k) \<and> client_ok base l"

lemma feed_turn_nums:
  assumes "feed_turn keccak parse db db' s = (es, s')" "held_run base db'" "tip db \<le> tip db'" "base \<le> fd_sent s + 1"
  shows "fd_sent s' = max (fd_sent s) (tip db) \<and> nums es = run (fd_sent s + 1) (nat (fd_sent s' - fd_sent s))"
proof -
  let ?bs = "if tip db > fd_sent s then block_events_in_range keccak db' (fd_sent s + 1) (tip db) else []"
  have es: "nums es = nums ?bs \<and> fd_sent s' = (if tip db > fd_sent s then tip db else fd_sent s)"
    using assms(1)
    by (auto simp: feed_turn_def Let_def block_num_stats split: if_splits option.splits)
  have "nums ?bs = run (fd_sent s + 1) (nat (tip db - fd_sent s))"
    using nums_events_run [OF assms(2), of "fd_sent s + 1" "tip db" keccak] assms(3,4) by auto
  then show ?thesis using es by auto
qed

abbreviation emitted_nums :: "sse_out \<Rightarrow> int list" where
  "emitted_nums r \<equiv> nums (map snd (emitted r))"

lemma grown_run: "grown base db db' \<Longrightarrow> held_run base db'"
  by (simp add: grown_def)

lemma grown_tip: "grown base db db' \<Longrightarrow> tip db \<le> tip db'"
  by (simp add: grown_def)

lemma sse_turn_initial:
  assumes "\<not> ss_sent_initial c" "held_run base db" "grown base db db'"
    and "sse_turn keccak db db' False r c = (res, c')"
  shows "c' = c\<lparr>ss_sent_initial := True, ss_last_num := tip db\<rparr> \<and> emitted_nums res = [tip db]"
proof -
  have b: "base \<le> tip db" "tip db \<le> tip db'" using held_run_tip(2) [OF assms(2)] grown_tip [OF assms(3)] by auto
  let ?es = "block_events_in_range keccak db' (tip db) (tip db)"
  have "nums ?es = [tip db]"
    using nums_events_run [OF grown_run [OF assms(3)] b, of keccak] by (simp add: run_Suc)
  moreover have "\<forall>e\<in>set ?es. block_num e \<noteq> None"
    using events_numbered held_run_tip(4) [OF grown_run [OF assms(3)]] by blast
  ultimately obtain e where e: "?es = [e]" "block_num e = Some (tip db)" using nums_single by blast
  then show ?thesis
    using assms(1,4) held_run_tip(1) [OF assms(2)]
    by (auto simp: sse_turn_def Let_def emitted_def sse_event_def)
qed

lemma sse_turn_pending:
  assumes "ss_sent_initial c" "ss_pending c = v # vs" "sse_turn keccak db db' False r c = (res, c')"
  shows "c' = c\<lparr>ss_pending := vs\<rparr> \<and> emitted_nums res = nums [v]"
  using assms by (auto simp: sse_turn_def Let_def emitted_def sse_event_def)

lemma sse_turn_received:
  assumes "ss_sent_initial c" "ss_pending c = []" "sse_turn keccak db db' False (Received p) c = (res, c')"
  shows "(case block_num p of
            None \<Rightarrow> c' = c \<and> emitted_nums res = []
          | Some n \<Rightarrow> if n \<le> ss_last_num c then c' = c \<and> emitted_nums res = []
                      else c' = c\<lparr>ss_last_num := n\<rparr> \<and> emitted_nums res = [n])"
  using assms by (auto simp: sse_turn_def Let_def emitted_def sse_event_def split: option.splits if_splits)

lemma sse_turn_lagged:
  assumes "ss_sent_initial c" "ss_pending c = []" "base \<le> ss_last_num c + 1"
    and "ss_last_num c \<le> tip db" "held_run base db" "grown base db db'"
    and "sse_turn keccak db db' False Lagged c = (res, c')"
  shows "ss_sent_initial c' \<and> ss_last_num c' = min (tip db) (ss_last_num c + int SSE_MAX_REPLAY)
    \<and> emitted_nums res @ nums (ss_pending c') = run (ss_last_num c + 1) (nat (ss_last_num c' - ss_last_num c))"
proof -
  let ?last = "min (tip db) (ss_last_num c + int SSE_MAX_REPLAY)"
  let ?es = "block_events_in_range keccak db' (ss_last_num c + 1) ?last"
  have e: "ss_last_num c + 1 + int SSE_MAX_REPLAY - 1 = ss_last_num c + int SSE_MAX_REPLAY" by simp
  have m: "max (ss_last_num c) ?last = ?last" using assms(4) by simp
  have turn: "sse_turn keccak db db' False Lagged c =
      (let s = c\<lparr>ss_last_num := ?last\<rparr> in
       case ?es of v # vs \<Rightarrow> (Emit (sse_event v), s\<lparr>ss_pending := vs\<rparr>) | [] \<Rightarrow> (Read_On, s))"
    using assms(1,2) held_run_tip(1) [OF assms(5)] m by (simp only: sse_turn_def Let_def e) (simp split: list.split)
  have "?last \<le> tip db'" using grown_tip [OF assms(6)] by simp
  from nums_events_run [OF grown_run [OF assms(6)] assms(3) this, of keccak]
  have "nums ?es = run (ss_last_num c + 1) (nat (?last - ss_last_num c))" by (simp add: algebra_simps)
  then show ?thesis
    using assms(1,2,7) unfolding turn
    by (cases ?es) (auto simp: Let_def emitted_def sse_event_def split: option.splits)
qed

lemma run_eq_Cons: "n # xs = run a k \<longleftrightarrow> (\<exists>k'. k = Suc k' \<and> n = a \<and> xs = run (a + 1) k')"
  by (cases k) (auto simp: run_Suc)

lemma shown_add: "shown (l\<lparr>lv_out := lv_out l @ xs\<rparr>) = shown l @ nums (map snd xs)"
  by (simp add: shown_def)

subsection \<open>The invariant\<close>


lemma ahead_frame [simp]:
  "ahead (l\<lparr>lv_db := db'\<rparr>) = ahead l"
  "ahead (l\<lparr>lv_client := c\<rparr>) = ahead l"
  "ahead (l\<lparr>lv_out := out'\<rparr>) = ahead l"
  by (simp_all add: ahead_def)

lemma client_at_frame:
  "client_at base (l\<lparr>lv_batch := b\<rparr>) = client_at base l"
  "client_at base (l\<lparr>lv_feed := f\<rparr>) = client_at base l"
  "client_at base (l\<lparr>lv_channel := ch\<rparr>) = client_at base l"
  "client_at base (l\<lparr>lv_at := i\<rparr>) = client_at base l"
  by (intro ext; simp add: client_at_def shown_def)+

lemma feed_at_grown:
  assumes "feed_at base l a k" "grown base (lv_db l) db'"
  shows "feed_at base (l\<lparr>lv_db := db'\<rparr>) a k"
  using assms by (auto simp: feed_at_def grown_def)

lemma client_ok_grown:
  assumes "client_ok base l" "grown base (lv_db l) db'"
  shows "client_ok base (l\<lparr>lv_db := db'\<rparr>)"
  using assms unfolding client_ok_def client_at_def grown_def shown_def by simp (metis order_trans)

lemma client_ok_frame:
  "client_ok base (l\<lparr>lv_batch := b, lv_feed := f\<rparr>) = client_ok base l"
  "client_ok base (l\<lparr>lv_batch := b, lv_channel := ch\<rparr>) = client_ok base l"
  "client_ok base (l\<lparr>lv_at := i\<rparr>) = client_ok base l"
  by (simp_all add: client_ok_def client_at_frame)

lemma publish_ok:
  assumes "feed_at base l a k" "grown base (lv_db l) db'" "lv_batch l = []"
    and "feed_turn keccak parse (lv_db l) db' (lv_feed l) = (es, f)"
  shows "feed_at base (l\<lparr>lv_db := db', lv_batch := es, lv_feed := f\<rparr>) a
    (k + nat (fd_sent f - fd_sent (lv_feed l)))"
proof -
  have a: "nums (ahead l) = run a k" "a + int k = fd_sent (lv_feed l) + 1"
    and b: "base \<le> fd_sent (lv_feed l) + 1" "fd_sent (lv_feed l) \<le> tip (lv_db l)" "lv_at l \<le> length (lv_channel l)"
    using assms(1) by (auto simp: feed_at_def)
  let ?d = "nat (fd_sent f - fd_sent (lv_feed l))"
  have f: "fd_sent f = tip (lv_db l)" "nums es = run (a + int k) ?d"
    using feed_turn_nums [OF assms(4) grown_run [OF assms(2)] grown_tip [OF assms(2)] b(1)] b(2) a(2) by auto
  have "ahead (l\<lparr>lv_db := db', lv_batch := es, lv_feed := f\<rparr>) = ahead l @ es"
    using b(3) assms(3) by (simp add: ahead_def)
  then have "nums (ahead (l\<lparr>lv_db := db', lv_batch := es, lv_feed := f\<rparr>)) = run a (k + ?d)"
    using a(1) f(2) by (simp add: run_append)
  moreover have "a + int (k + ?d) = fd_sent f + 1" using a(2) b(2) f(1) by simp
  ultimately show ?thesis
    using assms(1,2) b f(1) unfolding feed_at_def by (simp add: grown_def)
qed

lemma send_ok:
  assumes "feed_at base l a k" "lv_batch l = e # es"
  shows "feed_at base (l\<lparr>lv_batch := es, lv_channel := lv_channel l @ [e]\<rparr>) a k"
proof -
  have "ahead (l\<lparr>lv_batch := es, lv_channel := lv_channel l @ [e]\<rparr>) = ahead l"
    using assms by (simp add: ahead_def feed_at_def)
  then show ?thesis using assms(1) by (simp add: feed_at_def)
qed

text \<open>What a turn of the client shows continues what was shown.\<close>

lemma client_at_extend:
  assumes "client_at base l f m" "grown base (lv_db l) db'"
    and "emitted_nums res @ nums (ss_pending c) =
      nums (ss_pending (lv_client l)) @ run (ss_last_num (lv_client l) + 1) n"
    and "ss_last_num c = ss_last_num (lv_client l) + int n" "ss_last_num c \<le> tip db'"
    and "lv_db l' = db'" "lv_client l' = c" "lv_out l' = lv_out l @ emitted res"
  shows "client_at base l' f (m + n)"
proof -
  have "shown l' @ nums (ss_pending c)
      = (shown l @ nums (ss_pending (lv_client l))) @ run (ss_last_num (lv_client l) + 1) n"
    using assms(3,8) by (simp add: shown_def)
  also have "\<dots> = run f (m + n)"
    using assms(1) run_append [of f m n] by (simp add: client_at_def)
  finally show ?thesis using assms(1,4,5,6,7) by (simp add: client_at_def)
qed

lemma live_okI:
  "feed_at base l a k \<Longrightarrow> client_at base l f m \<Longrightarrow> ss_sent_initial (lv_client l) \<Longrightarrow> live_ok base l"
  by (auto simp: live_ok_def client_ok_def)

lemma turn_ok:
  assumes ok: "live_ok base l" and not_reading: "\<not> reading l" and g: "grown base (lv_db l) db'"
    and t: "sse_turn keccak (lv_db l) db' False r (lv_client l) = (res, c)"
  shows "live_ok base (l\<lparr>lv_db := db', lv_client := c, lv_out := lv_out l @ emitted res\<rparr>)"
proof -
  let ?l' = "l\<lparr>lv_db := db', lv_client := c, lv_out := lv_out l @ emitted res\<rparr>"
  obtain a k where f: "feed_at base l a k" using ok by (auto simp: live_ok_def)
  have h: "held_run base (lv_db l)" and s: "fd_sent (lv_feed l) \<le> tip (lv_db l)" using f by (auto simp: feed_at_def)
  show ?thesis
  proof (cases "ss_sent_initial (lv_client l)")
    case False
    note c = sse_turn_initial [OF False h g t]
    have "a \<le> tip (lv_db l) + 1" using f s by (auto simp: feed_at_def)
    then have "feed_at base ?l' a k"
      using f g c by (simp add: feed_at_def grown_def)
    moreover have "client_at base ?l' (tip (lv_db l)) 1"
      using ok False c held_run_tip(2) [OF h] g
      by (simp add: live_ok_def client_ok_def client_at_def shown_def run_Suc grown_def)
    moreover have "ss_sent_initial (lv_client ?l')" using c by simp
    ultimately show ?thesis by (rule live_okI)
  next
    case True
    then obtain v vs where p: "ss_pending (lv_client l) = v # vs"
      using not_reading by (cases "ss_pending (lv_client l)") (auto simp: reading_def)
    note c = sse_turn_pending [OF True p t]
    obtain f' m where m: "client_at base l f' m" using ok True by (auto simp: live_ok_def client_ok_def)
    have "feed_at base ?l' a k"
      using f g c by (simp add: feed_at_def grown_def)
    moreover have "client_at base ?l' f' (m + 0)"
      by (rule client_at_extend [OF m g]) (use c p m g in \<open>auto simp: client_at_def grown_def split: option.split\<close>)
    moreover have "ss_sent_initial (lv_client ?l')" using c True by simp
    ultimately show ?thesis by (rule live_okI)
  qed
qed

lemma read_ok:
  assumes ok: "live_ok base l" and rd: "reading l" and at: "lv_at l < length (lv_channel l)"
    and g: "grown base (lv_db l) db'"
    and t: "sse_turn keccak (lv_db l) db' False (Received (lv_channel l ! lv_at l)) (lv_client l) = (res, c)"
  shows "live_ok base (l\<lparr>lv_db := db', lv_at := Suc (lv_at l), lv_client := c, lv_out := lv_out l @ emitted res\<rparr>)"
proof -
  let ?l' = "l\<lparr>lv_db := db', lv_at := Suc (lv_at l), lv_client := c, lv_out := lv_out l @ emitted res\<rparr>"
  obtain a k where f: "feed_at base l a k" using ok by (auto simp: live_ok_def)
  have i: "ss_sent_initial (lv_client l)" "ss_pending (lv_client l) = []" using rd by (auto simp: reading_def)
  obtain f' m where m: "client_at base l f' m" using ok i(1) by (auto simp: live_ok_def client_ok_def)
  have sent: "fd_sent (lv_feed l) \<le> tip (lv_db l)" "a + int k = fd_sent (lv_feed l) + 1"
    "a \<le> ss_last_num (lv_client l) + 1"
    using f i by (auto simp: feed_at_def)
  have ahead: "ahead l = lv_channel l ! lv_at l # ahead ?l'"
    using at by (simp add: ahead_def Cons_nth_drop_Suc [symmetric])
  note c = sse_turn_received [OF i t]
  show ?thesis
  proof (cases "block_num (lv_channel l ! lv_at l)")
    case None
    then have c': "c = lv_client l" "emitted_nums res = []" using c by auto
    have "feed_at base ?l' a k" using f g at None ahead c'(1) by (simp add: feed_at_def grown_def)
    moreover have "client_at base ?l' f' (m + 0)"
      by (rule client_at_extend [OF m g]) (use c' m g i in \<open>auto simp: client_at_def grown_def\<close>)
    ultimately show ?thesis by (rule live_okI) (simp add: c'(1) i(1))
  next
    case (Some n)
    have "n # nums (ahead ?l') = run a k" using f ahead Some by (simp add: feed_at_def)
    then obtain k' where k': "k = Suc k'" "n = a" "nums (ahead ?l') = run (a + 1) k'"
      unfolding run_eq_Cons by blast
    have a': "a + 1 + int k' = fd_sent (lv_feed l) + 1" using sent(2) k'(1) by simp
    show ?thesis
    proof (cases "n \<le> ss_last_num (lv_client l)")
      case True
      then have c': "c = lv_client l" "emitted_nums res = []" using c Some by auto
      have "feed_at base ?l' (a + 1) k'"
        using f g at k' a' c'(1) True by (simp add: feed_at_def grown_def)
      moreover have "client_at base ?l' f' (m + 0)"
        by (rule client_at_extend [OF m g]) (use c' m g i in \<open>auto simp: client_at_def grown_def\<close>)
      ultimately show ?thesis by (rule live_okI) (simp add: c'(1) i(1))
    next
      case False
      then have c': "c = (lv_client l)\<lparr>ss_last_num := n\<rparr>" "emitted_nums res = [n]" using c Some by auto
      have n: "n = ss_last_num (lv_client l) + 1" using False sent(3) k'(2) by simp
      have "n \<le> tip (lv_db l)" using sent k' by simp
      have "feed_at base ?l' (a + 1) k'"
        using f g at k' a' c'(1) by (simp add: feed_at_def grown_def)
      moreover have "client_at base ?l' f' (m + 1)"
        by (rule client_at_extend [OF m g])
          (use c' i n \<open>n \<le> tip (lv_db l)\<close> grown_tip [OF g] in \<open>auto simp: run_Suc\<close>)
      ultimately show ?thesis by (rule live_okI) (simp add: c'(1) i(1))
    qed
  qed
qed

lemma lag_ok:
  assumes ok: "live_ok base l" and rd: "reading l" and at: "lv_at l + cap < length (lv_channel l)"
    and near: "in_reach cap l" and g: "grown base (lv_db l) db'"
    and t: "sse_turn keccak (lv_db l) db' False Lagged (lv_client l) = (res, c)"
  shows "live_ok base (l\<lparr>lv_db := db', lv_at := length (lv_channel l) - cap, lv_client := c,
    lv_out := lv_out l @ emitted res\<rparr>)"
proof -
  let ?l' = "l\<lparr>lv_db := db', lv_at := length (lv_channel l) - cap, lv_client := c, lv_out := lv_out l @ emitted res\<rparr>"
  obtain a k where f: "feed_at base l a k" using ok by (auto simp: live_ok_def)
  have i: "ss_sent_initial (lv_client l)" "ss_pending (lv_client l) = []" using rd by (auto simp: reading_def)
  obtain f' m where m: "client_at base l f' m" using ok i(1) by (auto simp: live_ok_def client_ok_def)
  have h: "held_run base (lv_db l)" "fd_sent (lv_feed l) \<le> tip (lv_db l)" "a + int k = fd_sent (lv_feed l) + 1"
    using f by (auto simp: feed_at_def)
  have before: "a \<le> ss_last_num (lv_client l) + 1" using f i by (simp add: feed_at_def)
  have last: "base \<le> ss_last_num (lv_client l) + 1" "ss_last_num (lv_client l) \<le> tip (lv_db l)"
    using m by (auto simp: client_at_def)
  note c = sse_turn_lagged [OF i last h(1) g t]
  let ?j = "length (lv_channel l) - cap - lv_at l"
  have "ahead ?l' = drop ?j (ahead l)" using at by (simp add: ahead_def)
  moreover have "ahead l = take ?j (ahead l) @ drop ?j (ahead l)" by simp
  ultimately have "run a k = nums (take ?j (ahead l)) @ nums (ahead ?l')"
    using f by (metis feed_at_def nums_simps(2))
  moreover have "length (nums (take ?j (ahead l))) \<le> ?j"
    using length_nums [of "take ?j (ahead l)"] by simp
  ultimately obtain d where d: "d \<le> k" "d \<le> ?j" "nums (ahead ?l') = drop d (run a k)"
    by (metis append_eq_conv_conj length_append length_run le_add1)
  have "drop d (run a k) = run (a + int d) (k - d)"
    using run_append [of a d "k - d"] d(1) by (metis append_eq_conv_conj le_add_diff_inverse length_run)
  moreover have "a + int d + int (k - d) = fd_sent (lv_feed l) + 1" using d(1) h(3) by simp
  moreover have "a + int d \<le> ss_last_num c + 1"
    using d(1,2) h c last near at before by (auto simp: in_reach_def min_def split: if_splits)
  ultimately have "feed_at base ?l' (a + int d) (k - d)"
    using f g at d(3) by (simp add: feed_at_def grown_def)
  moreover have "client_at base ?l' f'
      (m + nat (ss_last_num c - ss_last_num (lv_client l)))"
    by (rule client_at_extend [OF m g]) (use c i last grown_tip [OF g] in auto)
  ultimately show ?thesis by (rule live_okI) (simp add: c)
qed

lemma live_step_ok: "live_step keccak parse cap (grown base) l l' \<Longrightarrow> live_ok base l \<Longrightarrow> live_ok base l'"
proof (induction rule: live_step.induct)
  case (commit l db')
  then show ?case using feed_at_grown client_ok_grown unfolding live_ok_def by blast
next
  case (feed l db' es f)
  obtain a k where "feed_at base l a k" using feed.prems by (auto simp: live_ok_def)
  from publish_ok [OF this feed.hyps(2,1,3)] feed.prems show ?case
    using client_ok_grown [OF _ feed.hyps(2)] client_ok_frame(1) [where l = "l\<lparr>lv_db := db'\<rparr>" and b = es and f = f]
    by (auto simp: live_ok_def)
next
  case (send l e es)
  then show ?case using send_ok client_ok_frame(2) unfolding live_ok_def by blast
next
  case (turn l db' r res c)
  then show ?case using turn_ok by blast
next
  case (read l db' res c)
  then show ?case using read_ok by blast
next
  case (lag l db' res c)
  then show ?case using lag_ok by blast
qed

lemma live_start_ok:
  assumes "held_run base db"
  shows "live_ok base (live_start db)"
proof -
  have "feed_at base (live_start db) (tip db + 1) 0"
    using assms held_run_tip(2) [OF assms]
    by (simp add: feed_at_def live_start_def feed_start_def ahead_def sse_start_def)
  moreover have "client_ok base (live_start db)"
    by (simp add: client_ok_def live_start_def sse_start_def)
  ultimately show ?thesis by (auto simp: live_ok_def)
qed

lemma live_run_ok:
  assumes "held_run base db" "live_run keccak parse cap base db l"
  shows "live_ok base l"
  using assms(2) unfolding live_run_def
  by (induction rule: rtranclp_induct) (auto simp: live_start_ok assms(1) live_step_ok)

text \<open>What the invariant says of the heights a client was sent.\<close>

lemma shown_run:
  assumes "live_ok base l"
  shows "\<exists>first n. shown l = run first n \<and> base \<le> first \<and> (0 < n \<longrightarrow> first + int n \<le> tip (lv_db l) + 1)"
proof -
  consider "shown l = []" | f m where "client_at base l f m"
    using assms by (auto simp: live_ok_def client_ok_def shown_def split: if_splits)
  then show ?thesis
  proof cases
    case 1
    then show ?thesis by (intro exI [of _ base] exI [of _ 0]) simp
  next
    case 2
    then have r: "shown l @ nums (ss_pending (lv_client l)) = run f m" "f + int m = ss_last_num (lv_client l) + 1"
      "base \<le> f" "ss_last_num (lv_client l) \<le> tip (lv_db l)"
      by (auto simp: client_at_def)
    let ?n = "length (shown l)"
    have n: "?n \<le> m" using arg_cong [OF r(1), of length] by simp
    have "run f ?n @ run (f + int ?n) (m - ?n) = run f m" using n by (simp add: run_append)
    then have "shown l = run f ?n" using r(1) by (metis append_eq_append_conv length_run)
    then show ?thesis using r n by (intro exI [of _ f] exI [of _ ?n]) simp
  qed
qed


text \<open>
  Past that reach a client is shown a gap: told that it fell behind by more than a replay holds, it is sent
  \<open>SSE_MAX_REPLAY\<close> blocks and then whatever the channel still keeps.
\<close>

lemma replay_past_its_reach_leaves_a_gap:
  assumes "ss_sent_initial c" "ss_pending c = []" "base \<le> ss_last_num c + 1"
    and far: "ss_last_num c + int SSE_MAX_REPLAY < tip db" and "held_run base db" "grown base db db'"
    and "sse_turn keccak db db' False Lagged c = (res, c')"
    and next': "block_num payload = Some n" "ss_last_num c + int SSE_MAX_REPLAY + 1 < n"
  shows "emitted_nums res @ nums (ss_pending c') = run (ss_last_num c + 1) SSE_MAX_REPLAY
    \<and> fst (sse_turn keccak db' db' False (Received payload) (c'\<lparr>ss_pending := []\<rparr>)) = Emit (sse_event payload)"
proof -
  have l: "ss_last_num c \<le> tip db" using far by simp
  note t = sse_turn_lagged [OF assms(1-3) l assms(5-7)]
  then have last: "ss_last_num c' = ss_last_num c + int SSE_MAX_REPLAY" using far by simp
  then show ?thesis using t next' by (simp add: sse_turn_def)
qed

definition one_block :: database where
  "one_block = empty_database\<lparr>blocks := [(5, sample_block 5 ''h'')]\<rparr>"

lemma one_block_held: "held_run 5 one_block"
  by (simp add: held_run_def one_block_def empty_database_def get_max_block_number_def blocks_ok_def
      unique_keys_def sample_block_def is_i64_def)

lemma one_block_step:
  assumes "env one_block one_block"
  shows "\<exists>l. live_step (\<lambda>_. []) (\<lambda>_. None) 1 env (live_start one_block) l \<and> shown l = [5] \<and> lv_db l = one_block"
proof -
  have g: "grown 5 one_block one_block" using one_block_held by (simp add: grown_def)
  obtain res c where t: "sse_turn (\<lambda>_. []) one_block one_block False Lagged sse_start = (res, c)"
    by (cases "sse_turn (\<lambda>_. []) one_block one_block False Lagged sse_start") auto
  let ?l = "(live_start one_block)\<lparr>lv_db := one_block, lv_client := c,
      lv_out := lv_out (live_start one_block) @ emitted res\<rparr>"
  have r: "live_step (\<lambda>_. []) (\<lambda>_. None) 1 env (live_start one_block) ?l"
    by (rule live_step.turn) (use assms t in \<open>simp_all add: live_start_def reading_def sse_start_def\<close>)
  have "tip one_block = 5"
    by (simp add: tip_def one_block_def empty_database_def get_max_block_number_def)
  then have "shown ?l = [5]"
    using sse_turn_initial [OF _ one_block_held g t] by (simp add: shown_def live_start_def sse_start_def)
  with r show ?thesis by (intro exI [of _ ?l]) simp
qed

lemma one_block_run: "\<exists>l. live_run (\<lambda>_. []) (\<lambda>_. None) 1 5 one_block l \<and> shown l = [5]"
proof -
  have "grown 5 one_block one_block" using one_block_held by (simp add: grown_def)
  then show ?thesis using one_block_step [of "grown 5"] by (auto simp: live_run_def)
qed


text \<open>A block's event carries that block's transactions, in order, up to the cap.\<close>

lemma partition_slice:
  fixes key :: "'a \<Rightarrow> int"
  assumes "sorted (map key xs)"
  shows "drop (partition_point (\<lambda>t. key t < n) xs) (take (partition_point (\<lambda>t. key t \<le> n) xs) xs)
    = filter (\<lambda>t. key t = n) xs"
  using assms
proof (induction xs)
  case (Cons x xs)
  consider "key x < n" | "key x = n" | "n < key x" by linarith
  then show ?case
  proof cases
    case 1
    with Cons show ?thesis by (simp add: partition_point_def)
  next
    case 2
    have "partition_point (\<lambda>t. key t < n) xs = 0"
      using Cons.prems 2 by (cases xs) (auto simp: partition_point_def)
    with Cons 2 show ?thesis by (simp add: partition_point_def)
  next
    case 3
    then have "filter (\<lambda>t. key t = n) xs = []" using Cons.prems by (auto simp: filter_empty_conv)
    with 3 show ?thesis by (simp add: partition_point_def)
  qed
qed (simp add: partition_point_def)

lemma event_carries_block_transactions:
  assumes "e \<in> set (block_events_in_range keccak db lo hi)"
  shows "\<exists>b. b \<in> set (get_blocks_in_range db lo hi) \<and>
    e = block_event_json b (filter (\<lambda>t. t_block_number t = b_number b) (get_transactions_in_range keccak db lo hi List))
      STREAM_TX_CAP"
proof -
  let ?txs = "get_transactions_in_range keccak db lo hi List"
  have "sorted (map (\<lambda>r. (t_block_number (snd r), t_position (snd r)))
      (sort_key (\<lambda>r. (t_block_number (snd r), t_position (snd r)))
        (filter (\<lambda>(_, t). lo \<le> t_block_number t \<and> t_block_number t \<le> hi) (transactions db))))"
    by (rule sorted_sort_key)
  then have "sorted (map (\<lambda>r. t_block_number (snd r))
      (sort_key (\<lambda>r. (t_block_number (snd r), t_position (snd r)))
        (filter (\<lambda>(_, t). lo \<le> t_block_number t \<and> t_block_number t \<le> hi) (transactions db))))"
    by (simp only: sorted_map) (auto elim!: sorted_wrt_mono_rel [rotated] simp: less_eq_prod_def)
  then have "sorted (map t_block_number ?txs)"
    by (simp add: get_transactions_in_range_def read_tx_def row_to_tx_def select_columns_def comp_def)
  from partition_slice [OF this] show ?thesis
    using assms by (auto simp: block_events_in_range_def Let_def)
qed

end
