(* ===== verification/Web_Base.thy ===== *)
theory Web_Base
  imports Storage_Reads Contracts Tempo_Address Anchoring
begin

section \<open>What every page is built from (\<open>src/web.rs\<close>)\<close>

text \<open>
  Requests and answers, the context a template is rendered over, pages of a listing, the names and
  amounts put beside an address. A template is rendered by Tera, the parameter \<open>w_render\<close>: \<open>None\<close>
  is a failed render. \<open>w_percent\<close> is what \<open>format!\<close> prints of the floating-point percentage of two
  integers, to a number of places, \<open>w_error_text\<close> what \<open>anyhow\<close> prints of a failure with its causes, \<open>w_parse\<close> is
  \<open>serde_json::from_str\<close>; the others are the parameters of the components a page calls (\<open>w_fold\<close> folds
  case as \<open>to_lowercase\<close> does on all of Unicode, \<open>w_view\<close> is a function's state mutability being
  view or pure).
\<close>

record web_env =
  w_keccak :: keccak
  w_codec :: codec
  w_registry :: registry
  w_zone :: "string \<Rightarrow> nat option"
  w_render :: "string \<Rightarrow> json \<Rightarrow> string option"
  w_commit :: "string option"
  w_percent :: "nat \<Rightarrow> int \<Rightarrow> int \<Rightarrow> string"
  w_error_text :: "failure \<Rightarrow> string"
  w_parse :: "string \<Rightarrow> json option"
  w_lib :: contract_codec
  w_fold :: "string \<Rightarrow> string"
  w_named :: "json \<Rightarrow> anchored_registry option"
  w_paced :: bool
  w_view :: "abi_item \<Rightarrow> bool"

text \<open>A request: its \<open>Accept\<close> header, where that is text, and its query.\<close>

record request =
  rq_accept :: "string option"
  rq_query :: "string \<rightharpoonup> string"

datatype body = Json_Body json | Html_Body string | No_Body

record http_answer =
  h_status :: nat
  h_headers :: "(string \<times> string) list"
  h_body :: body

definition ok_json :: "json \<Rightarrow> http_answer" where
  "ok_json v = \<lparr> h_status = 200, h_headers = [], h_body = Json_Body v \<rparr>"

definition redirect_to :: "string \<Rightarrow> http_answer" where
  "redirect_to url = \<lparr> h_status = 303, h_headers = [(''location'', url)], h_body = No_Body \<rparr>"

subsection \<open>Answering as HTML or as JSON\<close>

definition wants_json :: "request \<Rightarrow> bool" where
  "wants_json rq \<longleftrightarrow>
     contains (unwrap_or [] (rq_accept rq)) ''application/json'' \<or> rq_query rq ''format'' = Some ''json''"

definition columns_for :: "request \<Rightarrow> tx_columns" where
  "columns_for rq = (if wants_json rq then Full else List)"

definition render_html :: "web_env \<Rightarrow> string \<Rightarrow> json \<Rightarrow> http_answer" where
  "render_html w template ctx =
     (case w_render w template ctx of
        Some html \<Rightarrow> \<lparr> h_status = 200, h_headers = [], h_body = Html_Body html \<rparr>
      | None \<Rightarrow> \<lparr> h_status = 500, h_headers = [], h_body = Html_Body ''Internal server error'' \<rparr>)"

definition html_or_json :: "web_env \<Rightarrow> request \<Rightarrow> string \<Rightarrow> json \<Rightarrow> http_answer" where
  "html_or_json w rq template ctx = (if wants_json rq then ok_json ctx else render_html w template ctx)"

subsection \<open>Rows as JSON\<close>

text \<open>\<open>derive(Serialize)\<close>: the struct's fields by their names.\<close>

definition block_json :: "block \<Rightarrow> json" where
  "block_json b = JObj
     [(''number'', json_int (b_number b)), (''hash'', JStr (b_hash b)), (''parent_hash'', JStr (b_parent_hash b)),
      (''timestamp'', json_int (b_timestamp b)), (''timestamp_ms'', json_int (b_timestamp_ms b)),
      (''gas_used'', json_int (b_gas_used b)), (''gas_limit'', json_int (b_gas_limit b)),
      (''base_fee'', JStr (b_base_fee b)), (''size'', json_int (b_size b)), (''extra_data'', JStr (b_extra_data b)),
      (''epoch'', json_int (b_epoch b)), (''view'', json_int (b_view b)), (''proposer'', JStr (b_proposer b)),
      (''miner'', JStr (b_miner b)), (''tx_count'', json_int (b_tx_count b)), (''created_at'', json_int (b_created_at b))]"

definition tx_json :: "transaction \<Rightarrow> json" where
  "tx_json t = JObj
     [(''hash'', JStr (t_hash t)), (''block_number'', json_int (t_block_number t)), (''position'', json_int (t_position t)),
      (''from_addr'', JStr (t_from_addr t)), (''to_addr'', json_opt (t_to_addr t)), (''status'', json_int (t_status t)),
      (''gas_used'', json_int (t_gas_used t)), (''base_fee'', JStr (t_base_fee t)),
      (''contract_address'', json_opt (t_contract_address t)), (''fee_token'', json_opt (t_fee_token t)),
      (''fee_amount'', JStr (t_fee_amount t)), (''input'', JStr (t_input t)), (''raw'', json_opt (t_raw t)),
      (''trace_data'', json_opt (t_trace_data t)), (''receipt_data'', json_opt (t_receipt_data t)),
      (''timestamp'', json_int (t_timestamp t)), (''created_at'', json_int (t_created_at t))]"

definition token_json :: "token_metadata \<Rightarrow> json" where
  "token_json m = JObj
     [(''address'', JStr (k_address m)), (''name'', JStr (k_name m)), (''symbol'', JStr (k_symbol m)),
      (''decimals'', json_int (k_decimals m)), (''currency'', JStr (k_currency m)),
      (''total_supply'', JStr (k_total_supply m)), (''logo_uri'', JStr (k_logo_uri m)),
      (''holder_count'', json_int (k_holder_count m)), (''created_at'', json_int (k_created_at m)),
      (''updated_at'', json_int (k_updated_at m))]"

definition anchoring_event_json :: "anchoring_event \<Rightarrow> json" where
  "anchoring_event_json a = JObj
     [(''tx_hash'', JStr (a_tx_hash a)), (''block_number'', json_int (a_block_number a)),
      (''log_index'', json_int (a_log_index a)), (''timestamp'', json_int (a_timestamp a)), (''event'', JStr (a_event a)),
      (''registry_id'', json_int (a_registry_id a)), (''record_id'', json_int (a_record_id a)), (''caller'', JStr (a_caller a))]"

definition json_of_nat :: "nat \<Rightarrow> json" where
  "json_of_nat n = JNum (PosInt n)"

definition registry_json :: "anchored_registry \<Rightarrow> json" where
  "registry_json r = JObj
     [(''id'', json_of_nat (g_id r)), (''name'', JStr (g_name r)), (''description'', JStr (g_description r)),
      (''creator'', JStr (g_creator r)), (''createdAt'', JStr (g_created_at r)), (''metadata'', JStr (g_metadata r))]"

definition record_json :: "anchored_record \<Rightarrow> json" where
  "record_json r = JObj
     [(''uri'', JStr (r_uri r)), (''checksum'', JStr (r_checksum r)), (''checksumAlgo'', JStr (r_checksum_algo r)),
      (''metadata'', JStr (r_metadata r)), (''timestamp'', JStr (r_timestamp r)), (''status'', JStr (r_status r)),
      (''recordId'', json_of_nat (r_record_id r)), (''index'', json_of_nat (r_index r)),
      (''isLatest'', JBool (r_is_latest r)), (''registryId'', json_of_nat (r_registry_id r))]"

text \<open>\<open>json!(option)\<close>: null for \<open>None\<close>.\<close>

definition json_of_option :: "('a \<Rightarrow> json) \<Rightarrow> 'a option \<Rightarrow> json" where
  "json_of_option f x = (case x of Some v \<Rightarrow> f v | None \<Rightarrow> JNull)"

subsection \<open>A page's context\<close>

definition merge_into :: "(string \<times> json) list \<Rightarrow> json \<Rightarrow> (string \<times> json) list" where
  "merge_into entries extra =
     (case extra of JObj kvs \<Rightarrow> fold (\<lambda>(k, v) m. AList.update k v m) kvs entries | _ \<Rightarrow> entries)"

definition page_ctx_for :: "web_env \<Rightarrow> block option \<Rightarrow> json \<Rightarrow> json" where
  "page_ctx_for w latest_block extra =
     JObj (merge_into
       [(''latest_block'', json_of_option block_json latest_block),
        (''commit'', json_opt (opt_filter (\<lambda>sha. sha \<noteq> []) (w_commit w))),
        (''query'', JStr [])] extra)"

definition page_ctx :: "web_env \<Rightarrow> database \<Rightarrow> json \<Rightarrow> json" where
  "page_ctx w db extra = page_ctx_for w (get_latest_block db) extra"

definition error_response :: "web_env \<Rightarrow> database \<Rightarrow> request \<Rightarrow> nat \<Rightarrow> string \<Rightarrow> string \<Rightarrow> json \<Rightarrow> http_answer" where
  "error_response w db rq status template message extra =
     (let answer = (if wants_json rq then ok_json (JObj [(''error'', JStr message)])
                    else render_html w template (page_ctx w db extra))
      in answer\<lparr>h_status := status\<rparr>)"

definition not_found :: "web_env \<Rightarrow> database \<Rightarrow> request \<Rightarrow> string \<Rightarrow> string \<Rightarrow> http_answer" where
  "not_found w db rq kind id' =
     error_response w db rq 404 ''404.html'' (kind @ '' not found'') (JObj [(''type'', JStr kind), (''id'', JStr id')])"

definition node_failed :: "web_env \<Rightarrow> database \<Rightarrow> request \<Rightarrow> failure \<Rightarrow> http_answer" where
  "node_failed w db rq err = error_response w db rq 502 ''500.html'' (w_error_text w err) (JObj [])"

definition invalid_address :: "web_env \<Rightarrow> database \<Rightarrow> request \<Rightarrow> string \<Rightarrow> string \<Rightarrow> http_answer" where
  "invalid_address w db rq kind address =
     error_response w db rq 400 ''404.html'' (''Invalid address: '' @ address)
       (JObj [(''type'', JStr kind), (''id'', JStr address)])"

definition tx_row :: "web_env \<Rightarrow> transaction \<Rightarrow> json" where
  "tx_row w t = JObj
     [(''tx_hash'', JStr (t_hash t)), (''tx_from'', JStr (t_from_addr t)), (''tx_to'', json_opt (t_to_addr t)),
      (''tx_timestamp'', json_int (t_timestamp t)), (''tx_status'', json_int (t_status t)),
      (''tx_block'', json_int (t_block_number t)), (''tx_method'', json_opt (function_name (w_registry w) (t_input t)))]"

subsection \<open>Pages\<close>

abbreviation U32_MAX :: nat where
  "U32_MAX \<equiv> 2 ^ 32 - 1"

definition PER_PAGE :: nat where
  "PER_PAGE = 25"

text \<open>\<open>str::parse::<u32>\<close>\<close>

definition parse_u32 :: "string \<Rightarrow> nat option" where
  "parse_u32 s = opt_filter (\<lambda>n. n \<le> U32_MAX) (u64_from_str_radix 10 s)"

definition page_param :: "request \<Rightarrow> nat" where
  "page_param rq = max 1 (unwrap_or 1 (Option.bind (rq_query rq ''page'') parse_u32))"

text \<open>\<open>as u32\<close> keeps the low 32 bits.\<close>

definition total_pages :: "int \<Rightarrow> nat \<Rightarrow> nat" where
  "total_pages total' per_page = max 1 ((nat (max 0 total') + per_page - 1) div per_page) mod 2 ^ 32"

subsection \<open>Numbers and times\<close>

text \<open>\<open>is_ascii_digit\<close> on every character; true of the empty text.\<close>

definition all_digits :: "string \<Rightarrow> bool" where
  "all_digits s \<longleftrightarrow> (\<forall>c\<in>set s. 48 \<le> byte_val c \<and> byte_val c \<le> 57)"

definition comma_num :: "int \<Rightarrow> string" where
  "comma_num n =
     (let s = dec_int n
      in concat (map (\<lambda>(i, c). if 0 < i \<and> (length s - i) mod 3 = 0 then '','' @ [c] else [c]) (enumerate 0 s)))"

definition block_pct :: "web_env \<Rightarrow> int \<Rightarrow> int \<Rightarrow> string" where
  "block_pct w gas_used gas_limit = (if 0 < gas_limit then w_percent w 1 gas_used gas_limit else ''0'')"

definition format_time_ago :: "int \<Rightarrow> int \<Rightarrow> string" where
  "format_time_ago now ts =
     (let diff = now - ts in
      if diff < 0 then ''just now''
      else if diff < 60 then dec_int diff @ ''s ago''
      else if diff < 3600 then dec_int (diff div 60) @ ''m ago''
      else if diff < 86400 then dec_int (diff div 3600) @ ''h ago''
      else if diff < 2592000 then dec_int (diff div 86400) @ ''d ago''
      else if diff < 31536000 then dec_int (diff div 2592000) @ ''mo ago''
      else dec_int (diff div 31536000) @ ''y ago'')"

definition is_hash :: "string \<Rightarrow> bool" where
  "is_hash value \<longleftrightarrow>
     (case strip_prefix ''0x'' value of Some hex \<Rightarrow> length hex = 64 \<and> (\<forall>c\<in>set hex. is_hex_digit c) | None \<Rightarrow> False)"

definition find_block :: "database \<Rightarrow> string \<Rightarrow> block option" where
  "find_block db id' =
     (if all_digits id' \<and> id' \<noteq> [] then Option.bind (parse_i64 id') (get_block_by_number db)
      else or_else (get_block_by_hash db id')
             (Option.bind (Option.bind (strip_prefix ''0x'' id') (u64_from_str_radix 16))
               (\<lambda>n. get_block_by_number db (i64_of_u64 n))))"

text \<open>\<open>BigInt::parse_bytes\<close> with a default, and a division that truncates.\<close>

definition big :: "string \<Rightarrow> int" where
  "big s = unwrap_or 0 (bigint_parse 10 s)"

definition div_trunc :: "int \<Rightarrow> int \<Rightarrow> int" where
  "div_trunc a b = sgn a * sgn b * (\<bar>a\<bar> div \<bar>b\<bar>)"

definition base_fees_wei :: "string \<Rightarrow> int \<Rightarrow> int" where
  "base_fees_wei base_fee gas_used = big base_fee * max 0 gas_used"

subsection \<open>Tokens on a page\<close>

text \<open>The map by address; the argument's order and spelling do not matter.\<close>

definition token_metas_of :: "web_env \<Rightarrow> database \<Rightarrow> string list \<Rightarrow> (string \<times> token_metadata) list" where
  "token_metas_of w db addresses =
     get_tokens_metadata (w_keccak w) db
       (remdups_adj (sort (filter is_valid_address (map (checksum_address (w_keccak w)) addresses))))"

definition enrich_transfer :: "(string \<times> token_metadata) list \<Rightarrow> json \<Rightarrow> json" where
  "enrich_transfer metas t =
     (case get_str ''token_addr'' t of
        None \<Rightarrow> t
      | Some addr \<Rightarrow>
          (let amount = unwrap_or ''0'' (get_str ''amount'' t);
               (symbol, decimals) =
                 (case map_of metas addr of Some m \<Rightarrow> (k_symbol m, k_decimals m) | None \<Rightarrow> ([], 18))
           in jset ''amount_formatted'' (JStr (format_token_amount amount decimals))
                (jset ''token_decimals'' (json_int decimals)
                  (jset ''token_symbol'' (JStr symbol) t))))"

definition enrich_transfers :: "web_env \<Rightarrow> database \<Rightarrow> json list \<Rightarrow> json list" where
  "enrich_transfers w db transfers =
     map (enrich_transfer (token_metas_of w db (List.map_filter (get_str ''token_addr'') transfers))) transfers"

text \<open>\<open>format!("{n:04}")\<close>: zeros after the sign, to the width.\<close>

definition pad_number :: "nat \<Rightarrow> int \<Rightarrow> string" where
  "pad_number width n =
     (if n < 0 then ''-'' @ pad_left (width - 1) (dec_nat (nat (- n))) else pad_left width (dec_nat (nat n)))"

definition holder_share :: "int \<Rightarrow> string \<Rightarrow> string" where
  "holder_share supply balance =
     (if 0 < supply
      then (let q = div_trunc (big balance * 1000000) supply;
                scaled = (if is_i64 q then q else 0)
            in dec_int (div_trunc scaled 10000) @ ''.'' @
               pad_number 4 (scaled - div_trunc scaled 10000 * 10000))
      else [])"

definition holder_row :: "int \<Rightarrow> token_metadata \<Rightarrow> int \<Rightarrow> nat \<times> (string \<times> string) \<Rightarrow> json" where
  "holder_row supply meta offset row =
     (case row of (i, address, balance) \<Rightarrow> JObj
        [(''rank'', json_int (offset + int i + 1)), (''address'', JStr address),
         (''formatted'', JStr (format_token_amount balance (k_decimals meta))), (''balance'', JStr balance),
         (''share'', JStr (holder_share supply balance))])"

definition token_holders :: "web_env \<Rightarrow> database \<Rightarrow> string \<Rightarrow> token_metadata \<Rightarrow> nat \<Rightarrow> nat \<Rightarrow> json list" where
  "token_holders w db token meta page per_page =
     map (holder_row (big (k_total_supply meta)) meta (page_offset page per_page))
       (enumerate 0 (get_token_holders (w_keccak w) db token page per_page))"

subsection \<open>What an address is called\<close>

definition address_label :: "web_env \<Rightarrow> database \<Rightarrow> string \<Rightarrow> string option" where
  "address_label w db address =
     (let checksummed = checksum_address (w_keccak w) address in
      if \<not> is_valid_address checksummed then None
      else
        (case get_contract_name (w_zone w) checksummed of
           Some name \<Rightarrow> Some name
         | None \<Rightarrow>
             (let known_as = (case get_token_metadata (w_keccak w) db checksummed of
                                Some m \<Rightarrow> if k_symbol m \<noteq> [] then Some (k_symbol m)
                                          else if k_name m \<noteq> [] then Some (k_name m) else None
                              | None \<Rightarrow> None)
              in case known_as of
                   Some text \<Rightarrow> Some text
                 | None \<Rightarrow>
                     (case parse_virtual checksummed of
                        Some parts \<Rightarrow> Some (''Virtual '' @ va_master_id parts)
                      | None \<Rightarrow> if is_tip20_token checksummed then Some ''TIP-20'' else None))))"

text \<open>Labels by lowercase address, with the second each was resolved in.\<close>

type_synonym labels = "(string \<times> (string option \<times> nat)) list"

definition LABEL_TTL :: nat where
  "LABEL_TTL = 60"

definition MAX_LABELS :: nat where
  "MAX_LABELS = 10000"

definition cached_label :: "web_env \<Rightarrow> database \<Rightarrow> nat \<Rightarrow> string \<Rightarrow> labels \<Rightarrow> string option \<times> labels" where
  "cached_label w db now address held =
     (let key = lower address;
          fresh = opt_filter (\<lambda>(_, asked). now - asked < LABEL_TTL) (map_of held key)
      in case fresh of
           Some (label, _) \<Rightarrow> (label, held)
         | None \<Rightarrow>
             (let label = address_label w db address;
                  held' = (if MAX_LABELS \<le> length held then [] else held)
              in (label, AList.update key (label, now) held')))"

subsection \<open>Thousands and pages\<close>

definition comma_at :: "nat \<Rightarrow> nat \<times> char \<Rightarrow> string" where
  "comma_at n ic = (if 0 < fst ic \<and> (n - fst ic) mod 3 = 0 then '','' @ [snd ic] else [snd ic])"

definition commas :: "string \<Rightarrow> string" where
  "commas s = concat (map (comma_at (length s)) (enumerate 0 s))"

lemma comma_num_commas: "comma_num n = commas (dec_int n)"
  by (simp add: comma_num_def commas_def comma_at_def [abs_def] case_prod_unfold Let_def)

lemma commas_short: "length s \<le> 3 \<Longrightarrow> commas s = s"
proof -
  assume len: "length s \<le> 3"
  have "map (comma_at (length s)) (enumerate 0 s) = map (\<lambda>ic. [snd ic]) (enumerate 0 s)"
  proof (intro map_cong refl)
    fix x assume "x \<in> set (enumerate 0 s)"
    then have i: "fst x < length s" by (simp add: in_set_enumerate_eq)
    then have "fst x = 0 \<or> length s - fst x = 1 \<or> length s - fst x = 2" using len by linarith
    then show "comma_at (length s) x = [snd x]" by (auto simp: comma_at_def)
  qed
  moreover have "concat (map (\<lambda>ic. [snd ic]) (enumerate k s)) = s" for k by (induction s arbitrary: k) auto
  ultimately show ?thesis by (simp only: commas_def)
qed

lemma enumerate_append: "enumerate n (xs @ ys) = enumerate n xs @ enumerate (n + length xs) ys"
  by (induction xs arbitrary: n) auto

lemma commas_append:
  assumes "a \<noteq> []" and "length b = 3"
  shows "commas (a @ b) = commas a @ '','' @ b"
proof -
  have m: "map (comma_at (length a + 3)) (enumerate 0 a) = map (comma_at (length a)) (enumerate 0 a)"
  proof (intro map_cong refl)
    fix x assume "x \<in> set (enumerate 0 a)"
    then have "fst x < length a" by (simp add: in_set_enumerate_eq)
    then have "length a + 3 - fst x = (length a - fst x) + 3" by simp
    then have "(length a + 3 - fst x) mod 3 = (length a - fst x) mod 3" by (simp only: mod_add_self2)
    then show "comma_at (length a + 3) x = comma_at (length a) x" by (simp only: comma_at_def)
  qed
  obtain x y z where b: "b = [x, y, z]" using assms(2) by (auto simp: numeral_3_eq_3 length_Suc_conv)
  have "map (comma_at (length a + 3)) (enumerate (length a) b) = ['','' @ [x], [y], [z]]"
    using assms(1) by (simp add: b comma_at_def)
  then have "concat (map (comma_at (length a + 3)) (enumerate (length a) b)) = '','' @ b"
    by (simp add: b)
  then show ?thesis using m assms(2) by (simp only: commas_def enumerate_append map_append concat_append length_append add_0)
qed

lemma length_dec_nat_small: "n < 1000 \<Longrightarrow> length (dec_nat n) \<le> 3"
proof -
  assume n: "n < 1000"
  show ?thesis
  proof (cases "n < 10")
    case False
    then show ?thesis
    proof (cases "n < 100")
      case True
      with False show ?thesis by (simp add: radix_nat_step [of 10 n] radix_nat_small)
    next
      case c: False
      then have "10 \<le> n div 10" "n div 10 div 10 < 10" using n by auto
      with c show ?thesis by (simp add: radix_nat_step [of 10 n] radix_nat_step [of 10 "n div 10"] radix_nat_small)
    qed
  qed (simp add: radix_nat_small)
qed

lemma dec_nat_thousands:
  assumes "1000 \<le> n"
  shows "dec_nat n = dec_nat (n div 1000) @ map digit_char [n div 100 mod 10, n div 10 mod 10, n mod 10]"
proof -
  have "10 \<le> n div 10" "10 \<le> n div 10 div 10" using assms by auto
  then have "dec_nat n = dec_nat (n div 10 div 10 div 10) @
      map digit_char [n div 10 div 10 mod 10, n div 10 mod 10, n mod 10]"
    using assms by (simp add: radix_nat_step [of 10 n] radix_nat_step [of 10 "n div 10"] radix_nat_step [of 10 "n div 10 div 10"])
  then show ?thesis by (simp add: div_mult2_eq [symmetric])
qed

text \<open>Below a thousand the digits themselves; above, the thousands, a comma and the last three digits.\<close>

lemma comma_num_groups:
  "comma_num (int n) =
     (if n < 1000 then dec_nat n
      else comma_num (int (n div 1000)) @ '','' @ map digit_char [n div 100 mod 10, n div 10 mod 10, n mod 10])"
proof (cases "n < 1000")
  case True
  then show ?thesis using commas_short [OF length_dec_nat_small] by (simp add: comma_num_commas dec_int_def)
next
  case False
  then have "commas (dec_nat n) = commas (dec_nat (n div 1000)) @ '','' @ map digit_char [n div 100 mod 10, n div 10 mod 10, n mod 10]"
    unfolding dec_nat_thousands [of n, simplified not_less [symmetric], OF False] by (intro commas_append) simp_all
  then show ?thesis using False by (simp add: comma_num_commas dec_int_def)
qed

text \<open>A page is one of the pages of a listing exactly when rows are left for it, the first page always.\<close>

lemma total_pages_cover:
  assumes "0 < per_page" and "1 \<le> page" and "total' \<le> int per_page * int U32_MAX"
  shows "page \<le> total_pages total' per_page \<longleftrightarrow> page = 1 \<or> page_offset page per_page < total'"
proof -
  let ?t = "nat (max 0 total')" and ?q = "(nat (max 0 total') + per_page - 1) div per_page"
  have "?t \<le> per_page * U32_MAX" using assms(3) by (simp add: nat_le_iff max_def)
  then have "?t + per_page - 1 < per_page * (U32_MAX + 1)" using assms(1) by simp
  then have "?q < 2 ^ 32" using assms(1) by (simp add: div_less_iff_less_mult mult.commute)
  then have eq: "total_pages total' per_page = max 1 ?q" by (simp add: total_pages_def)
  have "page \<le> ?q \<longleftrightarrow> page * per_page \<le> ?t + per_page - 1" using assms(1) by (simp add: less_eq_div_iff_mult_less_eq)
  also have "\<dots> \<longleftrightarrow> (page - 1) * per_page < ?t"
    using assms(1,2) by (cases page) auto
  also have "\<dots> \<longleftrightarrow> page_offset page per_page < total'"
    by (simp add: page_offset_def zless_nat_eq_int_zless max_def flip: of_nat_mult of_nat_less_iff)
  finally show ?thesis unfolding eq using assms(2) by linarith
qed

subsection \<open>Labels stay fresh\<close>

text \<open>The label depends on the letters of the address only, not on their case.\<close>

lemma address_label_case: "lower a = lower b \<Longrightarrow> address_label w db a = address_label w db b"
proof (cases "is_valid_address (checksum_address (w_keccak w) a)")
  case True
  moreover assume "lower a = lower b"
  ultimately have "checksum_address (w_keccak w) a = checksum_address (w_keccak w) b"
    by (intro checksum_address_ignores_case(2))
  then show ?thesis by (simp only: address_label_def)
next
  case False
  moreover assume "lower a = lower b"
  ultimately show ?thesis
    using checksum_address_ignores_case(1) [of a b "w_keccak w"] by (simp add: address_label_def)
qed

text \<open>
  A server asked for labels one after another: the seconds at which it is asked, the addresses, and
  what it answers.
\<close>

fun label_run :: "web_env \<Rightarrow> (nat \<Rightarrow> database) \<Rightarrow> labels \<Rightarrow> (nat \<times> string) list \<Rightarrow> string option list \<times> labels" where
  "label_run w db_at held [] = ([], held)"
| "label_run w db_at held ((now, address) # asked) =
     (let (label, held') = cached_label w (db_at now) now address held;
          (answers, held'') = label_run w db_at held' asked
      in (label # answers, held''))"

text \<open>Every label held is what the address was called in the second it was resolved in.\<close>

definition labels_ok :: "web_env \<Rightarrow> (nat \<Rightarrow> database) \<Rightarrow> nat \<Rightarrow> labels \<Rightarrow> bool" where
  "labels_ok w db_at now held \<longleftrightarrow>
     length held \<le> MAX_LABELS \<and>
     (\<forall>key label asked. map_of held key = Some (label, asked) \<longrightarrow>
        asked \<le> now \<and> (\<forall>address. lower address = key \<longrightarrow> label = address_label w (db_at asked) address))"

text \<open>What an address is called at some time in the minute up to \<open>now\<close>.\<close>

definition recent_label :: "web_env \<Rightarrow> (nat \<Rightarrow> database) \<Rightarrow> nat \<Rightarrow> string \<Rightarrow> string option \<Rightarrow> bool" where
  "recent_label w db_at now address label \<longleftrightarrow>
     (\<exists>t\<le>now. now - t < LABEL_TTL \<and> label = address_label w (db_at t) address)"

lemma length_alist_update: "length (AList.update k v xs) = (if k \<in> fst ` set xs then length xs else Suc (length xs))"
  by (induction xs) auto

lemma cached_label_ok:
  assumes ok: "labels_ok w db_at before held" and le: "before \<le> now"
    and c: "cached_label w (db_at now) now address held = (label, held')"
  shows "recent_label w db_at now address label" and "labels_ok w db_at now held'"
proof -
  let ?fresh = "opt_filter (\<lambda>(_, asked). now - asked < LABEL_TTL) (map_of held (lower address))"
  have later: "labels_ok w db_at now held" using ok le by (fastforce simp: labels_ok_def)
  show "recent_label w db_at now address label"
  proof (cases ?fresh)
    case None
    then have "label = address_label w (db_at now) address" using c by (simp add: cached_label_def Let_def)
    then show ?thesis unfolding recent_label_def by (intro exI [of _ now]) (simp add: LABEL_TTL_def)
  next
    case (Some la)
    obtain l t where la: "la = (l, t)" by fastforce
    with Some have m: "map_of held (lower address) = Some (l, t)" and t: "now - t < LABEL_TTL" by auto
    from Some la c have "label = l" by (simp add: cached_label_def Let_def del: opt_filter_Some)
    with m t later show ?thesis unfolding recent_label_def labels_ok_def by blast
  qed
  show "labels_ok w db_at now held'"
  proof (cases ?fresh)
    case (Some la)
    then show ?thesis using c later by (cases la) (simp add: cached_label_def Let_def del: opt_filter_Some)
  next
    case None
    let ?base = "if MAX_LABELS \<le> length held then [] else held"
    have held': "held' = AList.update (lower address) (address_label w (db_at now) address, now) ?base"
      using None c by (auto simp: cached_label_def Let_def)
    have "length held' \<le> MAX_LABELS"
      unfolding held' by (simp add: length_alist_update) (simp add: MAX_LABELS_def)
    moreover have "asked \<le> now \<and> (\<forall>a. lower a = key \<longrightarrow> l = address_label w (db_at asked) a)"
      if "map_of held' key = Some (l, asked)" for key l asked
    proof (cases "key = lower address")
      case True
      then have "l = address_label w (db_at now) address" "asked = now"
        using that unfolding held' by (auto simp: update_conv')
      moreover have "address_label w (db_at now) a = address_label w (db_at now) address"
        if "lower a = key" for a
        using that True by (intro address_label_case) simp
      ultimately show ?thesis by simp
    next
      case False
      then have "map_of held key = Some (l, asked)"
        using that unfolding held' by (auto simp: update_conv' split: if_splits)
      then show ?thesis using later unfolding labels_ok_def by blast
    qed
    ultimately show ?thesis unfolding labels_ok_def by blast
  qed
qed

lemma label_run_recent:
  assumes "labels_ok w db_at before held" and "sorted (before # map fst asked)"
  shows "list_all2 (\<lambda>(now, address) label. recent_label w db_at now address label) asked
      (fst (label_run w db_at held asked))
    \<and> length (snd (label_run w db_at held asked)) \<le> MAX_LABELS"
  using assms
proof (induction asked arbitrary: before held)
  case Nil
  then show ?case by (simp add: labels_ok_def)
next
  case (Cons r asked)
  obtain now address where r: "r = (now, address)" by fastforce
  obtain label held' where c: "cached_label w (db_at now) now address held = (label, held')" by fastforce
  note ok = cached_label_ok [OF Cons.prems(1) _ c]
  have le: "before \<le> now" and s: "sorted (now # map fst asked)" using Cons.prems(2) r by auto
  show ?case using Cons.IH [OF ok(2) [OF le] s] ok(1) [OF le] r c by (auto split: prod.split)
qed

text \<open>
  C32. A label is never older than a minute, and never another address's: asked for the names of
  addresses in any order, in any spelling, beside an indexer that changes the tables, the server
  answers with what each address was called at some time in the minute before, and holds at most
  ten thousand names.
\<close>

theorem labels_are_recent:
  assumes "sorted (map fst asked)"
  shows "list_all2 (\<lambda>(now, address) label. recent_label w db_at now address label) asked
      (fst (label_run w db_at [] asked))
    \<and> length (snd (label_run w db_at [] asked)) \<le> MAX_LABELS"
  by (rule label_run_recent [of w db_at 0 "[]" asked]) (use assms in \<open>auto simp: labels_ok_def\<close>)

definition plain_env :: web_env where
  "plain_env = \<lparr> w_keccak = (\<lambda>_. replicate 32 CHR 0x00), w_codec = silent_codec, w_registry = unnamed,
     w_zone = (\<lambda>_. None), w_render = (\<lambda>_ _. None), w_commit = None, w_percent = (\<lambda>_ _ _. ''0''),
     w_error_text = (\<lambda>_. ''node failed''), w_parse = (\<lambda>_. None), w_lib = sample_codec, w_fold = lower,
     w_named = (\<lambda>_. None), w_paced = False, w_view = (\<lambda>_. False) \<rparr>"

lemma labels_are_recent_witness:
  "list_all2 (\<lambda>(now, address) label. recent_label plain_env (\<lambda>_. empty_database) now address label)
      [(5, ''0xFEEC000000000000000000000000000000000000''), (64, ''0xfeec000000000000000000000000000000000000'')]
      (fst (label_run plain_env (\<lambda>_. empty_database) []
        [(5, ''0xFEEC000000000000000000000000000000000000''), (64, ''0xfeec000000000000000000000000000000000000'')]))
    \<and> length (snd (label_run plain_env (\<lambda>_. empty_database) []
        [(5, ''0xFEEC000000000000000000000000000000000000''), (64, ''0xfeec000000000000000000000000000000000000'')]))
      \<le> MAX_LABELS"
  by (rule labels_are_recent) simp

end
