(* ===== verification/Web_Pages.thy ===== *)
theory Web_Pages
  imports Web_Base
begin

section \<open>The pages of the index and of the anchoring contract (\<open>src/web.rs\<close>)\<close>

text \<open>
  One definition per handler. A handler that asks the node under a timeout takes a boolean beside
  the node, whether the time ran out first; where it asks without one and the node never settles,
  its value is \<open>None\<close>.
\<close>

subsection \<open>Blocks\<close>

definition block_tx_json :: "web_env \<Rightarrow> (string \<times> token_metadata) list \<Rightarrow> transaction \<Rightarrow> json" where
  "block_tx_json w metas t =
     (let v = tx_json t;
          v1 = (case function_name (w_registry w) (t_input t) of Some m \<Rightarrow> jset ''method'' (JStr m) v | None \<Rightarrow> v)
      in case Option.bind (t_fee_token t) (map_of metas) of
           Some meta \<Rightarrow>
             jset ''fee_formatted'' (JStr (format_token_amount_with_symbol (t_fee_amount t) (k_decimals meta) (k_symbol meta)))
               (jset ''fee_token_meta'' (token_json meta) v1)
         | None \<Rightarrow> v1)"

definition neighbour :: "int list \<Rightarrow> int \<Rightarrow> json" where
  "neighbour present n = (if n \<in> set present then json_int n else JNull)"

definition block_page :: "web_env \<Rightarrow> database \<Rightarrow> request \<Rightarrow> string \<Rightarrow> http_answer" where
  "block_page w db rq block_id =
     (case find_block db block_id of
        None \<Rightarrow> not_found w db rq ''Block'' block_id
      | Some b \<Rightarrow>
          (let txs = get_block_transactions (w_keccak w) db (b_number b) (columns_for rq);
               metas = token_metas_of w db (List.map_filter t_fee_token txs);
               present = blocks_present db [b_number b - 1, b_number b + 1];
               ctx = page_ctx w db (JObj
                 [(''block'', block_json b), (''transactions'', JArr (map (block_tx_json w metas) txs)),
                  (''gas_pct'', JStr (block_pct w (b_gas_used b) (b_gas_limit b))),
                  (''base_fees'', JStr (dec_int (base_fees_wei (b_base_fee b) (b_gas_used b)))),
                  (''previous_block'', neighbour present (b_number b - 1)),
                  (''next_block'', neighbour present (b_number b + 1))])
           in html_or_json w rq ''block.html'' ctx))"

text \<open>
  The heights a page of blocks spans. \<open>from\<close> is any number the reader typed; the sums wrap in \<open>i64\<close>
  at its ends only, where no block is in the range either way.
\<close>

definition wrap64 :: "int \<Rightarrow> int" where
  "wrap64 i = (i + 2 ^ 63) mod 2 ^ 64 - 2 ^ 63"

definition blocks_span :: "int \<Rightarrow> int option \<Rightarrow> nat \<Rightarrow> int \<times> int" where
  "blocks_span latest_num from' page =
     (let per_page = int PER_PAGE;
          end' = (case from' of Some f \<Rightarrow> f | None \<Rightarrow> max 0 (latest_num - (int page - 1) * per_page))
      in (max 0 (wrap64 (wrap64 (end' - per_page) + 1)), end'))"

definition blocks_page :: "web_env \<Rightarrow> database \<Rightarrow> request \<Rightarrow> http_answer" where
  "blocks_page w db rq =
     (let page = page_param rq;
          from' = Option.bind (rq_query rq ''from'') parse_i64;
          latest = get_latest_block db;
          latest_num = (case latest of Some b \<Rightarrow> b_number b | None \<Rightarrow> 0);
          (start, end') = blocks_span latest_num from' page;
          listed = get_blocks_in_range db start end';
          rows = map (\<lambda>b. jset ''gas_pct'' (JStr (block_pct w (b_gas_used b) (b_gas_limit b))) (block_json b)) listed;
          number_of = (\<lambda>row. json_of_option json_int (Option.bind (Option.bind row (jget ''number'')) as_i64));
          ctx = page_ctx_for w latest (JObj
            [(''blocks'', JArr rows), (''latest_num'', json_int latest_num), (''total_blocks'', json_int (latest_num + 1)),
             (''per_page'', json_of_nat PER_PAGE), (''page'', json_of_nat page),
             (''first_num'', number_of (head_opt rows)), (''last_num'', number_of (head_opt (rev rows)))])
      in html_or_json w rq ''blocks.html'' ctx)"

subsection \<open>Transactions and tokens\<close>

text \<open>\<open>stats\<close> is what the feed last published; only stats that count nothing make the page count.\<close>

definition txs_page :: "web_env \<Rightarrow> database \<Rightarrow> json \<Rightarrow> request \<Rightarrow> http_answer" where
  "txs_page w db stats rq =
     (let page = page_param rq;
          total' = (case Option.bind (jget ''total_txns'' stats) as_i64 of Some n \<Rightarrow> n | None \<Rightarrow> get_transaction_count db);
          txs = map (tx_row w) (get_transactions (w_keccak w) db page PER_PAGE);
          ctx = page_ctx_for w (get_latest_block db) (JObj
            [(''transactions'', JArr txs), (''total_txns'', json_int total'), (''page'', json_of_nat page),
             (''per_page'', json_of_nat PER_PAGE), (''total_pages'', json_of_nat (total_pages total' PER_PAGE))])
      in html_or_json w rq ''txs.html'' ctx)"

definition receipt_page :: "string \<Rightarrow> http_answer" where
  "receipt_page tx_hash = redirect_to (''/tx/'' @ tx_hash)"

definition tokens_page :: "web_env \<Rightarrow> database \<Rightarrow> request \<Rightarrow> http_answer" where
  "tokens_page w db rq =
     (let page = page_param rq;
          tokens = get_all_tokens (w_keccak w) db page PER_PAGE;
          total' = get_token_count db;
          ctx = page_ctx w db (JObj
            [(''tokens'', JArr (map token_json tokens)), (''total'', json_int total'), (''page'', json_of_nat page),
             (''total_pages'', json_of_nat (total_pages total' PER_PAGE)), (''per_page'', json_of_nat PER_PAGE)])
      in html_or_json w rq ''tokens.html'' ctx)"

text \<open>
  A token's row, from the index unless its text is corrupt, else from the node: \<open>Inl\<close> is an answer
  already, an error page.
\<close>

definition token_row ::
  "web_env \<Rightarrow> database \<Rightarrow> int \<Rightarrow> (json \<Rightarrow> 's \<Rightarrow> reply \<times> 's) \<Rightarrow> request \<Rightarrow> string \<Rightarrow> 's
     \<Rightarrow> (http_answer + token_metadata) option" where
  "token_row w db now send rq address s =
     (let checksummed = checksum_address (w_keccak w) address in
      case opt_filter (\<lambda>m. \<not> has_control_chars (k_name m) \<and> \<not> has_control_chars (k_symbol m))
             (get_token_metadata (w_keccak w) db checksummed) of
        Some m \<Rightarrow> Some (Inr m)
      | None \<Rightarrow>
          (case fetch_token_metadata (w_keccak w) (w_paced w) send [checksummed] s of
             None \<Rightarrow> None
           | Some (Inl e, _) \<Rightarrow> Some (Inl (node_failed w db rq e))
           | Some (Inr fetched, _) \<Rightarrow>
               (let f = hd fetched in
                if m_name f = [] \<and> m_symbol f = [] then Some (Inl (not_found w db rq ''Token'' address))
                else Some (Inr \<lparr> k_address = checksummed, k_name = m_name f, k_symbol = m_symbol f,
                       k_decimals = m_decimals f, k_currency = m_currency f, k_total_supply = m_total_supply f,
                       k_logo_uri = [], k_holder_count = 0, k_created_at = now, k_updated_at = now \<rparr>))))"

definition token_page ::
  "web_env \<Rightarrow> database \<Rightarrow> int \<Rightarrow> (json \<Rightarrow> 's \<Rightarrow> reply \<times> 's) \<Rightarrow> request \<Rightarrow> string \<Rightarrow> 's \<Rightarrow> http_answer option" where
  "token_page w db now send rq address s =
     (let checksummed = checksum_address (w_keccak w) address in
      if \<not> is_valid_address checksummed then Some (invalid_address w db rq ''Token'' address)
      else
        (case token_row w db now send rq address s of
           None \<Rightarrow> None
         | Some (Inl answer) \<Rightarrow> Some answer
         | Some (Inr meta) \<Rightarrow>
             (let tab = unwrap_or ''transfers'' (rq_query rq ''tab'');
                  page = page_param rq;
                  transfers = (if tab = ''transfers'' then get_token_transfers (w_keccak w) db checksummed page PER_PAGE else []);
                  holders = k_holder_count meta;
                  transfer_count = get_token_transfer_count db checksummed;
                  holder_rows = (if tab = ''holders'' then token_holders w db checksummed meta page PER_PAGE else []);
                  pages = total_pages (if tab = ''holders'' then holders else transfer_count) PER_PAGE;
                  ctx = page_ctx w db (JObj
                    [(''token'', token_json meta), (''transfers'', JArr transfers), (''holder_rows'', JArr holder_rows),
                     (''holders'', json_int holders), (''transfer_count'', json_int transfer_count),
                     (''page'', json_of_nat page), (''total_pages'', json_of_nat pages),
                     (''per_page'', json_of_nat PER_PAGE), (''active_tab'', JStr tab)])
              in Some (html_or_json w rq ''token.html'' ctx))))"

subsection \<open>An address\<close>

text \<open>\<open>late\<close>: the five seconds ran out before the node answered.\<close>

definition contract_code :: "(json \<Rightarrow> 's \<Rightarrow> reply \<times> 's) \<Rightarrow> bool \<Rightarrow> string \<Rightarrow> 's \<Rightarrow> json \<times> 's" where
  "contract_code send late address s =
     (if late then (JNull, s)
      else case eth_get_code send address ''latest'' s of
             (Inl _, s') \<Rightarrow> (JNull, s')
           | (Inr code, s') \<Rightarrow>
               (let hex = strip_0x code in
                (if hex = [] then JNull
                 else JObj [(''hex'', JStr code), (''bytes'', json_of_nat (length hex div 2)),
                            (''is_precompile_marker'', JBool (length hex \<le> 2))], s')))"

definition proxy_implementation ::
  "web_env \<Rightarrow> (json \<Rightarrow> 's \<Rightarrow> reply \<times> 's) \<Rightarrow> bool \<Rightarrow> string \<Rightarrow> json \<Rightarrow> 's \<Rightarrow> (string \<times> string) option \<times> 's" where
  "proxy_implementation w send late address code s =
     (case Option.bind (as_str (jidx ''hex'' code)) (proxy (w_keccak w)) of
        None \<Rightarrow> (None, s)
      | Some (kind, In_Code implementation) \<Rightarrow> (Some (kind, implementation), s)
      | Some (kind, In_Slot slot) \<Rightarrow>
          if late then (None, s)
          else (case eth_get_storage_at send address slot ''latest'' s of
                  (Inl _, s') \<Rightarrow> (None, s')
                | (Inr word, s') \<Rightarrow>
                    (if length word < 40 \<or> \<not> char_boundary word (length word - 40) then (None, s')
                     else
                       (let implementation = drop (length word - 40) word in
                        (if \<exists>b\<in>set implementation. b \<noteq> CHR ''0''
                         then Some (kind, checksum_address (w_keccak w) (''0x'' @ implementation)) else None, s')))))"

definition kind_from_code :: "json \<Rightarrow> string option" where
  "kind_from_code code =
     (case as_str (jidx ''hex'' code) of
        None \<Rightarrow> None
      | Some code_text \<Rightarrow>
          (let hex = trim_start_matches ''0x'' code_text in
           if length hex = 46 \<and> starts_with ''ef0100'' hex then None
           else if jidx ''is_precompile_marker'' code = JBool True then Some ''precompile''
           else Some ''contract''))"

definition address_type ::
  "(json \<Rightarrow> 's \<Rightarrow> reply \<times> 's) \<Rightarrow> bool \<Rightarrow> string \<Rightarrow> string \<Rightarrow> bool \<Rightarrow> bool \<Rightarrow> 's \<Rightarrow> (string \<times> json) \<times> 's" where
  "address_type send late address listed token code_wanted s =
     (let kind = (if listed = ''eoa'' \<and> token then ''contract'' else listed);
          (code, s') = (if code_wanted \<or> kind = ''eoa'' then contract_code send late address s else (JNull, s))
      in ((if kind = ''eoa'' then unwrap_or kind (kind_from_code code) else kind, code), s'))"

definition function_entry :: "web_env \<Rightarrow> abi_item \<Rightarrow> json" where
  "function_entry w f =
     (let signature = signature_of (w_codec w) f in
      JObj [(''name'', JStr (item_name f)), (''signature'', JStr signature),
            (''selector'', JStr (hex_bytes (selector_of (w_keccak w) signature)))])"

definition event_entry :: "web_env \<Rightarrow> abi_item \<Rightarrow> json" where
  "event_entry w e =
     (let signature = signature_of (w_codec w) e in
      JObj [(''name'', JStr (item_name e)), (''topic0'', JStr (keccak_hex (w_keccak w) signature)),
            (''signature'', JStr signature),
            (''inputs'', JArr (map (\<lambda>i. JObj [(''type'', JStr (type_text (w_codec w) (p_kind i))),
               (''name'', JStr (p_name i)), (''indexed'', JBool (p_indexed i))]) (item_inputs e)))])"

text \<open>The stable sort by name; what a map's walk gives first among equals stays first.\<close>

definition by_name :: "json list \<Rightarrow> json list" where
  "by_name = sort_key (\<lambda>v. unwrap_or [] (as_str (jidx ''name'' v)))"

definition contract_interface :: "web_env \<Rightarrow> string \<Rightarrow> json" where
  "contract_interface w address =
     (let names = abis_for_address (w_zone w) address;
          contracts = List.map_filter (registry_contract (w_registry w)) names;
          functions = concat (map functions_of contracts)
      in JObj
        [(''abis'', JArr (map JStr names)),
         (''reads'', JArr (by_name (map (function_entry w) (filter (w_view w) functions)))),
         (''writes'', JArr (by_name (map (function_entry w) (filter (\<lambda>f. \<not> w_view w f) functions)))),
         (''events'', JArr (by_name (map (event_entry w) (concat (map events_of contracts)))))])"

definition address_info_json :: "address_info \<Rightarrow> json" where
  "address_info_json i = JObj [(''type'', JStr (info_kind i)), (''label'', json_opt (info_label i))]"

definition virtual_json :: "virtual_parts \<Rightarrow> json" where
  "virtual_json p = JObj [(''master_id'', JStr (va_master_id p)), (''user_tag'', JStr (va_user_tag p))]"

text \<open>The rows of the open tab: those of the JSON answer, and those the page draws.\<close>

definition address_rows :: "web_env \<Rightarrow> database \<Rightarrow> request \<Rightarrow> string \<Rightarrow> string \<Rightarrow> nat \<Rightarrow> json list \<times> json list" where
  "address_rows w db rq checksummed tab page =
     (if tab = ''transfers''
      then (let transfers = enrich_transfers w db (get_address_transfers (w_keccak w) db checksummed page PER_PAGE)
            in (transfers, transfers))
      else (let txs = get_address_transactions (w_keccak w) db checksummed page PER_PAGE (columns_for rq)
            in (map tx_json txs, map (tx_row w) txs)))"

definition with_proxy :: "(string \<times> string) option \<Rightarrow> json \<Rightarrow> json" where
  "with_proxy found code =
     (case found of
        Some (kind, implementation) \<Rightarrow> jset ''implementation'' (JStr implementation) (jset ''proxy'' (JStr kind) code)
      | None \<Rightarrow> code)"

definition address_page ::
  "web_env \<Rightarrow> database \<Rightarrow> (json \<Rightarrow> 's \<Rightarrow> reply \<times> 's) \<Rightarrow> bool \<Rightarrow> bool \<Rightarrow> request \<Rightarrow> string \<Rightarrow> 's \<Rightarrow> http_answer" where
  "address_page w db send late_code late_slot rq address s =
     (let checksummed = checksum_address (w_keccak w) address in
      if \<not> is_valid_address checksummed then invalid_address w db rq ''Address'' address
      else
        (let tab = unwrap_or ''transactions'' (rq_query rq ''tab'');
             page = page_param rq;
             tx_count = get_address_transaction_count db checksummed;
             transfer_count = get_address_transfer_count db checksummed;
             (transactions, html_transactions) = address_rows w db rq checksummed tab page;
             pages = (if tab = ''transfers'' then total_pages transfer_count PER_PAGE
                      else if tab = ''holdings'' then 1 else total_pages tx_count PER_PAGE);
             has_interface = (abis_for_address (w_zone w) checksummed \<noteq> []);
             interface = (if tab = ''contract'' \<or> wants_json rq then contract_interface w checksummed else JNull);
             addr_info = identify_address (w_zone w) checksummed;
             token_meta = get_token_metadata (w_keccak w) db checksummed;
             ((kind, code), s1) = address_type send late_code checksummed (info_kind addr_info) (token_meta \<noteq> None)
                                    (tab = ''contract'') s;
             code1 = (if tab = ''contract'' then code else JNull);
             (implementation, _) = proxy_implementation w send late_slot checksummed code1 s1;
             ctx = page_ctx w db (JObj
               [(''address'', JStr checksummed), (''addr_info'', address_info_json addr_info), (''type'', JStr kind),
                (''label'', json_opt (info_label addr_info)), (''interface'', interface),
                (''has_interface'', JBool has_interface), (''token_meta'', json_of_option token_json token_meta),
                (''code'', with_proxy implementation code1),
                (''virtual_address'', json_of_option virtual_json (parse_virtual checksummed)),
                (''transactions'', JArr transactions), (''html_transactions'', JArr html_transactions),
                (''holdings'', JArr (get_address_holdings (w_keccak w) db checksummed)),
                (''tx_count'', json_int tx_count), (''transfer_count'', json_int transfer_count),
                (''page'', json_of_nat page), (''total_pages'', json_of_nat pages),
                (''per_page'', json_of_nat PER_PAGE), (''active_tab'', JStr tab)])
         in html_or_json w rq ''address.html'' ctx))"

end
