(* ===== verification/Web_Anchoring.thy ===== *)
theory Web_Anchoring
  imports Web_Base Name_Search
begin

section \<open>The anchoring contract's pages and search (\<open>src/web.rs\<close>)\<close>

text \<open>
  Registries, records and their versions as pages, and what the contract and the name index know of
  a name. \<open>None\<close> is a node that never settles a request; a search gives up on it after its timeout.
\<close>

subsection \<open>Searching\<close>

record hit =
  hit_kind :: string
  hit_id :: string
  hit_url :: string
  hit_label :: string
  hit_sublabel :: string

definition registry_hit :: "anchored_registry \<Rightarrow> hit" where
  "registry_hit g =
     \<lparr> hit_kind = ''registry'', hit_id = dec_nat (g_id g), hit_url = ''/anchoring/'' @ dec_nat (g_id g),
       hit_label = g_name g, hit_sublabel = ''Registry #'' @ dec_nat (g_id g) \<rparr>"

definition record_hit :: "anchored_record \<Rightarrow> hit" where
  "record_hit r =
     \<lparr> hit_kind = ''record'', hit_id = r_checksum r,
       hit_url = ''/anchoring/'' @ dec_nat (r_registry_id r) @ ''/'' @ dec_nat (r_record_id r),
       hit_label = r_checksum r, hit_sublabel = ''Record in registry #'' @ dec_nat (r_registry_id r) \<rparr>"

text \<open>
  Both are asked at once; here the contract first. A failed name index answers nothing, a failed
  contract fails the search.
\<close>

definition anchoring_search ::
  "web_env \<Rightarrow> (json \<Rightarrow> 's \<Rightarrow> reply \<times> 's) \<Rightarrow> string \<Rightarrow> nat \<Rightarrow> 's
     \<Rightarrow> ((failure + anchored_registry list \<times> anchored_record list) \<times> 's) option" where
  "anchoring_search w send q limit s =
     (case lookup_anchored (w_lib w) (w_paced w) send q s of
        None \<Rightarrow> None
      | Some (found, s1) \<Rightarrow>
          (let (partial, s2) = matching (w_fold w) (w_named w) send q limit s1
           in Some (try_sum found (\<lambda>(named, records).
                Inr (named @ filter (\<lambda>r. \<not> (\<exists>seen\<in>set named. g_id seen = g_id r)) partial, records)), s2)))"

definition anchoring_hits ::
  "web_env \<Rightarrow> (json \<Rightarrow> 's \<Rightarrow> reply \<times> 's) \<Rightarrow> bool \<Rightarrow> string \<Rightarrow> nat \<Rightarrow> 's \<Rightarrow> hit list" where
  "anchoring_hits w send late q limit s =
     (case if late then None else anchoring_search w send q limit s of
        Some (Inr (found, records), _) \<Rightarrow> take limit (map registry_hit found @ map record_hit records)
      | _ \<Rightarrow> [])"

subsection \<open>Suggestions\<close>

definition SUGGESTION_LIMIT :: nat where
  "SUGGESTION_LIMIT = 8"

definition suggestion :: "string \<Rightarrow> string \<Rightarrow> string \<Rightarrow> string \<Rightarrow> json" where
  "suggestion kind url label sublabel = JObj
     [(''type'', JStr kind), (''url'', JStr url), (''label'', JStr label), (''sublabel'', JStr sublabel)]"

definition hit_suggestion :: "hit \<Rightarrow> json" where
  "hit_suggestion h = suggestion (hit_kind h) (hit_url h) (hit_label h) (hit_sublabel h)"

definition suggest_response :: "string \<Rightarrow> json list \<Rightarrow> http_answer" where
  "suggest_response query results =
     \<lparr> h_status = 200, h_headers = [(''cache-control'', ''private, max-age=15'')],
       h_body = Json_Body (JObj [(''query'', JStr query), (''results'', JArr results)]) \<rparr>"

definition parse_u64_text :: "string \<Rightarrow> nat option" where
  "parse_u64_text s = u64_from_str_radix 10 s"

definition anchoring_suggest ::
  "web_env \<Rightarrow> (json \<Rightarrow> 's \<Rightarrow> reply \<times> 's) \<Rightarrow> bool \<Rightarrow> request \<Rightarrow> 's \<Rightarrow> http_answer" where
  "anchoring_suggest w send late rq s =
     (let raw = unwrap_or [] (rq_query rq ''q'');
          q = trim raw;
          hits =
            (if q = [] then []
             else if all_digits q
             then (case if late then None
                        else find_registry (w_keccak w) (w_lib w) (w_paced w) send (unwrap_or 0 (parse_u64_text q)) s of
                     Some (Inr (Some (g, _)), _) \<Rightarrow> [registry_hit g]
                   | _ \<Rightarrow> [])
             else anchoring_hits w send late q SUGGESTION_LIMIT s)
      in suggest_response raw (map hit_suggestion hits))"

subsection \<open>Pages\<close>

definition anchoring_page ::
  "web_env \<Rightarrow> database \<Rightarrow> (json \<Rightarrow> 's \<Rightarrow> reply \<times> 's) \<Rightarrow> request \<Rightarrow> 's \<Rightarrow> http_answer option" where
  "anchoring_page w db send rq s =
     (let q = trim (unwrap_or [] (rq_query rq ''q'')) in
      if q \<noteq> [] \<and> all_digits q \<and> \<not> wants_json rq then Some (redirect_to (''/anchoring/'' @ q))
      else
        (let page = page_param rq;
             found =
               (if q = []
                then map_option (\<lambda>(r, _). try_sum r (\<lambda>(listed, total'). Inr
                       [(''registries'', JArr (map registry_json listed)), (''total'', json_of_nat total'),
                        (''page'', json_of_nat page),
                        (''total_pages'', json_of_nat (total_pages (i64_of_u64 total') PER_PAGE))]))
                     (registries (w_lib w) (w_paced w) send page PER_PAGE s)
                else map_option (\<lambda>(r, _). try_sum r (\<lambda>(listed, records). Inr
                       [(''registries'', JArr (map registry_json listed)), (''records'', JArr (map record_json records))]))
                     (anchoring_search w send q PER_PAGE s))
         in map_option (\<lambda>r. case r of
              Inl e \<Rightarrow> node_failed w db rq e
            | Inr extra \<Rightarrow>
                html_or_json w rq ''anchoring.html''
                  (page_ctx w db (jset ''q'' (JStr q) (jset ''address'' (JStr ANCHORING_ADDRESS) (JObj extra))))) found))"

definition anchoring_registry_page ::
  "web_env \<Rightarrow> database \<Rightarrow> (json \<Rightarrow> 's \<Rightarrow> reply \<times> 's) \<Rightarrow> request \<Rightarrow> string \<Rightarrow> 's \<Rightarrow> http_answer option" where
  "anchoring_registry_page w db send rq registry_id s =
     (case parse_u64_text registry_id of
        None \<Rightarrow> Some (not_found w db rq ''Registry'' registry_id)
      | Some id' \<Rightarrow>
          (let page = page_param rq in
           map_option (\<lambda>(r, _). case r of
               Inl e \<Rightarrow> node_failed w db rq e
             | Inr None \<Rightarrow> not_found w db rq ''Registry'' registry_id
             | Inr (Some (g, records, total')) \<Rightarrow>
                 (let events = get_anchoring_events (w_keccak w) db (i64_of_u64 id') (PER_PAGE + 1);
                      ctx = page_ctx w db (JObj
                        [(''registry'', registry_json g), (''records'', JArr (map record_json records)),
                         (''total'', json_of_nat total'), (''page'', json_of_nat page),
                         (''total_pages'', json_of_nat (total_pages (i64_of_u64 total') PER_PAGE)),
                         (''events'', JArr (map anchoring_event_json (take PER_PAGE events))),
                         (''events_more'', JBool (length events > PER_PAGE))])
                  in html_or_json w rq ''anchoring_registry.html'' ctx))
             (registry_page (w_keccak w) (w_lib w) (w_paced w) send id' page PER_PAGE s)))"

definition anchoring_record_page ::
  "web_env \<Rightarrow> database \<Rightarrow> (json \<Rightarrow> 's \<Rightarrow> reply \<times> 's) \<Rightarrow> request \<Rightarrow> string \<Rightarrow> string \<Rightarrow> 's \<Rightarrow> http_answer option" where
  "anchoring_record_page w db send rq registry_id record_id s =
     (let id' = registry_id @ ''/'' @ record_id in
      case (parse_u64_text registry_id, parse_u64_text record_id) of
        (Some g, Some r) \<Rightarrow>
          (let page = page_param rq in
           map_option (\<lambda>(found, _). case found of
               Inl e \<Rightarrow> node_failed w db rq e
             | Inr None \<Rightarrow> not_found w db rq ''Record'' id'
             | Inr (Some (newest, versions)) \<Rightarrow>
                 html_or_json w rq ''anchoring_record.html'' (page_ctx w db (JObj
                   [(''latest'', record_json newest), (''versions'', JArr (map record_json versions)),
                    (''page'', json_of_nat page),
                    (''total_pages'', json_of_nat (total_pages (i64_of_u64 (r_index newest)) PER_PAGE))])))
             (anchored_versions (w_keccak w) (w_lib w) (w_paced w) send g r page PER_PAGE s))
      | _ \<Rightarrow> Some (not_found w db rq ''Record'' id'))"

end
