(* ===== verification/Raw_Tx.thy ===== *)
theory Raw_Tx
  imports Decoder
begin

section \<open>Raw transactions (\<open>src/decoder.rs\<close>)\<close>

text \<open>
  The fields of a transaction that are stored nowhere but in its raw bytes. The decoding of the
  envelope is the tempo primitives', the parameter \<open>decode_2718\<close>, whose answer is the datatype here;
  an address prints as \<open>address_text\<close>. A fee is a \<open>u128\<close>; \<open>as i64\<close> keeps the low 64 bits.
\<close>

datatype tx_kind = Call_Kind bytes | Create_Kind

record raw_call =
  rw_to :: tx_kind
  rw_value :: nat
  rw_input :: bytes

text \<open>What every envelope answers through \<open>alloy_consensus::Transaction\<close>.\<close>

record common_tx =
  cm_gas_limit :: nat
  cm_max_fee_per_gas :: nat
  cm_max_priority_fee_per_gas :: "nat option"
  cm_nonce :: nat
  cm_chain_id :: "nat option"

text \<open>The typed transaction of the chain carries a nonce key, a signature type and its calls.\<close>

datatype envelope =
    AA_Tx nat string "raw_call list" common_tx
  | Legacy_Tx common_tx | Eip2930_Tx common_tx | Eip1559_Tx common_tx | Eip7702_Tx common_tx

record parsed_tx =
  x_gas_limit :: "int option"
  x_max_fee_per_gas :: "int option"
  x_max_priority_fee_per_gas :: "int option"
  x_nonce :: "int option"
  x_nonce_key :: "string option"
  x_chain_id :: "int option"
  x_tx_type :: "int option"
  x_sig_type :: "string option"
  x_calls :: "json list"

definition unparsed :: parsed_tx where
  "unparsed = \<lparr> x_gas_limit = None, x_max_fee_per_gas = None, x_max_priority_fee_per_gas = None, x_nonce = None,
     x_nonce_key = None, x_chain_id = None, x_tx_type = None, x_sig_type = None, x_calls = [] \<rparr>"

definition i64_of_u128 :: "nat \<Rightarrow> int" where
  "i64_of_u128 n = i64_of_u64 (n mod 2 ^ 64)"

definition raw_call_json :: "(bytes \<Rightarrow> string) \<Rightarrow> raw_call \<Rightarrow> json" where
  "raw_call_json address_text c = JObj
     [(''depth'', JNum (PosInt 0)), (''type'', JStr ''CALL''),
      (''to'', JStr (case rw_to c of Call_Kind a \<Rightarrow> address_text a | Create_Kind \<Rightarrow> [])),
      (''value'', JStr (dec_nat (rw_value c))), (''data'', JStr (hex_bytes (rw_input c))), (''decoded'', JNull),
      (''gas'', JStr ''0''), (''gas_used'', JStr ''0''), (''children'', JArr [])]"

definition common_of :: "envelope \<Rightarrow> common_tx" where
  "common_of e = (case e of
     AA_Tx _ _ _ c \<Rightarrow> c | Legacy_Tx c \<Rightarrow> c | Eip2930_Tx c \<Rightarrow> c | Eip1559_Tx c \<Rightarrow> c | Eip7702_Tx c \<Rightarrow> c)"

definition type_of_envelope :: "envelope \<Rightarrow> int" where
  "type_of_envelope e = (case e of
     AA_Tx _ _ _ _ \<Rightarrow> 118 | Legacy_Tx _ \<Rightarrow> 0 | Eip2930_Tx _ \<Rightarrow> 1 | Eip1559_Tx _ \<Rightarrow> 2 | Eip7702_Tx _ \<Rightarrow> 4)"

definition parse_raw_tx :: "(bytes \<Rightarrow> envelope option) \<Rightarrow> (bytes \<Rightarrow> string) \<Rightarrow> string \<Rightarrow> parsed_tx" where
  "parse_raw_tx decode_2718 address_text raw =
     (case Option.bind (hex_decode (strip_0x raw)) decode_2718 of
        None \<Rightarrow> unparsed
      | Some e \<Rightarrow>
          (let c = common_of e;
               parsed = unparsed
                 \<lparr> x_tx_type := Some (type_of_envelope e),
                   x_gas_limit := Some (i64_of_u64 (cm_gas_limit c)),
                   x_max_fee_per_gas := Some (i64_of_u128 (cm_max_fee_per_gas c)),
                   x_max_priority_fee_per_gas := map_option i64_of_u128 (cm_max_priority_fee_per_gas c),
                   x_nonce := Some (i64_of_u64 (cm_nonce c)),
                   x_chain_id := map_option i64_of_u64 (cm_chain_id c) \<rparr>
           in case e of
                AA_Tx nonce_key sig_type calls _ \<Rightarrow>
                  parsed\<lparr> x_nonce_key := Some (dec_nat nonce_key), x_sig_type := Some sig_type,
                          x_calls := map (raw_call_json address_text) calls \<rparr>
              | _ \<Rightarrow> parsed))"

text \<open>
  Only the chain's own envelope makes calls, and each of its calls is at the top level, so a
  transaction's call tree over them is flat and in order.
\<close>

lemma parsed_calls_top_level:
  "c \<in> set (x_calls (parse_raw_tx decode_2718 address_text raw)) \<Longrightarrow>
     Option.bind (jget ''depth'' c) as_i64 = Some 0 \<and> jget ''status'' c = None \<and> jget ''error'' c = None"
  by (auto simp: parse_raw_tx_def unparsed_def raw_call_json_def json_access Let_def split: option.splits envelope.splits)

end
