(* ===== verification/Web_Tx.thy ===== *)
theory Web_Tx
  imports Web_Base Raw_Tx Signatures Summary Traces
begin

section \<open>The page of a transaction (\<open>src/web.rs\<close>)\<close>

text \<open>
  The call tree and where it comes from, what each call did, what the gas cost, the names the
  signature directory gives, and the page over them. The node and the directory share one world.
  \<open>late\<close> is the trace's timeout. In a handler's result \<open>None\<close> is a panic, of a text cut inside a
  character, or a request that never settles.
\<close>

subsection \<open>Descriptors\<close>

definition tx_extras ::
  "transaction \<Rightarrow> parsed_tx \<Rightarrow> json option \<Rightarrow> string option \<times> string option \<times> string option" where
  "tx_extras tx parsed receipt =
     (let fee_payer = opt_filter (\<lambda>s. s \<noteq> []) (Option.bind receipt (get_str ''feePayer''));
          fail_reason =
            (if t_status tx = 0
             then Option.bind receipt (\<lambda>r.
                    or_else (get_str ''error'' r) (or_else (get_str ''revertReason'' r) (get_str ''outcome'' r)))
             else None)
      in (fee_payer, x_sig_type parsed, fail_reason))"

subsection \<open>Replaying the calls\<close>

definition nonempty_to :: "json \<Rightarrow> bool" where
  "nonempty_to call \<longleftrightarrow> unwrap_or [] (get_str ''to'' call) \<noteq> []"

definition replay_call :: "transaction \<Rightarrow> parsed_tx \<Rightarrow> json \<Rightarrow> rpc_call option" where
  "replay_call tx parsed call =
     (case get_str ''to'' call of
        None \<Rightarrow> None
      | Some to' \<Rightarrow>
          if to' = [] then None
          else
            (let data = unwrap_or ''0x'' (or_else (opt_filter (\<lambda>s. s \<noteq> []) (get_str ''data'' call)) (get_str ''input'' call))
             in Some (''eth_call'', JArr
                  [JObj [(''from'', JStr (t_from_addr tx)), (''to'', JStr to'), (''data'', JStr data),
                         (''gas'', JStr (''0x'' @ hex_nat (nat (max 0 (unwrap_or 0 (x_gas_limit parsed))))))],
                   JStr (''0x'' @ hex_nat (nat (max 0 (t_block_number tx))))])))"

definition outcome_of :: "rpc_error + json \<Rightarrow> string option" where
  "outcome_of r = (case r of Inr _ \<Rightarrow> None | Inl e \<Rightarrow> Some (err_message e))"

definition replay_tx_calls ::
  "bool \<Rightarrow> (json \<Rightarrow> 's \<Rightarrow> reply \<times> 's) \<Rightarrow> transaction \<Rightarrow> parsed_tx \<Rightarrow> 's \<Rightarrow> (string option list \<times> 's) option" where
  "replay_tx_calls paced send tx parsed s =
     (if x_calls parsed = [] then Some ([], s)
      else case batch_call paced send (List.map_filter (replay_call tx parsed) (x_calls parsed)) s of
             None \<Rightarrow> None
           | Some (Inl _, s') \<Rightarrow> Some ([], s')
           | Some (Inr results, s') \<Rightarrow> Some (map outcome_of results, s'))"

text \<open>Every outcome goes to the next top-level call with a destination; one that failed is the last that ran.\<close>

definition top_level :: "json \<Rightarrow> bool" where
  "top_level call \<longleftrightarrow> Option.bind (jget ''depth'' call) as_i64 = Some 0"

fun apply_replay_outcomes :: "json list \<Rightarrow> string option list \<Rightarrow> json list" where
  "apply_replay_outcomes [] outcomes = []"
| "apply_replay_outcomes (call # calls) outcomes =
     (if \<not> top_level call \<or> \<not> nonempty_to call then call # apply_replay_outcomes calls outcomes
      else case outcomes of
             [] \<Rightarrow> call # calls
           | Some err # _ \<Rightarrow> jset ''error'' (JStr err) (jset ''status'' (JStr ''failed'') call) # calls
           | None # rest \<Rightarrow> jset ''status'' (JStr ''success'') call # apply_replay_outcomes calls rest)"

definition call_error :: "json \<Rightarrow> string option" where
  "call_error call = get_str ''error'' call"

definition find_map :: "('a \<Rightarrow> 'b option) \<Rightarrow> 'a list \<Rightarrow> 'b option" where
  "find_map f xs = head_opt (List.map_filter f xs)"

text \<open>The first call, when nothing says what it did, mirrors the transaction.\<close>

definition mirror_first :: "transaction \<Rightarrow> string option \<Rightarrow> json list \<Rightarrow> json list" where
  "mirror_first tx fail_reason calls =
     (case calls of
        [] \<Rightarrow> []
      | first # rest \<Rightarrow>
          if jget ''status'' first \<noteq> None then calls
          else
            (let marked = jset ''status'' (JStr (if t_status tx = 1 then ''success'' else ''failed'')) first
             in (case fail_reason of
                   Some reason \<Rightarrow> if t_status tx = 0 then jset ''error'' (JStr reason) marked else marked
                 | None \<Rightarrow> marked) # rest))"

definition resolve_call_statuses ::
  "bool \<Rightarrow> (json \<Rightarrow> 's \<Rightarrow> reply \<times> 's) \<Rightarrow> transaction \<Rightarrow> parsed_tx \<Rightarrow> json list \<Rightarrow> string option \<Rightarrow> 's
     \<Rightarrow> ((string option \<times> json list) \<times> 's) option" where
  "resolve_call_statuses paced send tx parsed calls fail_reason s =
     (if t_status tx = 0 then
        (case or_else fail_reason (find_map call_error calls) of
           Some reason \<Rightarrow> Some ((Some reason, mirror_first tx (Some reason) calls), s)
         | None \<Rightarrow>
             (case replay_tx_calls paced send tx parsed s of
                None \<Rightarrow> None
              | Some (outcomes, s') \<Rightarrow>
                  (let reason = find_map id outcomes
                   in Some ((reason, mirror_first tx reason (apply_replay_outcomes calls outcomes)), s'))))
      else
        (let calls1 = (if length (filter top_level calls) = 1
                       then (case calls of [] \<Rightarrow> [] | first # rest \<Rightarrow> jset ''status'' (JStr ''success'') first # rest)
                       else calls)
         in Some ((fail_reason, mirror_first tx fail_reason calls1), s)))"

subsection \<open>Reverts\<close>

definition failed :: "json \<Rightarrow> bool" where
  "failed call \<longleftrightarrow> get_str ''status'' call = Some ''failed''"

definition call_revert_data :: "json \<Rightarrow> string option" where
  "call_revert_data call =
     or_else (opt_filter (\<lambda>s. length s > 2 \<and> starts_with ''0x'' s) (get_str ''output'' call))
       (Option.bind (get_str ''error'' call) revert_data_in)"

definition decode_call_revert :: "web_env \<Rightarrow> json \<Rightarrow> json" where
  "decode_call_revert w call =
     (if \<not> failed call then call
      else case Option.bind (call_revert_data call) (decode_revert (w_keccak w) (w_codec w) (w_registry w)) of
             None \<Rightarrow> call
           | Some revert \<Rightarrow>
               jset ''revert'' (JObj
                 [(''name'', JStr (dx_name revert)), (''signature'', JStr (dx_signature revert)),
                  (''text'', JStr (unwrap_or (call_form revert) (error_reason revert))),
                  (''params'', JArr (map param_json (dx_params revert)))]) call)"

definition decode_call_reverts :: "web_env \<Rightarrow> json list \<Rightarrow> json list" where
  "decode_call_reverts w = map (decode_call_revert w)"

text \<open>\<open>max_by_key\<close>: the last of the greatest.\<close>

fun last_max :: "('a \<Rightarrow> int) \<Rightarrow> 'a list \<Rightarrow> 'a option" where
  "last_max f [] = None"
| "last_max f (x # xs) =
     (case last_max f xs of None \<Rightarrow> Some x | Some y \<Rightarrow> if f x \<le> f y then Some y else Some x)"

definition call_depth :: "json \<Rightarrow> int" where
  "call_depth call = unwrap_or 0 (Option.bind (jget ''depth'' call) as_i64)"

definition failure_of :: "web_env \<Rightarrow> json list \<Rightarrow> string option \<Rightarrow> tx_failure option" where
  "failure_of w calls reason =
     (let failure = no_failure\<lparr>fl_reason := reason\<rparr> in
      case last_max call_depth (filter failed calls) of
        None \<Rightarrow> Some failure
      | Some call \<Rightarrow>
          (let failure1 = failure
                 \<lparr> fl_revert_data := call_revert_data call,
                   fl_reason := or_else reason (call_error call),
                   fl_function := Option.bind (jget ''decoded'' call) (get_str ''name'') \<rparr>
           in case get_str ''to'' call of
                None \<Rightarrow> Some failure1
              | Some to' \<Rightarrow>
                  (let c = checksum_address (w_keccak w) to'
                   in map_option (\<lambda>shown. failure1
                          \<lparr> fl_contract := Some shown, fl_token := (if is_tip20_token c then Some c else None) \<rparr>)
                        (case get_contract_name (w_zone w) c of Some name \<Rightarrow> Some name | None \<Rightarrow> truncate_hash c 4 4))))"

subsection \<open>Names from the directory\<close>

definition unnamed_selector :: "json \<Rightarrow> string option" where
  "unnamed_selector call =
     Option.bind (jget ''decoded'' call)
       (\<lambda>decoded. if jget ''name'' decoded = Some JNull then get_str ''selector'' decoded else None)"

definition name_call_from :: "web_env \<Rightarrow> (string \<times> string) list \<Rightarrow> json \<Rightarrow> json" where
  "name_call_from w names call =
     (case Option.bind (Option.bind (jget ''decoded'' call) (get_str ''selector'')) (\<lambda>x. map_of names (lower x)) of
        None \<Rightarrow> call
      | Some signature \<Rightarrow>
          (case decode_with_signature (w_keccak w) (w_codec w) (unwrap_or ''0x'' (get_str ''data'' call)) signature of
             None \<Rightarrow> call
           | Some decoded \<Rightarrow> jset ''decoded'' (jset ''source'' (JStr ''signature directory'') (call_json decoded)) call))"

definition name_unknown_calls ::
  "web_env \<Rightarrow> 's directory \<Rightarrow> settings \<Rightarrow> int \<Rightarrow> signature_cache \<Rightarrow> json list \<Rightarrow> 's \<Rightarrow> (json list \<times> signature_cache) \<times> 's" where
  "name_unknown_calls w directory cfg now held calls s =
     (let wanted_selectors = List.map_filter unnamed_selector calls in
      if wanted_selectors = [] then ((calls, held), s)
      else case resolve (w_keccak w) directory cfg now held wanted_selectors s of
             ((names, held'), s') \<Rightarrow>
               ((if names = [] then calls else map (name_call_from w names) calls, held'), s'))"

subsection \<open>Tokens\<close>

definition tokens_mentioned :: "decoded_event \<Rightarrow> string list" where
  "tokens_mentioned e =
     de_contract e # map dp_value (filter (\<lambda>p. dp_ty p = ''address'' \<and> is_tip20_token (dp_value p)) (de_params e))"

definition token_display_map :: "(string \<times> token_metadata) list \<Rightarrow> tokens" where
  "token_display_map metas =
     map_of (rev (map (\<lambda>(address, m). (lower address, \<lparr>td_symbol = k_symbol m, td_decimals = k_decimals m\<rparr>)) metas))"

text \<open>A sign and the digits after it.\<close>

definition split_sign :: "string \<Rightarrow> string \<times> string" where
  "split_sign raw =
     (case strip_prefix ''+'' raw of
        Some a \<Rightarrow> (''+'', a)
      | None \<Rightarrow> (case strip_prefix ''-'' raw of Some a \<Rightarrow> (''-'', a) | None \<Rightarrow> ([], raw)))"

definition or_insert_key :: "string \<Rightarrow> json \<Rightarrow> (string \<times> json) list \<Rightarrow> (string \<times> json) list" where
  "or_insert_key k v row = (if map_of row k = None then AList.update k v row else row)"

definition enrich_balance_change :: "(string \<times> token_metadata) list \<Rightarrow> json \<Rightarrow> json" where
  "enrich_balance_change metas change =
     (case change of
        JObj row \<Rightarrow>
          (let raw = unwrap_or ''0'' (get_str ''change'' change);
               unformatted = unwrap_or (JStr []) (jget ''change'' change);
               row1 =
                 (case Option.bind (get_str ''token'' change) (map_of metas) of
                    Some m \<Rightarrow>
                      (let (sign, amount) = split_sign raw
                       in AList.update ''formatted'' (JStr (sign @ format_token_amount amount (k_decimals m)))
                            (AList.update ''symbol'' (JStr (k_symbol m)) row))
                  | None \<Rightarrow> row);
               row2 = AList.update ''positive'' (JBool (starts_with ''+'' raw)) row1
           in JObj (or_insert_key ''formatted'' unformatted (or_insert_key ''symbol'' (JStr []) row2)))
      | _ \<Rightarrow> change)"

subsection \<open>What the gas cost\<close>

definition fee_breakdown :: "transaction \<Rightarrow> string \<Rightarrow> int \<Rightarrow> int \<Rightarrow> token_metadata option \<Rightarrow> json" where
  "fee_breakdown tx base_fee gas_used gas_price fee_token_meta =
     (let total' = max 0 gas_price * max 0 gas_used;
          base = base_fees_wei base_fee gas_used;
          priority = (if total' > base then total' - base else 0);
          charged = map_option (\<lambda>m. format_token_amount_with_symbol (t_fee_amount tx) (k_decimals m) (k_symbol m)) fee_token_meta
      in JObj
        [(''gas_used'', json_int gas_used), (''gas_price'', json_int gas_price), (''total_wei'', JStr (dec_int total')),
         (''base_wei'', JStr (dec_int base)), (''priority_wei'', JStr (dec_int priority)), (''charged'', json_opt charged),
         (''has_charge'', JBool (t_fee_amount tx \<noteq> ''0'' \<and> t_fee_token tx \<noteq> None))])"

definition method_id_of :: "parsed_tx \<Rightarrow> string" where
  "method_id_of parsed =
     (case opt_filter (\<lambda>h. length h \<ge> 8)
             (Option.bind (Option.bind (head_opt (x_calls parsed)) (get_str ''data'')) (strip_prefix ''0x'')) of
        Some h \<Rightarrow> ''0x'' @ take 8 h
      | None \<Rightarrow> ''0x'')"

text \<open>\<open>format!("{:02x}")\<close> of a type, which is never negative.\<close>

definition hex2 :: "int \<Rightarrow> string" where
  "hex2 n = pad_left 2 (hex_nat (nat n))"

definition gas_and_fee_ctx ::
  "web_env \<Rightarrow> transaction \<Rightarrow> string \<Rightarrow> parsed_tx \<Rightarrow> token_metadata option \<Rightarrow> json option \<Rightarrow> json" where
  "gas_and_fee_ctx w tx base_fee parsed fee_token_meta receipt =
     (let gas_price = (case Option.bind receipt (jget ''effectiveGasPrice'') of Some v \<Rightarrow> parse_int_any v | None \<Rightarrow> 0);
          gas_used = t_gas_used tx;
          gas_limit = unwrap_or 0 (x_gas_limit parsed);
          tx_type = unwrap_or 118 (x_tx_type parsed)
      in JObj
        [(''gas_price'', json_int gas_price), (''gas_used'', json_int gas_used), (''gas_limit'', json_int gas_limit),
         (''gas_pct'', JStr (if 0 < gas_limit then w_percent w 2 gas_used gas_limit else [])),
         (''max_fee'', json_int (unwrap_or 0 (x_max_fee_per_gas parsed))),
         (''max_priority'', json_int (unwrap_or 0 (x_max_priority_fee_per_gas parsed))),
         (''base_fee'', JStr base_fee), (''tx_type'', json_int tx_type), (''tx_type_hex'', JStr (hex2 tx_type)),
         (''nonce'', json_int (unwrap_or 0 (x_nonce parsed))), (''nonce_key'', json_opt (x_nonce_key parsed)),
         (''method_id'', JStr (method_id_of parsed)), (''fee_token'', json_opt (t_fee_token tx)),
         (''fee_amount'', JStr (t_fee_amount tx)),
         (''fee_breakdown'', fee_breakdown tx base_fee gas_used gas_price fee_token_meta),
         (''fee_token_meta'', json_of_option token_json fee_token_meta)])"

subsection \<open>Traces, asked for once\<close>

text \<open>\<open>TRACES\<close> and \<open>TRACING_UNAVAILABLE\<close>, of the process.\<close>

record trace_cache =
  tc_unavailable :: bool
  tc_traces :: "(string \<times> json list) list"

definition MAX_TRACES :: nat where
  "MAX_TRACES = 256"

definition is_method_unsupported :: "web_env \<Rightarrow> failure \<Rightarrow> bool" where
  "is_method_unsupported w err =
     (case err of
        Other_Error \<Rightarrow> False
      | Rpc_Error e \<Rightarrow>
          (let message = w_fold w (err_message e)
           in err_code e = - 32601 \<or> contains message ''method not found'' \<or> contains message ''does not exist''
              \<or> contains message ''not available''))"

definition fetch_missing_trace ::
  "web_env \<Rightarrow> (json \<Rightarrow> 's \<Rightarrow> reply \<times> 's) \<Rightarrow> bool \<Rightarrow> string \<Rightarrow> trace_cache \<Rightarrow> 's
     \<Rightarrow> (json list option \<times> trace_cache) \<times> 's" where
  "fetch_missing_trace w send late hash held s =
     (let cached = map_of (tc_traces held) hash in
      if cached \<noteq> None \<or> tc_unavailable held then ((cached, held), s)
      else if late then ((None, held), s)
      else case try_debug_trace_transaction send hash s of
             (Inl e, s') \<Rightarrow> ((None, if is_method_unsupported w e then held\<lparr>tc_unavailable := True\<rparr> else held), s')
           | (Inr raw, s') \<Rightarrow>
               (let flat = flatten_trace (w_keccak w) (w_codec w) (w_registry w) raw in
                if flat = [] then ((None, held), s')
                else
                  (let held' = (if MAX_TRACES \<le> length (tc_traces held) then [] else tc_traces held)
                   in ((Some flat, held\<lparr>tc_traces := AList.update hash flat held'\<rparr>), s'))))"

definition top_level_call :: "web_env \<Rightarrow> transaction \<Rightarrow> json" where
  "top_level_call w tx = JObj
     [(''depth'', JNum (PosInt 0)), (''type'', JStr ''CALL''), (''to'', json_opt (t_to_addr tx)),
      (''from'', JStr (t_from_addr tx)), (''data'', JStr (t_input tx)),
      (''decoded'', decoded_json (decode_function_call (w_keccak w) (w_codec w) (w_registry w) (t_input tx))),
      (''gas'', JStr ''0''), (''gas_used'', JStr ''0''), (''children'', JArr [])]"

subsection \<open>The page\<close>

definition known_json :: "known_event \<Rightarrow> json" where
  "known_json e = JObj
     [(''kind'', JStr (ke_kind e)), (''action'', JStr (ke_action e)), (''headline'', JStr (ke_headline e)),
      (''note'', json_opt (ke_note e)),
      (''details'', JArr (map (\<lambda>(label, value). JArr [JStr label, JStr value]) (ke_details e))),
      (''from'', json_opt (ke_from e)), (''to'', json_opt (ke_to e)), (''accounts'', JArr (map JStr (ke_accounts e))),
      (''is_fee'', JBool (ke_is_fee e)), (''log_index'', json_of_nat (ke_log_index e))]"

definition summary_json :: "tx_summary \<Rightarrow> json" where
  "summary_json u = JObj
     [(''tone'', JStr (su_tone u)), (''headline'', JStr (su_headline u)), (''accounts'', JArr (map JStr (su_accounts u))),
      (''details'', JArr (map JStr (su_details u))), (''error'', json_opt (su_error u)),
      (''raw_reason'', json_opt (su_raw_reason u))]"

definition event_json :: "decoded_event \<Rightarrow> json" where
  "event_json e = JObj
     [(''name'', json_opt (de_name e)), (''signature'', json_opt (de_signature e)), (''contract'', JStr (de_contract e)),
      (''params'', JArr (map param_json (de_params e))), (''topic0'', JStr (de_topic0 e)),
      (''log_index'', json_opt (de_log_index e)), (''transaction_hash'', json_opt (de_transaction_hash e))]"

definition told_event_json :: "known_event list \<Rightarrow> nat \<times> decoded_event \<Rightarrow> json" where
  "told_event_json known ie =
     (case List.find (\<lambda>k. ke_log_index k = fst ie) known of
        Some said \<Rightarrow> jset ''known'' (known_json said) (event_json (snd ie))
      | None \<Rightarrow> event_json (snd ie))"

definition indent_call :: "json \<Rightarrow> json" where
  "indent_call call = jset ''indent'' (json_int (call_depth call * 20)) call"

text \<open>The calls to show: of the trace, of the transaction, or the one the transaction itself makes.\<close>

definition shown_calls :: "web_env \<Rightarrow> transaction \<Rightarrow> parsed_tx \<Rightarrow> json list option \<Rightarrow> json list" where
  "shown_calls w tx parsed trace =
     (let calls = extract_calls (w_keccak w) (w_codec w) (w_registry w) tx (x_calls parsed) (unwrap_or [] trace)
      in if calls = [] then [top_level_call w tx] else calls)"

text \<open>The destination, from the receipt where the transaction has none of its own.\<close>

definition with_destination :: "json option \<Rightarrow> transaction \<Rightarrow> transaction" where
  "with_destination receipt tx =
     (if t_to_addr tx = None then tx\<lparr>t_to_addr := Option.bind receipt (get_str ''to'')\<rparr> else tx)"

definition receipt_events :: "web_env \<Rightarrow> json option \<Rightarrow> decoded_event list" where
  "receipt_events w receipt =
     List.map_filter (decode_event (w_keccak w) (w_codec w) (w_registry w))
       (unwrap_or [] (Option.bind receipt (get_array ''logs'')))"

definition tx_method :: "web_env \<Rightarrow> transaction \<Rightarrow> json list \<Rightarrow> string option" where
  "tx_method w tx calls =
     or_else (function_name (w_registry w) (t_input tx))
       (Option.bind (Option.bind (head_opt calls) (get_str ''data'')) (function_name (w_registry w)))"

text \<open>What the process keeps between views.\<close>

record tx_caches =
  tx_traces :: trace_cache
  tx_signatures :: signature_cache

text \<open>What the page shows of a stored transaction, and what the process has learnt building it.\<close>

definition tx_context ::
  "web_env \<Rightarrow> (bytes \<Rightarrow> envelope option) \<Rightarrow> (bytes \<Rightarrow> string) \<Rightarrow> settings \<Rightarrow> int \<Rightarrow> database
     \<Rightarrow> (json \<Rightarrow> 's \<Rightarrow> reply \<times> 's) \<Rightarrow> 's directory \<Rightarrow> bool \<Rightarrow> request \<Rightarrow> transaction \<Rightarrow> tx_caches \<Rightarrow> 's
     \<Rightarrow> (json \<times> tx_caches) option" where
  "tx_context w decode_2718 address_text cfg now db send directory late rq tx0 held s =
     (let receipt = Option.bind (t_receipt_data tx0) (w_parse w);
          parsed = (case t_raw tx0 of Some raw \<Rightarrow> parse_raw_tx decode_2718 address_text raw | None \<Rightarrow> unparsed);
          ((trace, traces), s1) =
            (case Option.bind (Option.bind (t_trace_data tx0) (w_parse w)) as_array of
               Some stored \<Rightarrow> ((Some stored, tx_traces held), s)
             | None \<Rightarrow> fetch_missing_trace w send late (t_hash tx0) (tx_traces held) s);
          blk = get_block_by_number db (t_block_number tx0);
          tx = with_destination receipt tx0;
          ((named, signatures), s2) =
            name_unknown_calls w directory cfg now (tx_signatures held) (shown_calls w tx parsed trace) s1;
          calls = map indent_call named;
          events = receipt_events w receipt;
          changes = (case receipt of
                       Some r \<Rightarrow> extract_balance_changes (w_keccak w) (w_codec w) (w_registry w) r tx | None \<Rightarrow> []);
          metas = token_metas_of w db (concat (map tokens_mentioned events)
                    @ List.map_filter (get_str ''token'') changes
                    @ (case t_fee_token tx of Some f \<Rightarrow> [f] | None \<Rightarrow> []));
          tokens = token_display_map metas;
          (fee_payer, signature_type, receipt_reason) = tx_extras tx parsed receipt
      in case resolve_call_statuses (w_paced w) send tx parsed calls receipt_reason s2 of
           None \<Rightarrow> None
         | Some ((fail_reason, resolved), _) \<Rightarrow>
             (let final = decode_call_reverts w resolved
              in Option.bind (known_events (w_keccak w) events tokens (Some (t_from_addr tx))) (\<lambda>known.
                 Option.bind (if t_status tx = 0 then map_option Some (failure_of w final fail_reason) else Some None)
                   (\<lambda>failure.
                     let summary = build_summary (w_keccak w) (w_codec w) (w_registry w) (t_status tx = 1) known failure tokens;
                         extra = merge_into (merge_into []
                           (gas_and_fee_ctx w tx (case blk of Some b \<Rightarrow> b_base_fee b | None \<Rightarrow> ''0'') parsed
                              (Option.bind (t_fee_token tx) (map_of metas)) receipt))
                           (JObj
                            [(''tx'', tx_json tx), (''block'', json_of_option block_json blk),
                             (''receipt'', json_of_option id receipt), (''trace'', json_of_option JArr trace),
                             (''calls'', JArr final),
                             (''events'', JArr (map (told_event_json known) (enumerate 0 events))),
                             (''summary'', summary_json summary), (''known_events'', JArr (map known_json known)),
                             (''balance_changes'', JArr (map (enrich_balance_change metas) changes)),
                             (''fee_payer'', json_opt fee_payer), (''signature_type'', json_opt signature_type),
                             (''fail_reason'', json_opt fail_reason),
                             (''failed_calls'', json_of_nat (length (filter failed final))),
                             (''method'', json_opt (tx_method w tx calls)),
                             (''active_tab'', JStr (unwrap_or ''overview'' (rq_query rq ''tab'')))])
                     in Some (page_ctx w db (JObj extra), \<lparr>tx_traces = traces, tx_signatures = signatures\<rparr>)))))"

definition tx_page ::
  "web_env \<Rightarrow> (bytes \<Rightarrow> envelope option) \<Rightarrow> (bytes \<Rightarrow> string) \<Rightarrow> settings \<Rightarrow> int \<Rightarrow> database
     \<Rightarrow> (json \<Rightarrow> 's \<Rightarrow> reply \<times> 's) \<Rightarrow> 's directory \<Rightarrow> bool \<Rightarrow> request \<Rightarrow> string \<Rightarrow> tx_caches \<Rightarrow> 's
     \<Rightarrow> (http_answer \<times> tx_caches) option" where
  "tx_page w decode_2718 address_text cfg now db send directory late rq tx_hash held s =
     (case get_transaction (w_keccak w) db tx_hash of
        None \<Rightarrow> Some (not_found w db rq ''Transaction'' tx_hash, held)
      | Some tx0 \<Rightarrow>
          map_option (\<lambda>(ctx, held'). (html_or_json w rq ''tx.html'' ctx, held'))
            (tx_context w decode_2718 address_text cfg now db send directory late rq tx0 held s))"

subsection \<open>Every call is judged by its own replay\<close>

text \<open>How many of the calls before the \<open>i\<close>-th were replayed: the position of its own outcome.\<close>

definition replay_pos :: "json list \<Rightarrow> nat \<Rightarrow> nat" where
  "replay_pos calls i = length (filter nonempty_to (take i calls))"

text \<open>What the outcomes say of the call at a position: nothing once an earlier one failed.\<close>

definition judged :: "string option list \<Rightarrow> nat \<Rightarrow> json \<Rightarrow> json" where
  "judged outcomes k call =
     (if \<exists>j<k. outcomes ! j \<noteq> None then call
      else case outcomes ! k of
             Some err \<Rightarrow> jset ''error'' (JStr err) (jset ''status'' (JStr ''failed'') call)
           | None \<Rightarrow> jset ''status'' (JStr ''success'') call)"

lemma length_apply_replay_outcomes [simp]: "length (apply_replay_outcomes calls outcomes) = length calls"
  by (induction calls outcomes rule: apply_replay_outcomes.induct) (auto split: list.split option.split)

lemma apply_replay_outcomes_nth:
  assumes "list_all top_level calls" and "length outcomes = length (filter nonempty_to calls)" and "i < length calls"
  shows "apply_replay_outcomes calls outcomes ! i =
    (if nonempty_to (calls ! i) then judged outcomes (replay_pos calls i) (calls ! i) else calls ! i)"
  using assms
proof (induction calls outcomes arbitrary: i rule: apply_replay_outcomes.induct)
  case (2 call calls outcomes)
  show ?case
  proof (cases "nonempty_to call")
    case False
    then show ?thesis
      using "2.IH"(1) [of "i - 1"] "2.prems" by (cases i) (auto simp: replay_pos_def)
  next
    case True
    then obtain oc rest where o: "outcomes = oc # rest" using "2.prems"(2) by (cases outcomes) auto
    show ?thesis
    proof (cases oc)
      case (Some err)
      have "judged outcomes (Suc k) c = c" for k c using Some o by (auto simp: judged_def)
      then show ?thesis using True o Some "2.prems"
        by (cases i) (auto simp: replay_pos_def judged_def)
    next
      case None
      have "judged outcomes (Suc k) c = judged rest k c" for k c
        using None o by (auto simp: judged_def less_Suc_eq_0_disj)
      then show ?thesis using True o None "2.prems" "2.IH"(2) [of oc rest "i - 1"]
        by (cases i) (auto simp: replay_pos_def judged_def)
    qed
  qed
qed simp

lemma map_filter_nth_pos:
  assumes "i < length xs" and "f (xs ! i) \<noteq> None"
  shows "length (List.map_filter f (take i xs)) < length (List.map_filter f xs)"
    and "List.map_filter f xs ! length (List.map_filter f (take i xs)) = the (f (xs ! i))"
proof -
  have "List.map_filter f xs = List.map_filter f (take i xs) @ List.map_filter f (xs ! i # drop (Suc i) xs)"
    by (subst id_take_nth_drop [OF assms(1)]) (simp add: map_filter_def)
  moreover obtain y where "f (xs ! i) = Some y" using assms(2) by auto
  ultimately have "List.map_filter f xs = List.map_filter f (take i xs) @ y # List.map_filter f (drop (Suc i) xs)"
    by (simp add: map_filter_def)
  then show "length (List.map_filter f (take i xs)) < length (List.map_filter f xs)"
    and "List.map_filter f xs ! length (List.map_filter f (take i xs)) = the (f (xs ! i))"
    using \<open>f (xs ! i) = Some y\<close> by simp_all
qed


text \<open>The calls shown are the calls of the transaction, in its order, with nothing said of them yet.\<close>

definition unjudged :: "json list \<Rightarrow> parsed_tx \<Rightarrow> bool" where
  "unjudged calls parsed \<longleftrightarrow> list_all2 (\<lambda>shown own. get_str ''to'' shown = get_str ''to'' own) calls (x_calls parsed)
     \<and> (\<forall>c\<in>set calls. top_level c \<and> jget ''status'' c = None \<and> jget ''error'' c = None)"

text \<open>What a call's status and error are, and what its own replay says they are.\<close>

definition verdict :: "json \<Rightarrow> string option \<times> string option" where
  "verdict call = (get_str ''status'' call, get_str ''error'' call)"

definition verdict_of :: "rpc_error + json \<Rightarrow> string option \<times> string option" where
  "verdict_of r = (case r of Inr _ \<Rightarrow> (Some ''success'', None) | Inl e \<Rightarrow> (Some ''failed'', Some (err_message e)))"

lemma top_level_object: "top_level v \<Longrightarrow> \<exists>row. v = JObj row"
  by (cases v) (auto simp: top_level_def jget_def)

lemma verdict_has_status: "fst (verdict v) \<noteq> None \<Longrightarrow> jget ''status'' v \<noteq> None"
  by (cases "jget ''status'' v") (auto simp: verdict_def get_str_def)

lemma verdict_judged:
  assumes "top_level call" and "jget ''status'' call = None" and "jget ''error'' call = None" and "k < length results"
  shows "verdict (judged (map outcome_of results) k call) =
    (if \<exists>j<k. \<exists>e. results ! j = Inl e then (None, None) else verdict_of (results ! k))"
proof -
  have "(\<exists>j<k. map outcome_of results ! j \<noteq> None) \<longleftrightarrow> (\<exists>j<k. \<exists>e. results ! j = Inl e)"
    using assms(4) by (auto simp: outcome_of_def split: sum.splits)
  moreover obtain row where "call = JObj row" using top_level_object [OF assms(1)] by blast
  ultimately show ?thesis
    using assms(2-4) by (auto simp: judged_def verdict_def verdict_of_def outcome_of_def get_str_def jget_def jset_def
        as_str_def update_conv' split: sum.splits)
qed

lemma mirror_first_judged: "i < length calls \<Longrightarrow>
    i = 0 \<longrightarrow> jget ''status'' (calls ! 0) \<noteq> None \<Longrightarrow> mirror_first tx reason calls ! i = calls ! i"
  by (cases calls; cases i) (auto simp: mirror_first_def Let_def)

lemma length_map_filter: "length (List.map_filter f xs) = length (filter (\<lambda>x. f x \<noteq> None) xs)"
  by (induction xs) (auto simp: map_filter_simps split: option.split)

lemma replay_call_None: "replay_call tx parsed c = None \<longleftrightarrow> \<not> nonempty_to c"
  by (auto simp: replay_call_def nonempty_to_def split: option.split)

lemma count_destinations:
  assumes "list_all2 (\<lambda>shown own. get_str ''to'' shown = get_str ''to'' own) calls own_calls"
  shows "length (filter nonempty_to calls) = length (List.map_filter (replay_call tx parsed) own_calls)"
  unfolding length_map_filter replay_call_None not_not
  using assms by (induction rule: list_all2_induct) (auto simp: nonempty_to_def)

lemma length_mirror_first [simp]: "length (mirror_first tx reason calls) = length calls"
  by (simp add: mirror_first_def Let_def split: list.split)

lemma replay_calls_pos:
  assumes "unjudged calls parsed" and "i < length calls" and "nonempty_to (calls ! i)"
  shows "replay_pos calls i < length (List.map_filter (replay_call tx parsed) (x_calls parsed))"
    and "Some (List.map_filter (replay_call tx parsed) (x_calls parsed) ! replay_pos calls i) =
         replay_call tx parsed (x_calls parsed ! i)"
proof -
  have same: "list_all2 (\<lambda>shown own. get_str ''to'' shown = get_str ''to'' own) calls (x_calls parsed)"
    using assms(1) by (simp add: unjudged_def)
  then have len: "i < length (x_calls parsed)" using assms(2) by (simp add: list_all2_lengthD)
  have pos: "replay_pos calls i = length (List.map_filter (replay_call tx parsed) (take i (x_calls parsed)))"
    unfolding replay_pos_def by (rule count_destinations) (rule list_all2_takeI [OF same])
  have "nonempty_to (x_calls parsed ! i)"
    using assms(3) list_all2_nthD [OF same assms(2)] by (simp add: nonempty_to_def)
  then have "replay_call tx parsed (x_calls parsed ! i) \<noteq> None" by (simp add: replay_call_None)
  from map_filter_nth_pos [where f = "replay_call tx parsed", OF len this] show
    "replay_pos calls i < length (List.map_filter (replay_call tx parsed) (x_calls parsed))"
    "Some (List.map_filter (replay_call tx parsed) (x_calls parsed) ! replay_pos calls i) =
         replay_call tx parsed (x_calls parsed ! i)"
    using \<open>replay_call tx parsed (x_calls parsed ! i) \<noteq> None\<close> unfolding pos by simp_all
qed

lemma judged_by_own_replay:
  assumes tx: "t_status tx = 0" and un: "unjudged calls parsed" and ne: "x_calls parsed \<noteq> []"
    and asked: "batch_call paced send (List.map_filter (replay_call tx parsed) (x_calls parsed)) s = Some (Inr results, s')"
  shows "\<exists>final.
    resolve_call_statuses paced send tx parsed calls None s = Some ((find_map outcome_of results, final), s')
    \<and> length final = length calls
    \<and> (\<forall>i < length calls. nonempty_to (calls ! i) \<longrightarrow>
         Some (List.map_filter (replay_call tx parsed) (x_calls parsed) ! replay_pos calls i) =
           replay_call tx parsed (x_calls parsed ! i) \<and>
         verdict (final ! i) =
           (if \<exists>j < replay_pos calls i. \<exists>e. results ! j = Inl e then (None, None)
            else verdict_of (results ! replay_pos calls i)))"
proof -
  let ?outcomes = "map outcome_of results" and ?reason = "find_map outcome_of results"
  let ?applied = "apply_replay_outcomes calls ?outcomes"
  let ?final = "mirror_first tx ?reason ?applied"
  have same: "list_all2 (\<lambda>shown own. get_str ''to'' shown = get_str ''to'' own) calls (x_calls parsed)"
    and fresh: "\<And>c. c \<in> set calls \<Longrightarrow> top_level c \<and> jget ''status'' c = None \<and> jget ''error'' c = None"
    using un by (auto simp: unjudged_def)
  have rlen: "length results = length (filter nonempty_to calls)"
    using chain.batch_length [OF asked] count_destinations [OF same, of tx parsed] by simp
  have noerr: "find_map call_error calls = None"
    using fresh by (auto simp: find_map_def head_opt_def call_error_def get_str_def List.map_filter_def filter_empty_conv)
  have reason: "find_map id ?outcomes = ?reason" by (simp add: find_map_def List.map_filter_def filter_map comp_def)
  have run: "resolve_call_statuses paced send tx parsed calls None s = Some ((?reason, ?final), s')"
    using tx ne asked noerr reason by (simp add: resolve_call_statuses_def replay_tx_calls_def Let_def)
  have each: "Some (List.map_filter (replay_call tx parsed) (x_calls parsed) ! replay_pos calls i) =
        replay_call tx parsed (x_calls parsed ! i) \<and>
      verdict (?final ! i) = (if \<exists>j < replay_pos calls i. \<exists>e. results ! j = Inl e then (None, None)
        else verdict_of (results ! replay_pos calls i))"
    if i: "i < length calls" "nonempty_to (calls ! i)" for i
  proof -
    have pos: "replay_pos calls i < length results"
      using replay_calls_pos(1) [OF un i, of tx] chain.batch_length [OF asked] by simp
    have here: "?applied ! i = judged ?outcomes (replay_pos calls i) (calls ! i)"
      using apply_replay_outcomes_nth [of calls ?outcomes i] fresh rlen i by (simp add: list_all_iff)
    have "?final ! i = ?applied ! i"
    proof (rule mirror_first_judged)
      show "i = 0 \<longrightarrow> jget ''status'' (?applied ! 0) \<noteq> None"
      proof
        assume "i = 0"
        then have "verdict (?applied ! 0) = verdict_of (results ! 0)"
          using here verdict_judged [of "calls ! 0" 0 results] fresh [of "calls ! 0"] pos i
          by (simp add: replay_pos_def)
        then show "jget ''status'' (?applied ! 0) \<noteq> None"
          by (intro verdict_has_status) (simp add: verdict_of_def split: sum.split)
      qed
    qed (use i in simp)
    then show ?thesis
      using here verdict_judged [of "calls ! i" "replay_pos calls i" results] fresh [of "calls ! i"] pos i
        replay_calls_pos(2) [OF un i, of tx] by simp
  qed
  have "length ?final = length calls" by simp
  with run each show ?thesis by blast
qed

text \<open>What the page does to a call before it is judged: no destination, depth, status or error changes.\<close>

definition keeps :: "(json \<Rightarrow> json) \<Rightarrow> bool" where
  "keeps f \<longleftrightarrow> (\<forall>row k. k \<in> {''to'', ''depth'', ''status'', ''error''} \<longrightarrow> jget k (f (JObj row)) = jget k (JObj row))"

lemma keeps_jset: "k \<notin> {''to'', ''depth'', ''status'', ''error''} \<Longrightarrow> keeps (\<lambda>c. jset k (g c) c)"
  by (auto simp: keeps_def jset_def jget_def update_conv')

lemma keeps_name_call_from: "keeps (name_call_from w names)"
  by (auto simp: keeps_def name_call_from_def jset_def jget_def update_conv' split: option.split)

lemma unjudged_map:
  assumes "keeps f" and "unjudged calls parsed"
  shows "unjudged (map f calls) parsed"
proof -
  have "get_str ''to'' (f c) = get_str ''to'' c \<and> top_level (f c) \<and> jget ''status'' (f c) = None \<and> jget ''error'' (f c) = None"
    if "c \<in> set calls" for c
  proof -
    have c: "top_level c" "jget ''status'' c = None" "jget ''error'' c = None" using assms(2) that by (auto simp: unjudged_def)
    obtain row where "c = JObj row" using top_level_object [OF c(1)] by blast
    then show ?thesis using assms(1) c by (simp add: keeps_def get_str_def top_level_def)
  qed
  with assms(2) show ?thesis by (auto simp: unjudged_def list_all2_conv_all_nth)
qed

lemma parsed_calls_unjudged: "unjudged (x_calls (parse_raw_tx d a raw)) (parse_raw_tx d a raw)"
  using parsed_calls_top_level [of _ d a raw] by (auto simp: unjudged_def top_level_def intro!: list_all2_refl)

lemma shown_calls_unjudged:
  assumes "unjudged (x_calls parsed) parsed" and "x_calls parsed \<noteq> []" and "unwrap_or [] trace = []"
  shows "unjudged (shown_calls w tx parsed trace) parsed"
proof -
  let ?from = "\<lambda>call. jset ''from'' (JStr (t_from_addr tx)) call"
  let ?decoded = "\<lambda>call. jset ''decoded'' (decoded_json (decode_function_call (w_keccak w) (w_codec w) (w_registry w)
      (unwrap_or ''0x'' (get_str ''data'' call)))) call"
  have "shown_calls w tx parsed trace = map ?decoded (map ?from (x_calls parsed))"
    using assms(2,3) by (simp add: shown_calls_def extract_calls_def Let_def comp_def)
  moreover have "keeps ?from" "keeps ?decoded" by (rule keeps_jset; simp)+
  ultimately show ?thesis using assms(1) by (simp add: unjudged_map del: map_map)
qed

lemma named_calls_unjudged:
  assumes "unjudged calls parsed"
    and "name_unknown_calls w directory cfg now held calls s = ((named, held'), s')"
  shows "unjudged (map indent_call named) parsed"
proof -
  have "named = calls \<or> (\<exists>names. named = map (name_call_from w names) calls)"
    using assms(2) by (auto simp: name_unknown_calls_def Let_def split: if_splits prod.splits)
  then have "unjudged named parsed" using assms(1) unjudged_map [OF keeps_name_call_from assms(1)] by auto
  moreover have "keeps indent_call" unfolding indent_call_def [abs_def] by (rule keeps_jset) simp
  ultimately show ?thesis by (intro unjudged_map)
qed

definition two_calls :: "bytes \<Rightarrow> envelope option" where
  "two_calls bs = Some (AA_Tx 0 ''Secp256k1''
     [\<lparr>rw_to = Call_Kind [CHR 0x01], rw_value = 0, rw_input = []\<rparr>, \<lparr>rw_to = Call_Kind [CHR 0x02], rw_value = 0, rw_input = []\<rparr>]
     \<lparr>cm_gas_limit = 21000, cm_max_fee_per_gas = 1, cm_max_priority_fee_per_gas = None, cm_nonce = 0, cm_chain_id = None\<rparr>)"

definition failed_tx :: transaction where
  "failed_tx = \<lparr> t_hash = ''0x01'', t_block_number = 1, t_position = 0, t_from_addr = ''0xaa'', t_to_addr = None,
     t_status = 0, t_gas_used = 21000, t_base_fee = ''0'', t_contract_address = None, t_fee_token = None,
     t_fee_amount = ''0'', t_input = ''0x'', t_raw = Some ''0x76'', t_trace_data = None, t_receipt_data = None,
     t_timestamp = 0, t_created_at = 0 \<rparr>"

definition second_fails :: "json \<Rightarrow> unit \<Rightarrow> reply \<times> unit" where
  "second_fails payload u = (Answered 200 (Some (JArr
     [JObj [(''id'', JNum (PosInt 1)), (''result'', JStr ''0x'')],
      JObj [(''id'', JNum (PosInt 2)), (''error'', JObj [(''code'', JNum (PosInt 3)), (''message'', JStr ''reverted'')])]])), u)"

lemma second_fails_batch:
  "batch_call False second_fails [a, b] () =
     Some (Inr [Inr (JStr ''0x''), Inl \<lparr>err_code = 3, err_message = ''reverted'', err_data = None\<rparr>], ())"
  by (simp add: batch_call_def post_batch.simps second_fails_def read_batch_def demux_def upt_rec
        index_by_id_def json_access read_item_def rpc_error_of_def take_result_def)

lemma two_calls_own:
  "x_calls (parse_raw_tx two_calls hex_bytes ''0x76'') = map (raw_call_json hex_bytes)
     [\<lparr>rw_to = Call_Kind [CHR 0x01], rw_value = 0, rw_input = []\<rparr>, \<lparr>rw_to = Call_Kind [CHR 0x02], rw_value = 0, rw_input = []\<rparr>]"
proof -
  have "hex_decode (strip_0x ''0x76'') \<noteq> None" by code_simp
  then show ?thesis by (auto simp: parse_raw_tx_def two_calls_def Let_def)
qed


text \<open>
  C0. A replay the node leaves unanswered is no verdict on any call, yet the first one is shown as
  failed: of a failed transaction for which nothing gives a reason, the page then marks its first
  call, with no error beside it, and no other.
\<close>

theorem unanswered_replay_blames_first:
  assumes "t_status tx = 0" and un: "unjudged calls parsed" and "x_calls parsed \<noteq> []"
    and "batch_call paced send (List.map_filter (replay_call tx parsed) (x_calls parsed)) s = Some (Inl e, s')"
  shows "\<exists>final. resolve_call_statuses paced send tx parsed calls None s = Some ((None, final), s')
    \<and> map verdict final = (Some ''failed'', None) # replicate (length (x_calls parsed) - 1) (None, None)"
proof -
  have same: "length calls = length (x_calls parsed)"
    and fresh: "\<And>c. c \<in> set calls \<Longrightarrow> top_level c \<and> jget ''status'' c = None \<and> jget ''error'' c = None"
    using un by (auto simp: unjudged_def list_all2_lengthD)
  have noerr: "find_map call_error calls = None"
    using fresh by (auto simp: find_map_def head_opt_def call_error_def get_str_def List.map_filter_def filter_empty_conv)
  obtain c rest where calls: "calls = c # rest" using assms(3) same by (cases calls) auto
  have silent: "apply_replay_outcomes cs [] = cs" for cs
    by (induction cs) auto
  have run: "resolve_call_statuses paced send tx parsed calls None s = Some ((None, mirror_first tx None calls), s')"
    using assms(1,3,4) noerr silent
    by (simp add: resolve_call_statuses_def replay_tx_calls_def Let_def find_map_def head_opt_def map_filter_simps)
  obtain row where row: "c = JObj row" using top_level_object fresh [of c] calls by auto
  have "mirror_first tx None calls = jset ''status'' (JStr ''failed'') c # rest"
    using fresh [of c] assms(1) by (simp add: mirror_first_def calls)
  moreover have "verdict (jset ''status'' (JStr ''failed'') c) = (Some ''failed'', None)"
    using fresh [of c] by (simp add: calls row verdict_def get_str_def jset_def jget_def update_conv' as_str_def)
  moreover have "map verdict rest = replicate (length rest) (None, None)"
    using fresh by (auto simp: calls verdict_def get_str_def map_replicate_const [symmetric])
  moreover have "length rest = length (x_calls parsed) - 1" using same calls by simp
  ultimately show ?thesis using run by auto
qed

definition no_node :: "json \<Rightarrow> unit \<Rightarrow> reply \<times> unit" where
  "no_node payload u = (Send_Failed, u)"

lemma unanswered_replay_blames_first_witness:
  "\<exists>final. resolve_call_statuses False no_node failed_tx (parse_raw_tx two_calls hex_bytes ''0x76'')
      (x_calls (parse_raw_tx two_calls hex_bytes ''0x76'')) None () = Some ((None, final), ())
    \<and> map verdict final = [(Some ''failed'', None), (None, None)]"
proof -
  let ?parsed = "parse_raw_tx two_calls hex_bytes ''0x76''"
  let ?batch = "List.map_filter (replay_call failed_tx ?parsed) (x_calls ?parsed)"
  let ?own = "map (raw_call_json hex_bytes)
    [\<lparr>rw_to = Call_Kind [CHR 0x01], rw_value = 0, rw_input = []\<rparr>, \<lparr>rw_to = Call_Kind [CHR 0x02], rw_value = 0, rw_input = []\<rparr>]"
  have own: "x_calls ?parsed = ?own" by (rule two_calls_own)
  have "length (filter nonempty_to ?own) = Suc (Suc 0)" by code_simp
  then have "length ?batch = Suc (Suc 0)"
    using count_destinations [of ?own ?own failed_tx ?parsed] own by (simp add: list_all2_refl)
  then obtain a b where "?batch = [a, b]" by (auto simp only: length_Suc_conv list.size)
  then have asked: "batch_call False no_node ?batch () = Some (Inl Other_Error, ())"
    by (simp add: batch_call_def post_batch.simps no_node_def read_batch_def)
  have "t_status failed_tx = 0" and "x_calls ?parsed \<noteq> []" by (simp_all add: failed_tx_def own)
  from unanswered_replay_blames_first [OF this(1) parsed_calls_unjudged this(2) asked]
  show ?thesis by (simp add: own)
qed

subsection \<open>Fees, amounts and traces\<close>

text \<open>The two parts of a fee add up to what was paid, unless the base fee alone is more.\<close>

lemma fee_parts:
  "\<exists>base priority. jget ''base_wei'' (fee_breakdown tx base_fee gas_used gas_price m) = Some (JStr (dec_int base))
    \<and> jget ''priority_wei'' (fee_breakdown tx base_fee gas_used gas_price m) = Some (JStr (dec_int priority))
    \<and> 0 \<le> priority \<and> base + priority = max (max 0 gas_price * max 0 gas_used) base"
  by (rule exI [of _ "base_fees_wei base_fee gas_used"],
      rule exI [of _ "max 0 (max 0 gas_price * max 0 gas_used - base_fees_wei base_fee gas_used)"])
    (auto simp: fee_breakdown_def Let_def jget_def max_def)

text \<open>A balance change always has the three keys the template reads.\<close>

lemma map_of_or_insert_key:
  "map_of (or_insert_key k' v row) k = (if k = k' \<and> map_of row k = None then Some v else map_of row k)"
  by (auto simp: or_insert_key_def update_conv')

lemma enriched_change_keys:
  assumes "k \<in> {''symbol'', ''formatted'', ''positive''}"
  shows "jget k (enrich_balance_change metas (JObj row)) \<noteq> None"
proof -
  have "\<exists>base v u. enrich_balance_change metas (JObj row) =
      JObj (or_insert_key ''formatted'' u (or_insert_key ''symbol'' (JStr []) (AList.update ''positive'' v base)))"
    by (simp only: enrich_balance_change_def json.case Let_def) blast
  then obtain base v u where e: "enrich_balance_change metas (JObj row) =
      JObj (or_insert_key ''formatted'' u (or_insert_key ''symbol'' (JStr []) (AList.update ''positive'' v base)))" by blast
  show ?thesis unfolding e using assms by (auto simp: jget_def map_of_or_insert_key update_conv' simp del: not_None_eq)
qed

text \<open>
  A trace that is held, or a node known to trace nothing, costs no request, and at most 256 traces
  are held.
\<close>

lemma held_trace_is_not_asked_for:
  "map_of (tc_traces held) hash \<noteq> None \<or> tc_unavailable held \<Longrightarrow>
     fetch_missing_trace w send late hash held s = ((map_of (tc_traces held) hash, held), s)"
  by (simp add: fetch_missing_trace_def)

lemma fetched_trace_is_held:
  assumes "fetch_missing_trace w send late hash held s = ((Some flat, held'), s')"
  shows "map_of (tc_traces held') hash = Some flat"
  using assms by (auto simp: fetch_missing_trace_def Let_def update_conv' split: if_splits prod.splits sum.splits)

lemma traces_bounded:
  assumes "length (tc_traces held) \<le> MAX_TRACES"
    and "fetch_missing_trace w send late hash held s = ((r, held'), s')"
  shows "length (tc_traces held') \<le> MAX_TRACES"
  using assms by (auto simp: fetch_missing_trace_def Let_def length_alist_update MAX_TRACES_def
      split: if_splits prod.splits sum.splits)

end
