(* ===== verification/Web_Api.thy ===== *)
theory Web_Api
  imports Web_Pages Web_Anchoring Web_Tx
begin

section \<open>The JSON API (\<open>src/web/api.rs\<close>)\<close>

text \<open>
  One definition per route of \<open>/api/v1\<close>. An error is its status and its message, the left of a sum;
  a page of a listing its rows and the page after it, if there may be one. A path segment that is
  no number where the route wants one is refused by the router, before any handler.
\<close>

type_synonym api_error = "nat \<times> string"

type_synonym listing = "json list \<times> nat option"

definition listing_json :: "listing \<Rightarrow> json" where
  "listing_json l = JObj [(''items'', JArr (fst l)), (''next_page'', json_of_option json_of_nat (snd l))]"

text \<open>\<open>page + 1\<close> in \<open>u32\<close>.\<close>

definition page_after :: "nat \<Rightarrow> nat" where
  "page_after page = (page + 1) mod 2 ^ 32"

definition listing_of :: "json list \<Rightarrow> nat \<Rightarrow> listing" where
  "listing_of items page = (items, if length items = PER_PAGE then Some (page_after page) else None)"

definition api_answer :: "api_error + json \<Rightarrow> http_answer" where
  "api_answer r =
     (case r of
        Inr v \<Rightarrow> ok_json v
      | Inl (status, message) \<Rightarrow>
          \<lparr> h_status = status, h_headers = [], h_body = Json_Body (JObj [(''error'', JStr message)]) \<rparr>)"

text \<open>\<open>From<anyhow::Error>\<close>: a read the node did not answer.\<close>

definition bad_gateway :: "web_env \<Rightarrow> failure \<Rightarrow> api_error" where
  "bad_gateway w err = (502, w_error_text w err)"

definition api_not_found :: "string \<Rightarrow> api_error" where
  "api_not_found kind = (404, kind @ '' not found'')"

definition checked :: "web_env \<Rightarrow> string \<Rightarrow> api_error + string" where
  "checked w address =
     (let checksummed = checksum_address (w_keccak w) address in
      if is_valid_address checksummed then Inr checksummed else Inl (400, ''Invalid address: '' @ address))"

definition api_try :: "'e + 'a \<Rightarrow> ('a \<Rightarrow> 'e + 'b) \<Rightarrow> 'e + 'b" where
  "api_try r f = (case r of Inl e \<Rightarrow> Inl e | Inr v \<Rightarrow> f v)"

definition tx_item :: "web_env \<Rightarrow> transaction \<Rightarrow> json" where
  "tx_item w t =
     (let item = (case tx_json t of
                    JObj kvs \<Rightarrow> JObj (filter (\<lambda>(k, _). k \<notin> {''raw'', ''trace_data'', ''receipt_data''}) kvs)
                  | v \<Rightarrow> v)
      in jset ''method'' (json_opt (function_name (w_registry w) (t_input t))) item)"

subsection \<open>Blocks and transactions\<close>

definition api_blocks :: "database \<Rightarrow> nat \<Rightarrow> listing" where
  "api_blocks db page =
     (let per_page = int PER_PAGE;
          end' = (case get_max_block_number db of Some n \<Rightarrow> n | None \<Rightarrow> -1) - (int page - 1) * per_page;
          start = max 0 (end' - per_page + 1);
          lowest = (case get_min_block_number db of Some n \<Rightarrow> n | None \<Rightarrow> 0)
      in (map block_json (get_blocks_in_range db start end'), if start > lowest then Some (page_after page) else None))"

definition api_block :: "web_env \<Rightarrow> database \<Rightarrow> string \<Rightarrow> api_error + json" where
  "api_block w db id' =
     (case find_block db id' of
        None \<Rightarrow> Inl (api_not_found ''Block'')
      | Some b \<Rightarrow>
          Inr (jset ''transactions''
                (JArr (map (tx_item w) (get_block_transactions (w_keccak w) db (b_number b) List))) (block_json b)))"

definition api_txs :: "web_env \<Rightarrow> database \<Rightarrow> nat \<Rightarrow> listing" where
  "api_txs w db page = listing_of (map (tx_item w) (get_transactions (w_keccak w) db page PER_PAGE)) page"

definition api_tx :: "web_env \<Rightarrow> database \<Rightarrow> string \<Rightarrow> api_error + json" where
  "api_tx w db hash =
     (case get_transaction (w_keccak w) db hash of
        None \<Rightarrow> Inl (api_not_found ''Transaction'')
      | Some t \<Rightarrow>
          (let receipt = unwrap_or JNull (Option.bind (t_receipt_data t) (w_parse w));
               events = List.map_filter (decode_event (w_keccak w) (w_codec w) (w_registry w))
                          (unwrap_or [] (as_array (jidx ''logs'' receipt)));
               bare = t\<lparr>t_raw := None, t_receipt_data := None, t_trace_data := None\<rparr>
           in Inr (jset ''events'' (JArr (map event_json events))
                (jset ''receipt'' receipt (jset ''raw'' (json_opt (t_raw t)) (tx_item w bare))))))"

subsection \<open>Addresses and tokens\<close>

definition api_address ::
  "web_env \<Rightarrow> database \<Rightarrow> (json \<Rightarrow> 's \<Rightarrow> reply \<times> 's) \<Rightarrow> bool \<Rightarrow> string \<Rightarrow> 's \<Rightarrow> api_error + json" where
  "api_address w db send late address s =
     api_try (checked w address) (\<lambda>a.
       let info = identify_address (w_zone w) a;
           token = get_token_metadata (w_keccak w) db a;
           ((kind, _), _) = address_type send late a (info_kind info) (token \<noteq> None) False s
       in Inr (JObj [(''address'', JStr a), (''type'', JStr kind), (''label'', json_opt (info_label info)),
                     (''token'', json_of_option token_json token)]))"

definition api_address_txs :: "web_env \<Rightarrow> database \<Rightarrow> string \<Rightarrow> nat \<Rightarrow> api_error + listing" where
  "api_address_txs w db address page =
     api_try (checked w address) (\<lambda>a.
       Inr (listing_of (map (tx_item w) (get_address_transactions (w_keccak w) db a page PER_PAGE List)) page))"

definition api_address_transfers :: "web_env \<Rightarrow> database \<Rightarrow> string \<Rightarrow> nat \<Rightarrow> api_error + listing" where
  "api_address_transfers w db address page =
     api_try (checked w address) (\<lambda>a.
       Inr (listing_of (enrich_transfers w db (get_address_transfers (w_keccak w) db a page PER_PAGE)) page))"

definition api_address_holdings :: "web_env \<Rightarrow> database \<Rightarrow> string \<Rightarrow> api_error + listing" where
  "api_address_holdings w db address =
     api_try (checked w address) (\<lambda>a. Inr (get_address_holdings (w_keccak w) db a, None))"

definition api_tokens :: "web_env \<Rightarrow> database \<Rightarrow> nat \<Rightarrow> listing" where
  "api_tokens w db page = listing_of (map token_json (get_all_tokens (w_keccak w) db page PER_PAGE)) page"

definition indexed_token :: "web_env \<Rightarrow> database \<Rightarrow> string \<Rightarrow> api_error + token_metadata" where
  "indexed_token w db address =
     api_try (checked w address) (\<lambda>a.
       case get_token_metadata (w_keccak w) db a of
         Some m \<Rightarrow> Inr m
       | None \<Rightarrow> Inl (api_not_found ''Token''))"

definition api_token :: "web_env \<Rightarrow> database \<Rightarrow> string \<Rightarrow> api_error + json" where
  "api_token w db address = api_try (indexed_token w db address) (\<lambda>m. Inr (token_json m))"

definition api_holders :: "web_env \<Rightarrow> database \<Rightarrow> string \<Rightarrow> nat \<Rightarrow> api_error + listing" where
  "api_holders w db address page =
     api_try (indexed_token w db address) (\<lambda>m.
       Inr (listing_of (token_holders w db (k_address m) m page PER_PAGE) page))"

definition api_token_transfers :: "web_env \<Rightarrow> database \<Rightarrow> string \<Rightarrow> nat \<Rightarrow> api_error + listing" where
  "api_token_transfers w db address page =
     api_try (indexed_token w db address) (\<lambda>m.
       Inr (listing_of (get_token_transfers (w_keccak w) db (k_address m) page PER_PAGE) page))"

subsection \<open>Anchoring\<close>

definition next_of :: "nat \<Rightarrow> nat \<Rightarrow> nat option" where
  "next_of page total' = (if page * PER_PAGE < total' then Some (page_after page) else None)"

text \<open>A node read as the API reports it; \<open>None\<close> is a node that never settles.\<close>

definition node_read :: "web_env \<Rightarrow> ((failure + 'a) \<times> 's) option \<Rightarrow> ('a \<Rightarrow> api_error + 'b) \<Rightarrow> (api_error + 'b) option" where
  "node_read w r f = map_option (\<lambda>(v, _). case v of Inl e \<Rightarrow> Inl (bad_gateway w e) | Inr x \<Rightarrow> f x) r"

definition or_not_found :: "string \<Rightarrow> 'a option \<Rightarrow> api_error + 'a" where
  "or_not_found kind x = (case x of None \<Rightarrow> Inl (api_not_found kind) | Some v \<Rightarrow> Inr v)"

definition api_registries ::
  "web_env \<Rightarrow> (json \<Rightarrow> 's \<Rightarrow> reply \<times> 's) \<Rightarrow> nat \<Rightarrow> 's \<Rightarrow> (api_error + listing) option" where
  "api_registries w send page s =
     node_read w (registries (w_lib w) (w_paced w) send page PER_PAGE s)
       (\<lambda>(items, total'). Inr (map registry_json items, next_of page total'))"

definition api_registry ::
  "web_env \<Rightarrow> (json \<Rightarrow> 's \<Rightarrow> reply \<times> 's) \<Rightarrow> nat \<Rightarrow> 's \<Rightarrow> (api_error + json) option" where
  "api_registry w send registry_id s =
     node_read w (find_registry (w_keccak w) (w_lib w) (w_paced w) send registry_id s)
       (\<lambda>found. api_try (or_not_found ''Registry'' found) (\<lambda>(g, _). Inr (registry_json g)))"

definition api_records ::
  "web_env \<Rightarrow> (json \<Rightarrow> 's \<Rightarrow> reply \<times> 's) \<Rightarrow> nat \<Rightarrow> nat \<Rightarrow> 's \<Rightarrow> (api_error + listing) option" where
  "api_records w send registry_id page s =
     node_read w (registry_page (w_keccak w) (w_lib w) (w_paced w) send registry_id page PER_PAGE s)
       (\<lambda>found. api_try (or_not_found ''Registry'' found)
          (\<lambda>(_, items, total'). Inr (map record_json items, next_of page total')))"

definition api_record ::
  "web_env \<Rightarrow> (json \<Rightarrow> 's \<Rightarrow> reply \<times> 's) \<Rightarrow> nat \<Rightarrow> nat \<Rightarrow> 's \<Rightarrow> (api_error + json) option" where
  "api_record w send registry_id record_id s =
     node_read w (latest (w_keccak w) (w_lib w) (w_paced w) send registry_id record_id s)
       (\<lambda>found. api_try (or_not_found ''Record'' found) (\<lambda>r. Inr (record_json r)))"

definition api_versions ::
  "web_env \<Rightarrow> (json \<Rightarrow> 's \<Rightarrow> reply \<times> 's) \<Rightarrow> nat \<Rightarrow> nat \<Rightarrow> nat \<Rightarrow> 's \<Rightarrow> (api_error + listing) option" where
  "api_versions w send registry_id record_id page s =
     node_read w (anchored_versions (w_keccak w) (w_lib w) (w_paced w) send registry_id record_id page PER_PAGE s)
       (\<lambda>found. api_try (or_not_found ''Record'' found)
          (\<lambda>(newest, items). Inr (map record_json items, next_of page (r_index newest))))"

subsection \<open>The API and the pages say the same of what is missing\<close>

text \<open>
  A page asked for as JSON against the API: the same status, and where that is an error the very same
  answer.
\<close>

definition agree :: "http_answer \<Rightarrow> http_answer \<Rightarrow> bool" where
  "agree page api \<longleftrightarrow> h_status api \<in> {200, 400, 404, 502} \<and> h_status page = h_status api
     \<and> (h_status api \<noteq> 200 \<longrightarrow> page = api)"

definition as_listing :: "api_error + listing \<Rightarrow> api_error + json" where
  "as_listing r = map_sum id listing_json r"

lemma agree_ok: "agree (ok_json a) (api_answer (Inr b))"
  by (simp add: agree_def ok_json_def api_answer_def)

lemma agree_error:
  "wants_json rq \<Longrightarrow> status \<in> {400, 404, 502} \<Longrightarrow>
     agree (error_response w db rq status template message extra) (api_answer (Inl (status, message)))"
  by (auto simp: agree_def error_response_def ok_json_def api_answer_def)

lemmas agree_simps = html_or_json_def not_found_def node_failed_def invalid_address_def api_not_found_def bad_gateway_def
  agree_ok agree_error

lemma agree_block: "wants_json rq \<Longrightarrow> agree (block_page w db rq id') (api_answer (api_block w db id'))"
  by (auto simp: block_page_def api_block_def agree_simps Let_def split: option.split)

lemma agree_tx:
  "wants_json rq \<Longrightarrow> tx_page w d a cfg now db send directory late rq hash held s = Some (page, held') \<Longrightarrow>
     agree page (api_answer (api_tx w db hash))"
  by (auto simp: tx_page_def api_tx_def agree_simps Let_def split: option.splits prod.splits if_splits bind_splits)

lemma agree_address:
  "wants_json rq \<Longrightarrow> agree (address_page w db send l1 l2 rq address s) (api_answer (api_address w db send l1 address s))"
  by (auto simp: address_page_def api_address_def checked_def api_try_def agree_simps Let_def split: prod.split)

lemma parse_dec_nat: "n \<le> U64_MAX \<Longrightarrow> parse_u64_text (dec_nat n) = Some n"
  by (simp add: parse_u64_text_def u64_from_dec_nat)

lemma agree_node_read:
  assumes rq: "wants_json rq"
    and page: "page = map_option (\<lambda>(r, _). case r of
        Inl e \<Rightarrow> node_failed w db rq e
      | Inr None \<Rightarrow> not_found w db rq kind id'
      | Inr (Some x) \<Rightarrow> html_or_json w rq template (ctx x)) asked"
    and api: "api = node_read w asked (\<lambda>found. api_try (or_not_found kind found) (\<lambda>x. Inr (row x)))"
  shows "rel_option agree page (map_option (api_answer \<circ> as_listing) api)"
proof (cases asked)
  case (Some a)
  obtain r s where a: "a = (r, s)" by fastforce
  have l: "as_listing (Inl e) = Inl e" "as_listing (Inr x) = Inr (listing_json x)" for e x by (simp_all add: as_listing_def)
  have "agree (case r of Inl e \<Rightarrow> node_failed w db rq e | Inr None \<Rightarrow> not_found w db rq kind id'
      | Inr (Some x) \<Rightarrow> html_or_json w rq template (ctx x))
    (api_answer (as_listing (case r of Inl e \<Rightarrow> Inl (bad_gateway w e)
      | Inr found \<Rightarrow> api_try (or_not_found kind found) (\<lambda>x. Inr (row x)))))"
    using rq by (auto simp: l api_try_def or_not_found_def agree_simps split: sum.split option.split)
  then show ?thesis by (simp add: page api Some a node_read_def)
qed (simp add: page api node_read_def)

lemma agree_registry:
  assumes "wants_json rq" and "g \<le> U64_MAX"
  shows "rel_option agree (anchoring_registry_page w db send rq (dec_nat g) s)
    (map_option (api_answer \<circ> as_listing) (api_records w send g (page_param rq) s))"
proof -
  let ?ctx = "\<lambda>(g', records, total'). page_ctx w db (JObj
    [(''registry'', registry_json g'), (''records'', JArr (map record_json records)),
     (''total'', json_of_nat total'), (''page'', json_of_nat (page_param rq)),
     (''total_pages'', json_of_nat (total_pages (i64_of_u64 total') PER_PAGE)),
     (''events'', JArr (map anchoring_event_json (take PER_PAGE (get_anchoring_events (w_keccak w) db (i64_of_u64 g) (PER_PAGE + 1))))),
     (''events_more'', JBool (length (get_anchoring_events (w_keccak w) db (i64_of_u64 g) (PER_PAGE + 1)) > PER_PAGE))])"
  show ?thesis
    by (rule agree_node_read [OF assms(1), where template = "''anchoring_registry.html''" and ctx = ?ctx])
      (auto simp: anchoring_registry_page_def parse_dec_nat [OF assms(2)] api_records_def Let_def case_prod_unfold
        intro!: arg_cong2 [where f = map_option] ext split: sum.split option.split)
qed

lemma agree_record:
  assumes "wants_json rq" and "g \<le> U64_MAX" and "r \<le> U64_MAX"
  shows "rel_option agree (anchoring_record_page w db send rq (dec_nat g) (dec_nat r) s)
    (map_option (api_answer \<circ> as_listing) (api_versions w send g r (page_param rq) s))"
proof -
  let ?ctx = "\<lambda>(newest, versions). page_ctx w db (JObj
    [(''latest'', record_json newest), (''versions'', JArr (map record_json versions)),
     (''page'', json_of_nat (page_param rq)),
     (''total_pages'', json_of_nat (total_pages (i64_of_u64 (r_index newest)) PER_PAGE))])"
  show ?thesis
    by (rule agree_node_read [OF assms(1), where template = "''anchoring_record.html''" and ctx = ?ctx])
      (auto simp: anchoring_record_page_def parse_dec_nat assms api_versions_def Let_def case_prod_unfold
        intro!: arg_cong2 [where f = map_option] ext split: sum.split option.split)
qed


definition json_request :: request where
  "json_request = \<lparr> rq_accept = Some ''application/json'', rq_query = Map.empty \<rparr>"


end
