(* ===== verification/Web_Search.thy ===== *)
theory Web_Search
  imports Web_Pages Web_Anchoring Web_Tx
begin

section \<open>Searching (\<open>src/web.rs\<close>)\<close>

text \<open>
  Where a typed text leads, and the suggestions while it is typed. \<open>the\<close> stands for a panic that
  \<open>shown_token_address\<close> excludes.
\<close>

definition destination :: "string \<Rightarrow> string \<Rightarrow> string \<Rightarrow> json" where
  "destination kind id' url = JObj [(''type'', JStr kind), (''id'', JStr id'), (''url'', JStr url)]"

definition token_destination :: "token_metadata \<Rightarrow> json" where
  "token_destination m = destination ''token'' (k_address m) (''/token/'' @ k_address m)"

definition resolve_search :: "web_env \<Rightarrow> database \<Rightarrow> string \<Rightarrow> json option" where
  "resolve_search w db q =
     (let height = (if q \<noteq> [] \<and> all_digits q then parse_i64 q else None);
          checksummed = checksum_address (w_keccak w) q
      in or_else (map_option (\<lambda>_. destination ''block'' q (''/block/'' @ q))
                   (opt_filter (\<lambda>n. get_block_by_number db n \<noteq> None) height))
         (or_else (map_option (\<lambda>_. destination ''transaction'' q (''/tx/'' @ q)) (get_transaction (w_keccak w) db q))
         (or_else (map_option (\<lambda>b. destination ''block'' (dec_int (b_number b)) (''/block/'' @ dec_int (b_number b)))
                    (get_block_by_hash db q))
         (or_else (if is_valid_address checksummed
                   then Some (destination ''address'' checksummed (''/address/'' @ checksummed)) else None)
         (or_else (map_option token_destination (get_token_metadata (w_keccak w) db q))
         (or_else (map_option token_destination (get_token_by_symbol_or_name (w_keccak w) db q))
           (map_option token_destination (head_opt (search_tokens (w_keccak w) db q 1)))))))))"

definition search_page ::
  "web_env \<Rightarrow> database \<Rightarrow> (json \<Rightarrow> 's \<Rightarrow> reply \<times> 's) \<Rightarrow> bool \<Rightarrow> request \<Rightarrow> 's \<Rightarrow> http_answer" where
  "search_page w db send late rq s =
     (let q = trim (unwrap_or [] (rq_query rq ''q'')) in
      if q = [] then
        (if wants_json rq then ok_json (JObj [(''query'', JStr q), (''match'', JNull)]) else redirect_to ''/'')
      else
        (let found =
               (case resolve_search w db q of
                  Some d \<Rightarrow> Some d
                | None \<Rightarrow>
                    map_option (\<lambda>h. destination (hit_kind h) (hit_id h) (hit_url h))
                      (head_opt (anchoring_hits w send late q 1 s)))
         in if wants_json rq then ok_json (JObj [(''query'', JStr q), (''match'', json_of_option id found)])
            else case found of
                   Some m \<Rightarrow> redirect_to (unwrap_or ''/'' (get_str ''url'' m))
                 | None \<Rightarrow> render_html w ''search.html'' (page_ctx w db (JObj [(''query'', JStr q), (''results'', JArr [])]))))"

subsection \<open>Suggestions\<close>

text \<open>The middle dot.\<close>

definition middle_dot :: string where
  "middle_dot = [char_of (194::nat), char_of (183::nat)]"

definition block_suggestion :: "block \<Rightarrow> string \<Rightarrow> json" where
  "block_suggestion b sublabel =
     suggestion ''block'' (''/block/'' @ dec_int (b_number b)) (''Block #'' @ dec_int (b_number b)) sublabel"

definition number_suggestions :: "database \<Rightarrow> string \<Rightarrow> json list" where
  "number_suggestions db q =
     (let number = unwrap_or q (strip_prefix ''#'' q) in
      if all_digits number
      then (case Option.bind (parse_i64 number) (get_block_by_number db) of
              Some b \<Rightarrow> [block_suggestion b (dec_int (b_tx_count b) @ '' transactions'')]
            | None \<Rightarrow> [])
      else [])"

definition address_suggestions :: "web_env \<Rightarrow> database \<Rightarrow> string \<Rightarrow> json list" where
  "address_suggestions w db checksummed =
     (let label = address_label w db checksummed;
          note = map_option (\<lambda>p. ''Virtual address '' @ middle_dot @ '' user tag '' @ va_user_tag p) (parse_virtual checksummed)
      in (if get_token_metadata (w_keccak w) db checksummed \<noteq> None
          then [suggestion ''token'' (''/token/'' @ checksummed) (unwrap_or ''Token'' label) checksummed] else [])
         @ [suggestion ''address'' (''/address/'' @ checksummed) (unwrap_or ''Address'' label) (unwrap_or checksummed note)])"

definition hash_suggestion :: "web_env \<Rightarrow> database \<Rightarrow> string \<Rightarrow> json" where
  "hash_suggestion w db q =
     (case get_block_by_hash db q of
        Some b \<Rightarrow> block_suggestion b q
      | None \<Rightarrow>
          suggestion ''transaction'' (''/tx/'' @ q) ''Transaction''
            (case get_transaction (w_keccak w) db q of
               Some t \<Rightarrow> ''Block #'' @ dec_int (t_block_number t)
             | None \<Rightarrow> ''Not indexed yet''))"

definition token_suggestion :: "token_metadata \<Rightarrow> json" where
  "token_suggestion m =
     suggestion ''token'' (''/token/'' @ k_address m) (if k_name m = [] then k_symbol m else k_name m)
       (k_symbol m @ '' '' @ middle_dot @ '' '' @ the (truncate_hash (k_address m) 8 6))"

definition name_suggestions ::
  "web_env \<Rightarrow> database \<Rightarrow> (json \<Rightarrow> 's \<Rightarrow> reply \<times> 's) \<Rightarrow> bool \<Rightarrow> string \<Rightarrow> 's \<Rightarrow> json list" where
  "name_suggestions w db send late q s =
     map token_suggestion (search_tokens (w_keccak w) db q SUGGESTION_LIMIT)
     @ map hit_suggestion (anchoring_hits w send late q SUGGESTION_LIMIT s)
     @ map (\<lambda>(address, name). suggestion ''precompile'' (''/address/'' @ address) name address)
         (search_named (w_keccak w) q SUGGESTION_LIMIT)"

definition search_suggest ::
  "web_env \<Rightarrow> database \<Rightarrow> (json \<Rightarrow> 's \<Rightarrow> reply \<times> 's) \<Rightarrow> bool \<Rightarrow> request \<Rightarrow> 's \<Rightarrow> http_answer" where
  "search_suggest w db send late rq s =
     (let raw = unwrap_or [] (rq_query rq ''q'');
          q = trim raw
      in if q = [] then suggest_response raw []
         else
           (let checksummed = checksum_address (w_keccak w) q;
                rows = number_suggestions db q
                  @ (if is_valid_address checksummed then address_suggestions w db checksummed
                     else if is_hash q then [hash_suggestion w db q]
                     else name_suggestions w db send late q s)
            in suggest_response raw (take SUGGESTION_LIMIT rows)))"

subsection \<open>A search never leads nowhere\<close>

text \<open>
  The tables as the indexer leaves them: blocks under their own numbers, token rows under the twenty
  bytes of their address, with names that were sanitised.
\<close>

definition search_ok :: "database \<Rightarrow> bool" where
  "search_ok db \<longleftrightarrow>
     unique_keys (blocks db) \<and> (\<forall>(n, b)\<in>set (blocks db). b_number b = n \<and> 0 \<le> n \<and> is_i64 n)
     \<and> unique_keys (token_metas db)
     \<and> (\<forall>(k, m)\<in>set (token_metas db). k_address m = k \<and> length k = 20
          \<and> \<not> has_control_chars (k_name m) \<and> \<not> has_control_chars (k_symbol m))"

text \<open>
  A link whose page shows what it names, whatever the node, the directory and the clock do: none of its
  answers is a 400 or a 404.
\<close>

definition leads_somewhere ::
  "web_env \<Rightarrow> database \<Rightarrow> (json \<Rightarrow> 's \<Rightarrow> reply \<times> 's) \<Rightarrow> string \<Rightarrow> bool" where
  "leads_somewhere w db send url \<longleftrightarrow>
     (\<exists>b. url = ''/block/'' @ b \<and> (\<forall>rq. h_status (block_page w db rq b) \<notin> {400, 404}))
   \<or> (\<exists>h. url = ''/tx/'' @ h \<and> (\<forall>d a cfg now (directory :: 's directory) late rq held s answer held'.
        tx_page w d a cfg now db send directory late rq h held s = Some (answer, held') \<longrightarrow> h_status answer \<notin> {400, 404}))
   \<or> (\<exists>a. url = ''/address/'' @ a \<and>
        (\<forall>rq late late' s. h_status (address_page w db send late late' rq a s) \<notin> {400, 404}))
   \<or> (\<exists>a. url = ''/token/'' @ a \<and>
        (\<forall>rq now s. \<exists>answer. token_page w db now send rq a s = Some answer \<and> h_status answer \<notin> {400, 404}))"

lemma html_or_json_shown: "h_status (html_or_json w rq template ctx) \<notin> {400, 404}"
  by (auto simp: html_or_json_def ok_json_def render_html_def split: option.split)

lemma block_page_shown: "find_block db b \<noteq> None \<Longrightarrow> h_status (block_page w db rq b) \<notin> {400, 404}"
  using html_or_json_shown by (fastforce simp: block_page_def Let_def split: option.split)

lemma tx_page_shown:
  "get_transaction (w_keccak w) db h \<noteq> None \<Longrightarrow>
     tx_page w d a cfg now db send directory late rq h held s = Some (answer, held') \<Longrightarrow> h_status answer \<notin> {400, 404}"
  using html_or_json_shown by (fastforce simp: tx_page_def split: option.splits)

lemma address_page_shown:
  "is_valid_address (checksum_address (w_keccak w) a) \<Longrightarrow> h_status (address_page w db send late late' rq a s) \<notin> {400, 404}"
  using html_or_json_shown by (simp add: address_page_def Let_def case_prod_unfold)

lemma token_page_shown:
  assumes "search_ok db" and "m \<in> row_to_token (w_keccak w) ` snd ` set (token_metas db)"
  shows "\<exists>answer. token_page w db now send rq (k_address m) s = Some answer \<and> h_status answer \<notin> {400, 404}"
proof -
  let ?k = "w_keccak w"
  from assms(2) obtain k r where kr: "(k, r) \<in> set (token_metas db)" and m: "m = row_to_token ?k r" by auto
  from assms(1) kr have r: "k_address r = k" "length k = 20" "\<not> has_control_chars (k_name r)" "\<not> has_control_chars (k_symbol r)"
    and u: "unique_keys (token_metas db)" by (auto simp: search_ok_def)
  have addr: "is_address (blob_addr ?k k)"
    unfolding blob_addr_def by (rule is_address_checksum) (simp add: is_address_blob_hex r)
  let ?c = "checksum_address ?k (k_address m)"
  have ma: "k_address m = blob_addr ?k k" by (simp add: m row_to_token_def r)
  have c: "is_address ?c" unfolding ma by (rule is_address_checksum [OF addr])
  have "hex_blob ?c = k"
    using hex_blob_case [OF c addr] lower_checksum_address [OF addr, of ?k] unfolding ma by simp
  moreover have "map_of (token_metas db) k = Some r" using u kr by (simp add: unique_keys_def)
  ultimately have stored: "get_token_metadata ?k db ?c = Some m" by (simp add: get_token_metadata_def m)
  have clean: "opt_filter (\<lambda>m. \<not> has_control_chars (k_name m) \<and> \<not> has_control_chars (k_symbol m))
      (get_token_metadata ?k db ?c) = Some m"
    unfolding stored using r by (simp add: m row_to_token_def)
  have "token_row w db now send rq (k_address m) s = Some (Inr m)"
    unfolding token_row_def Let_def clean by simp
  then show ?thesis
    using is_address_valid [OF c] html_or_json_shown by (simp add: token_page_def Let_def)
qed

lemma all_digits_dec_nat: "all_digits (dec_nat n)"
  using radix_nat_digits [of 10] by (fastforce simp: all_digits_def byte_val_digit_char)

lemma find_block_by_number:
  assumes "0 \<le> n" and "is_i64 n" and "get_block_by_number db n \<noteq> None"
  shows "find_block db (dec_int n) \<noteq> None"
  using assms parse_i64_dec_int [OF assms(2)] all_digits_dec_nat [of "nat n"]
  by (simp add: find_block_def dec_int_def)

lemma head_opt_mem: "head_opt xs = Some x \<Longrightarrow> x \<in> set xs"
  by (auto simp: head_opt_def split: list.splits)

lemma stored_tokens:
  "get_token_metadata keccak db q = Some m \<Longrightarrow> m \<in> row_to_token keccak ` snd ` set (token_metas db)"
  "get_token_by_symbol_or_name keccak db q = Some m \<Longrightarrow> m \<in> row_to_token keccak ` snd ` set (token_metas db)"
  "m \<in> set (search_tokens keccak db q limit) \<Longrightarrow> m \<in> row_to_token keccak ` snd ` set (token_metas db)"
proof -
  show "get_token_metadata keccak db q = Some m \<Longrightarrow> m \<in> row_to_token keccak ` snd ` set (token_metas db)"
    by (force simp: get_token_metadata_def dest: map_of_SomeD)
  show "get_token_by_symbol_or_name keccak db q = Some m \<Longrightarrow> m \<in> row_to_token keccak ` snd ` set (token_metas db)"
    by (force simp: get_token_by_symbol_or_name_def dest: head_opt_mem)
  show "m \<in> set (search_tokens keccak db q limit) \<Longrightarrow> m \<in> row_to_token keccak ` snd ` set (token_metas db)"
    by (auto simp: search_tokens_def split: option.splits prod.splits dest!: in_set_takeD)
qed

text \<open>No suggestion cuts an address inside a character.\<close>

lemma shown_token_address:
  assumes "search_ok db" and "m \<in> set (search_tokens keccak db q limit)"
  shows "truncate_hash (k_address m) 8 6 \<noteq> None"
proof -
  obtain k r where kr: "(k, r) \<in> set (token_metas db)" and m: "m = row_to_token keccak r"
    using stored_tokens(3) [OF assms(2)] by auto
  then have "length (k_address r) = 20" using assms(1) by (auto simp: search_ok_def)
  then have "is_address (k_address m)"
    unfolding m row_to_token_def blob_addr_def by (simp add: is_address_checksum is_address_blob_hex)
  then obtain r' where a: "k_address m = ''0x'' @ r'" and hex: "\<forall>c\<in>set r'. is_hex_digit c"
    by (auto simp: is_address_def)
  have "ascii (''0x'' @ r')" using hex is_hex_digit_plain by (auto simp: ascii_def)
  then show ?thesis unfolding a by (rule truncate_hash_ascii)
qed

lemma or_else_Some: "or_else x y = Some d \<longleftrightarrow> x = Some d \<or> x = None \<and> y = Some d"
  by (cases x) auto

text \<open>Everywhere the index sends a text, and what it found there.\<close>

lemma resolve_search_cases:
  assumes found: "resolve_search w db q = Some d"
  obtains
      (height) n where "(if q \<noteq> [] \<and> all_digits q then parse_i64 q else None) = Some n" "get_block_by_number db n \<noteq> None"
        "d = destination ''block'' q (''/block/'' @ q)"
    | (tx) "get_transaction (w_keccak w) db q \<noteq> None" "d = destination ''transaction'' q (''/tx/'' @ q)"
    | (hash) b where "get_block_by_hash db q = Some b"
        "d = destination ''block'' (dec_int (b_number b)) (''/block/'' @ dec_int (b_number b))"
    | (address) a where "a = checksum_address (w_keccak w) q" "is_valid_address a" "d = destination ''address'' a (''/address/'' @ a)"
    | (tokens) m where "m \<in> row_to_token (w_keccak w) ` snd ` set (token_metas db)" "d = token_destination m"
proof -
  let ?k = "w_keccak w" and ?height = "if q \<noteq> [] \<and> all_digits q then parse_i64 q else None"
  let ?filtered = "opt_filter (\<lambda>n. get_block_by_number db n \<noteq> None) ?height"
  from found have "map_option (\<lambda>_. destination ''block'' q (''/block/'' @ q)) ?filtered = Some d
    \<or> map_option (\<lambda>_. destination ''transaction'' q (''/tx/'' @ q)) (get_transaction ?k db q) = Some d
    \<or> map_option (\<lambda>b. destination ''block'' (dec_int (b_number b)) (''/block/'' @ dec_int (b_number b)))
        (get_block_by_hash db q) = Some d
    \<or> (let a = checksum_address ?k q in
        if is_valid_address a then Some (destination ''address'' a (''/address/'' @ a)) else None) = Some d
    \<or> map_option token_destination (get_token_metadata ?k db q) = Some d
    \<or> map_option token_destination (get_token_by_symbol_or_name ?k db q) = Some d
    \<or> map_option token_destination (head_opt (search_tokens ?k db q 1)) = Some d"
    unfolding resolve_search_def Let_def or_else_Some by argo
  then show thesis
  proof (elim disjE)
    assume "map_option (\<lambda>_. destination ''block'' q (''/block/'' @ q)) ?filtered = Some d"
    then obtain n where "?filtered = Some n" "d = destination ''block'' q (''/block/'' @ q)"
      by (auto simp only: map_option_eq_Some)
    then show thesis using height by simp
  next
    assume "(let a = checksum_address ?k q in
        if is_valid_address a then Some (destination ''address'' a (''/address/'' @ a)) else None) = Some d"
    then show thesis using address by (simp add: Let_def split: if_splits)
  next
    assume "map_option token_destination (get_token_metadata ?k db q) = Some d"
    then obtain m where "get_token_metadata ?k db q = Some m" "d = token_destination m" by (auto simp only: map_option_eq_Some)
    then show thesis by (rule tokens [OF stored_tokens(1)])
  next
    assume "map_option token_destination (get_token_by_symbol_or_name ?k db q) = Some d"
    then obtain m where "get_token_by_symbol_or_name ?k db q = Some m" "d = token_destination m" by (auto simp only: map_option_eq_Some)
    then show thesis by (rule tokens [OF stored_tokens(2)])
  next
    assume "map_option token_destination (head_opt (search_tokens ?k db q 1)) = Some d"
    then obtain m where "head_opt (search_tokens ?k db q 1) = Some m" "d = token_destination m"
      by (auto simp only: map_option_eq_Some)
    then show thesis by (intro tokens [OF stored_tokens(3) [OF head_opt_mem]])
  qed (use tx hash in auto)
qed


subsection \<open>Samples\<close>

definition block_ninety :: database where
  "block_ninety = empty_database\<lparr>blocks := [(90, sample_block 90 ''b'')]\<rparr>"


text \<open>
  Enter and the suggestions need not agree: of two tokens that spell the typed word, one as its symbol and
  one as its name, the one with the symbol is suggested first, and the search takes the one with more holders.
\<close>

definition listed_token :: "nat \<Rightarrow> string \<Rightarrow> string \<Rightarrow> int \<Rightarrow> string \<times> token_metadata" where
  "listed_token n symbol name holders =
     (replicate 20 (char_of n),
      \<lparr>k_address = replicate 20 (char_of n), k_name = name, k_symbol = symbol, k_decimals = 6, k_currency = [],
        k_total_supply = ''0'', k_logo_uri = [], k_holder_count = holders, k_created_at = 0, k_updated_at = 0\<rparr>)"

definition two_tokens :: database where
  "two_tokens = empty_database\<lparr>token_metas := [listed_token 1 ''AB'' ''First'' 1, listed_token 2 ''XY'' ''ab'' 9]\<rparr>"

lemma typed_word_spelled:
  "like CHR 0x5C ''%ab%'' ''AB''" "like CHR 0x5C ''%ab%'' ''ab''" "escape_like ''ab'' = ''ab''"
  "eq_ic ''AB'' ''ab''" "\<not> eq_ic ''XY'' ''ab''" "\<not> like CHR 0x5C ''ab%'' ''XY''" "like CHR 0x5C ''ab%'' ''ab''"
  "lower ''AB'' = ''ab''" "lower ''ab'' = ''ab''"
  by code_simp+

lemma enter_passes_over_the_first_suggestion:
  "map k_symbol (search_tokens keccak two_tokens ''ab'' SUGGESTION_LIMIT) = [''AB'', ''XY'']"
  "map_option k_symbol (get_token_by_symbol_or_name keccak two_tokens ''ab'') = Some ''XY''"
  by (simp_all add: search_tokens_def search_term_def get_token_by_symbol_or_name_def head_opt_def two_tokens_def
      empty_database_def listed_token_def search_rank_def typed_word_spelled row_to_token_def SUGGESTION_LIMIT_def
      del: like.simps)

end
