(* ===== verification/Stats.thy ===== *)
theory Stats
  imports Web_Base Parse
begin

section \<open>The statistics of the home page (\<open>src/indexer.rs\<close>, \<open>src/web.rs\<close>)\<close>

text \<open>
  What the statistics task counts and stores, and the page that shows it. Floating point is the record
  \<open>f64_ops\<close>, one field per operation the code uses: the conversion from an \<open>i64\<close>, product, quotient and
  comparison, the JSON number of a float and back, \<open>format!\<close> to a number of places, and \<open>as i64\<close>. The
  integer sums are computed as the code computes them. The lemmas say that the charts never index out of
  their sixty minutes and that each minute holds what its blocks add up to.
\<close>

record 'f f64_ops =
  f_of_int :: "int \<Rightarrow> 'f"
  f_times :: "'f \<Rightarrow> 'f \<Rightarrow> 'f"
  f_over :: "'f \<Rightarrow> 'f \<Rightarrow> 'f"
  f_less :: "'f \<Rightarrow> 'f \<Rightarrow> bool"
  f_le :: "'f \<Rightarrow> 'f \<Rightarrow> bool"
  f_json :: "'f \<Rightarrow> json"
  f_of_json :: "json \<Rightarrow> 'f option"
  f_show :: "nat \<Rightarrow> 'f \<Rightarrow> string"
  f_to_int :: "'f \<Rightarrow> int"

definition CHART_MINUTES :: nat where
  "CHART_MINUTES = 60"

subsection \<open>The minutes of the last hour\<close>

text \<open>The rows of the hour before the newest block, and the minute each falls in.\<close>

definition chart_start :: "database \<Rightarrow> int" where
  "chart_start db = Max (b_timestamp ` snd ` set (blocks db)) - 60 * int CHART_MINUTES"

definition chart_rows :: "database \<Rightarrow> block list" where
  "chart_rows db = filter (\<lambda>b. b_timestamp b > chart_start db) (map snd (blocks db))"

definition minute_of :: "int \<Rightarrow> block \<Rightarrow> nat" where
  "minute_of start b = nat ((b_timestamp b - start - 1) div 60)"

text \<open>SQLite's \<open>SUM\<close> of integers: an error when the sum leaves 64 bits.\<close>

definition sum_i64 :: "int list \<Rightarrow> int option" where
  "sum_i64 ns = (if is_i64 (sum_list ns) then Some (sum_list ns) else None)"

record minute_row =
  mr_minute :: nat
  mr_tx :: int
  mr_gas :: int
  mr_blocks :: int
  mr_gas_limit :: int
  mr_first_ms :: int
  mr_last_ms :: int

text \<open>One group of \<open>GROUP BY\<close>; \<open>None\<close> is the query failing.\<close>

definition minute_row_of :: "block list \<Rightarrow> nat \<Rightarrow> int \<Rightarrow> minute_row option" where
  "minute_row_of rows minute start =
     (let group = filter (\<lambda>b. minute_of start b = minute) rows
      in case (sum_i64 (map b_tx_count group), sum_i64 (map b_gas_used group), sum_i64 (map b_gas_limit group)) of
           (Some tx, Some gas, Some limit) \<Rightarrow>
             Some \<lparr> mr_minute = minute, mr_tx = tx, mr_gas = gas, mr_blocks = int (length group), mr_gas_limit = limit,
                    mr_first_ms = Min (set (map b_timestamp_ms group)), mr_last_ms = Max (set (map b_timestamp_ms group)) \<rparr>
         | _ \<Rightarrow> None)"

record chart =
  ch_tx :: "int list"
  ch_gas :: "int list"
  ch_blocks :: int
  ch_gas_limit :: int
  ch_first_ms :: int
  ch_last_ms :: int

definition empty_chart :: chart where
  "empty_chart = \<lparr> ch_tx = replicate CHART_MINUTES 0, ch_gas = replicate CHART_MINUTES 0, ch_blocks = 0,
     ch_gas_limit = 0, ch_first_ms = I64_MAX, ch_last_ms = 0 \<rparr>"

text \<open>
  A row added to the chart. An index past the end panics, \<open>None\<close>; a query that fails midway is \<open>Inl\<close>.
\<close>

datatype stats_error = Query_Failed

definition add_minute :: "minute_row \<Rightarrow> chart \<Rightarrow> chart option" where
  "add_minute r c =
     (if mr_minute r < length (ch_tx c) \<and> mr_minute r < length (ch_gas c)
      then Some \<lparr> ch_tx = (ch_tx c)[mr_minute r := mr_tx r], ch_gas = (ch_gas c)[mr_minute r := mr_gas r],
                  ch_blocks = wrap_i64 (ch_blocks c + mr_blocks r), ch_gas_limit = wrap_i64 (ch_gas_limit c + mr_gas_limit r),
                  ch_first_ms = min (ch_first_ms c) (mr_first_ms r), ch_last_ms = max (ch_last_ms c) (mr_last_ms r) \<rparr>
      else None)"

fun add_minutes :: "minute_row option list \<Rightarrow> chart \<Rightarrow> (stats_error + chart) option" where
  "add_minutes [] c = Some (Inr c)"
| "add_minutes (None # rs) c = Some (Inl Query_Failed)"
| "add_minutes (Some r # rs) c = Option.bind (add_minute r c) (add_minutes rs)"

definition hour_chart :: "database \<Rightarrow> (stats_error + chart) option" where
  "hour_chart db =
     (let rows = chart_rows db; start = chart_start db
      in add_minutes (map (\<lambda>m. minute_row_of rows m start) (sort (remdups (map (minute_of start) rows)))) empty_chart)"

subsection \<open>What is counted and stored\<close>

definition f_clamp :: "'f f64_ops \<Rightarrow> 'f \<Rightarrow> 'f \<Rightarrow> 'f \<Rightarrow> 'f" where
  "f_clamp ops low high x =
     (let x1 = (if f_less ops x low then low else x) in if f_less ops high x1 then high else x1)"

definition ratio :: "'f f64_ops \<Rightarrow> 'f \<Rightarrow> 'f \<Rightarrow> 'f" where
  "ratio ops n d = (if f_less ops (f_of_int ops 0) d then f_over ops n d else f_of_int ops 0)"

definition stats_json ::
  "'f f64_ops \<Rightarrow> database \<Rightarrow> int \<Rightarrow> nat \<Rightarrow> int \<Rightarrow> int \<Rightarrow> chart \<Rightarrow> json" where
  "stats_json ops db now head txns_24h blocks_24h c =
     (let f = f_of_int ops;
          total_blocks = counter db ''blocks'';
          latest_block = get_max_block_number db;
          chain_head = max (i64_of_u64 head) (unwrap_or 0 latest_block);
          index_pct = (if 0 < chain_head
                       then f_clamp ops (f 0) (f 100) (f_times ops (f_over ops (f total_blocks) (f chain_head)) (f 100))
                       else f 0);
          span_ms = f (max 0 (wrap_i64 (ch_last_ms c - ch_first_ms c)));
          avg_block_time_ms = ratio ops span_ms (f (wrap_i64 (ch_blocks c - 1)));
          tps = ratio ops (f_times ops (f (wrap_i64 (sum_list (ch_tx c)))) (f 1000)) span_ms;
          gas_util_pct = ratio ops (f_times ops (f (wrap_i64 (sum_list (ch_gas c)))) (f 100)) (f (ch_gas_limit c))
      in JObj
        [(''latest_block'', json_of_option json_int latest_block), (''total_blocks'', json_int total_blocks),
         (''total_txns'', json_int (counter db ''transactions'')), (''token_count'', json_int (int (length (token_metas db)))),
         (''txns_24h'', json_int txns_24h), (''blocks_24h'', json_int blocks_24h),
         (''avg_block_time_ms'', f_json ops avg_block_time_ms), (''tps'', f_json ops tps),
         (''gas_util_pct'', f_json ops gas_util_pct), (''chain_head'', json_int chain_head),
         (''index_pct'', f_json ops index_pct), (''tx_per_minute'', JArr (map json_int (ch_tx c))),
         (''gas_per_minute'', JArr (map json_int (ch_gas c))), (''updated_at'', json_int now)])"

text \<open>\<open>to_text\<close> is \<open>Value::to_string\<close>.\<close>

definition compute_and_store_stats ::
  "'f f64_ops \<Rightarrow> (json \<Rightarrow> string) \<Rightarrow> int \<Rightarrow> nat \<Rightarrow> database \<Rightarrow> (stats_error + json \<times> database) option" where
  "compute_and_store_stats ops to_text now head db =
     (let last_day = filter (\<lambda>b. now - 86400 \<le> b_timestamp b) (map snd (blocks db))
      in case sum_i64 (map b_tx_count last_day) of
           None \<Rightarrow> Some (Inl Query_Failed)
         | Some txns_24h \<Rightarrow>
             (case hour_chart db of
                None \<Rightarrow> None
              | Some (Inl e) \<Rightarrow> Some (Inl e)
              | Some (Inr c) \<Rightarrow>
                  (let stats = stats_json ops db now head txns_24h (int (length last_day)) c
                   in Some (Inr (stats, set_kv now ''stats'' (to_text stats) db)))))"

subsection \<open>The home page\<close>

definition format_block_time :: "'f f64_ops \<Rightarrow> 'f \<Rightarrow> string" where
  "format_block_time ops ms =
     (if f_le ops (f_of_int ops 1000) ms then f_show ops 2 (f_over ops ms (f_of_int ops 1000)) @ ''s''
      else f_show ops 0 ms @ '' ms'')"

definition stat_f64 :: "'f f64_ops \<Rightarrow> string \<Rightarrow> json \<Rightarrow> 'f" where
  "stat_f64 ops key stats = unwrap_or (f_of_int ops 0) (Option.bind (jget key stats) (f_of_json ops))"

definition stat_i64 :: "string \<Rightarrow> json \<Rightarrow> int" where
  "stat_i64 key stats = unwrap_or 0 (Option.bind (jget key stats) as_i64)"

definition with_displays :: "'f f64_ops \<Rightarrow> json \<Rightarrow> json" where
  "with_displays ops stats =
     (case stats of
        JObj _ \<Rightarrow>
          jset ''gas_util_display'' (JStr (f_show ops 1 (stat_f64 ops ''gas_util_pct'' stats) @ ''%''))
            (jset ''tps_display'' (JStr (f_show ops 2 (stat_f64 ops ''tps'' stats)))
              (jset ''avg_block_time_display'' (JStr (format_block_time ops (stat_f64 ops ''avg_block_time_ms'' stats))) stats))
      | _ \<Rightarrow> stats)"

text \<open>\<open>interval\<close> is the setting of the statistics task; three of them, or a minute, and the stats are stale.\<close>

definition index_stale :: "'f f64_ops \<Rightarrow> 'f \<Rightarrow> int \<Rightarrow> json \<Rightarrow> bool" where
  "index_stale ops interval now stats =
     (let three = f_times ops interval (f_of_int ops 3);
          stale_after = f_to_int ops (if f_less ops three (f_of_int ops 60) then f_of_int ops 60 else three)
      in case Option.bind (jget ''updated_at'' stats) as_i64 of
           Some at \<Rightarrow> wrap_i64 (now - at) > stale_after
         | None \<Rightarrow> False)"

definition home_page ::
  "web_env \<Rightarrow> 'f f64_ops \<Rightarrow> nat \<Rightarrow> nat \<Rightarrow> 'f \<Rightarrow> int \<Rightarrow> database \<Rightarrow> json \<Rightarrow> request \<Rightarrow> http_answer" where
  "home_page w ops block_count tx_count interval now db stats rq =
     (let recent_blocks = get_recent_blocks db block_count;
          latest = or_else (head_opt recent_blocks) (get_latest_block db);
          recent_txs = get_transactions (w_keccak w) db 1 (tx_count mod 2 ^ 32);
          latest_num = (case latest of Some b \<Rightarrow> b_number b | None \<Rightarrow> 0);
          shown = with_displays ops stats;
          chain_head = stat_i64 ''chain_head'' shown;
          ctx = page_ctx_for w latest (JObj
            [(''stats'', shown), (''index_stale'', JBool (index_stale ops interval now shown)),
             (''recent_blocks'', JArr (map block_json recent_blocks)), (''recent_txs'', JArr (map tx_json recent_txs)),
             (''recent_block_count'', json_of_nat block_count), (''recent_tx_count'', json_of_nat tx_count),
             (''latest_num'', json_int latest_num), (''chain_head'', json_int chain_head),
             (''indexed_display'', JStr (comma_num (stat_i64 ''total_blocks'' shown))),
             (''head_display'', JStr (comma_num chain_head)),
             (''index_pct_display'', JStr (f_show ops 1 (stat_f64 ops ''index_pct'' shown)))])
      in html_or_json w rq ''home.html'' ctx)"

subsection \<open>The charts\<close>

lemma minute_in_chart: "b \<in> set (chart_rows db) \<Longrightarrow> minute_of (chart_start db) b < CHART_MINUTES"
proof -
  assume b: "b \<in> set (chart_rows db)"
  then have "b_timestamp b \<le> Max (b_timestamp ` snd ` set (blocks db))" by (auto simp: chart_rows_def intro!: Max_ge)
  moreover have "nat ((t - (newest - 3600) - 1) div 60) < 60" if "newest - 3600 < t" "t \<le> newest" for t newest :: int
    using that by linarith
  ultimately show ?thesis using b by (auto simp: chart_rows_def minute_of_def chart_start_def CHART_MINUTES_def)
qed

lemma minute_of_iff:
  "b_timestamp b > start \<Longrightarrow>
     minute_of start b = m \<longleftrightarrow> start + 60 * int m < b_timestamp b \<and> b_timestamp b \<le> start + 60 * (int m + 1)"
  by (auto simp: minute_of_def)

lemma sum_filter_le:
  fixes f :: "'a \<Rightarrow> int"
  shows "\<forall>x\<in>set xs. 0 \<le> f x \<Longrightarrow> 0 \<le> sum_list (map f (filter P xs)) \<and> sum_list (map f (filter P xs)) \<le> sum_list (map f xs)"
  by (induction xs) auto

lemma sum_by_group:
  fixes f :: "'a \<Rightarrow> int"
  shows "\<forall>x\<in>set xs. g x < n \<Longrightarrow> sum_list (map (\<lambda>m. sum_list (map f (filter (\<lambda>x. g x = m) xs))) [0..<n]) = sum_list (map f xs)"
proof (induction xs)
  case (Cons x xs)
  have "sum_list (map (\<lambda>m. sum_list (map f (filter (\<lambda>y. g y = m) (x # xs)))) [0..<n]) =
      sum_list (map (\<lambda>m. (if m = g x then f x else 0) + sum_list (map f (filter (\<lambda>y. g y = m) xs))) [0..<n])"
    by (intro arg_cong [where f = sum_list] map_cong refl) auto
  also have "\<dots> = f x + sum_list (map f xs)"
    using Cons by (simp add: sum_list_addf interv_sum_list_conv_sum_set_nat del: upt_Suc)
  finally show ?case by simp
qed (simp add: interv_sum_list_conv_sum_set_nat del: upt_Suc)

text \<open>Rows that name minutes of the chart are added without a panic, each in its place.\<close>

lemma add_minutes_fills:
  assumes "\<forall>m\<in>set ms. m < CHART_MINUTES \<and> row m = Some (r m) \<and> mr_minute (r m) = m"
    and "length (ch_tx c) = CHART_MINUTES" and "length (ch_gas c) = CHART_MINUTES"
  shows "\<exists>c'. add_minutes (map row ms) c = Some (Inr c')
    \<and> ch_tx c' = map (\<lambda>i. if i \<in> set ms then mr_tx (r i) else ch_tx c ! i) [0..<CHART_MINUTES]
    \<and> ch_gas c' = map (\<lambda>i. if i \<in> set ms then mr_gas (r i) else ch_gas c ! i) [0..<CHART_MINUTES]"
  using assms
proof (induction ms arbitrary: c)
  case Nil
  then show ?case by (auto simp: list_eq_iff_nth_eq simp del: upt_Suc)
next
  case (Cons m ms)
  then obtain c1 where c1: "add_minute (r m) c = Some c1" and at: "ch_tx c1 = (ch_tx c)[m := mr_tx (r m)]"
    "ch_gas c1 = (ch_gas c)[m := mr_gas (r m)]"
    by (simp add: add_minute_def)
  from Cons.IH [of c1] Cons.prems at obtain c' where c': "add_minutes (map row ms) c1 = Some (Inr c')"
    "ch_tx c' = map (\<lambda>i. if i \<in> set ms then mr_tx (r i) else ch_tx c1 ! i) [0..<CHART_MINUTES]"
    "ch_gas c' = map (\<lambda>i. if i \<in> set ms then mr_gas (r i) else ch_gas c1 ! i) [0..<CHART_MINUTES]"
    by auto
  have "ch_tx c' = map (\<lambda>i. if i \<in> set (m # ms) then mr_tx (r i) else ch_tx c ! i) [0..<CHART_MINUTES]"
    "ch_gas c' = map (\<lambda>i. if i \<in> set (m # ms) then mr_gas (r i) else ch_gas c ! i) [0..<CHART_MINUTES]"
    unfolding c' at using Cons.prems by (auto simp: nth_list_update)
  moreover have "add_minutes (map row (m # ms)) c = Some (Inr c')" using Cons.prems c1 c' by simp
  ultimately show ?case by blast
qed

definition in_minute :: "database \<Rightarrow> nat \<Rightarrow> block \<Rightarrow> bool" where
  "in_minute db m b \<longleftrightarrow>
     (let newest = Max (b_timestamp ` snd ` set (blocks db))
      in newest - 60 * (60 - int m) < b_timestamp b \<and> b_timestamp b \<le> newest - 60 * (59 - int m))"

text \<open>Counts that fit: no block has a negative one, and their sums stay in 64 bits.\<close>

definition countable :: "block list \<Rightarrow> bool" where
  "countable bs \<longleftrightarrow>
     (\<forall>b\<in>set bs. 0 \<le> b_tx_count b \<and> 0 \<le> b_gas_used b \<and> 0 \<le> b_gas_limit b)
     \<and> sum_list (map b_tx_count bs) \<le> I64_MAX \<and> sum_list (map b_gas_used bs) \<le> I64_MAX
     \<and> sum_list (map b_gas_limit bs) \<le> I64_MAX"

lemma countable_sums:
  "countable bs \<Longrightarrow> f \<in> {b_tx_count, b_gas_used, b_gas_limit} \<Longrightarrow>
     sum_i64 (map f (filter P bs)) = Some (sum_list (map f (filter P bs)))"
  using sum_filter_le [of bs b_tx_count P] sum_filter_le [of bs b_gas_used P] sum_filter_le [of bs b_gas_limit P]
  by (auto simp: countable_def sum_i64_def is_i64_def)

lemma group_in_minute:
  "m < CHART_MINUTES \<Longrightarrow>
     filter (\<lambda>b. minute_of (chart_start db) b = m) (chart_rows db) = filter (in_minute db m) (map snd (blocks db))"
proof -
  let ?start = "chart_start db"
  assume m: "m < CHART_MINUTES"
  have "b_timestamp b > ?start \<and> minute_of ?start b = m \<longleftrightarrow> in_minute db m b" for b
  proof (cases "b_timestamp b > ?start")
    case True
    then show ?thesis using minute_of_iff [OF True, of m]
      by (simp add: in_minute_def Let_def chart_start_def CHART_MINUTES_def algebra_simps)
  next
    case False
    then show ?thesis using m by (simp add: in_minute_def Let_def chart_start_def CHART_MINUTES_def)
  qed
  then show ?thesis by (simp add: chart_rows_def conj_commute cong: filter_cong)
qed

lemma hour_chart_adds_up:
  assumes "countable (map snd (blocks db))"
  shows "\<exists>c. hour_chart db = Some (Inr c)
    \<and> ch_tx c = map (\<lambda>m. sum_list (map b_tx_count (filter (in_minute db m) (map snd (blocks db))))) [0..<CHART_MINUTES]
    \<and> ch_gas c = map (\<lambda>m. sum_list (map b_gas_used (filter (in_minute db m) (map snd (blocks db))))) [0..<CHART_MINUTES]"
proof -
  let ?start = "chart_start db" and ?rows = "chart_rows db" and ?all = "map snd (blocks db)"
  let ?ms = "sort (remdups (map (minute_of ?start) ?rows))"
  let ?group = "\<lambda>m. filter (\<lambda>b. minute_of ?start b = m) ?rows"
  let ?row = "\<lambda>m. minute_row_of ?rows m ?start"
  have sums: "sum_i64 (map f (?group m)) = Some (sum_list (map f (?group m)))" if "f \<in> {b_tx_count, b_gas_used, b_gas_limit}" for f m
    using countable_sums [OF assms that, of "\<lambda>b. ?start < b_timestamp b \<and> minute_of ?start b = m"]
    by (simp add: chart_rows_def conj_commute)
  have row: "?row m = Some (the (?row m)) \<and> mr_minute (the (?row m)) = m
      \<and> mr_tx (the (?row m)) = sum_list (map b_tx_count (?group m))
      \<and> mr_gas (the (?row m)) = sum_list (map b_gas_used (?group m))" for m
    by (simp add: minute_row_of_def Let_def sums)
  have "\<forall>m\<in>set ?ms. m < CHART_MINUTES \<and> ?row m = Some (the (?row m)) \<and> mr_minute (the (?row m)) = m"
    using minute_in_chart row by auto
  from add_minutes_fills [OF this, of empty_chart]
  obtain c where c: "hour_chart db = Some (Inr c)"
    "ch_tx c = map (\<lambda>i. if i \<in> set ?ms then mr_tx (the (?row i)) else 0) [0..<CHART_MINUTES]"
    "ch_gas c = map (\<lambda>i. if i \<in> set ?ms then mr_gas (the (?row i)) else 0) [0..<CHART_MINUTES]"
    by (auto simp: empty_chart_def hour_chart_def Let_def cong: map_cong simp del: upt_Suc)
  have empty: "?group i = []" if "i \<notin> set ?ms" for i
    using that by (auto simp: filter_empty_conv)
  have "(if i \<in> set ?ms then mr_tx (the (?row i)) else 0) = sum_list (map b_tx_count (?group i))"
    "(if i \<in> set ?ms then mr_gas (the (?row i)) else 0) = sum_list (map b_gas_used (?group i))" for i
    using row [of i] empty [of i] by (auto simp del: set_sort)
  then show ?thesis
    using c by (auto simp: group_in_minute cong: map_cong simp del: upt_Suc set_sort)
qed

text \<open>
  C31. The statistics add up: the task never indexes out of its charts, every minute of a chart is the
  sum over the blocks of that minute of the hour before the newest block, the minutes together are all
  blocks of that hour, and what is stored under \<open>stats\<close> is what was computed, the tables untouched.
\<close>

theorem stats_charts_add_up:
  assumes "countable (map snd (blocks db))"
  shows "\<exists>v. compute_and_store_stats ops to_text now head db = Some (Inr (v, set_kv now ''stats'' (to_text v) db))
    \<and> jget ''tx_per_minute'' v = Some (JArr (map (\<lambda>m. json_int
        (sum_list (map b_tx_count (filter (in_minute db m) (map snd (blocks db)))))) [0..<CHART_MINUTES]))
    \<and> jget ''gas_per_minute'' v = Some (JArr (map (\<lambda>m. json_int
        (sum_list (map b_gas_used (filter (in_minute db m) (map snd (blocks db)))))) [0..<CHART_MINUTES]))
    \<and> sum_list (map (\<lambda>m. sum_list (map b_tx_count (filter (in_minute db m) (map snd (blocks db))))) [0..<CHART_MINUTES])
      = sum_list (map b_tx_count (filter (\<lambda>b. chart_start db < b_timestamp b) (map snd (blocks db))))"
proof -
  obtain c where c: "hour_chart db = Some (Inr c)"
    "ch_tx c = map (\<lambda>m. sum_list (map b_tx_count (filter (in_minute db m) (map snd (blocks db))))) [0..<CHART_MINUTES]"
    "ch_gas c = map (\<lambda>m. sum_list (map b_gas_used (filter (in_minute db m) (map snd (blocks db))))) [0..<CHART_MINUTES]"
    using hour_chart_adds_up [OF assms] by blast
  have "sum_list (map (\<lambda>m. sum_list (map b_tx_count (filter (in_minute db m) (map snd (blocks db))))) [0..<CHART_MINUTES])
      = sum_list (map (\<lambda>m. sum_list (map b_tx_count (filter (\<lambda>b. minute_of (chart_start db) b = m) (chart_rows db))))
          [0..<CHART_MINUTES])"
    by (intro arg_cong [where f = sum_list] map_cong refl) (simp add: group_in_minute)
  also have "\<dots> = sum_list (map b_tx_count (chart_rows db))"
    by (rule sum_by_group) (use minute_in_chart in blast)
  finally have "sum_list (map (\<lambda>m. sum_list (map b_tx_count (filter (in_minute db m) (map snd (blocks db))))) [0..<CHART_MINUTES])
      = sum_list (map b_tx_count (chart_rows db))" .
  moreover have "sum_i64 (map b_tx_count (filter P (map snd (blocks db)))) \<noteq> None" for P
    using countable_sums [OF assms, of b_tx_count P] by simp
  ultimately show ?thesis
    using c(1) by (auto simp: compute_and_store_stats_def Let_def stats_json_def jget_def c(2,3) chart_rows_def comp_def
        split: option.splits simp del: upt_Suc)
qed

text \<open>An instance of the arithmetic, on whole numbers.\<close>

definition whole_ops :: "int f64_ops" where
  "whole_ops = \<lparr> f_of_int = id, f_times = (*), f_over = (div), f_less = (<), f_le = (\<le>), f_json = json_int,
     f_of_json = as_i64, f_show = (\<lambda>_. dec_int), f_to_int = id \<rparr>"

lemma stats_charts_add_up_witness:
  "\<exists>v. compute_and_store_stats whole_ops (\<lambda>_. ''{}'') 5 0 (empty_database\<lparr>blocks := [(7, sample_block 7 ''h'')]\<rparr>)
     = Some (Inr (v, set_kv 5 ''stats'' ''{}'' (empty_database\<lparr>blocks := [(7, sample_block 7 ''h'')]\<rparr>)))"
proof -
  let ?db = "empty_database\<lparr>blocks := [(7, sample_block 7 ''h'')]\<rparr>"
  have "countable (map snd (blocks ?db))" by (simp add: countable_def sample_block_def empty_database_def)
  from stats_charts_add_up [OF this, of whole_ops "\<lambda>_. ''{}''" 5 0] show ?thesis by auto
qed

end
