(* ===== verification/Migration.thy ===== *)
theory Migration
  imports Storage_Reads
begin

section \<open>Opening an older database (\<open>src/db.rs\<close>)\<close>

text \<open>
  Older builds keyed the balance tables by checksummed text; opening such a file turns the keys into
  the bytes of the addresses, once. A key is a value of either type here, as SQLite holds it. The lemmas
  say that the tables mean after the conversion what they meant before, and that it happens once.
\<close>

datatype sql_key = Text_Key string | Blob_Key blob

type_synonym sql_balance_key = "sql_key \<times> sql_key"

record stored_balances =
  sb_token_balances :: "(sql_balance_key \<times> string \<times> int) list"
  sb_genesis_balances :: "(sql_balance_key \<times> string) list"

text \<open>A file: its balance tables as they are stored, and the rest of it as the model has it.\<close>

type_synonym stored_file = "database \<times> stored_balances"

datatype migrate_error = Key_Null | Key_Taken

definition BALANCE_KEYS_BLOB :: string where
  "BALANCE_KEYS_BLOB = ''balance_keys_blob''"

text \<open>\<open>unhex(substr(key, 3))\<close>: null for what is not hex.\<close>

definition unhex_key :: "sql_key \<Rightarrow> blob option" where
  "unhex_key k = (case k of Text_Key t \<Rightarrow> hex_decode (drop 2 t) | Blob_Key b \<Rightarrow> hex_decode (drop 2 b))"

text \<open>The key a row is updated to, for the rows whose token is text; the columns are \<open>NOT NULL\<close>.\<close>

definition blob_key :: "sql_balance_key \<Rightarrow> migrate_error + sql_balance_key" where
  "blob_key k =
     (case fst k of
        Blob_Key _ \<Rightarrow> Inr k
      | Text_Key _ \<Rightarrow>
          (case (unhex_key (fst k), unhex_key (snd k)) of
             (Some token, Some holder) \<Rightarrow> Inr (Blob_Key token, Blob_Key holder)
           | _ \<Rightarrow> Inl Key_Null))"

text \<open>The update, row by row; a key another row has fails it.\<close>

fun blob_rows :: "(sql_balance_key \<times> 'v) list \<Rightarrow> (sql_balance_key \<times> 'v) list \<Rightarrow> migrate_error + (sql_balance_key \<times> 'v) list" where
  "blob_rows done' [] = Inr done'"
| "blob_rows done' ((k, v) # rows) =
     (case blob_key k of
        Inl e \<Rightarrow> Inl e
      | Inr k' \<Rightarrow>
          if k' \<noteq> k \<and> k' \<in> fst ` set (done' @ rows) then Inl Key_Taken
          else blob_rows (done' @ [(k', v)]) rows)"

text \<open>One transaction: an error changes nothing.\<close>

fun blob_balance_keys :: "int \<Rightarrow> stored_file \<Rightarrow> migrate_error + stored_file" where
  "blob_balance_keys now (db, tables) =
     (if get_kv db BALANCE_KEYS_BLOB \<noteq> None then Inr (db, tables)
      else
        (case blob_rows [] (sb_token_balances tables) of
           Inl e \<Rightarrow> Inl e
         | Inr balances \<Rightarrow>
             (case blob_rows [] (sb_genesis_balances tables) of
                Inl e \<Rightarrow> Inl e
              | Inr genesis \<Rightarrow>
                  Inr (set_kv now BALANCE_KEYS_BLOB ''1'' db,
                       \<lparr> sb_token_balances = balances, sb_genesis_balances = genesis \<rparr>))))"

text \<open>What opening a file does to the rows it holds.\<close>

definition init_db :: "int \<Rightarrow> stored_file \<Rightarrow> migrate_error + stored_file" where
  "init_db now file = blob_balance_keys now (seed_counters (fst file), snd file)"

subsection \<open>What the tables mean\<close>

definition key_address :: "sql_key \<Rightarrow> blob" where
  "key_address k = (case k of Text_Key t \<Rightarrow> hex_blob t | Blob_Key b \<Rightarrow> b)"

definition key_meaning :: "sql_balance_key \<Rightarrow> balance_key" where
  "key_meaning k = (key_address (fst k), key_address (snd k))"

definition row_meaning :: "sql_balance_key \<times> 'v \<Rightarrow> balance_key \<times> 'v" where
  "row_meaning r = (key_meaning (fst r), snd r)"

definition in_bytes :: "sql_balance_key \<Rightarrow> bool" where
  "in_bytes k \<longleftrightarrow> (\<exists>token holder. k = (Blob_Key token, Blob_Key holder))"

text \<open>A key older builds wrote, two addresses as text, or one of today's.\<close>

definition written_key :: "sql_balance_key \<Rightarrow> bool" where
  "written_key k \<longleftrightarrow> in_bytes k \<or> (\<exists>token holder. k = (Text_Key token, Text_Key holder) \<and> is_address token \<and> is_address holder)"

definition written_rows :: "(sql_balance_key \<times> 'v) list \<Rightarrow> bool" where
  "written_rows rows \<longleftrightarrow> (\<forall>(k, v)\<in>set rows. written_key k) \<and> distinct (map (key_meaning \<circ> fst) rows)"

lemma unhex_address:
  assumes "is_address t"
  shows "hex_decode (drop 2 t) = Some (hex_blob t)"
proof -
  obtain r where r: "t = ''0x'' @ r" "length r = 40" "\<forall>c\<in>set r. is_hex_digit c"
    using assms by (auto simp: is_address_def)
  have "\<exists>bs. hex_decode r = Some bs" using r hex_decode_Some_iff [of r] by simp
  then show ?thesis using r(1) by (auto simp: hex_blob_def)
qed

lemma blob_key_written:
  assumes "written_key k"
  shows "\<exists>k'. blob_key k = Inr k' \<and> in_bytes k' \<and> key_meaning k' = key_meaning k"
  using assms by (auto simp: written_key_def in_bytes_def blob_key_def unhex_key_def unhex_address key_meaning_def key_address_def)

lemma in_bytes_meaning:
  assumes "in_bytes k" "in_bytes k'"
  shows "key_meaning k = key_meaning k' \<longleftrightarrow> k = k'"
  using assms by (auto simp: in_bytes_def key_meaning_def key_address_def)

lemma blob_key_in_bytes: "in_bytes k \<Longrightarrow> blob_key k = Inr k"
  by (auto simp: in_bytes_def blob_key_def)

lemma written_key_bytes: "in_bytes k \<Longrightarrow> written_key k"
  by (simp add: written_key_def)

lemma written_rows_Cons:
  "written_rows ((k, v) # rows) \<longleftrightarrow> written_key k \<and> key_meaning k \<notin> key_meaning ` fst ` set rows \<and> written_rows rows"
  by (auto simp: written_rows_def image_image)

lemma blob_rows_written:
  assumes "written_rows (done' @ rows)" "\<forall>(k, v)\<in>set done'. in_bytes k"
  shows "\<exists>rows'. blob_rows done' rows = Inr rows' \<and> (\<forall>(k, v)\<in>set rows'. in_bytes k)
           \<and> map row_meaning rows' = map row_meaning (done' @ rows)"
  using assms
proof (induction rows arbitrary: done')
  case Nil
  then show ?case by simp
next
  case (Cons r rows)
  obtain k v where r: "r = (k, v)" by (cases r)
  have k: "written_key k" using Cons.prems(1) r by (simp add: written_rows_def)
  then obtain k' where k': "blob_key k = Inr k'" "in_bytes k'" "key_meaning k' = key_meaning k"
    using blob_key_written by blast
  have fresh: "key_meaning k \<notin> key_meaning ` fst ` set (done' @ rows)"
    using Cons.prems(1) r by (auto simp: written_rows_def image_image)
  then have new: "k' \<notin> fst ` set (done' @ rows)" using k'(3) by (metis image_eqI)
  have "written_rows ((done' @ [(k', v)]) @ rows)"
    using Cons.prems(1) r k' written_key_bytes [OF k'(2)] by (auto simp: written_rows_def)
  moreover have "\<forall>(k, v)\<in>set (done' @ [(k', v)]). in_bytes k" using Cons.prems(2) k'(2) by auto
  ultimately obtain rows' where "blob_rows (done' @ [(k', v)]) rows = Inr rows'"
    "\<forall>(k, v)\<in>set rows'. in_bytes k"
    "map row_meaning rows' = map row_meaning ((done' @ [(k', v)]) @ rows)"
    using Cons.IH by blast
  moreover have "row_meaning (k', v) = row_meaning r" using r k'(3) by (simp add: row_meaning_def)
  ultimately show ?case using r k' new by simp
qed

text \<open>The database the model has, of a file.\<close>

definition as_database :: "stored_file \<Rightarrow> database" where
  "as_database file =
     (fst file)\<lparr> token_balances := map row_meaning (sb_token_balances (snd file)),
                 genesis_balances := map row_meaning (sb_genesis_balances (snd file)) \<rparr>"

definition written_file :: "stored_file \<Rightarrow> bool" where
  "written_file file \<longleftrightarrow>
     written_rows (sb_token_balances (snd file)) \<and> written_rows (sb_genesis_balances (snd file))"

definition keys_in_bytes :: "stored_file \<Rightarrow> bool" where
  "keys_in_bytes file \<longleftrightarrow>
     (\<forall>(k, v)\<in>set (sb_token_balances (snd file)). in_bytes k)
       \<and> (\<forall>(k, v)\<in>set (sb_genesis_balances (snd file)). in_bytes k)"

lemma seed_counter_again: "seed_counter t n (seed_counter t n' db) = seed_counter t n' db"
  by (auto simp: seed_counter_def split: option.splits)

lemma seed_counter_other:
  assumes "map_of (counters db) t \<noteq> None"
  shows "seed_counter t n db = db"
  using assms by (auto simp: seed_counter_def split: option.splits)

lemma seeded_counters:
  "map_of (counters (seed_counters db)) ''blocks'' \<noteq> None \<and> map_of (counters (seed_counters db)) ''transactions'' \<noteq> None"
  by (auto simp: seed_counters_def seed_counter_def map_add_def split: option.splits)

lemma seed_counters_again:
  assumes "map_of (counters db) ''blocks'' \<noteq> None" "map_of (counters db) ''transactions'' \<noteq> None"
  shows "seed_counters db = db"
  using assms by (simp add: seed_counters_def seed_counter_other)

lemma get_kv_seed_counters [simp]: "get_kv (seed_counters db) k = get_kv db k"
  by (simp add: get_kv_def seed_counters_def seed_counter_def split: option.splits)

lemma counters_set_kv [simp]: "counters (set_kv now k v db) = counters db"
  by (simp add: set_kv_def)

lemma get_kv_set_kv_same [simp]: "get_kv (set_kv now k v db) k = Some v"
  by (simp add: get_kv_def set_kv_def update_conv')

text \<open>Opening, on the database of the file: the counts and the mark, and no balance moved.\<close>

lemma as_database_seed: "as_database (seed_counters db, tables) = seed_counters (as_database (db, tables))"
  by (simp add: as_database_def seed_counters_def seed_counter_def map_add_def split: option.splits)

lemma init_db_marked:
  assumes "get_kv (fst file) BALANCE_KEYS_BLOB \<noteq> None"
  shows "init_db now file = Inr (seed_counters (fst file), snd file)"
  using assms by (simp add: init_db_def)

lemma init_db_unmarked:
  assumes "written_file file" "get_kv (fst file) BALANCE_KEYS_BLOB = None"
  shows "\<exists>file'. init_db now file = Inr file' \<and> keys_in_bytes file'
           \<and> fst file' = set_kv now BALANCE_KEYS_BLOB ''1'' (seed_counters (fst file))
           \<and> as_database file' = set_kv now BALANCE_KEYS_BLOB ''1'' (seed_counters (as_database file))"
proof -
  obtain db tables where fl: "file = (db, tables)" by (cases "file")
  obtain tb where tb: "blob_rows [] (sb_token_balances tables) = Inr tb" "\<forall>(k, v)\<in>set tb. in_bytes k"
      "map row_meaning tb = map row_meaning (sb_token_balances tables)"
    using blob_rows_written [of "[]" "sb_token_balances tables"] assms(1) fl by (auto simp: written_file_def)
  obtain gb where gb: "blob_rows [] (sb_genesis_balances tables) = Inr gb" "\<forall>(k, v)\<in>set gb. in_bytes k"
      "map row_meaning gb = map row_meaning (sb_genesis_balances tables)"
    using blob_rows_written [of "[]" "sb_genesis_balances tables"] assms(1) fl by (auto simp: written_file_def)
  define file' where "file' = (set_kv now BALANCE_KEYS_BLOB ''1'' (seed_counters db),
      \<lparr> sb_token_balances = tb, sb_genesis_balances = gb \<rparr>)"
  have "init_db now file = Inr file'" using assms(2) tb(1) gb(1) by (simp add: init_db_def fl file'_def)
  moreover have "keys_in_bytes file'" using tb(2) gb(2) by (simp add: keys_in_bytes_def file'_def)
  moreover have "as_database file' = set_kv now BALANCE_KEYS_BLOB ''1'' (as_database (seed_counters db, tables))"
    using tb(3) gb(3) by (simp add: as_database_def file'_def set_kv_def)
  ultimately show ?thesis unfolding as_database_seed fl by (auto simp: file'_def)
qed

text \<open>
  C26. A file an older build left, its balances keyed by address text (or already by bytes), opens: every key is
  bytes afterwards, the database the file stands for is the one it was with its row counts seeded and the
  conversion marked - no holder, no token and no amount changed - and opening the file again changes nothing.
\<close>

theorem opening_keeps_the_balances:
  assumes "written_file file" "get_kv (fst file) BALANCE_KEYS_BLOB = None"
  shows "\<exists>file'. init_db now file = Inr file' \<and> keys_in_bytes file'
           \<and> as_database file' = set_kv now BALANCE_KEYS_BLOB ''1'' (seed_counters (as_database file))
           \<and> (\<forall>later. init_db later file' = Inr file')"
proof -
  obtain file' where f: "init_db now file = Inr file'" "keys_in_bytes file'"
      "fst file' = set_kv now BALANCE_KEYS_BLOB ''1'' (seed_counters (fst file))"
      "as_database file' = set_kv now BALANCE_KEYS_BLOB ''1'' (seed_counters (as_database file))"
    using init_db_unmarked [OF assms] by blast
  have "seed_counters (fst file') = fst file'"
    using seeded_counters [of "fst file"] by (intro seed_counters_again) (simp_all add: f(3))
  moreover have "get_kv (fst file') BALANCE_KEYS_BLOB \<noteq> None" by (simp add: f(3))
  ultimately have "\<forall>later. init_db later file' = Inr file'" by (simp add: init_db_marked)
  then show ?thesis using f by blast
qed

definition an_old_key :: "string" where
  "an_old_key = ''0x'' @ replicate 39 (CHR ''0'') @ ''A''"

definition an_old_file :: stored_file where
  "an_old_file =
     (empty_database,
      \<lparr> sb_token_balances = [((Text_Key an_old_key, Text_Key an_old_key), ''7'', 3)],
        sb_genesis_balances = [((Text_Key an_old_key, Text_Key an_old_key), ''5'')] \<rparr>)"

lemma opening_keeps_the_balances_witness:
  "\<exists>file'. init_db 9 an_old_file = Inr file' \<and> keys_in_bytes file'
     \<and> as_database file' = set_kv 9 BALANCE_KEYS_BLOB ''1'' (seed_counters (as_database an_old_file))
     \<and> (\<forall>later. init_db later file' = Inr file')"
proof (rule opening_keeps_the_balances)
  have "is_address an_old_key" by (simp add: an_old_key_def is_address_def is_hex_digit_def hex_val_def digit_val_def)
  then show "written_file an_old_file"
    by (auto simp: an_old_file_def written_file_def written_rows_def written_key_def)
  show "get_kv (fst an_old_file) BALANCE_KEYS_BLOB = None"
    by (simp add: an_old_file_def empty_database_def get_kv_def)
qed

end
