(* ===== verification/Web_Filters.thy ===== *)
theory Web_Filters
  imports Web_Base Summary
begin

section \<open>The filters and functions of the templates (\<open>src/web.rs\<close>)\<close>

text \<open>
  What \<open>build_tera\<close> registers, as functions on the JSON values a template passes. \<open>escape\<close> is
  \<open>tera::escape_html\<close>, \<open>local_date\<close> the formatting of a moment in local time; a panic is \<open>None\<close>. The
  lemmas lead to what \<open>link_accounts\<close>, whose output a template marks safe, can put into a page.
\<close>

type_synonym tera_args = "string \<rightharpoonup> json"

definition str_arg :: "string \<Rightarrow> string \<Rightarrow> tera_args \<Rightarrow> string" where
  "str_arg key fallback args = unwrap_or fallback (Option.bind (args key) as_str)"

definition i64_arg :: "string \<Rightarrow> int \<Rightarrow> tera_args \<Rightarrow> int" where
  "i64_arg key fallback args = unwrap_or fallback (Option.bind (args key) as_i64)"

definition to_checksum :: "keccak \<Rightarrow> json \<Rightarrow> json" where
  "to_checksum keccak value = JStr (checksum_address keccak (unwrap_or [] (as_str value)))"

definition timestamp_to_date :: "(int \<Rightarrow> string option) \<Rightarrow> json \<Rightarrow> json" where
  "timestamp_to_date local_date value = JStr (unwrap_or ''unknown'' (local_date (unwrap_or 0 (as_i64 value))))"

definition fallback_filter :: "json \<Rightarrow> tera_args \<Rightarrow> json" where
  "fallback_filter value args =
     (if is_null value \<or> as_str value = Some [] then unwrap_or JNull (args ''value'') else value)"

definition comma_filter :: "json \<Rightarrow> json" where
  "comma_filter value = (case as_i64 value of Some n \<Rightarrow> JStr (comma_num n) | None \<Rightarrow> value)"

subsection \<open>Linking the accounts of a sentence\<close>

definition account_link :: "string \<Rightarrow> string \<Rightarrow> string" where
  "account_link full short =
     ''<a href=\"/address/'' @ full @ ''\" class=\"text-blue-400 hover:text-blue-300\">'' @ short @ ''</a>''"

text \<open>Each account where it next shows truncated; one that is no address, or does not show, is passed over.\<close>

fun link_walk :: "keccak \<Rightarrow> string list \<Rightarrow> string \<Rightarrow> string option" where
  "link_walk keccak [] rest = Some rest"
| "link_walk keccak (account # accounts) rest =
     (let full = checksum_address keccak account in
      case truncate_text account of
        None \<Rightarrow> None
      | Some short \<Rightarrow>
          (case opt_filter (\<lambda>_. is_valid_address full) (find_sub short rest) of
             None \<Rightarrow> link_walk keccak accounts rest
           | Some at \<Rightarrow>
               map_option (\<lambda>html. take at rest @ account_link full short @ html)
                 (link_walk keccak accounts (drop (at + length short) rest))))"

definition link_accounts :: "keccak \<Rightarrow> (string \<Rightarrow> string) \<Rightarrow> json \<Rightarrow> tera_args \<Rightarrow> json option" where
  "link_accounts keccak escape value args =
     map_option JStr (link_walk keccak
       (List.map_filter as_str (unwrap_or [] (Option.bind (args ''accounts'') as_array)))
       (escape (unwrap_or [] (as_str value))))"

subsection \<open>The functions\<close>

definition truncate_hash_function :: "tera_args \<Rightarrow> json option" where
  "truncate_hash_function args =
     map_option JStr (truncate_hash (str_arg ''h'' [] args) (u64_of_i64 (i64_arg ''prefix'' 8 args))
       (u64_of_i64 (i64_arg ''suffix'' 4 args)))"

definition format_time_ago_function :: "int \<Rightarrow> tera_args \<Rightarrow> json" where
  "format_time_ago_function now args = JStr (format_time_ago now (i64_arg ''timestamp'' 0 args))"

definition get_tx_url :: "tera_args \<Rightarrow> json" where
  "get_tx_url args = JStr (''/tx/'' @ str_arg ''tx_hash'' [] args)"

definition get_address_url :: "keccak \<Rightarrow> tera_args \<Rightarrow> json" where
  "get_address_url keccak args = JStr (''/address/'' @ checksum_address keccak (str_arg ''address'' [] args))"

definition address_label_function :: "web_env \<Rightarrow> database \<Rightarrow> nat \<Rightarrow> tera_args \<Rightarrow> labels \<Rightarrow> json \<times> labels" where
  "address_label_function w db now args held =
     (case cached_label w db now (str_arg ''address'' [] args) held of
        (Some label, held') \<Rightarrow> (JStr label, held')
      | (None, held') \<Rightarrow> (JNull, held'))"

definition get_token_url :: "keccak \<Rightarrow> tera_args \<Rightarrow> json" where
  "get_token_url keccak args = JStr (''/token/'' @ checksum_address keccak (str_arg ''address'' [] args))"

definition format_token_amount_function :: "tera_args \<Rightarrow> json" where
  "format_token_amount_function args =
     JStr (format_token_amount (str_arg ''amount'' ''0'' args) (i64_arg ''decimals'' 18 args))"

definition format_token_amount_with_symbol_function :: "tera_args \<Rightarrow> json" where
  "format_token_amount_with_symbol_function args =
     JStr (format_token_amount_with_symbol (str_arg ''amount'' ''0'' args) (i64_arg ''decimals'' 18 args)
       (str_arg ''symbol'' [] args))"

subsection \<open>Nothing but links\<close>

text \<open>Text that opens no tag and ends no attribute.\<close>

definition no_markup :: "string \<Rightarrow> bool" where
  "no_markup s \<longleftrightarrow> (\<forall>c\<in>set s. c \<noteq> CHR ''<'' \<and> c \<noteq> CHR ''>'' \<and> c \<noteq> CHR 0x22 \<and> c \<noteq> CHR 0x27)"

lemma no_markup_simps [simp]:
  "no_markup []" "no_markup (s @ t) \<longleftrightarrow> no_markup s \<and> no_markup t"
  by (auto simp: no_markup_def)

lemma find_sub_split: "find_sub pat s = Some i \<Longrightarrow> s = take i s @ pat @ drop (i + length pat) s"
proof (induction s arbitrary: i)
  case (Cons c s)
  show ?case
  proof (cases "starts_with pat (c # s)")
    case True
    then obtain r where "c # s = pat @ r" by (auto simp: starts_with_def strip_prefix_Some)
    moreover have "i = 0" using Cons.prems True by simp
    ultimately show ?thesis by simp
  next
    case False
    then obtain j where "i = Suc j" "find_sub pat s = Some j" using Cons.prems by auto
    then show ?thesis using Cons.IH [of j] by simp
  qed
qed (auto split: if_splits)

text \<open>A page with its links, and what it reads without them.\<close>

definition linked_html :: "(string \<times> string \<times> string) list \<Rightarrow> string \<Rightarrow> string" where
  "linked_html pieces rest = concat (map (\<lambda>(before, full, short). before @ account_link full short) pieces) @ rest"

definition plain_html :: "(string \<times> string \<times> string) list \<Rightarrow> string \<Rightarrow> string" where
  "plain_html pieces rest = concat (map (\<lambda>(before, full, short). before @ short) pieces) @ rest"

lemma link_walk_pieces:
  "link_walk keccak accounts s = Some html \<Longrightarrow>
     \<exists>pieces rest. html = linked_html pieces rest \<and> s = plain_html pieces rest
       \<and> (\<forall>(before, full, short)\<in>set pieces. is_address full)"
proof (induction accounts arbitrary: s html)
  case Nil
  then show ?case by (intro exI [of _ "[]"] exI [of _ s]) (simp add: linked_html_def plain_html_def)
next
  case (Cons account accounts)
  let ?full = "checksum_address keccak account"
  obtain short where short: "truncate_text account = Some short"
    using Cons.prems by (auto simp: Let_def split: option.splits)
  show ?case
  proof (cases "opt_filter (\<lambda>_. is_valid_address ?full) (find_sub short s)")
    case None
    then show ?thesis using Cons short by (simp add: Let_def)
  next
    case (Some at)
    then have f: "find_sub short s = Some at" "is_valid_address ?full" by simp_all
    obtain html' where h: "link_walk keccak accounts (drop (at + length short) s) = Some html'"
      "html = take at s @ account_link ?full short @ html'"
      using Cons.prems short Some by (auto simp: Let_def)
    obtain pieces rest where p: "html' = linked_html pieces rest" "drop (at + length short) s = plain_html pieces rest"
      "\<forall>(before, full, short)\<in>set pieces. is_address full"
      using Cons.IH [OF h(1)] by blast
    let ?pieces = "(take at s, ?full, short) # pieces"
    have "html = linked_html ?pieces rest" using h(2) p(1) by (simp add: linked_html_def)
    moreover have "s = plain_html ?pieces rest"
      using find_sub_split [OF f(1)] p(2) by (simp add: plain_html_def)
    moreover have "is_address ?full" using f(2) by (rule valid_checksum_is_address)
    ultimately show ?thesis using p(3) by (intro exI [of _ ?pieces] exI [of _ rest]) simp
  qed
qed

lemma plain_html_markup:
  "no_markup (plain_html pieces rest) \<Longrightarrow>
     no_markup rest \<and> (\<forall>(before, full, short)\<in>set pieces. no_markup before \<and> no_markup short)"
  by (induction pieces) (auto simp: plain_html_def)

text \<open>
  C25. A sentence linked is the sentence: what \<open>link_accounts\<close> puts into a page reads, its links aside, as
  the escaped sentence, and its links are anchors to addresses in hex around text that opens no tag, so
  that nothing a contract or a token is called reaches the page as markup.
\<close>

theorem link_accounts_only_links:
  assumes "link_accounts keccak escape value args = Some html"
    and "no_markup (escape (unwrap_or [] (as_str value)))"
  shows "\<exists>pieces rest. html = JStr (linked_html pieces rest)
    \<and> plain_html pieces rest = escape (unwrap_or [] (as_str value))
    \<and> no_markup rest \<and> (\<forall>(before, full, short)\<in>set pieces. no_markup before \<and> no_markup short \<and> is_address full)"
proof -
  obtain h where h: "html = JStr h" "link_walk keccak
       (List.map_filter as_str (unwrap_or [] (Option.bind (args ''accounts'') as_array)))
       (escape (unwrap_or [] (as_str value))) = Some h"
    using assms(1) by (auto simp: link_accounts_def)
  obtain pieces rest where p: "h = linked_html pieces rest" "escape (unwrap_or [] (as_str value)) = plain_html pieces rest"
    "\<forall>(before, full, short)\<in>set pieces. is_address full"
    using link_walk_pieces [OF h(2)] by blast
  have "no_markup rest \<and> (\<forall>(before, full, short)\<in>set pieces. no_markup before \<and> no_markup short)"
    using plain_html_markup assms(2) p(2) by simp
  then show ?thesis using h(1) p by (intro exI [of _ pieces] exI [of _ rest]) auto
qed

text \<open>Accounts in ASCII, as every address is, never panic.\<close>

lemma link_walk_total: "\<forall>a\<in>set accounts. ascii a \<Longrightarrow> link_walk keccak accounts s \<noteq> None"
proof (induction accounts arbitrary: s)
  case (Cons a accounts)
  have "truncate_text a \<noteq> None" using Cons.prems by (simp add: truncate_text_def truncate_hash_ascii)
  then show ?case using Cons by (auto simp: Let_def split: option.split)
qed simp

lemma link_accounts_only_links_witness:
  "\<exists>html pieces rest. link_accounts (\<lambda>_. []) id (JStr ''0xabcd paid'') [''accounts'' \<mapsto> JArr [JStr ''0xabcd'']] = Some html
     \<and> html = JStr (linked_html pieces rest) \<and> plain_html pieces rest = ''0xabcd paid''"
proof -
  let ?args = "[''accounts'' \<mapsto> JArr [JStr ''0xabcd'']]"
  have a: "\<forall>a\<in>set [''0xabcd'']. ascii a" by code_simp
  have "link_accounts (\<lambda>_. []) id (JStr ''0xabcd paid'') ?args \<noteq> None"
    using link_walk_total [OF a, of "\<lambda>_. []" "''0xabcd paid''"]
    by (simp add: link_accounts_def json_access List.map_filter_def)
  then obtain html where h: "link_accounts (\<lambda>_. []) id (JStr ''0xabcd paid'') ?args = Some html" by blast
  have "no_markup (id (unwrap_or [] (as_str (JStr ''0xabcd paid''))))" by (simp add: no_markup_def as_str_def)
  from link_accounts_only_links [OF h this] h show ?thesis by (auto simp: as_str_def)
qed

end
