(* ===== verification/Pipeline.thy ===== *)
theory Pipeline
  imports Ledger_Rewrite Fetching Feed Web_Api Web_Search
begin

section \<open>From the node to the reader\<close>

text \<open>
  The components together: a block as the node describes it, fetched and assembled
  (\<open>src/indexer.rs\<close>), committed (\<open>src/db.rs\<close>) and served (\<open>src/web.rs\<close>, \<open>src/web/api.rs\<close>). The lemmas
  follow a block's rows through a batch of commits, the identity of its transactions through the
  assembly, and the heights the feed announces to the pages that show them.
\<close>

subsection \<open>Indexing one block\<close>

datatype index_error = Fetch_Failed failure | Save_Failed db_error

definition index_block ::
  "tools \<Rightarrow> int \<Rightarrow> 's batch \<Rightarrow> (string list \<Rightarrow> 's \<Rightarrow> ((failure + token_meta list) \<times> 's) option) \<Rightarrow> database \<Rightarrow> nat \<Rightarrow> 's
     \<Rightarrow> (index_error option \<times> database \<times> 's) option" where
  "index_block tools now batch fetch_meta db n s =
     (case fetch_block_bundle tools now batch fetch_meta n s of
        None \<Rightarrow> None
      | Some (Inl e, s') \<Rightarrow> Some (Some (Fetch_Failed e), db, s')
      | Some (Inr None, s') \<Rightarrow> Some (None, db, s')
      | Some (Inr (Some bundle), s') \<Rightarrow>
          (case save_block_bundle now bundle db of
             Inl e \<Rightarrow> Some (Some (Save_Failed e), db, s')
           | Inr db' \<Rightarrow> Some (None, db', s')))"

subsection \<open>The rows of a batch\<close>

abbreviation number_of :: "block_bundle \<Rightarrow> int" where
  "number_of b \<equiv> b_number (bundle_block b)"

definition tx_key :: "transaction \<Rightarrow> blob" where
  "tx_key t = hex_blob (t_hash t)"

definition tx_rows :: "block_bundle \<Rightarrow> (blob \<times> transaction) list" where
  "tx_rows b = map (\<lambda>t. (tx_key t, stored_transaction t)) (bundle_txs b)"

text \<open>Transactions of the block they are in, in the order of their positions.\<close>

definition placed :: "block_bundle \<Rightarrow> bool" where
  "placed b \<longleftrightarrow> (\<forall>t\<in>set (bundle_txs b). t_block_number t = number_of b) \<and> sorted (map t_position (bundle_txs b))"

text \<open>Blocks and transactions the tables do not hold, and none twice.\<close>

definition fresh_batch :: "database \<Rightarrow> block_bundle list \<Rightarrow> bool" where
  "fresh_batch db bs \<longleftrightarrow>
     distinct (map number_of bs) \<and> (\<forall>b\<in>set bs. placed b \<and> number_of b \<notin> fst ` set (blocks db)
        \<and> (\<forall>(h, t)\<in>set (transactions db). t_block_number t \<noteq> number_of b))
     \<and> distinct (map tx_key (concat (map bundle_txs bs)))
     \<and> tx_key ` set (concat (map bundle_txs bs)) \<inter> fst ` set (transactions db) = {}"

lemma update_absent: "k \<notin> fst ` set xs \<Longrightarrow> AList.update k v xs = xs @ [(k, v)]"
  by (induction xs) auto

lemma upsert_fresh_transactions:
  "distinct (map tx_key txs) \<Longrightarrow> tx_key ` set txs \<inter> fst ` set (transactions db) = {} \<Longrightarrow>
     transactions (fold upsert_transaction txs db) = transactions db @ map (\<lambda>t. (tx_key t, stored_transaction t)) txs"
proof (induction txs arbitrary: db)
  case (Cons t txs)
  have absent: "tx_key t \<notin> fst ` set (transactions db)" using Cons.prems(2) by auto
  then have "map_of (transactions db) (tx_key t) = None" by (simp add: map_of_eq_None_iff)
  then have one: "transactions (upsert_transaction t db) = transactions db @ [(tx_key t, stored_transaction t)]"
    using absent by (simp add: upsert_transaction_def Let_def stored_transaction_def tx_key_def update_absent)
  have "transactions (fold upsert_transaction txs (upsert_transaction t db))
      = transactions (upsert_transaction t db) @ map (\<lambda>t. (tx_key t, stored_transaction t)) txs"
    using Cons.prems by (intro Cons.IH) (auto simp: one)
  then show ?case by (simp add: one)
qed simp

lemma write_block_tables:
  assumes "write_block now b db = Inr (c, db')"
  shows "\<exists>db1. upsert_block (bundle_block b) db = Inr db1 \<and> blocks db' = blocks db1
    \<and> transactions db' = transactions (fold upsert_transaction (bundle_txs b) db1)"
proof -
  obtain db1 ins db3 rows sq db5 where
    1: "upsert_block (bundle_block b) db = Inr db1"
    and 3: "inserted_as (bundle_transfers b) (fold upsert_transaction (bundle_txs b) db1) ins db3 rows sq"
    and 5: "db5 = fold (upsert_token_meta now) (bundle_tokens b)
             (fold (\<lambda>e. snd \<circ> insert_anchoring e) (bundle_anchoring b) db3)"
    and 6: "db' = apply_transfer_balances now ins db5"
    using write_block_cases [OF assms] by metis
  obtain xs where x: "fold upsert_transaction (bundle_txs b) db1 = db1\<lparr>transactions := xs\<rparr>"
    using upsert_transactions_frame by blast
  obtain as where a: "fold (\<lambda>e. snd \<circ> insert_anchoring e) (bundle_anchoring b) db3 = db3\<lparr>anchoring_events := as\<rparr>"
    using insert_anchorings_frame by blast
  obtain ms where m: "db5 = db3\<lparr>anchoring_events := as, token_metas := ms\<rparr>"
    using upsert_token_metas_frame [of now "bundle_tokens b" "db3\<lparr>anchoring_events := as\<rparr>"] unfolding 5 a by auto
  obtain ys ms' where "db' = db5\<lparr>token_balances := ys, token_metas := ms'\<rparr>"
    using apply_transfer_balances_frame [of now ins db5] 6 by auto
  then show ?thesis using 1 3 m x by (simp add: inserted_as_def)
qed

lemma write_fresh_block:
  assumes "write_block now b db = Inr (c, db')" and "number_of b \<notin> fst ` set (blocks db)"
    and "distinct (map tx_key (bundle_txs b))" and "tx_key ` set (bundle_txs b) \<inter> fst ` set (transactions db) = {}"
  shows "blocks db' = blocks db @ [(number_of b, stored_block (bundle_block b))]"
    and "transactions db' = transactions db @ tx_rows b"
proof -
  obtain db1 where 1: "upsert_block (bundle_block b) db = Inr db1" "blocks db' = blocks db1"
    "transactions db' = transactions (fold upsert_transaction (bundle_txs b) db1)"
    using write_block_tables [OF assms(1)] by blast
  have "map_of (blocks db) (number_of b) = None" using assms(2) by (simp add: map_of_eq_None_iff)
  then have db1: "db1 = db\<lparr>blocks := blocks db @ [(number_of b, stored_block (bundle_block b))]\<rparr>"
    using 1(1) assms(2) by (auto simp: upsert_block_def Let_def update_absent split: if_splits)
  show "blocks db' = blocks db @ [(number_of b, stored_block (bundle_block b))]" using 1(2) db1 by simp
  show "transactions db' = transactions db @ tx_rows b"
    using upsert_fresh_transactions [OF assms(3), of db1] assms(4) db1 1(3) by (simp add: tx_rows_def)
qed

lemma tx_rows_key: "fst ` set (tx_rows b) = tx_key ` set (bundle_txs b)"
  by (force simp: tx_rows_def)

lemma stored_transaction_number [simp]:
  "t_block_number (stored_transaction t) = t_block_number t" "t_position (stored_transaction t) = t_position t"
  by (simp_all add: stored_transaction_def)

lemma write_fresh_batch:
  "write_blocks now bs c db = Inr (c', db') \<Longrightarrow> fresh_batch db bs \<Longrightarrow>
     blocks db' = blocks db @ map (\<lambda>b. (number_of b, stored_block (bundle_block b))) bs
     \<and> transactions db' = transactions db @ concat (map tx_rows bs)"
proof (induction bs arbitrary: c db)
  case (Cons b bs)
  obtain n1 n2 db1 where 1: "write_block now b db = Inr ((n1, n2), db1)"
    and rest: "write_blocks now bs (fst c + n1, snd c + n2) db1 = Inr (c', db')"
    using Cons.prems(1) by (auto split: sum.splits prod.splits)
  have b: "number_of b \<notin> fst ` set (blocks db)" "distinct (map tx_key (bundle_txs b))"
    "tx_key ` set (bundle_txs b) \<inter> fst ` set (transactions db) = {}"
    using Cons.prems(2) by (auto simp: fresh_batch_def)
  note w = write_fresh_block [OF 1 b]
  have f: "number_of b \<notin> number_of ` set bs" "distinct (map number_of bs)" "placed b"
    "\<And>d. d \<in> set bs \<Longrightarrow> placed d \<and> number_of d \<notin> fst ` set (blocks db) \<and> (\<forall>(h, t)\<in>set (transactions db). t_block_number t \<noteq> number_of d)"
    "distinct (map tx_key (concat (map bundle_txs bs)))"
    "tx_key ` set (bundle_txs b) \<inter> tx_key ` set (concat (map bundle_txs bs)) = {}"
    using Cons.prems(2) by (auto simp: fresh_batch_def)
  have "tx_key ` set (concat (map bundle_txs (b # bs))) \<inter> fst ` set (transactions db) = {}"
    using Cons.prems(2) by (simp only: fresh_batch_def)
  then have new: "tx_key ` set (concat (map bundle_txs bs)) \<inter> fst ` set (transactions db) = {}"
    by (simp only: list.map concat.simps set_append image_Un Int_Un_distrib2) blast
  have "fresh_batch db1 bs"
    unfolding fresh_batch_def
  proof (intro conjI ballI)
    fix d assume d: "d \<in> set bs"
    then have "number_of d \<noteq> number_of b" using f(1) by (metis (mono_tags, lifting) image_eqI)
    then show "number_of d \<notin> fst ` set (blocks db1)" using f(4) [OF d] by (simp add: w)
    have "\<forall>(h, t)\<in>set (tx_rows b). t_block_number t = number_of b" using f(3) by (auto simp: tx_rows_def placed_def)
    then show "case r of (h, t) \<Rightarrow> t_block_number t \<noteq> number_of d" if "r \<in> set (transactions db1)" for r
      using that f(4) [OF d] \<open>number_of d \<noteq> number_of b\<close> by (auto simp: w)
  next
    show "tx_key ` set (concat (map bundle_txs bs)) \<inter> fst ` set (transactions db1) = {}"
      using f(6) new tx_rows_key [of b] by (simp only: w(2) set_append image_Un Int_Un_distrib) blast
  qed (use f in auto)
  from Cons.IH [OF rest this] w show ?case by simp
qed simp

subsection \<open>A batch, served\<close>

lemma own_rows:
  assumes "distinct (map number_of bs)" and "\<forall>b\<in>set bs. placed b" and "b \<in> set bs"
  shows "filter (\<lambda>(_, t). t_block_number t = number_of b) (concat (map tx_rows bs)) = tx_rows b"
  using assms
proof (induction bs)
  case (Cons c bs)
  have own: "filter (\<lambda>(_, t). t_block_number t = number_of b) (tx_rows c) = (if number_of c = number_of b then tx_rows c else [])"
    using Cons.prems(2) by (auto simp: tx_rows_def placed_def filter_id_conv filter_empty_conv)
  show ?case
  proof (cases "c = b")
    case True
    have "number_of b \<notin> number_of ` set bs" using Cons.prems(1) True by simp
    then have "\<forall>d\<in>set bs. number_of d \<noteq> number_of b" by (metis (mono_tags, lifting) image_eqI)
    then have "filter (\<lambda>(_, t). t_block_number t = number_of b) (concat (map tx_rows bs)) = []"
      using Cons.prems(2) by (auto simp: tx_rows_def placed_def filter_empty_conv)
    then show ?thesis using own True by simp
  next
    case False
    then have "b \<in> set bs" "number_of c \<noteq> number_of b" using Cons.prems(1,3) by auto
    then show ?thesis using own Cons by simp
  qed
qed simp

text \<open>A transaction as a listing gives it back once it is stored.\<close>

definition listed :: "keccak \<Rightarrow> transaction \<Rightarrow> transaction" where
  "listed keccak t = read_tx keccak List (tx_key t, stored_transaction t)"

lemma saved_batch_read:
  assumes fresh: "fresh_batch db bs" and "save_block_bundles now bs db = Inr db'" and b: "b \<in> set bs"
  shows "get_block_by_number db' (number_of b) = Some (row_to_block (stored_block (bundle_block b)))"
    and "get_block_transactions keccak db' (number_of b) List = map (listed keccak) (bundle_txs b)"
proof -
  have "bs \<noteq> []" using b by auto
  then obtain n1 n2 db1 where w: "write_blocks now bs (0, 0) db = Inr ((n1, n2), db1)"
    and db': "db' = add_to_counter ''transactions'' n2 (add_to_counter ''blocks'' n1 db1)"
    using assms(2) by (auto simp: save_block_bundles_def split: sum.splits prod.splits)
  from write_fresh_batch [OF w fresh]
  have tables: "blocks db' = blocks db @ map (\<lambda>b. (number_of b, stored_block (bundle_block b))) bs"
    "transactions db' = transactions db @ concat (map tx_rows bs)"
    by (simp_all add: db')
  have "map_of (blocks db) (number_of b) = None" using fresh b by (auto simp: fresh_batch_def map_of_eq_None_iff)
  moreover have "map_of (map (\<lambda>b. (number_of b, stored_block (bundle_block b))) bs) (number_of b)
      = Some (stored_block (bundle_block b))"
    using fresh b by (intro map_of_is_SomeI) (auto simp: fresh_batch_def comp_def)
  ultimately show "get_block_by_number db' (number_of b) = Some (row_to_block (stored_block (bundle_block b)))"
    by (simp add: get_block_by_number_def tables map_add_def)
  have "filter (\<lambda>(_, t). t_block_number t = number_of b) (transactions db) = []"
    using fresh b by (fastforce simp: fresh_batch_def filter_empty_conv)
  then have rows: "filter (\<lambda>(_, t). t_block_number t = number_of b) (transactions db') = tx_rows b"
    using own_rows [of bs b] fresh b by (simp add: tables fresh_batch_def)
  have "sorted (map (\<lambda>r. t_position (snd r)) (tx_rows b))"
    using fresh b by (simp add: fresh_batch_def placed_def tx_rows_def comp_def)
  then have "sort_key (\<lambda>r. t_position (snd r)) (tx_rows b) = tx_rows b" by (rule sort_key_id_if_sorted)
  then show "get_block_transactions keccak db' (number_of b) List = map (listed keccak) (bundle_txs b)"
    unfolding get_block_transactions_def rows by (simp add: tx_rows_def listed_def comp_def)
qed

text \<open>What the API says of a block is its row and the rows of its transactions.\<close>

definition block_answer :: "web_env \<Rightarrow> block_bundle \<Rightarrow> json" where
  "block_answer w b =
     jset ''transactions'' (JArr (map (tx_item w \<circ> listed (w_keccak w)) (bundle_txs b)))
       (block_json (row_to_block (stored_block (bundle_block b))))"

lemma find_block_of_number:
  assumes "0 \<le> n" and "is_i64 n"
  shows "find_block db (dec_int n) = get_block_by_number db n"
  using assms parse_i64_dec_int [OF assms(2)] all_digits_dec_nat [of "nat n"]
  by (simp add: find_block_def dec_int_def)

lemma saved_batch_served:
  assumes "fresh_batch db bs" and "save_block_bundles now bs db = Inr db'" and "b \<in> set bs"
    and "0 \<le> number_of b" and "is_i64 (number_of b)"
  shows "api_block w db' (dec_int (number_of b)) = Inr (block_answer w b)"
proof -
  have "find_block db' (dec_int (number_of b)) = Some (row_to_block (stored_block (bundle_block b)))"
    using saved_batch_read(1) [OF assms(1-3)] find_block_of_number [OF assms(4,5)] by simp
  moreover have "b_number (row_to_block (stored_block (bundle_block b))) = number_of b"
    by (simp add: row_to_block_def stored_block_def)
  ultimately show ?thesis
    using saved_batch_read(2) [OF assms(1-3), of "w_keccak w"] by (simp add: api_block_def block_answer_def)
qed

subsection \<open>From the node's description\<close>

text \<open>What the rows of a transaction are found and ordered by; nothing a receipt says changes it.\<close>

definition tx_id :: "transaction \<Rightarrow> string \<times> int \<times> int" where
  "tx_id t = (t_hash t, t_block_number t, t_position t)"

definition node_id :: "json \<Rightarrow> string \<times> int \<times> int" where
  "node_id tx = (str_field tx ''hash'', int_field ''blockNumber'' tx, int_field ''transactionIndex'' tx)"

lemma new_transaction_id: "tx_id (new_transaction tools now blk tx) = node_id tx"
  by (simp add: tx_id_def node_id_def new_transaction_def parse_transaction_def Let_def split: option.split)

lemma index_log_id: "tx_id (ix_tx (index_log tools now l i ix)) = tx_id (ix_tx ix)"
  by (simp add: tx_id_def index_log_def derive_fee_from_transfer_def Let_def split: option.split)

lemma index_logs_id: "tx_id (ix_tx (snd (index_logs tools now logs k ix))) = tx_id (ix_tx ix)"
  by (induction logs arbitrary: k ix) (simp_all add: Let_def index_log_id)

lemma apply_receipt_id: "tx_id (ix_tx (snd (apply_receipt tools now receipt k ix))) = tx_id (ix_tx ix)"
proof -
  have "tx_id (apply_receipt_fields tools receipt tx) = tx_id tx" for tx
    by (simp add: tx_id_def apply_receipt_fields_def Let_def split: option.split)
  then show ?thesis by (simp add: apply_receipt_def index_logs_id)
qed

lemma assemble_txs_ids:
  "\<forall>tx\<in>set raws. \<exists>h. h \<noteq> [] \<and> get_str ''hash'' tx = Some h \<Longrightarrow>
     map tx_id (fst (assemble_txs tools now blk by_hash raws k (txs, transfers, anchoring))) = map tx_id txs @ map node_id raws"
proof (induction raws arbitrary: k txs transfers anchoring)
  case (Cons tx raws)
  obtain h where h: "h \<noteq> []" "get_str ''hash'' tx = Some h" using Cons.prems by auto
  let ?new = "new_transaction tools now blk tx"
  show ?case
  proof (cases "by_hash h")
    case None
    then show ?thesis using Cons h by (simp add: Let_def new_transaction_id)
  next
    case (Some receipt)
    obtain k' ix where a: "apply_receipt tools now receipt k \<lparr>ix_tx = ?new, ix_transfers = transfers, ix_anchoring = anchoring\<rparr> = (k', ix)"
      by fastforce
    have "tx_id (ix_tx ix) = node_id tx"
      using apply_receipt_id [of tools now receipt k "\<lparr>ix_tx = ?new, ix_transfers = transfers, ix_anchoring = anchoring\<rparr>"] a
      by (simp add: new_transaction_id)
    then show ?thesis using Cons h Some a by (simp add: Let_def)
  qed
qed simp

text \<open>A block as the node describes it: its number and hash, and its transactions in their places.\<close>

definition described :: "json \<Rightarrow> nat \<Rightarrow> blob \<Rightarrow> blob list \<Rightarrow> bool" where
  "described raw n hash hs \<longleftrightarrow>
     int_field ''number'' raw = int n \<and> str_field raw ''hash'' = blob_hex hash \<and> distinct hs
     \<and> (\<exists>txs. get_array ''transactions'' raw = Some txs
          \<and> map (\<lambda>tx. (get_str ''hash'' tx, int_field ''blockNumber'' tx, int_field ''transactionIndex'' tx)) txs
            = map (\<lambda>i. (Some (blob_hex (hs ! i)), int n, int i)) [0..<length hs])"

lemma assembled_ids:
  assumes "described raw n hash hs"
  shows "map tx_id (bundle_txs (assemble_bundle tools now raw receipts)) =
      map (\<lambda>i. (blob_hex (hs ! i), int n, int i)) [0..<length hs]"
    and "number_of (assemble_bundle tools now raw receipts) = int n"
    and "b_hash (bundle_block (assemble_bundle tools now raw receipts)) = blob_hex hash"
proof -
  obtain txs where txs: "get_array ''transactions'' raw = Some txs"
    "map (\<lambda>tx. (get_str ''hash'' tx, int_field ''blockNumber'' tx, int_field ''transactionIndex'' tx)) txs
       = map (\<lambda>i. (Some (blob_hex (hs ! i)), int n, int i)) [0..<length hs]"
    using assms by (auto simp: described_def)
  have len: "length txs = length hs" using arg_cong [OF txs(2), of length] by simp
  have at: "get_str ''hash'' (txs ! i) = Some (blob_hex (hs ! i)) \<and> int_field ''blockNumber'' (txs ! i) = int n
      \<and> int_field ''transactionIndex'' (txs ! i) = int i" if "i < length hs" for i
    using arg_cong [OF txs(2), of "\<lambda>xs. xs ! i"] that len by simp
  have "\<forall>tx\<in>set txs. \<exists>h. h \<noteq> [] \<and> get_str ''hash'' tx = Some h"
    using at len by (metis append_is_Nil_conv blob_hex_def in_set_conv_nth list.distinct(1))
  from assemble_txs_ids [OF this]
  have "map tx_id (bundle_txs (assemble_bundle tools now raw receipts)) = map node_id txs"
    by (simp add: assemble_bundle_def Let_def case_prod_unfold txs(1))
  also have "\<dots> = map (\<lambda>i. (blob_hex (hs ! i), int n, int i)) [0..<length hs]"
    by (rule nth_equalityI) (use at len in \<open>simp_all add: node_id_def str_field_def\<close>)
  finally show "map tx_id (bundle_txs (assemble_bundle tools now raw receipts)) =
      map (\<lambda>i. (blob_hex (hs ! i), int n, int i)) [0..<length hs]" .
  show "number_of (assemble_bundle tools now raw receipts) = int n"
    "b_hash (bundle_block (assemble_bundle tools now raw receipts)) = blob_hex hash"
    using assms by (simp_all add: described_def assemble_bundle_def Let_def case_prod_unfold parse_block_def)
qed

lemma described_batch:
  assumes "described raw n hash hs" and b: "map tx_id (bundle_txs b) = map tx_id (bundle_txs (assemble_bundle tools now raw receipts))"
    "bundle_block b = bundle_block (assemble_bundle tools now raw receipts)"
    and "int n \<notin> fst ` set (blocks db)" and "\<forall>(h, t)\<in>set (transactions db). t_block_number t \<noteq> int n \<and> h \<notin> set hs"
  shows "fresh_batch db [b]" and "map t_hash (bundle_txs b) = map blob_hex hs"
proof -
  note ids = assembled_ids [OF assms(1), of tools now receipts]
  have id: "map tx_id (bundle_txs b) = map (\<lambda>i. (blob_hex (hs ! i), int n, int i)) [0..<length hs]"
    unfolding b(1) by (rule ids(1))
  have "map t_hash (bundle_txs b) = map (fst \<circ> tx_id) (bundle_txs b)" by (simp add: tx_id_def comp_def)
  also have "\<dots> = map fst (map (\<lambda>i. (blob_hex (hs ! i), int n, int i)) [0..<length hs])"
    unfolding id [symmetric] by simp
  also have "\<dots> = map blob_hex hs" by (rule nth_equalityI) simp_all
  finally show hashes: "map t_hash (bundle_txs b) = map blob_hex hs" .
  have keys: "map tx_key (bundle_txs b) = hs"
  proof -
    have "map tx_key (bundle_txs b) = map hex_blob (map t_hash (bundle_txs b))" by (simp add: tx_key_def)
    then show ?thesis unfolding hashes by (simp add: comp_def)
  qed
  have at: "tx_id (bundle_txs b ! i) = (blob_hex (hs ! i), int n, int i)" if "i < length (bundle_txs b)" for i
    using arg_cong [OF id, of "\<lambda>xs. xs ! i"] arg_cong [OF id, of length] that by simp
  have "\<forall>t\<in>set (bundle_txs b). t_block_number t = number_of b"
    using at ids(2) b(2) by (auto simp: in_set_conv_nth tx_id_def)
  moreover have "sorted (map t_position (bundle_txs b))"
    using at by (auto simp: sorted_iff_nth_mono tx_id_def)
  ultimately have "placed b" by (simp add: placed_def)
  moreover have "tx_key ` set (bundle_txs b) = set hs" using arg_cong [OF keys, of set] by simp
  ultimately show "fresh_batch db [b]"
    using assms ids(2) keys by (fastforce simp: fresh_batch_def described_def)
qed

lemma fetched_bundle:
  assumes "fetch_raw_blocks batch n n s = Some (Inr [(raw, receipts)], s1)"
    and "fetch_block_bundle tools now batch fetch_meta n s = Some (Inr found, s')"
  shows "\<exists>b. found = Some b \<and> bundle_txs b = bundle_txs (assemble_bundle tools now raw receipts)
    \<and> bundle_block b = bundle_block (assemble_bundle tools now raw receipts)"
  using assms
  by (auto simp: fetch_block_bundle_def fetch_block_bundles_def attach_token_metadata_def attach_tokens_def Let_def
      split: option.splits sum.splits prod.splits if_splits)

lemma listed_hash: "t_hash (listed keccak t) = blob_hex (tx_key t)"
  by (simp add: listed_def read_tx_def row_to_tx_def select_columns_def stored_transaction_def tx_key_def)

lemma tx_item_hash: "get_str ''hash'' (tx_item w t) = Some (t_hash t)"
  by (simp add: tx_item_def tx_json_def get_str_def jget_jset) (simp add: jget_def as_str_def)

lemma block_answer_fields:
  "jget ''number'' (block_answer w b) = Some (json_int (number_of b))"
  "get_str ''hash'' (block_answer w b) = Some (blob_hex (hex_blob (b_hash (bundle_block b))))"
  "get_array ''transactions'' (block_answer w b) = Some (map (tx_item w \<circ> listed (w_keccak w)) (bundle_txs b))"
  by (simp_all add: block_answer_def block_json_def get_str_def get_array_def jget_jset)
    (simp_all add: jget_def as_str_def as_array_def row_to_block_def stored_block_def)


definition told_tx :: json where
  "told_tx = JObj [(''hash'', JStr (blob_hex ''t'')), (''blockNumber'', JNum (PosInt 5)), (''transactionIndex'', JNum (PosInt 0))]"

definition told_block :: json where
  "told_block = JObj [(''number'', JNum (PosInt 5)), (''hash'', JStr (blob_hex ''b'')), (''transactions'', JArr [told_tx])]"

definition telling_node :: "unit batch" where
  "telling_node calls s =
     Some (Inr (map (\<lambda>(m, _). Inr (if m = ''eth_getBlockByNumber'' then told_block else JArr [])) calls), s)"

lemma told_block_described: "described told_block 5 ''b'' [''t'']"
  by (simp add: described_def told_block_def told_tx_def json_access int_field_def parse_int_any_def str_field_def upt_rec)

lemma told_block_fetched: "fetch_raw_blocks telling_node 5 5 () = Some (Inr [(told_block, Some (JArr []))], ())"
  by (simp add: fetch_raw_blocks.simps telling_node_def block_call_def complete_blocks_def found_blocks_def
      result_value_def is_null_def told_block_def has_txs_def json_access without_missing_receipts_def receipts_call_def
      upt_rec List.map_filter_def)


subsection \<open>From the feed\<close>

lemma shown_in_run:
  assumes "live_ok base l" and "n \<in> set (shown l)"
  shows "held_run base (lv_db l)" and "base \<le> n" and "n \<le> tip (lv_db l)"
proof -
  obtain a k where f: "feed_at base l a k" using assms(1) by (auto simp: live_ok_def)
  then show "held_run base (lv_db l)" by (simp add: feed_at_def)
  obtain g m where c: "client_at base l g m"
    using assms by (auto simp: live_ok_def client_ok_def shown_def split: if_splits)
  then have "set (shown l) \<subseteq> {g..<g + int m}"
    unfolding client_at_def using set_run [of g m] by (metis Un_upper1 set_append)
  then show "base \<le> n" "n \<le> tip (lv_db l)" using assms(2) c by (auto simp: client_at_def)
qed

lemma held_run_block:
  assumes "held_run base db" and "base \<le> n" and "n \<le> tip db"
  shows "\<exists>b. get_block_by_number db n = Some b \<and> b_number b = n" and "is_i64 n"
proof -
  have t: "n \<in> fst ` set (blocks db)" using assms by (auto simp: held_run_def tip_def)
  then obtain r where r: "(n, r) \<in> set (blocks db)" by auto
  then show "is_i64 n" using assms(1) by (auto simp: held_run_def blocks_ok_def)
  have "map_of (blocks db) n = Some r" using r assms(1) by (auto simp: held_run_def blocks_ok_def unique_keys_def)
  then show "\<exists>b. get_block_by_number db n = Some b \<and> b_number b = n"
    using r assms(1) by (auto simp: get_block_by_number_def row_to_block_def held_run_def blocks_ok_def)
qed

text \<open>A block announced is a block served: its height leads to a page and to an answer that show it.\<close>

lemma shown_block_served:
  assumes "live_ok base l" and "0 \<le> base" and "n \<in> set (shown l)"
  shows "h_status (block_page w (lv_db l) rq (dec_int n)) \<notin> {400, 404}
    \<and> (\<exists>v. api_block w (lv_db l) (dec_int n) = Inr v \<and> jget ''number'' v = Some (json_int n))"
proof -
  note r = shown_in_run [OF assms(1,3)]
  obtain b where b: "get_block_by_number (lv_db l) n = Some b" "b_number b = n" "is_i64 n"
    using held_run_block [OF r] by blast
  then have found: "find_block (lv_db l) (dec_int n) = Some b"
    using find_block_of_number [of n "lv_db l"] r(2) assms(2) by simp
  then have "h_status (block_page w (lv_db l) rq (dec_int n)) \<notin> {400, 404}"
    using block_page_shown [of "lv_db l" "dec_int n"] by simp
  then show ?thesis using found b(2) by (simp add: api_block_def block_json_def jget_jset) (simp add: jget_def)
qed

end
