(* ===== verification/Routes.thy ===== *)
theory Routes
  imports Web_Search Web_Api
begin

section \<open>The route table (\<open>src/web.rs\<close>, \<open>src/web/api.rs\<close>)\<close>

text \<open>
  Which handler a path reaches, and the JSON API as one function of a route. Matching is the router's:
  a path is its segments, a literal goes before a parameter, a parameter is one segment that is not
  empty, percent-decoded by \<open>decode\<close>, and what does not decode, or is no number where the handler takes
  one, is refused. The lemmas read every path back from the route it is written for, up to the
  suggestions of the search box.
\<close>

subsection \<open>Paths\<close>

fun split_slash :: "string \<Rightarrow> string list" where
  "split_slash [] = [[]]"
| "split_slash (c # s) =
     (if c = CHR ''/'' then [] # split_slash s
      else (case split_slash s of [] \<Rightarrow> [[c]] | w # ws \<Rightarrow> (c # w) # ws))"

text \<open>A URL of this server up to its query and its fragment.\<close>

definition path_of :: "string \<Rightarrow> string" where
  "path_of url = takeWhile (\<lambda>c. c \<noteq> CHR ''?'' \<and> c \<noteq> CHR ''#'') url"

datatype page =
  Home_Page | Events_Stream | Block_At string | Blocks_Page | Txs_Page | Tx_At string | Receipt_At string
| Address_At string | Token_At string | Tokens_Page | Anchoring_Page | Registry_At string | Record_At string string
| Search_Page | Search_Suggestions | Anchoring_Suggestions

datatype api_route =
  Api_Blocks | Api_Block string | Api_Txs | Api_Tx string | Api_Address string | Api_Address_Txs string
| Api_Address_Transfers string | Api_Address_Holdings string | Api_Tokens | Api_Token string | Api_Holders string
| Api_Token_Transfers string | Api_Registries | Api_Registry nat | Api_Records nat | Api_Record nat nat
| Api_Versions nat nat

datatype routed = Page page | Api api_route | Bad_Path

type_synonym decode = "string \<Rightarrow> string option"

text \<open>A parameter: text, or a number.\<close>

definition text_param :: "decode \<Rightarrow> string \<Rightarrow> (string \<Rightarrow> routed) \<Rightarrow> routed option" where
  "text_param decode segment f =
     (if segment = [] then None else Some (case decode segment of None \<Rightarrow> Bad_Path | Some v \<Rightarrow> f v))"

definition number_param :: "decode \<Rightarrow> string \<Rightarrow> (nat \<Rightarrow> routed) \<Rightarrow> routed option" where
  "number_param decode segment f =
     text_param decode segment (\<lambda>v. case parse_u64_text v of None \<Rightarrow> Bad_Path | Some n \<Rightarrow> f n)"

text \<open>Two parameters: both are extracted before the handler runs.\<close>

definition two_texts :: "decode \<Rightarrow> string \<Rightarrow> string \<Rightarrow> (string \<Rightarrow> string \<Rightarrow> routed) \<Rightarrow> routed option" where
  "two_texts decode a b f =
     (if a = [] \<or> b = [] then None
      else Some (case (decode a, decode b) of (Some x, Some y) \<Rightarrow> f x y | _ \<Rightarrow> Bad_Path))"

definition two_numbers :: "decode \<Rightarrow> string \<Rightarrow> string \<Rightarrow> (nat \<Rightarrow> nat \<Rightarrow> routed) \<Rightarrow> routed option" where
  "two_numbers decode a b f =
     two_texts decode a b (\<lambda>x y. case (parse_u64_text x, parse_u64_text y) of
       (Some n, Some m) \<Rightarrow> f n m | _ \<Rightarrow> Bad_Path)"

subsection \<open>The table\<close>

fun api_routes :: "decode \<Rightarrow> string list \<Rightarrow> routed option" where
  "api_routes decode [a] =
     (if a = ''blocks'' then Some (Api Api_Blocks)
      else if a = ''txs'' then Some (Api Api_Txs)
      else if a = ''tokens'' then Some (Api Api_Tokens) else None)"
| "api_routes decode [a, b] =
     (if a = ''blocks'' then text_param decode b (\<lambda>x. Api (Api_Block x))
      else if a = ''txs'' then text_param decode b (\<lambda>x. Api (Api_Tx x))
      else if a = ''addresses'' then text_param decode b (\<lambda>x. Api (Api_Address x))
      else if a = ''tokens'' then text_param decode b (\<lambda>x. Api (Api_Token x))
      else if a = ''anchoring'' \<and> b = ''registries'' then Some (Api Api_Registries) else None)"
| "api_routes decode [a, b, c] =
     (if a = ''addresses'' \<and> c = ''txs'' then text_param decode b (\<lambda>x. Api (Api_Address_Txs x))
      else if a = ''addresses'' \<and> c = ''transfers'' then text_param decode b (\<lambda>x. Api (Api_Address_Transfers x))
      else if a = ''addresses'' \<and> c = ''holdings'' then text_param decode b (\<lambda>x. Api (Api_Address_Holdings x))
      else if a = ''tokens'' \<and> c = ''holders'' then text_param decode b (\<lambda>x. Api (Api_Holders x))
      else if a = ''tokens'' \<and> c = ''transfers'' then text_param decode b (\<lambda>x. Api (Api_Token_Transfers x))
      else if a = ''anchoring'' \<and> b = ''registries'' then number_param decode c (\<lambda>n. Api (Api_Registry n))
      else None)"
| "api_routes decode [a, b, c, d] =
     (if a = ''anchoring'' \<and> b = ''registries'' \<and> d = ''records'' then number_param decode c (\<lambda>n. Api (Api_Records n))
      else None)"
| "api_routes decode [a, b, c, d, e] =
     (if a = ''anchoring'' \<and> b = ''registries'' \<and> d = ''records''
      then two_numbers decode c e (\<lambda>n m. Api (Api_Record n m)) else None)"
| "api_routes decode [a, b, c, d, e, f] =
     (if a = ''anchoring'' \<and> b = ''registries'' \<and> d = ''records'' \<and> f = ''versions''
      then two_numbers decode c e (\<lambda>n m. Api (Api_Versions n m)) else None)"
| "api_routes decode _ = None"

fun page_routes :: "decode \<Rightarrow> string list \<Rightarrow> routed option" where
  "page_routes decode [a] =
     (if a = [] then Some (Page Home_Page)
      else if a = ''blocks'' then Some (Page Blocks_Page)
      else if a = ''txs'' then Some (Page Txs_Page)
      else if a = ''tokens'' then Some (Page Tokens_Page)
      else if a = ''anchoring'' then Some (Page Anchoring_Page)
      else if a = ''search'' then Some (Page Search_Page) else None)"
| "page_routes decode [a, b] =
     (if a = ''api'' \<and> b = ''events'' then Some (Page Events_Stream)
      else if a = ''api'' \<and> b = ''search'' then Some (Page Search_Suggestions)
      else if a = ''block'' then text_param decode b (\<lambda>x. Page (Block_At x))
      else if a = ''tx'' then text_param decode b (\<lambda>x. Page (Tx_At x))
      else if a = ''receipt'' then text_param decode b (\<lambda>x. Page (Receipt_At x))
      else if a = ''address'' then text_param decode b (\<lambda>x. Page (Address_At x))
      else if a = ''token'' then text_param decode b (\<lambda>x. Page (Token_At x))
      else if a = ''anchoring'' then text_param decode b (\<lambda>x. Page (Registry_At x)) else None)"
| "page_routes decode [a, b, c] =
     (if a = ''api'' \<and> b = ''anchoring'' \<and> c = ''search'' then Some (Page Anchoring_Suggestions)
      else if a = ''anchoring'' then two_texts decode b c (\<lambda>x y. Page (Record_At x y)) else None)"
| "page_routes decode _ = None"

definition app :: "decode \<Rightarrow> string \<Rightarrow> routed option" where
  "app decode path =
     (case split_slash path of
        [] # segments \<Rightarrow>
          (if take 2 segments = [''api'', ''v1''] then api_routes decode (drop 2 segments)
           else page_routes decode segments)
      | _ \<Rightarrow> None)"

subsection \<open>The API, route by route\<close>

abbreviation listed :: "api_error + listing \<Rightarrow> http_answer" where
  "listed r \<equiv> api_answer (map_sum id listing_json r)"

fun serve_api ::
  "web_env \<Rightarrow> database \<Rightarrow> (json \<Rightarrow> 's \<Rightarrow> reply \<times> 's) \<Rightarrow> bool \<Rightarrow> request \<Rightarrow> api_route \<Rightarrow> 's \<Rightarrow> http_answer option" where
  "serve_api w db send late rq Api_Blocks s = Some (listed (Inr (api_blocks db (page_param rq))))"
| "serve_api w db send late rq (Api_Block x) s = Some (api_answer (api_block w db x))"
| "serve_api w db send late rq Api_Txs s = Some (listed (Inr (api_txs w db (page_param rq))))"
| "serve_api w db send late rq (Api_Tx x) s = Some (api_answer (api_tx w db x))"
| "serve_api w db send late rq (Api_Address a) s = Some (api_answer (api_address w db send late a s))"
| "serve_api w db send late rq (Api_Address_Txs a) s = Some (listed (api_address_txs w db a (page_param rq)))"
| "serve_api w db send late rq (Api_Address_Transfers a) s = Some (listed (api_address_transfers w db a (page_param rq)))"
| "serve_api w db send late rq (Api_Address_Holdings a) s = Some (listed (api_address_holdings w db a))"
| "serve_api w db send late rq Api_Tokens s = Some (listed (Inr (api_tokens w db (page_param rq))))"
| "serve_api w db send late rq (Api_Token a) s = Some (api_answer (api_token w db a))"
| "serve_api w db send late rq (Api_Holders a) s = Some (listed (api_holders w db a (page_param rq)))"
| "serve_api w db send late rq (Api_Token_Transfers a) s = Some (listed (api_token_transfers w db a (page_param rq)))"
| "serve_api w db send late rq Api_Registries s = map_option listed (api_registries w send (page_param rq) s)"
| "serve_api w db send late rq (Api_Registry n) s = map_option api_answer (api_registry w send n s)"
| "serve_api w db send late rq (Api_Records n) s = map_option listed (api_records w send n (page_param rq) s)"
| "serve_api w db send late rq (Api_Record n m) s = map_option api_answer (api_record w send n m s)"
| "serve_api w db send late rq (Api_Versions n m) s = map_option listed (api_versions w send n m (page_param rq) s)"

text \<open>What the API may answer: rows or an object, or an error with its message.\<close>

definition api_shaped :: "http_answer \<Rightarrow> bool" where
  "api_shaped a \<longleftrightarrow>
     (\<exists>v. h_body a = Json_Body v \<and> (h_status a = 200 \<or> h_status a \<in> {400, 404, 502} \<and> (\<exists>m. v = JObj [(''error'', JStr m)])))"

definition api_sum_ok :: "api_error + 'a \<Rightarrow> bool" where
  "api_sum_ok r \<longleftrightarrow> (\<forall>e. r = Inl e \<longrightarrow> fst e \<in> {400, 404, 502})"

lemma api_sum_ok_simps [simp]:
  "api_sum_ok (Inr v)" "api_sum_ok (Inl (n, m)) \<longleftrightarrow> n \<in> {400, 404, 502}"
  "api_sum_ok (map_sum id f r) \<longleftrightarrow> api_sum_ok r"
  by (cases r; auto simp: api_sum_ok_def)+

lemma api_sum_ok_shaped: "api_sum_ok r \<Longrightarrow> api_shaped (api_answer r)"
  by (auto simp: api_sum_ok_def api_shaped_def api_answer_def ok_json_def split: sum.split prod.split)

lemma api_sum_ok_try: "api_sum_ok r \<Longrightarrow> (\<And>v. r = Inr v \<Longrightarrow> api_sum_ok (f v)) \<Longrightarrow> api_sum_ok (api_try r f)"
  by (cases r) (auto simp: api_try_def api_sum_ok_def)

lemma api_sum_ok_checked: "api_sum_ok (checked w a)"
  by (simp add: checked_def Let_def)

lemma api_sum_ok_indexed: "api_sum_ok (indexed_token w db a)"
  by (auto simp: indexed_token_def api_not_found_def intro!: api_sum_ok_try api_sum_ok_checked split: option.split)

lemma api_sum_ok_found: "api_sum_ok (or_not_found kind x)"
  by (simp add: or_not_found_def api_not_found_def split: option.split)

lemma api_sum_ok_node:
  assumes "\<And>v. api_sum_ok (f v)" "node_read w r f = Some a"
  shows "api_sum_ok a"
proof -
  obtain v s where "r = Some (v, s)" "a = (case v of Inl e \<Rightarrow> Inl (bad_gateway w e) | Inr x \<Rightarrow> f x)"
    using assms(2) by (auto simp: node_read_def)
  then show ?thesis using assms(1) by (cases v) (simp_all add: bad_gateway_def)
qed

lemmas api_oks = api_sum_ok_try api_sum_ok_checked api_sum_ok_indexed api_sum_ok_found

lemma api_handlers_ok:
  "api_sum_ok (api_block w db x)" "api_sum_ok (api_tx w db x)" "api_sum_ok (api_address w db send late a s)"
  "api_sum_ok (api_address_txs w db a page)" "api_sum_ok (api_address_transfers w db a page)"
  "api_sum_ok (api_address_holdings w db a)" "api_sum_ok (api_token w db a)" "api_sum_ok (api_holders w db a page)"
  "api_sum_ok (api_token_transfers w db a page)"
proof -
  show "api_sum_ok (api_block w db x)" by (simp add: api_block_def api_not_found_def split: option.split)
  show "api_sum_ok (api_tx w db x)" by (simp add: api_tx_def api_not_found_def Let_def split: option.split)
  show "api_sum_ok (api_address w db send late a s)"
    unfolding api_address_def Let_def by (rule api_oks(1) [OF api_oks(2)]) (simp split: prod.split)
  show "api_sum_ok (api_address_txs w db a page)" unfolding api_address_txs_def by (rule api_oks(1) [OF api_oks(2)]) simp
  show "api_sum_ok (api_address_transfers w db a page)"
    unfolding api_address_transfers_def by (rule api_oks(1) [OF api_oks(2)]) simp
  show "api_sum_ok (api_address_holdings w db a)" unfolding api_address_holdings_def by (rule api_oks(1) [OF api_oks(2)]) simp
  show "api_sum_ok (api_token w db a)" unfolding api_token_def by (rule api_oks(1) [OF api_oks(3)]) simp
  show "api_sum_ok (api_holders w db a page)" unfolding api_holders_def by (rule api_oks(1) [OF api_oks(3)]) simp
  show "api_sum_ok (api_token_transfers w db a page)"
    unfolding api_token_transfers_def by (rule api_oks(1) [OF api_oks(3)]) simp
qed

lemma api_anchoring_ok:
  "api_registries w send page s = Some r \<Longrightarrow> api_sum_ok r" "api_registry w send n s = Some r' \<Longrightarrow> api_sum_ok r'"
  "api_records w send n page s = Some r \<Longrightarrow> api_sum_ok r" "api_record w send n m s = Some r' \<Longrightarrow> api_sum_ok r'"
  "api_versions w send n m page s = Some r \<Longrightarrow> api_sum_ok r"
  unfolding api_registries_def api_registry_def api_records_def api_record_def api_versions_def
  by (erule api_sum_ok_node [rotated]; auto intro!: api_oks(1) api_oks(4))+

text \<open>The routes that read the node.\<close>

fun reads_node :: "api_route \<Rightarrow> bool" where
  "reads_node Api_Registries = True"
| "reads_node (Api_Registry _) = True"
| "reads_node (Api_Records _) = True"
| "reads_node (Api_Record _ _) = True"
| "reads_node (Api_Versions _ _) = True"
| "reads_node _ = False"

lemma listed_shaped: "api_sum_ok r \<Longrightarrow> api_shaped (listed r)"
  by (rule api_sum_ok_shaped) simp

text \<open>
  Every answer of the API is JSON, on every route and whatever is asked: rows or an object with 200,
  or a status of 400, 404 or 502 with an object of one field, the error. Only a route that reads the
  node can be left without an answer, when the node never settles.
\<close>

theorem api_answers_are_json:
  "case serve_api w db send late rq r s of Some a \<Rightarrow> api_shaped a | None \<Rightarrow> reads_node r"
  by (cases r)
    (auto intro: api_sum_ok_shaped listed_shaped api_handlers_ok api_anchoring_ok split: option.split)

subsection \<open>Paths read back\<close>

text \<open>Text that is one segment of a path, spelled as itself.\<close>

definition plain :: "string \<Rightarrow> bool" where
  "plain s \<longleftrightarrow> s \<noteq> [] \<and> (\<forall>c\<in>set s. c \<notin> {CHR ''/'', CHR ''?'', CHR ''#'', CHR ''%''})"

definition decodes_plain :: "decode \<Rightarrow> bool" where
  "decodes_plain decode \<longleftrightarrow> (\<forall>s. CHR ''%'' \<notin> set s \<longrightarrow> decode s = Some s)"

fun page_url :: "page \<Rightarrow> string" where
  "page_url Home_Page = ''/''"
| "page_url Events_Stream = ''/api/events''"
| "page_url (Block_At b) = ''/block/'' @ b"
| "page_url Blocks_Page = ''/blocks''"
| "page_url Txs_Page = ''/txs''"
| "page_url (Tx_At h) = ''/tx/'' @ h"
| "page_url (Receipt_At h) = ''/receipt/'' @ h"
| "page_url (Address_At a) = ''/address/'' @ a"
| "page_url (Token_At a) = ''/token/'' @ a"
| "page_url Tokens_Page = ''/tokens''"
| "page_url Anchoring_Page = ''/anchoring''"
| "page_url (Registry_At r) = ''/anchoring/'' @ r"
| "page_url (Record_At r k) = ''/anchoring/'' @ r @ ''/'' @ k"
| "page_url Search_Page = ''/search''"
| "page_url Search_Suggestions = ''/api/search''"
| "page_url Anchoring_Suggestions = ''/api/anchoring/search''"

fun page_params :: "page \<Rightarrow> string list" where
  "page_params (Block_At b) = [b]"
| "page_params (Tx_At h) = [h]"
| "page_params (Receipt_At h) = [h]"
| "page_params (Address_At a) = [a]"
| "page_params (Token_At a) = [a]"
| "page_params (Registry_At r) = [r]"
| "page_params (Record_At r k) = [r, k]"
| "page_params _ = []"

lemma split_plain: "\<forall>c\<in>set s. c \<noteq> CHR ''/'' \<Longrightarrow> split_slash s = [s]"
  by (induction s) auto

lemma split_slash_append: "\<forall>c\<in>set s. c \<noteq> CHR ''/'' \<Longrightarrow> split_slash (s @ CHR ''/'' # t) = s # split_slash t"
  by (induction s) auto

lemma plain_split: "plain s \<Longrightarrow> split_slash s = [s]" "plain s \<Longrightarrow> split_slash (s @ CHR ''/'' # t) = s # split_slash t"
  using split_plain split_slash_append by (auto simp: plain_def)

lemma path_of_plain: "\<forall>c\<in>set url. c \<noteq> CHR ''?'' \<and> c \<noteq> CHR ''#'' \<Longrightarrow> path_of url = url"
  by (simp add: path_of_def takeWhile_eq_all_conv)

lemma path_of_page_url: "\<forall>s\<in>set (page_params p). plain s \<Longrightarrow> path_of (page_url p) = page_url p"
  by (cases p) (simp_all add: plain_def path_of_plain ball_Un)

lemma page_url_routed:
  assumes "decodes_plain decode" "\<forall>s\<in>set (page_params p). plain s"
  shows "app decode (path_of (page_url p)) = Some (Page p)"
proof -
  have d: "decode s = Some s" "s \<noteq> []" if "plain s" for s
    using assms(1) that by (auto simp: plain_def decodes_plain_def)
  show ?thesis unfolding path_of_page_url [OF assms(2)]
    using assms(2) by (cases p) (auto simp: app_def plain_split text_param_def two_texts_def d)
qed

text \<open>What names a thing on this chain is plain.\<close>

lemma digit_char_in_path: "d < 36 \<Longrightarrow> digit_char d \<notin> {CHR ''/'', CHR ''?'', CHR ''#'', CHR ''%''}"
  by (auto simp: char_eq_byte_val byte_val_digit_char simp del: of_char_eq_iff)

lemma plain_dec_nat: "plain (dec_nat n)"
proof -
  have "c \<notin> {CHR ''/'', CHR ''?'', CHR ''#'', CHR ''%''}" if c: "c \<in> set (dec_nat n)" for c
  proof -
    obtain d where "d < 10" "c = digit_char d" using c radix_nat_digits [of 10 c n] by auto
    then show ?thesis using digit_char_in_path [of d] by simp
  qed
  then show ?thesis by (auto simp: plain_def radix_nat_neq_Nil)
qed

lemma plain_dec_int: "plain (dec_int i)"
  using plain_dec_nat by (auto simp: dec_int_def plain_def)

lemma hex_digit_in_path: "is_hex_digit c \<Longrightarrow> c \<notin> {CHR ''/'', CHR ''?'', CHR ''#'', CHR ''%''}"
  by (auto simp: is_hex_digit_def hex_val_def digit_val_def)

lemma plain_hex: "\<forall>c\<in>set s. is_hex_digit c \<Longrightarrow> plain (''0x'' @ s)"
  using hex_digit_in_path by (auto simp: plain_def)

lemma plain_address: "is_address a \<Longrightarrow> plain a"
  using plain_hex by (auto simp: is_address_def)

lemma plain_blob_addr: "plain (blob_addr keccak b)"
proof (cases "length b = 20")
  case True
  then show ?thesis by (simp add: blob_addr_def is_address_blob_hex is_address_checksum plain_address)
next
  case False
  then have "blob_addr keccak b = blob_hex b" by (simp add: blob_addr_def checksum_address_short)
  then show ?thesis using plain_hex [of "hex_encode b"] set_hex_encode by (auto simp: blob_hex_def)
qed

lemma plain_hash: "is_hash q \<Longrightarrow> plain q"
  using plain_hex by (auto simp: is_hash_def strip_prefix_Some split: option.splits)

definition hex_digits :: string where
  "hex_digits = ''0123456789abcdefABCDEF''"

lemma hex_digits_hex: "c \<in> set hex_digits \<Longrightarrow> is_hex_digit c"
  by (auto simp: hex_digits_def is_hex_digit_def hex_val_def digit_val_def)

lemma known_is_address: "\<forall>k\<in>set KNOWN. is_address (k_at k)"
proof -
  have "list_all (\<lambda>k. take 2 (k_at k) = ''0x'' \<and> length (drop 2 (k_at k)) = 40 \<and> list_all (\<lambda>c. c \<in> set hex_digits) (drop 2 (k_at k))) KNOWN"
    unfolding KNOWN_def precompile_def contract_def known.simps list.pred_inject
    by (intro conjI TrueI) (simp_all add: hex_digits_def)
  then have k: "take 2 (k_at k) = ''0x''" "length (drop 2 (k_at k)) = 40" "\<forall>c\<in>set (drop 2 (k_at k)). is_hex_digit c"
    if "k \<in> set KNOWN" for k using that hex_digits_hex by (auto simp: list_all_iff)
  show ?thesis
    using k by (metis append_take_drop_id is_address_def)
qed

lemma named_plain: "(a, name) \<in> set (search_named keccak q limit) \<Longrightarrow> plain a"
  using known_is_address
  by (force simp: search_named_def Let_def map_filter_def dest!: in_set_takeD intro: plain_address is_address_checksum split: if_splits)

subsection \<open>Where the suggestions lead\<close>

fun page_kinds :: "page \<Rightarrow> string list" where
  "page_kinds (Block_At _) = [''block'']"
| "page_kinds (Tx_At _) = [''transaction'']"
| "page_kinds (Address_At _) = [''address'', ''precompile'']"
| "page_kinds (Token_At _) = [''token'']"
| "page_kinds (Registry_At _) = [''registry'']"
| "page_kinds (Record_At _ _) = [''record'']"
| "page_kinds _ = []"

text \<open>A suggestion whose link is the path of a page of the kind it says.\<close>

definition opens :: "decode \<Rightarrow> json \<Rightarrow> bool" where
  "opens decode row \<longleftrightarrow>
     (\<exists>kind url p. get_str ''type'' row = Some kind \<and> get_str ''url'' row = Some url
        \<and> app decode (path_of url) = Some (Page p) \<and> url = page_url p \<and> kind \<in> set (page_kinds p))"

lemma opens_suggestion:
  assumes "decodes_plain decode" "\<forall>s\<in>set (page_params p). plain s" "kind \<in> set (page_kinds p)" "url = page_url p"
  shows "opens decode (suggestion kind url label sublabel)"
  unfolding opens_def using page_url_routed [OF assms(1,2)] assms(3,4)
  by (auto simp: suggestion_def get_str_def jget_def as_str_def)

lemma opens_block: "decodes_plain decode \<Longrightarrow> opens decode (block_suggestion b sublabel)"
  unfolding block_suggestion_def
  by (rule opens_suggestion [where p = "Block_At (dec_int (b_number b))"]) (simp_all add: plain_dec_int)

lemma opens_token:
  "decodes_plain decode \<Longrightarrow> m \<in> set (search_tokens keccak db q limit) \<Longrightarrow> opens decode (token_suggestion m)"
  unfolding token_suggestion_def
  by (rule opens_suggestion [where p = "Token_At (k_address m)"])
    (auto simp: row_to_token_def plain_blob_addr dest!: stored_tokens(3))

lemma opens_hit:
  "decodes_plain decode \<Longrightarrow> h \<in> set (anchoring_hits w send late q limit s) \<Longrightarrow> opens decode (hit_suggestion h)"
proof -
  assume d: "decodes_plain decode" and h: "h \<in> set (anchoring_hits w send late q limit s)"
  have "opens decode (hit_suggestion (registry_hit g))" for g
    unfolding hit_suggestion_def registry_hit_def hit.simps
    by (rule opens_suggestion [OF d, where p = "Registry_At (dec_nat (g_id g))"]) (simp_all add: plain_dec_nat)
  moreover have "opens decode (hit_suggestion (record_hit r))" for r
    unfolding hit_suggestion_def record_hit_def hit.simps
    by (rule opens_suggestion [OF d, where p = "Record_At (dec_nat (r_registry_id r)) (dec_nat (r_record_id r))"])
      (simp_all add: plain_dec_nat)
  ultimately show ?thesis
    using h by (auto simp: anchoring_hits_def dest!: in_set_takeD split: option.splits sum.splits prod.splits if_splits)
qed

lemma opens_address:
  assumes "decodes_plain decode" "is_valid_address (checksum_address (w_keccak w) q)"
    "row \<in> set (address_suggestions w db (checksum_address (w_keccak w) q))"
  shows "opens decode row"
proof -
  let ?a = "checksum_address (w_keccak w) q"
  have a: "plain ?a" by (rule plain_address [OF valid_checksum_is_address [OF assms(2)]])
  have "opens decode (suggestion ''token'' (''/token/'' @ ?a) l sl)" for l sl
    by (rule opens_suggestion [OF assms(1), where p = "Token_At ?a"]) (simp_all add: a)
  moreover have "opens decode (suggestion ''address'' (''/address/'' @ ?a) l sl)" for l sl
    by (rule opens_suggestion [OF assms(1), where p = "Address_At ?a"]) (simp_all add: a)
  ultimately show ?thesis using assms(3) by (auto simp: address_suggestions_def Let_def split: if_splits)
qed

lemma opens_hash: "decodes_plain decode \<Longrightarrow> is_hash q \<Longrightarrow> opens decode (hash_suggestion w db q)"
  unfolding hash_suggestion_def
proof -
  assume d: "decodes_plain decode" and q: "is_hash q"
  have "opens decode (suggestion ''transaction'' (''/tx/'' @ q) l sl)" for l sl
    by (rule opens_suggestion [OF d, where p = "Tx_At q"]) (simp_all add: plain_hash q)
  then show "opens decode (case get_block_by_hash db q of Some b \<Rightarrow> block_suggestion b q
      | None \<Rightarrow> suggestion ''transaction'' (''/tx/'' @ q) ''Transaction''
          (case get_transaction (w_keccak w) db q of Some t \<Rightarrow> ''Block #'' @ dec_int (t_block_number t) | None \<Rightarrow> ''Not indexed yet''))"
    using opens_block [OF d] by (auto split: option.split)
qed

lemma opens_named:
  assumes "decodes_plain decode" "row \<in> set (name_suggestions w db send late q s)"
  shows "opens decode row"
proof -
  have "opens decode (suggestion ''precompile'' (''/address/'' @ a) name a)"
    if "(a, name) \<in> set (search_named (w_keccak w) q SUGGESTION_LIMIT)" for a name
    by (rule opens_suggestion [OF assms(1), where p = "Address_At a"]) (simp_all add: named_plain [OF that])
  then show ?thesis
    using assms by (auto simp: name_suggestions_def intro: opens_token opens_hit)
qed

lemma opens_number:
  assumes "decodes_plain decode" "row \<in> set (number_suggestions db q)"
  shows "opens decode row"
proof -
  have "number_suggestions db q = [] \<or> (\<exists>b sublabel. number_suggestions db q = [block_suggestion b sublabel])"
    unfolding number_suggestions_def Let_def by (auto split: option.split)
  then show ?thesis using assms opens_block [OF assms(1)] by auto
qed

text \<open>
  C27. What the search box suggests opens: every suggestion, whatever was typed and whatever the index,
  the node and the name index answer, carries a link that the route table takes to a page of the kind
  the suggestion says, with what it names as the page's parameters and nothing lost on the way.
\<close>

theorem suggestions_open_their_pages:
  assumes "decodes_plain decode" and "h_body (search_suggest w db send late rq s) = Json_Body answer"
    and "get_array ''results'' answer = Some rows" and "row \<in> set rows"
  shows "opens decode row"
proof -
  define q where "q = trim (unwrap_or [] (rq_query rq ''q''))"
  let ?c = "checksum_address (w_keccak w) q"
  have "row \<in> set (number_suggestions db q
      @ (if is_valid_address ?c then address_suggestions w db ?c
         else if is_hash q then [hash_suggestion w db q] else name_suggestions w db send late q s))"
    using assms(2,3,4) unfolding search_suggest_def suggest_response_def Let_def q_def [symmetric]
    by (auto simp: get_array_def jget_def as_array_def dest!: in_set_takeD split: if_splits)
  then consider "row \<in> set (number_suggestions db q)" | "is_valid_address ?c" "row \<in> set (address_suggestions w db ?c)"
    | "is_hash q" "row = hash_suggestion w db q" | "row \<in> set (name_suggestions w db send late q s)"
    by (auto split: if_splits)
  then show ?thesis
    by cases (simp_all add: opens_number opens_address opens_hash opens_named assms(1))
qed

lemma suggestions_open_their_pages_witness:
  "opens Some (block_suggestion (row_to_block (sample_block 90 ''b'')) (dec_int (b_tx_count (sample_block 90 ''b'')) @ '' transactions''))"
proof -
  let ?rq = "\<lparr> rq_accept = None, rq_query = [''q'' \<mapsto> ''90''] \<rparr>"
  let ?row = "block_suggestion (row_to_block (sample_block 90 ''b'')) (dec_int (b_tx_count (sample_block 90 ''b'')) @ '' transactions'')"
  have "ascii ''90''" "\<forall>c\<in>set ''90''. \<not> ws_code (byte_val c)" by (simp_all add: ascii_def ws_code_def)
  then have q: "trim ''90'' = ''90''" "strip_prefix ''#'' ''90'' = None" "all_digits ''90''" "dec_int 90 = ''90''"
    by (simp_all add: trim_no_ws all_digits_def dec_int_def radix_nat_step radix_nat_small digit_char_def char_of_def bit_iff_odd)
  then have "number_suggestions block_ninety ''90'' = [?row]"
    using parse_i64_dec_int [of 90]
    by (simp add: number_suggestions_def get_block_by_number_def block_ninety_def is_i64_def empty_database_def row_to_block_def)
  then obtain answer rows where "h_body (search_suggest plain_env block_ninety no_node False ?rq ()) = Json_Body answer"
    "get_array ''results'' answer = Some rows" "?row \<in> set rows"
    by (auto simp: search_suggest_def suggest_response_def q Let_def get_array_def jget_def as_array_def SUGGESTION_LIMIT_def)
  from suggestions_open_their_pages [OF _ this] show ?thesis by (simp add: decodes_plain_def)
qed

end
