(* ===== verification/Explorer.thy ===== *)
theory Explorer
  imports Writer Pipeline
begin

section \<open>The whole explorer\<close>

text \<open>
  The parts put together: the forward loop and the backfill hand their bundles to the writer's queue, the
  writer and the tasks beside it write the tables (\<open>run_forever\<close>, \<open>src/indexer.rs\<close>), and the publisher
  and a client of the feed read them (\<open>src/web.rs\<close>), every part taking its steps in any order. The lemmas
  show that the writers keep what the feed relies on: the blocks from the old tip up stay one run.
\<close>

subsection \<open>The indexer\<close>

record explorer_index =
  ix_forward :: forward
  ix_forwarded :: nat
  ix_backfill :: backfill
  ix_backfilled :: nat
  ix_writer :: writer

text \<open>The frontier the backfill reads.\<close>

definition lowest_stored :: "database \<Rightarrow> nat option" where
  "lowest_stored db = map_option u64_of_i64 (get_min_block_number db)"

definition index_start :: "database \<Rightarrow> explorer_index" where
  "index_start db =
     \<lparr> ix_forward = forward_start (map_option (\<lambda>b. u64_of_i64 (b_number b)) (get_latest_block db)), ix_forwarded = 0,
       ix_backfill = backfill_start (lowest_stored db), ix_backfilled = 0, ix_writer = writer_start db \<rparr>"

definition hand_over :: "block_bundle \<Rightarrow> writer \<Rightarrow> writer" where
  "hand_over b w = w\<lparr>wr_queue := wr_queue w @ [b], wr_sent := wr_sent w @ [b]\<rparr>"

text \<open>
  The loops send their bundles one by one, in order, waiting while the queue is full; a bundle's number
  is an \<open>i64\<close>, and so are the heights of the chain. At the bottom the backfill reads its frontier from
  the tables as they are then.
\<close>

inductive index_step :: "nat \<Rightarrow> range_fetch \<Rightarrow> explorer_index \<Rightarrow> explorer_index \<Rightarrow> bool"
  for batch and fetch :: range_fetch where
  forward: "forward_step batch fetch (ix_forward i) f \<Longrightarrow> int (fw_sent f) \<le> I64_MAX \<Longrightarrow>
    index_step batch fetch i (i\<lparr>ix_forward := f\<rparr>)"
| forward_sends: "ix_forwarded i < length (fw_out (ix_forward i)) \<Longrightarrow> b = fw_out (ix_forward i) ! ix_forwarded i \<Longrightarrow>
    is_i64 (number_of b) \<Longrightarrow> length (wr_queue (ix_writer i)) < QUEUE_CAP \<Longrightarrow>
    index_step batch fetch i (i\<lparr>ix_forwarded := Suc (ix_forwarded i), ix_writer := hand_over b (ix_writer i)\<rparr>)"
| backfill: "backfill_step batch fetch (ix_backfill i) f \<Longrightarrow>
    (\<forall>target. bf_frontier (ix_backfill i) = Some target \<longrightarrow> target \<le> 1 \<longrightarrow>
       bf_frontier f \<in> {Some target, lowest_stored (wr_db (ix_writer i))}) \<Longrightarrow>
    index_step batch fetch i (i\<lparr>ix_backfill := f\<rparr>)"
| backfill_sends: "ix_backfilled i < length (bf_out (ix_backfill i)) \<Longrightarrow> b = bf_out (ix_backfill i) ! ix_backfilled i \<Longrightarrow>
    is_i64 (number_of b) \<Longrightarrow> length (wr_queue (ix_writer i)) < QUEUE_CAP \<Longrightarrow>
    index_step batch fetch i (i\<lparr>ix_backfilled := Suc (ix_backfilled i), ix_writer := hand_over b (ix_writer i)\<rparr>)"
| writes: "write_step (ix_writer i) w \<Longrightarrow> wr_sent w = wr_sent (ix_writer i) \<Longrightarrow>
    index_step batch fetch i (i\<lparr>ix_writer := w\<rparr>)"

subsection \<open>The block rows under the writer\<close>

abbreviation numbers :: "database \<Rightarrow> int set" where
  "numbers db \<equiv> fst ` set (blocks db)"

lemma update_mem: "(n, r) \<in> set (AList.update k v xs) \<Longrightarrow> n = k \<and> r = v \<or> (n, r) \<in> set xs"
  by (induction xs) (auto split: if_splits)

lemma upsert_block_ok:
  assumes "upsert_block b db = Inr db'" "blocks_ok db" "is_i64 (b_number b)"
  shows "blocks_ok db'"
proof -
  obtain v where v: "blocks db' = AList.update (b_number b) v (blocks db)" "b_number v = b_number b"
    using assms(1) by (auto simp: upsert_block_def Let_def stored_block_def split: if_splits option.splits)
  then show ?thesis using assms(2,3) unfolding blocks_ok_def v(1)
    by (auto dest!: update_mem simp: v(2) unique_keys_update)
qed

lemma write_block_rows:
  assumes "write_block now b db = Inr (c, db')" "blocks_ok db" "is_i64 (number_of b)"
  shows "blocks_ok db' \<and> numbers db' = insert (number_of b) (numbers db)"
proof -
  obtain db1 where 1: "upsert_block (bundle_block b) db = Inr db1" "blocks db' = blocks db1"
    using write_block_tables [OF assms(1)] by blast
  have "blocks_ok db1" by (rule upsert_block_ok [OF 1(1) assms(2,3)])
  then show ?thesis using upsert_block_numbers [OF 1(1)] 1(2) by (simp add: blocks_ok_def)
qed

lemma write_blocks_rows:
  "write_blocks now bs c db = Inr (c', db') \<Longrightarrow> blocks_ok db \<Longrightarrow> \<forall>b\<in>set bs. is_i64 (number_of b) \<Longrightarrow>
     blocks_ok db' \<and> numbers db' = numbers db \<union> number_of ` set bs"
proof (induction bs arbitrary: c db)
  case (Cons b bs)
  obtain nb nt db1 where w: "write_block now b db = Inr ((nb, nt), db1)"
    and r: "write_blocks now bs (fst c + nb, snd c + nt) db1 = Inr (c', db')"
    using Cons.prems(1) by (auto split: sum.splits prod.splits)
  have "blocks_ok db1 \<and> numbers db1 = insert (number_of b) (numbers db)"
    by (rule write_block_rows [OF w]) (use Cons.prems in simp_all)
  then show ?case using Cons.IH [OF r] Cons.prems(3) by auto
qed simp

lemma commit_rows:
  assumes "save_block_bundles now bs db = Inr db'" "blocks_ok db" "\<forall>b\<in>set bs. is_i64 (number_of b)"
  shows "blocks_ok db' \<and> numbers db' = numbers db \<union> number_of ` set bs"
  using assms(1)
proof (cases rule: save_block_bundles_cases)
  case nothing
  then show ?thesis using assms(2) by simp
next
  case (written nb nt db1)
  have "blocks (add_to_counter t d db) = blocks db" for t d db
    using add_to_counter_frame [of t d db] by auto
  then show ?thesis using write_blocks_rows [OF written(2) assms(2,3)] written(3) by (simp add: blocks_ok_def)
qed

text \<open>What a step of the writer does to the rows: exactly the blocks it has written are added.\<close>

lemma write_step_rows:
  assumes "write_step w w'" "writer_ok w" "blocks_ok (wr_db w)" "\<forall>b\<in>set (wr_sent w). is_i64 (number_of b)"
  shows "blocks_ok (wr_db w') \<and> (\<exists>new. wr_written w' = wr_written w @ new
    \<and> numbers (wr_db w') = numbers (wr_db w) \<union> number_of ` set new)"
  using assms(1)
proof cases
  case (commits now db')
  have "\<forall>b\<in>set (wr_batch w). is_i64 (number_of b)" using assms(2,4) by (simp add: writer_ok_def)
  then show ?thesis using commit_rows [OF commits(4) assms(3)] commits(1) by auto
next
  case (others db')
  have "db_ok (wr_db w)" using assms(2) by (simp add: writer_ok_def)
  then have "blocks db' = blocks (wr_db w)" by (rule beside_keeps_events(1) [OF others(2)])
  then show ?thesis using others(1) assms(3) by (simp add: blocks_ok_def)
qed (use assms(3) in \<open>simp_all add: take_batch_def\<close>)

subsection \<open>What the loops send\<close>

lemma forward_step_extends:
  assumes "forward_step batch got_of s s'"
  shows "\<exists>rest. fw_out s' = fw_out s @ rest"
  using assms
proof cases
  case (window head got)
  then show ?thesis by (cases rule: forward_window_cases [of got s head]) auto
qed (auto simp: forward_receive_frame)

text \<open>On a database with blocks the backfill stays below where it began.\<close>

definition below :: "nat \<Rightarrow> backfill \<Rightarrow> bool" where
  "below limit s \<longleftrightarrow> (\<exists>f\<le>limit. bf_frontier s = Some f) \<and> (\<forall>b\<in>set (bf_out s). bundle_number b \<le> limit)"

context range_fetching
begin

lemma backfill_step_below:
  assumes "backfill_step batch fetch s s'" "below limit s"
    and "\<forall>target. bf_frontier s = Some target \<longrightarrow> target \<le> 1 \<longrightarrow> bf_frontier s' \<in> {Some target, Some lowest}" "lowest \<le> limit"
  shows "below limit s' \<and> (\<exists>rest. bf_out s' = bf_out s @ rest)"
  using assms(1)
proof cases
  case (descends target got)
  have g: "\<forall>b\<in>set got. 1 \<le> bundle_number b"
    by (rule positive [OF descends(4)]) (simp add: backfill_range_def)
  have t: "target \<le> limit" using assms(2) descends(2) by (auto simp: below_def)
  have t1: "1 \<le> target" using descends(3) by simp
  show ?thesis
  proof (rule backfill_turn_cases [OF g t1, of s])
    assume missed: "bf_out (backfill_turn got target s) = bf_out s" "bf_frontier (backfill_turn got target s) = bf_frontier s"
    then show ?thesis using assms(2) descends(1) by (simp add: below_def)
  next
    fix f bs
    assume sent: "bf_out (backfill_turn got target s) = bf_out s @ bs" "bf_frontier (backfill_turn got target s) = Some f"
      "f \<le> target" "map bundle_number bs = rev [f..<target]"
    have "set (map bundle_number bs) = {f..<target}" unfolding sent(4) by simp
    then have "bundle_number b \<in> {f..<target}" if "b \<in> set bs" for b using that by (metis image_eqI set_map)
    then have "\<forall>b\<in>set bs. bundle_number b \<le> limit" using t by fastforce
    then show ?thesis using sent(1,2,3) t assms(2) descends(1) by (auto simp: below_def)
  qed
next
  case (bottom target l)
  then have "l \<in> {Some target, Some lowest}" using assms(3) by simp
  then show ?thesis using assms(2,4) bottom by (auto simp: below_def)
qed (use assms(2) in \<open>auto simp: below_def\<close>)

end

subsection \<open>The run stays whole\<close>

definition upper_end :: "database \<Rightarrow> nat" where
  "upper_end db = nat (tip db)"

definition index_ok :: "database \<Rightarrow> explorer_index \<Rightarrow> bool" where
  "index_ok db0 i \<longleftrightarrow>
     (let w = ix_writer i; top' = upper_end db0; out = fw_out (ix_forward i) in
      writer_ok w \<and> blocks_ok (wr_db w)
      \<and> forward_run (Some top') (ix_forward i) \<and> int (fw_sent (ix_forward i)) \<le> I64_MAX
      \<and> below top' (ix_backfill i)
      \<and> ix_forwarded i \<le> length out \<and> filter (\<lambda>b. top' < bundle_number b) (wr_sent w) = take (ix_forwarded i) out
      \<and> (\<forall>b\<in>set (wr_sent w). is_i64 (number_of b) \<and> int (bundle_number b) \<le> I64_MAX)
      \<and> numbers (wr_db w) = numbers db0 \<union> number_of ` set (wr_written w))"

definition above_written :: "database \<Rightarrow> explorer_index \<Rightarrow> block_bundle list" where
  "above_written db0 i = filter (\<lambda>b. upper_end db0 < bundle_number b) (wr_written (ix_writer i))"

lemma number_of_bundle: "is_i64 (number_of b) \<Longrightarrow> int (bundle_number b) \<le> I64_MAX \<Longrightarrow> number_of b = int (bundle_number b)"
  using i64_of_u64_u64_of_i64 [of "number_of b"] by (simp add: bundle_number_def i64_of_u64_def)

lemma held_extended:
  assumes "held_run base db0" "blocks_ok db" "numbers db = numbers db0 \<union> low \<union> {tip db0 <.. tip db0 + int j}"
    and "\<forall>n\<in>low. n \<le> tip db0"
  shows "held_run base db \<and> tip db = tip db0 + int j"
proof -
  note h = held_run_tip [OF assms(1)]
  have "blocks db0 \<noteq> []" and m: "tip db0 = Max (numbers db0)"
    using h(1) by (auto simp: get_max_block_number_def split: if_splits)
  then have t: "tip db0 \<in> numbers db0" using Max_in [of "numbers db0"] by simp
  have ne: "numbers db \<noteq> {}" using t assms(3) by auto
  have "Max (numbers db) = tip db0 + int j"
  proof (rule Max_eqI)
    show "tip db0 + int j \<in> numbers db" using t assms(3) by (cases "j = 0") auto
    show "n \<le> tip db0 + int j" if n: "n \<in> numbers db" for n
    proof -
      have "n \<le> tip db0" if "n \<in> numbers db0" using that m by simp
      moreover have "n \<in> numbers db0 \<or> n \<in> low \<or> n \<le> tip db0 + int j" using n assms(3) by auto
      ultimately show ?thesis using assms(4) by fastforce
    qed
  qed simp
  moreover have "blocks db \<noteq> []" using ne by auto
  ultimately have g: "get_max_block_number db = Some (tip db0 + int j)" by (simp add: get_max_block_number_def)
  have "\<forall>n. base \<le> n \<and> n \<le> tip db0 + int j \<longrightarrow> n \<in> numbers db"
    using h(3) assms(3) by (metis Un_iff greaterThanAtMost_iff not_le)
  then show ?thesis using g h(2) assms(2) by (simp add: held_run_def tip_def)
qed

lemma above_written_numbers:
  assumes "index_ok db0 i" "0 < tip db0"
  shows "map bundle_number (above_written db0 i) = [Suc (upper_end db0)..<Suc (upper_end db0) + length (above_written db0 i)]"
proof -
  let ?w = "ix_writer i" and ?out = "fw_out (ix_forward i)"
  have "wr_sent ?w = wr_written ?w @ wr_batch ?w @ wr_queue ?w"
    using assms(1) by (simp add: index_ok_def Let_def writer_ok_def)
  moreover have f: "filter (\<lambda>b. upper_end db0 < bundle_number b) (wr_sent ?w) = take (ix_forwarded i) ?out"
    using assms(1) by (simp add: index_ok_def Let_def)
  ultimately obtain more where "above_written db0 i @ more = take (ix_forwarded i) ?out"
    by (auto simp: above_written_def)
  then have "\<exists>rest. ?out = above_written db0 i @ rest" by (metis append_take_drop_id append.assoc)
  then obtain rest where out: "?out = above_written db0 i @ rest" ..
  have "0 < upper_end db0" using assms(2) by (simp add: upper_end_def)
  then have "map bundle_number ?out = [Suc (upper_end db0)..<Suc (fw_sent (ix_forward i))]"
    using assms(1) by (auto simp: index_ok_def Let_def forward_run_def)
  then have "map bundle_number (above_written db0 i) = take (length (above_written db0 i)) [Suc (upper_end db0)..<Suc (fw_sent (ix_forward i))]"
    and "length (above_written db0 i) \<le> length [Suc (upper_end db0)..<Suc (fw_sent (ix_forward i))]"
    unfolding out by (metis append_eq_conv_conj length_map map_append, metis length_append length_map le_add1)
  note n = this
  show ?thesis
  proof (cases "length (above_written db0 i) = 0")
    case False
    then have "0 < length (above_written db0 i)" by simp
    moreover have "length (above_written db0 i) \<le> fw_sent (ix_forward i) - upper_end db0" using n(2) by (simp del: upt_Suc)
    ultimately have "Suc (upper_end db0) + length (above_written db0 i) \<le> Suc (fw_sent (ix_forward i))" by linarith
    then show ?thesis using n(1) by (simp only: take_upt)
  qed simp
qed

lemma index_ok_held:
  assumes "index_ok db0 i" "0 < tip db0" "held_run base db0"
  shows "held_run base (wr_db (ix_writer i))"
    and "tip (wr_db (ix_writer i)) = tip db0 + int (length (above_written db0 i))"
proof -
  let ?w = "ix_writer i" and ?a = "above_written db0 i"
  let ?low = "number_of ` {b \<in> set (wr_written ?w). bundle_number b \<le> upper_end db0}"
  have t: "int (upper_end db0) = tip db0" using assms(2) by (simp add: upper_end_def)
  have n: "number_of b = int (bundle_number b)" if "b \<in> set (wr_written ?w)" for b
    using assms(1) that by (intro number_of_bundle) (auto simp: index_ok_def Let_def writer_ok_def)
  have "number_of ` set ?a = int ` set (map bundle_number ?a)"
    using n by (auto simp: above_written_def image_iff)
  also have "\<dots> = {tip db0 <.. tip db0 + int (length ?a)}"
    unfolding above_written_numbers [OF assms(1,2)] set_upt
    using image_int_atLeastLessThan [of "Suc (upper_end db0)" "Suc (upper_end db0) + length ?a"] t by auto
  finally have a: "number_of ` set ?a = {tip db0 <.. tip db0 + int (length ?a)}" .
  have "set (wr_written ?w) = {b \<in> set (wr_written ?w). bundle_number b \<le> upper_end db0} \<union> set ?a"
    by (auto simp: above_written_def)
  then have "number_of ` set (wr_written ?w) = ?low \<union> number_of ` set ?a" by (metis image_Un)
  then have "numbers (wr_db ?w) = numbers db0 \<union> ?low \<union> {tip db0 <.. tip db0 + int (length ?a)}"
    using assms(1) a by (simp add: index_ok_def Let_def Un_assoc)
  moreover have "\<forall>m\<in>?low. m \<le> tip db0" using n t by fastforce
  moreover have "blocks_ok (wr_db ?w)" using assms(1) by (simp add: index_ok_def Let_def)
  ultimately have "held_run base (wr_db ?w) \<and> tip (wr_db ?w) = tip db0 + int (length ?a)"
    by (intro held_extended [OF assms(3)])
  then show "held_run base (wr_db ?w)" "tip (wr_db ?w) = tip db0 + int (length ?a)" by simp_all
qed

text \<open>
  What the explorer starts from: a file with blocks, no two rows of one number, whose books are in
  order, and whose newest blocks are one run from \<open>base\<close>.
\<close>

definition start_ok :: "int \<Rightarrow> database \<Rightarrow> bool" where
  "start_ok base db \<longleftrightarrow> held_run base db \<and> 0 \<le> base \<and> 0 < tip db \<and> (\<forall>n\<in>numbers db. 0 \<le> n) \<and> db_ok db"

lemma start_tip:
  assumes "start_ok base db"
  shows "tip db \<in> numbers db" "is_i64 (tip db)" "int (upper_end db) = tip db"
proof -
  have h: "held_run base db" using assms by (simp add: start_ok_def)
  show t: "tip db \<in> numbers db" using held_run_tip(2,3) [OF h] by simp
  then show "is_i64 (tip db)" using held_run_tip(4) [OF h] by (auto simp: blocks_ok_def)
  show "int (upper_end db) = tip db" using assms by (simp add: upper_end_def start_ok_def)
qed

lemma lowest_of:
  assumes "start_ok base db0" "tip db0 \<in> numbers db" "\<forall>n\<in>numbers db. 0 \<le> n"
  shows "\<exists>l\<le>upper_end db0. lowest_stored db = Some l"
proof -
  have m: "get_min_block_number db = Some (Min (numbers db))" using assms(2) by (auto simp: get_min_block_number_def)
  have "Min (numbers db) \<in> numbers db" using assms(2) by (intro Min_in) auto
  then have "0 \<le> Min (numbers db)" using assms(3) by blast
  moreover have "Min (numbers db) \<le> tip db0" using assms(2) by simp
  ultimately have "u64_of_i64 (Min (numbers db)) \<le> upper_end db0"
    using start_tip(2) [OF assms(1)] by (simp add: u64_of_i64_nonneg upper_end_def is_i64_def)
  then show ?thesis using m by (simp add: lowest_stored_def)
qed

lemma lowest_below:
  assumes "start_ok base db0" "index_ok db0 i"
  shows "\<exists>l\<le>upper_end db0. lowest_stored (wr_db (ix_writer i)) = Some l"
proof (rule lowest_of [OF assms(1)])
  have n: "numbers (wr_db (ix_writer i)) = numbers db0 \<union> number_of ` set (wr_written (ix_writer i))"
    using assms(2) by (simp add: index_ok_def Let_def)
  then show "tip db0 \<in> numbers (wr_db (ix_writer i))" using start_tip(1) [OF assms(1)] by simp
  have "number_of b = int (bundle_number b)" if "b \<in> set (wr_written (ix_writer i))" for b
    using assms(2) that by (intro number_of_bundle) (auto simp: index_ok_def Let_def writer_ok_def)
  then show "\<forall>x\<in>numbers (wr_db (ix_writer i)). 0 \<le> x" using n assms(1) by (auto simp: start_ok_def)
qed

lemma hand_over_ok: "length (wr_queue w) < QUEUE_CAP \<Longrightarrow> writer_ok w \<Longrightarrow> writer_ok (hand_over b w)"
  unfolding hand_over_def by (rule writer_ok_step [OF write_step.sends])

lemma hand_over_frame [simp]:
  "wr_db (hand_over b w) = wr_db w" "wr_written (hand_over b w) = wr_written w" "wr_sent (hand_over b w) = wr_sent w @ [b]"
  by (simp_all add: hand_over_def)

lemma forwarded_number:
  assumes "forward_run (Some top') f" "0 < top'" "k < length (fw_out f)"
  shows "top' < bundle_number (fw_out f ! k)" "bundle_number (fw_out f ! k) \<le> fw_sent f"
proof -
  have "map bundle_number (fw_out f) = [Suc top'..<Suc (fw_sent f)]" using assms(1,2) by (auto simp: forward_run_def)
  then have "bundle_number (fw_out f ! k) \<in> set [Suc top'..<Suc (fw_sent f)]"
    using assms(3) by (metis length_map nth_map nth_mem)
  then show "top' < bundle_number (fw_out f ! k)" "bundle_number (fw_out f ! k) \<le> fw_sent f" by auto
qed

context range_fetching
begin

lemma index_step_ok:
  assumes "index_step batch fetch i i'" "index_ok db0 i" "start_ok base db0"
  shows "index_ok db0 i' \<and> (\<exists>new. wr_written (ix_writer i') = wr_written (ix_writer i) @ new)"
proof -
  note ok = assms(2) [unfolded index_ok_def Let_def]
  have t: "0 < upper_end db0" "int (upper_end db0) \<le> I64_MAX"
    using assms(3) start_tip [OF assms(3)] by (auto simp: start_ok_def upper_end_def is_i64_def)
  from assms(1) show ?thesis
  proof cases
    case (forward f)
    obtain rest where "fw_out f = fw_out (ix_forward i) @ rest" using forward_step_extends [OF forward(2)] by blast
    then show ?thesis using ok forward_run_step [OF forward(2)] forward by (simp add: index_ok_def Let_def)
  next
    case (forward_sends b)
    note n = forwarded_number [OF _ t(1) forward_sends(2)]
    have "upper_end db0 < bundle_number b \<and> int (bundle_number b) \<le> I64_MAX" using n ok forward_sends(3) by fastforce
    then show ?thesis using ok forward_sends
      by (simp add: index_ok_def Let_def hand_over_ok take_Suc_conv_app_nth)
  next
    case (backfill f)
    obtain l where l: "lowest_stored (wr_db (ix_writer i)) = Some l" "l \<le> upper_end db0"
      using lowest_below [OF assms(3,2)] by blast
    have "below (upper_end db0) f"
      using backfill_step_below [OF backfill(2) _ _ l(2)] ok backfill(3) l(1) by simp
    then show ?thesis using ok backfill(1) by (simp add: index_ok_def Let_def)
  next
    case (backfill_sends b)
    have "bundle_number b \<le> upper_end db0" using ok backfill_sends(2,3) by (simp add: below_def)
    then show ?thesis using ok backfill_sends t(2) by (simp add: index_ok_def Let_def hand_over_ok)
  next
    case (writes w)
    have "writer_ok (ix_writer i)" "blocks_ok (wr_db (ix_writer i))" "\<forall>b\<in>set (wr_sent (ix_writer i)). is_i64 (number_of b)"
      using ok by simp_all
    from write_step_rows [OF writes(2) this] obtain new where w: "blocks_ok (wr_db w)"
        "wr_written w = wr_written (ix_writer i) @ new"
        "numbers (wr_db w) = numbers (wr_db (ix_writer i)) \<union> number_of ` set new"
      by blast
    then show ?thesis using ok writes writer_ok_step [OF writes(2)] by (simp add: index_ok_def Let_def Un_assoc image_Un)
  qed
qed

lemma index_steps_grow:
  assumes "(index_step batch fetch)\<^sup>*\<^sup>* i i'" "index_ok db0 i" "start_ok base db0"
  shows "index_ok db0 i' \<and> grown base (wr_db (ix_writer i)) (wr_db (ix_writer i'))"
  using assms(1)
proof (induction rule: rtranclp_induct)
  case base
  then show ?case using assms(2,3) index_ok_held [OF assms(2)] by (simp add: grown_def start_ok_def)
next
  case (step j k)
  have k: "index_ok db0 k" "\<exists>new. wr_written (ix_writer k) = wr_written (ix_writer j) @ new"
    using index_step_ok [OF step.hyps(2) _ assms(3)] step.IH by blast+
  then have "length (above_written db0 j) \<le> length (above_written db0 k)" by (auto simp: above_written_def)
  moreover have "held_run base db0" "0 < tip db0" using assms(3) by (simp_all add: start_ok_def)
  ultimately have "tip (wr_db (ix_writer j)) \<le> tip (wr_db (ix_writer k))" "held_run base (wr_db (ix_writer k))"
    using index_ok_held [of db0 j base] index_ok_held [of db0 k base] step.IH k(1) by simp_all
  then show ?case using k(1) step.IH by (simp add: grown_def)
qed

end

subsection \<open>The start\<close>

lemma get_latest_block_tip:
  assumes "held_run base db"
  shows "map_option b_number (get_latest_block db) = Some (tip db)"
proof -
  have "blocks db \<noteq> []" using held_run_tip(1) [OF assms] by (auto simp: get_max_block_number_def)
  then obtain n r rest where rows: "blocks_newest db = (n, r) # rest"
    by (metis blocks_newest_def list.exhaust prod.exhaust set_empty set_sort)
  then have mem: "(n, r) \<in> set (blocks db)" using set_blocks_newest [of db] by auto
  have "m \<le> n" if "m \<in> numbers db" for m
  proof -
    have "m \<in> fst ` set (blocks_newest db)" using that by simp
    then show ?thesis using sorted_blocks_newest [of db] unfolding rows by auto
  qed
  then have "Max (numbers db) = n" using mem by (intro Max_eqI) force+
  then have "tip db = n" using \<open>blocks db \<noteq> []\<close> by (simp add: tip_def get_max_block_number_def)
  moreover have "b_number r = n" using held_run_tip(4) [OF assms] mem by (auto simp: blocks_ok_def)
  ultimately show ?thesis by (simp add: get_latest_block_def head_opt_def rows row_to_block_def)
qed

lemma index_start_ok:
  assumes "start_ok base db"
  shows "index_ok db (index_start db)"
proof -
  have h: "held_run base db" using assms by (simp add: start_ok_def)
  have "map_option (\<lambda>b. u64_of_i64 (b_number b)) (get_latest_block db) = map_option u64_of_i64 (map_option b_number (get_latest_block db))"
    by (simp add: map_option.compositionality comp_def)
  also have "\<dots> = Some (upper_end db)"
    unfolding get_latest_block_tip [OF h] using assms start_tip(2) [OF assms]
    by (simp add: u64_of_i64_nonneg start_ok_def upper_end_def is_i64_def)
  finally have f: "map_option (\<lambda>b. u64_of_i64 (b_number b)) (get_latest_block db) = Some (upper_end db)" .
  have w: "writer_ok (writer_start db)" using assms by (simp add: writer_ok_def writer_start_def MAX_BATCH_def start_ok_def)
  have "\<forall>n\<in>numbers db. 0 \<le> n" using assms by (simp add: start_ok_def)
  note low = lowest_of [OF assms start_tip(1) [OF assms] this]
  have "int (upper_end db) \<le> I64_MAX" using start_tip(2,3) [OF assms] by (simp add: is_i64_def)
  then show ?thesis
    using w low held_run_tip(4) [OF h] forward_run_start [of "Some (upper_end db)"] unfolding index_start_def f
    by (simp add: index_ok_def Let_def writer_start_def below_def backfill_start_def forward_start_def)
qed

subsection \<open>Its readers\<close>

record explorer =
  ex_index :: explorer_index
  ex_live :: live

definition explorer_start :: "database \<Rightarrow> explorer" where
  "explorer_start db = \<lparr> ex_index = index_start db, ex_live = live_start db \<rparr>"

definition with_db :: "explorer_index \<Rightarrow> live \<Rightarrow> live" where
  "with_db i l = l\<lparr>lv_db := wr_db (ix_writer i)\<rparr>"

text \<open>
  The indexer takes a step, or the publisher or the client does: its turn reads the tables, and reads
  them again when the indexer may have taken any number of steps.
\<close>

inductive explorer_step ::
  "keccak \<Rightarrow> (string \<Rightarrow> json option) \<Rightarrow> nat \<Rightarrow> nat \<Rightarrow> range_fetch \<Rightarrow> explorer \<Rightarrow> explorer \<Rightarrow> bool"
  for keccak parse cap batch and fetch :: range_fetch where
  indexes: "index_step batch fetch (ex_index x) i \<Longrightarrow>
    explorer_step keccak parse cap batch fetch x \<lparr> ex_index = i, ex_live = with_db i (ex_live x) \<rparr>"
| serves: "(index_step batch fetch)\<^sup>*\<^sup>* (ex_index x) i \<Longrightarrow>
    live_step keccak parse cap (\<lambda>_ db'. db' = wr_db (ix_writer i)) (ex_live x) l \<Longrightarrow>
    explorer_step keccak parse cap batch fetch x \<lparr> ex_index = i, ex_live = with_db i l \<rparr>"

lemma live_step_env:
  assumes "live_step keccak parse cap env l l'" "\<And>db'. env (lv_db l) db' \<Longrightarrow> env' (lv_db l) db'"
  shows "live_step keccak parse cap env' l l'"
  using assms by (cases rule: live_step.cases) (auto intro: live_step.intros)

definition explorer_ok :: "int \<Rightarrow> database \<Rightarrow> explorer \<Rightarrow> bool" where
  "explorer_ok base db0 x \<longleftrightarrow>
     index_ok db0 (ex_index x) \<and> lv_db (ex_live x) = wr_db (ix_writer (ex_index x)) \<and> live_ok base (ex_live x)"

context range_fetching
begin

lemma explorer_step_ok:
  assumes "explorer_step keccak parse cap batch fetch x x'" "explorer_ok base db0 x" "start_ok base db0"
  shows "explorer_ok base db0 x'"
proof -
  note ok = assms(2) [unfolded explorer_ok_def]
  have commit: "live_ok base (with_db i l)" if "grown base (lv_db l) (wr_db (ix_writer i))" "live_ok base l" for i l
    unfolding with_db_def by (rule live_step_ok [OF live_step.commit [where env = "grown base"] that(2)]) (rule that(1))
  from assms(1) show ?thesis
  proof cases
    case (indexes i)
    have g: "index_ok db0 i \<and> grown base (wr_db (ix_writer (ex_index x))) (wr_db (ix_writer i))"
      using index_steps_grow [OF r_into_rtranclp [where r = "index_step batch fetch", OF indexes(2)] _ assms(3)] ok by simp
    then have "live_ok base (with_db i (ex_live x))" using commit ok by simp
    then show ?thesis using g indexes(1) by (simp add: explorer_ok_def with_db_def)
  next
    case (serves i l)
    have g: "index_ok db0 i \<and> grown base (wr_db (ix_writer (ex_index x))) (wr_db (ix_writer i))"
      using index_steps_grow [OF serves(2) _ assms(3)] ok by simp
    have "live_step keccak parse cap (grown base) (ex_live x) l"
      by (rule live_step_env [OF serves(3)]) (use g ok in simp)
    then have l: "live_ok base l" using live_step_ok ok by blast
    have "lv_db l \<in> {lv_db (ex_live x), wr_db (ix_writer i)}" using serves(3) by cases simp_all
    then have "grown base (lv_db l) (wr_db (ix_writer i))" using g ok by (auto simp: grown_def)
    then have "live_ok base (with_db i l)" using commit l by simp
    then show ?thesis using g serves(1) by (simp add: explorer_ok_def with_db_def)
  qed
qed

lemma explorer_reachable_ok:
  assumes "(explorer_step keccak parse cap batch fetch)\<^sup>*\<^sup>* (explorer_start db0) x" "start_ok base db0"
  shows "explorer_ok base db0 x"
  using assms(1)
proof (induction rule: rtranclp_induct)
  case base
  have "live_ok base (live_start db0)" using live_start_ok assms(2) by (simp add: start_ok_def)
  moreover have "lv_db (live_start db0) = db0" "wr_db (ix_writer (index_start db0)) = db0"
    by (simp_all add: live_start_def index_start_def writer_start_def)
  ultimately show ?case using index_start_ok [OF assms(2)] by (simp add: explorer_ok_def explorer_start_def)
qed (use explorer_step_ok assms(2) in blast)

end


lemma one_block_start: "start_ok 5 one_block"
proof -
  have "db_ok one_block"
    using db_ok_empty by (simp add: one_block_def db_ok_def ledger_ok_def ledger_def balances_wf_def counts_ok_def bal_def count_holders_def)
  then show ?thesis
    using one_block_held by (simp add: start_ok_def tip_def one_block_def empty_database_def get_max_block_number_def)
qed


end
