(* ===== verification/Draining.thy ===== *)
theory Draining
  imports Explorer
begin

section \<open>The queue drains (\<open>write_loop\<close>, \<open>src/indexer.rs\<close>)\<close>

text \<open>
  The only error of a commit is a hash already stored at another height. Without one the writer, left to
  itself, writes everything it was sent: the lemmas follow that through a block, a batch and the queue.
\<close>

definition block_hash :: "block_bundle \<Rightarrow> blob" where
  "block_hash b = hex_blob (b_hash (bundle_block b))"

text \<open>No two heights share a hash, in the tables and among the bundles to be written.\<close>

definition own_hashes :: "database \<Rightarrow> block_bundle list \<Rightarrow> bool" where
  "own_hashes db bs \<longleftrightarrow>
     (\<forall>b\<in>set bs. \<forall>(n, r)\<in>set (blocks db). b_hash r = block_hash b \<longrightarrow> n = number_of b)
     \<and> (\<forall>b\<in>set bs. \<forall>b'\<in>set bs. block_hash b = block_hash b' \<longrightarrow> number_of b = number_of b')"

lemma own_hashes_blocks: "blocks db' = blocks db \<Longrightarrow> own_hashes db' bs = own_hashes db bs"
  by (simp add: own_hashes_def)

lemma own_hashes_subset: "own_hashes db bs \<Longrightarrow> set bs' \<subseteq> set bs \<Longrightarrow> own_hashes db bs'"
  unfolding own_hashes_def by blast

lemma upsert_block_succeeds:
  assumes "own_hashes db bs" "b \<in> set bs"
  shows "\<exists>db'. upsert_block (bundle_block b) db = Inr db' \<and> own_hashes db' bs"
proof -
  let ?row = "stored_block (bundle_block b)"
  let ?held = "case map_of (blocks db) (number_of b) of Some old \<Rightarrow> ?row\<lparr>b_created_at := b_created_at old\<rparr> | None \<Rightarrow> ?row"
  have none: "\<not> (\<exists>(n, r)\<in>set (blocks db). n \<noteq> number_of b \<and> b_hash r = b_hash ?row)"
  proof -
    have "b_hash ?row = block_hash b" by (simp add: block_hash_def stored_block_def)
    moreover have "\<forall>(n, r)\<in>set (blocks db). b_hash r = block_hash b \<longrightarrow> n = number_of b"
      using assms unfolding own_hashes_def by blast
    ultimately show ?thesis by auto
  qed
  obtain v where "v = ?held" by blast
  then have v: "upsert_block (bundle_block b) db = Inr (db\<lparr>blocks := AList.update (number_of b) v (blocks db)\<rparr>)"
      "b_hash v = block_hash b"
    by (simp_all only: upsert_block_def Let_def if_not_P [OF none]) (simp add: block_hash_def stored_block_def split: option.split)
  have same: "number_of b = number_of b'" if "b' \<in> set bs" "block_hash b = block_hash b'" for b'
    using assms that unfolding own_hashes_def by blast
  have old: "n = number_of b'" if "b' \<in> set bs" "(n, r) \<in> set (blocks db)" "b_hash r = block_hash b'" for b' n r
  proof -
    have "\<forall>(n, r)\<in>set (blocks db). b_hash r = block_hash b' \<longrightarrow> n = number_of b'"
      using assms(1) that(1) unfolding own_hashes_def by blast
    then show ?thesis using that(2,3) by auto
  qed
  let ?db = "db\<lparr>blocks := AList.update (number_of b) v (blocks db)\<rparr>"
  have "n = number_of b'" if "b' \<in> set bs" "(n, r) \<in> set (blocks ?db)" "b_hash r = block_hash b'" for b' n r
    using update_mem [of n r "number_of b" v "blocks db"] same [OF that(1)] old [OF that(1) _ that(3)] that(2,3) v(2) by auto
  then have "\<forall>b'\<in>set bs. \<forall>(n, r)\<in>set (blocks ?db). b_hash r = block_hash b' \<longrightarrow> n = number_of b'" by blast
  moreover have "\<forall>b\<in>set bs. \<forall>b'\<in>set bs. block_hash b = block_hash b' \<longrightarrow> number_of b = number_of b'"
    using assms(1) unfolding own_hashes_def by blast
  ultimately have "own_hashes ?db bs" unfolding own_hashes_def by (rule conjI)
  then show ?thesis using v(1) by blast
qed

lemma write_block_succeeds:
  assumes "own_hashes db bs" "b \<in> set bs"
  shows "\<exists>c db'. write_block now b db = Inr (c, db') \<and> own_hashes db' bs"
proof -
  obtain db1 where 1: "upsert_block (bundle_block b) db = Inr db1" "own_hashes db1 bs"
    using upsert_block_succeeds [OF assms] by blast
  then obtain c db' where w: "write_block now b db = Inr (c, db')"
    by (cases "insert_transfers (bundle_transfers b) (fold upsert_transaction (bundle_txs b) db1)")
      (auto simp: write_block_def Let_def)
  then have "blocks db' = blocks db1" using write_block_tables [OF w] 1(1) by auto
  then show ?thesis using w 1(2) own_hashes_blocks by blast
qed

lemma write_blocks_succeed:
  "own_hashes db bs \<Longrightarrow> set new \<subseteq> set bs \<Longrightarrow> \<exists>c' db'. write_blocks now new c db = Inr (c', db') \<and> own_hashes db' bs"
proof (induction new arbitrary: c db)
  case (Cons b new)
  obtain nb nt db1 where w: "write_block now b db = Inr ((nb, nt), db1)" "own_hashes db1 bs"
    using write_block_succeeds [OF Cons.prems(1), of b now] Cons.prems(2) by auto
  show ?case using Cons.IH [OF w(2), of "(fst c + nb, snd c + nt)"] Cons.prems(2) w(1) by auto
qed simp

lemma commit_succeeds:
  assumes "own_hashes db bs" "set new \<subseteq> set bs"
  shows "\<exists>db'. save_block_bundles now new db = Inr db' \<and> own_hashes db' bs"
proof (cases "new = []")
  case True
  then show ?thesis using assms(1) by (simp add: save_block_bundles_def)
next
  case False
  obtain nb nt db1 where w: "write_blocks now new (0, 0) db = Inr ((nb, nt), db1)" "own_hashes db1 bs"
    using write_blocks_succeed [OF assms, of now "(0, 0)"] by auto
  have "blocks (add_to_counter t d db) = blocks db" for t d db using add_to_counter_frame [of t d db] by auto
  then have "own_hashes (add_to_counter ''transactions'' nt (add_to_counter ''blocks'' nb db1)) bs"
    using own_hashes_blocks [of _ db1 bs] w(2) by simp
  then show ?thesis using False w(1) by (simp add: save_block_bundles_def)
qed

text \<open>Steps of the writer by itself: it is sent nothing meanwhile.\<close>

definition own_step :: "writer \<Rightarrow> writer \<Rightarrow> bool" where
  "own_step w w' \<longleftrightarrow> write_step w w' \<and> wr_sent w' = wr_sent w"

lemma own_steps: "own_step\<^sup>*\<^sup>* w w' \<Longrightarrow> write_step\<^sup>*\<^sup>* w w'"
  by (erule rtranclp_mono [THEN predicate2D, rotated]) (auto simp: own_step_def)

lemma batch_commits:
  assumes "\<not> wr_stopped w" "own_hashes (wr_db w) bs" "set (wr_batch w) \<subseteq> set bs"
  shows "\<exists>db'. own_step\<^sup>*\<^sup>* w (w\<lparr>wr_batch := [], wr_db := db', wr_written := wr_written w @ wr_batch w\<rparr>)
    \<and> own_hashes db' bs"
proof (cases "wr_batch w = []")
  case True
  then have "w\<lparr>wr_batch := [], wr_db := wr_db w, wr_written := wr_written w @ wr_batch w\<rparr> = w" by (cases w) simp
  then have "own_step\<^sup>*\<^sup>* w (w\<lparr>wr_batch := [], wr_db := wr_db w, wr_written := wr_written w @ wr_batch w\<rparr>)"
    by (simp only: rtranclp.rtrancl_refl)
  then show ?thesis using assms(2) by blast
next
  case False
  obtain db' where db': "save_block_bundles 0 (wr_batch w) (wr_db w) = Inr db'" "own_hashes db' bs"
    using commit_succeeds [OF assms(2,3), of 0] by auto
  have "own_step w (w\<lparr>wr_batch := [], wr_db := db', wr_written := wr_written w @ wr_batch w\<rparr>)"
    unfolding own_step_def by (intro conjI write_step.commits [OF assms(1) False db'(1)]) simp
  then show ?thesis using db'(2) by auto
qed

definition drained :: "block_bundle list \<Rightarrow> writer \<Rightarrow> writer \<Rightarrow> bool" where
  "drained bs w w' \<longleftrightarrow>
     wr_written w' = wr_written w @ wr_batch w @ wr_queue w \<and> wr_sent w' = wr_sent w \<and> wr_batch w' = [] \<and> wr_queue w' = []
     \<and> \<not> wr_stopped w' \<and> own_hashes (wr_db w') bs"

lemma queue_drains:
  "\<not> wr_stopped w \<Longrightarrow> own_hashes (wr_db w) bs \<Longrightarrow> set (wr_batch w @ wr_queue w) \<subseteq> set bs \<Longrightarrow>
     \<exists>w'. own_step\<^sup>*\<^sup>* w w' \<and> drained bs w w'"
proof (induction "length (wr_queue w)" arbitrary: w rule: less_induct)
  case less
  obtain db' where c: "own_step\<^sup>*\<^sup>* w (w\<lparr>wr_batch := [], wr_db := db', wr_written := wr_written w @ wr_batch w\<rparr>)"
      "own_hashes db' bs"
    using batch_commits [OF less.prems(1,2)] less.prems(3) by auto
  let ?w = "w\<lparr>wr_batch := [], wr_db := db', wr_written := wr_written w @ wr_batch w\<rparr>"
  show ?case
  proof (cases "wr_queue w = []")
    case True
    then show ?thesis using c less.prems(1) by (intro exI [of _ ?w]) (simp add: drained_def)
  next
    case False
    have "write_step ?w (take_batch ?w)" by (rule write_step.takes) (use less.prems(1) False in simp_all)
    then have t: "own_step ?w (take_batch ?w)" by (simp add: own_step_def take_batch_def)
    have shorter: "length (wr_queue (take_batch ?w)) < length (wr_queue w)" using False by (simp add: take_batch_def MAX_BATCH_def)
    have "\<exists>w'. own_step\<^sup>*\<^sup>* (take_batch ?w) w' \<and> drained bs (take_batch ?w) w'"
      by (rule less.hyps [OF shorter]) (use less.prems c(2) in \<open>simp_all add: take_batch_def\<close>)
    then obtain w' where "own_step\<^sup>*\<^sup>* (take_batch ?w) w'" "drained bs (take_batch ?w) w'" by blast
    moreover from this(2) have "drained bs w w'" by (simp add: drained_def take_batch_def)
    ultimately show ?thesis using c(1) t by (meson converse_rtranclp_into_rtranclp rtranclp_trans)
  qed
qed

text \<open>
  C13. The writer catches up: from every state it can reach, unless it was told to stop, it can go on to
  one where every block it was ever sent is written, in the order sent, with its row, its transfers and
  its events, and the books in order; all it takes is that no two heights share a hash.
\<close>

theorem writer_catches_up:
  assumes "write_step\<^sup>*\<^sup>* (writer_start db) w" and "db_ok db" and "\<not> wr_stopped w"
    and "own_hashes (wr_db w) (wr_batch w @ wr_queue w)"
  shows "\<exists>w'. write_step\<^sup>*\<^sup>* w w' \<and> wr_sent w' = wr_sent w \<and> wr_written w' = wr_sent w \<and> db_ok (wr_db w')
    \<and> (\<forall>b\<in>set (wr_sent w). holds_events (wr_db w') b)"
proof -
  have ok: "writer_ok v" if "write_step\<^sup>*\<^sup>* (writer_start db) v" for v using that
  proof (induction rule: rtranclp_induct)
    case base
    then show ?case using assms(2) by (simp add: writer_ok_def writer_start_def MAX_BATCH_def)
  qed (rule writer_ok_step)
  obtain w' where w': "write_step\<^sup>*\<^sup>* w w'" "wr_written w' = wr_written w @ wr_batch w @ wr_queue w" "wr_sent w' = wr_sent w"
    using queue_drains [OF assms(3,4) order_refl] own_steps by (auto simp: drained_def)
  have "writer_ok w'" using ok rtranclp_trans [OF assms(1) w'(1)] by blast
  moreover have "wr_written w' = wr_sent w" using ok [OF assms(1)] w'(2) by (simp add: writer_ok_def)
  ultimately show ?thesis using w'(1,3) by (auto simp: writer_ok_def)
qed

lemma writer_catches_up_witness:
  "\<exists>w'::writer. wr_written w' = [sample_bundle] \<and> holds_events (wr_db w') sample_bundle"
proof -
  let ?w = "(writer_start empty_database)\<lparr>wr_queue := [sample_bundle], wr_sent := [sample_bundle]\<rparr>"
  have "write_step (writer_start empty_database) ?w"
    using write_step.sends [of "writer_start empty_database" sample_bundle] by (simp add: writer_start_def QUEUE_CAP_def)
  then have r: "write_step\<^sup>*\<^sup>* (writer_start empty_database) ?w" by blast
  have h: "own_hashes (wr_db ?w) (wr_batch ?w @ wr_queue ?w)"
    by (simp add: own_hashes_def writer_start_def empty_database_def)
  have s: "\<not> wr_stopped ?w" "wr_sent ?w = [sample_bundle]" by (simp_all add: writer_start_def)
  show ?thesis using writer_catches_up [OF r db_ok_empty s(1) h] s(2) by auto
qed

end
