(* ===== verification/Feed_Progress.thy ===== *)
theory Feed_Progress
  imports Explorer
begin

section \<open>The client catches up (\<open>feed\<close> and \<open>stream_blocks\<close>, \<open>src/web.rs\<close>)\<close>

text \<open>
  While the tables stay as they are, the publisher and a client can go on until the client has been sent
  everything up to the tip. The lemmas take the client's stages in order: what it has pending, what the
  channel holds, what the publisher still has to send.
\<close>

definition still_step :: "keccak \<Rightarrow> (string \<Rightarrow> json option) \<Rightarrow> nat \<Rightarrow> live \<Rightarrow> live \<Rightarrow> bool" where
  "still_step keccak parse cap = live_step keccak parse cap (\<lambda>db db'. db' = db)"

lemma live_self: "l\<lparr>lv_db := lv_db l\<rparr> = l"
  by (cases l) simp

lemma still_turn:
  assumes "\<not> reading l" "sse_turn keccak (lv_db l) (lv_db l) False r (lv_client l) = (res, c)"
  shows "still_step keccak parse cap l (l\<lparr>lv_client := c, lv_out := lv_out l @ emitted res\<rparr>)"
  using live_step.turn [where env = "\<lambda>db db'. db' = db", OF assms(1) refl assms(2), of parse cap]
  by (simp add: still_step_def live_self)

lemma still_read:
  assumes "reading l" "lv_at l < length (lv_channel l)" "length (lv_channel l) \<le> lv_at l + cap"
    and "sse_turn keccak (lv_db l) (lv_db l) False (Received (lv_channel l ! lv_at l)) (lv_client l) = (res, c)"
  shows "still_step keccak parse cap l (l\<lparr>lv_at := Suc (lv_at l), lv_client := c, lv_out := lv_out l @ emitted res\<rparr>)"
  using live_step.read [where env = "\<lambda>db db'. db' = db", OF assms(1-3) refl assms(4), of parse]
  by (simp add: still_step_def live_self)

lemma still_lag:
  assumes "reading l" "lv_at l + cap < length (lv_channel l)" "in_reach cap l"
    and "sse_turn keccak (lv_db l) (lv_db l) False Lagged (lv_client l) = (res, c)"
  shows "still_step keccak parse cap l
    (l\<lparr>lv_at := length (lv_channel l) - cap, lv_client := c, lv_out := lv_out l @ emitted res\<rparr>)"
  using live_step.lag [where env = "\<lambda>db db'. db' = db", OF assms(1-3) refl assms(4), of parse]
  by (simp add: still_step_def live_self)

lemma still_feed:
  assumes "lv_batch l = []" "feed_turn keccak parse (lv_db l) (lv_db l) (lv_feed l) = (es, f)"
  shows "still_step keccak parse cap l (l\<lparr>lv_batch := es, lv_feed := f\<rparr>)"
  using live_step.feed [where env = "\<lambda>db db'. db' = db", OF assms(1) refl assms(2), of cap]
  by (simp add: still_step_def live_self)

lemma still_send:
  assumes "lv_batch l = e # es"
  shows "still_step keccak parse cap l (l\<lparr>lv_batch := es, lv_channel := lv_channel l @ [e]\<rparr>)"
  using live_step.send [OF assms, of keccak parse cap "\<lambda>db db'. db' = db"] by (simp add: still_step_def)

lemma still_frame:
  assumes "(still_step keccak parse cap)\<^sup>*\<^sup>* l l'"
  shows "lv_db l' = lv_db l \<and> (\<exists>more. lv_out l' = lv_out l @ more)"
  using assms
proof (induction rule: rtranclp_induct)
  case (step l1 l2)
  have "lv_db l2 = lv_db l1 \<and> (\<exists>more. lv_out l2 = lv_out l1 @ more)"
    using step.hyps(2) unfolding still_step_def by cases simp_all
  then show ?case using step.IH by auto
qed simp

lemma still_ok:
  assumes "(still_step keccak parse cap)\<^sup>*\<^sup>* l l'" "live_ok base l"
  shows "live_ok base l'"
  using assms(1)
proof (induction rule: rtranclp_induct)
  case (step l1 l2)
  have "held_run base (lv_db l1)" using step.IH by (auto simp: live_ok_def feed_at_def)
  then have "grown base (lv_db l1) (lv_db l1)" by (simp add: grown_def)
  then have "live_step keccak parse cap (grown base) l1 l2"
    by (intro live_step_env [OF step.hyps(2) [unfolded still_step_def]]) simp
  then show ?case using step.IH by (rule live_step_ok)
qed (rule assms(2))

subsection \<open>The client by itself\<close>

definition same_feed :: "live \<Rightarrow> live \<Rightarrow> bool" where
  "same_feed l l' \<longleftrightarrow> lv_db l' = lv_db l \<and> lv_feed l' = lv_feed l \<and> lv_batch l' = lv_batch l \<and> lv_channel l' = lv_channel l"

lemma client_reads_pending:
  "ss_sent_initial (lv_client l) \<Longrightarrow> \<exists>l'. (still_step keccak parse cap)\<^sup>*\<^sup>* l l' \<and> same_feed l l' \<and> lv_at l' = lv_at l
     \<and> reading l' \<and> ss_last_num (lv_client l') = ss_last_num (lv_client l)"
proof (induction "ss_pending (lv_client l)" arbitrary: l)
  case Nil
  then show ?case by (intro exI [of _ l]) (simp add: same_feed_def reading_def)
next
  case (Cons v vs)
  obtain res c where t: "sse_turn keccak (lv_db l) (lv_db l) False Lagged (lv_client l) = (res, c)" by fastforce
  let ?l = "l\<lparr>lv_client := c, lv_out := lv_out l @ emitted res\<rparr>"
  have c: "c = (lv_client l)\<lparr>ss_pending := vs\<rparr>"
    using sse_turn_pending [OF Cons.prems Cons.hyps(2) [symmetric] t] by simp
  have "\<not> reading l" using Cons.hyps(2) by (auto simp: reading_def)
  then have s: "still_step keccak parse cap l ?l" by (rule still_turn [OF _ t])
  have "\<exists>l'. (still_step keccak parse cap)\<^sup>*\<^sup>* ?l l' \<and> same_feed ?l l' \<and> lv_at l' = lv_at ?l
      \<and> reading l' \<and> ss_last_num (lv_client l') = ss_last_num (lv_client ?l)"
    by (rule Cons.hyps(1)) (use c Cons.prems in simp_all)
  then show ?case using c converse_rtranclp_into_rtranclp [of "still_step keccak parse cap", OF s]
    by (auto simp: same_feed_def)
qed

lemma client_wakes:
  assumes "live_ok base l"
  shows "\<exists>l'. (still_step keccak parse cap)\<^sup>*\<^sup>* l l' \<and> same_feed l l' \<and> lv_at l' = lv_at l \<and> reading l'
    \<and> (in_reach cap l \<longrightarrow> in_reach cap l')"
proof (cases "ss_sent_initial (lv_client l)")
  case True
  then show ?thesis using client_reads_pending [of l keccak parse cap] by (auto simp: in_reach_def same_feed_def)
next
  case False
  obtain res c where t: "sse_turn keccak (lv_db l) (lv_db l) False Lagged (lv_client l) = (res, c)" by fastforce
  have h: "held_run base (lv_db l)" using assms by (auto simp: live_ok_def feed_at_def)
  then have "grown base (lv_db l) (lv_db l)" by (simp add: grown_def)
  then have c: "c = (lv_client l)\<lparr>ss_sent_initial := True, ss_last_num := tip (lv_db l)\<rparr>"
    using sse_turn_initial [OF False h _ t] by blast
  have p: "ss_pending (lv_client l) = []" using assms False by (simp add: live_ok_def client_ok_def)
  let ?l = "l\<lparr>lv_client := c, lv_out := lv_out l @ emitted res\<rparr>"
  have "still_step keccak parse cap l ?l" by (rule still_turn [OF _ t]) (simp add: reading_def False)
  then show ?thesis using c p by (intro exI [of _ ?l]) (auto simp: same_feed_def reading_def in_reach_def)
qed

lemma client_reads_channel:
  "reading l \<Longrightarrow> lv_at l \<le> length (lv_channel l) \<Longrightarrow> length (lv_channel l) \<le> lv_at l + cap \<Longrightarrow>
     \<exists>l'. (still_step keccak parse cap)\<^sup>*\<^sup>* l l' \<and> same_feed l l' \<and> reading l' \<and> lv_at l' = length (lv_channel l')"
proof (induction "length (lv_channel l) - lv_at l" arbitrary: l)
  case 0
  then show ?case by (intro exI [of _ l]) (simp add: same_feed_def)
next
  case (Suc k)
  then have lt: "lv_at l < length (lv_channel l)" by simp
  obtain res c where t: "sse_turn keccak (lv_db l) (lv_db l) False (Received (lv_channel l ! lv_at l)) (lv_client l) = (res, c)" by fastforce
  let ?l = "l\<lparr>lv_at := Suc (lv_at l), lv_client := c, lv_out := lv_out l @ emitted res\<rparr>"
  have s: "still_step keccak parse cap l ?l" by (rule still_read [OF Suc.prems(1) lt Suc.prems(3) t])
  have "reading ?l"
    using sse_turn_received [OF _ _ t] Suc.prems(1) by (auto simp: reading_def split: option.splits if_splits)
  then have "\<exists>l'. (still_step keccak parse cap)\<^sup>*\<^sup>* ?l l' \<and> same_feed ?l l' \<and> reading l' \<and> lv_at l' = length (lv_channel l')"
    by (intro Suc.hyps(1)) (use Suc.hyps(2) Suc.prems lt in simp_all)
  then show ?case using converse_rtranclp_into_rtranclp [of "still_step keccak parse cap", OF s]
    by (auto simp: same_feed_def)
qed

definition read_up :: "live \<Rightarrow> bool" where
  "read_up l \<longleftrightarrow> reading l \<and> lv_at l = length (lv_channel l)"

text \<open>Behind the channel, the client replays first.\<close>

lemma client_reads_up:
  assumes "reading l" "lv_at l \<le> length (lv_channel l)" "lv_at l + cap < length (lv_channel l) \<Longrightarrow> in_reach cap l"
  shows "\<exists>l'. (still_step keccak parse cap)\<^sup>*\<^sup>* l l' \<and> same_feed l l' \<and> read_up l'"
proof (cases "lv_at l + cap < length (lv_channel l)")
  case False
  then show ?thesis using client_reads_channel [OF assms(1,2), of cap keccak parse] by (auto simp: read_up_def)
next
  case True
  obtain res c where t: "sse_turn keccak (lv_db l) (lv_db l) False Lagged (lv_client l) = (res, c)" by fastforce
  let ?l = "l\<lparr>lv_at := length (lv_channel l) - cap, lv_client := c, lv_out := lv_out l @ emitted res\<rparr>"
  have s: "still_step keccak parse cap l ?l" by (rule still_lag [OF assms(1) True assms(3) [OF True] t])
  have "ss_sent_initial c" using t assms(1) by (auto simp: sse_turn_def Let_def reading_def split: list.splits)
  then obtain l1 where l1: "(still_step keccak parse cap)\<^sup>*\<^sup>* ?l l1" "same_feed ?l l1" "lv_at l1 = lv_at ?l" "reading l1"
    using client_reads_pending [of ?l keccak parse cap] by auto
  have ch: "lv_at l1 \<le> length (lv_channel l1)" "length (lv_channel l1) \<le> lv_at l1 + cap"
    using l1(2,3) by (simp_all add: same_feed_def)
  obtain l2 where "(still_step keccak parse cap)\<^sup>*\<^sup>* l1 l2" "same_feed l1 l2" "read_up l2"
    using client_reads_channel [OF l1(4) ch, of keccak parse] by (auto simp: read_up_def)
  moreover have "(still_step keccak parse cap)\<^sup>*\<^sup>* l l1"
    by (rule converse_rtranclp_into_rtranclp [of "still_step keccak parse cap", OF s l1(1)])
  ultimately show ?thesis using l1(2) by (intro exI [of _ l2]) (auto simp: same_feed_def)
qed

subsection \<open>The publisher and the client\<close>

lemma batch_sent:
  "read_up l \<Longrightarrow> 0 < cap \<Longrightarrow> \<exists>l'. (still_step keccak parse cap)\<^sup>*\<^sup>* l l' \<and> read_up l' \<and> lv_batch l' = [] \<and> lv_feed l' = lv_feed l"
proof (induction "lv_batch l" arbitrary: l)
  case Nil
  then show ?case by (intro exI [of _ l]) simp
next
  case (Cons e es)
  let ?l = "l\<lparr>lv_batch := es, lv_channel := lv_channel l @ [e]\<rparr>"
  have s: "still_step keccak parse cap l ?l" by (rule still_send [OF Cons.hyps(2) [symmetric]])
  have r: "reading ?l" "lv_at ?l \<le> length (lv_channel ?l)" "length (lv_channel ?l) \<le> lv_at ?l + cap"
    using Cons.prems by (simp_all add: read_up_def reading_def)
  obtain l1 where l1: "(still_step keccak parse cap)\<^sup>*\<^sup>* ?l l1" "same_feed ?l l1" "read_up l1"
    using client_reads_channel [OF r, of keccak parse] by (auto simp: read_up_def)
  have "\<exists>l'. (still_step keccak parse cap)\<^sup>*\<^sup>* l1 l' \<and> read_up l' \<and> lv_batch l' = [] \<and> lv_feed l' = lv_feed l1"
    by (rule Cons.hyps(1)) (use l1 Cons.prems in \<open>simp_all add: same_feed_def\<close>)
  then obtain l' where l': "(still_step keccak parse cap)\<^sup>*\<^sup>* l1 l'" "read_up l'" "lv_batch l' = []" "lv_feed l' = lv_feed l1" by blast
  have "(still_step keccak parse cap)\<^sup>*\<^sup>* l l'"
    using converse_rtranclp_into_rtranclp [of "still_step keccak parse cap", OF s l1(1)] l'(1) by (rule rtranclp_trans)
  then show ?case using l' l1(2) by (auto simp: same_feed_def)
qed

text \<open>Read up to a publisher that is at the tip, the client has been sent the tip.\<close>

lemma read_up_shown:
  assumes "live_ok base l" "read_up l" "lv_batch l = []" "fd_sent (lv_feed l) = tip (lv_db l)"
  shows "\<exists>f m. shown l = run f m \<and> f + int m = tip (lv_db l) + 1 \<and> 0 < m \<and> base \<le> f"
proof -
  have i: "ss_sent_initial (lv_client l)" "ss_pending (lv_client l) = []" using assms(2) by (simp_all add: read_up_def reading_def)
  obtain a k where "nums (ahead l) = run a k" "a + int k = fd_sent (lv_feed l) + 1" "a \<le> ss_last_num (lv_client l) + 1"
    using assms(1) i(1) by (auto simp: live_ok_def feed_at_def)
  moreover have "ahead l = []" using assms(2,3) by (simp add: ahead_def read_up_def)
  ultimately have "tip (lv_db l) \<le> ss_last_num (lv_client l)"
    using assms(4) by (cases k) (simp_all add: run_Suc)
  moreover obtain f m where "client_at base l f m" using assms(1) i(1) by (auto simp: live_ok_def client_ok_def)
  ultimately show ?thesis using i(2) unfolding client_at_def by (intro exI [of _ f] exI [of _ m]) auto
qed

text \<open>
  From every state the parts can reach, a client that is not further behind than a replay brings back can be
  shown the rest, up to the tip, after what it was shown before.
\<close>

lemma client_catches_up:
  assumes "live_ok base l" "0 < cap" "lv_at l + cap < length (lv_channel l) \<Longrightarrow> in_reach cap l"
  shows "\<exists>l' f m more. (still_step keccak parse cap)\<^sup>*\<^sup>* l l' \<and> live_ok base l' \<and> lv_db l' = lv_db l
    \<and> read_up l' \<and> shown l' = run f m \<and> f + int m = tip (lv_db l) + 1 \<and> 0 < m \<and> base \<le> f \<and> shown l' = shown l @ more"
proof -
  let ?step = "still_step keccak parse cap"
  have len: "lv_at l \<le> length (lv_channel l)" using assms(1) by (auto simp: live_ok_def feed_at_def)
  obtain l1 where l1: "?step\<^sup>*\<^sup>* l l1" "same_feed l l1" "lv_at l1 = lv_at l" "reading l1" "in_reach cap l \<longrightarrow> in_reach cap l1"
    using client_wakes [OF assms(1)] by blast
  have at: "lv_at l1 \<le> length (lv_channel l1)" "lv_at l1 + cap < length (lv_channel l1) \<Longrightarrow> in_reach cap l1"
    using len l1(2,3,5) assms(3) by (simp_all add: same_feed_def)
  obtain l2 where l2: "?step\<^sup>*\<^sup>* l1 l2" "same_feed l1 l2" "read_up l2"
    using client_reads_up [OF l1(4) at] by blast
  obtain l3 where l3: "?step\<^sup>*\<^sup>* l2 l3" "read_up l3" "lv_batch l3 = []"
    using batch_sent [OF l2(3) assms(2)] by blast
  obtain es fd where t: "feed_turn keccak parse (lv_db l3) (lv_db l3) (lv_feed l3) = (es, fd)" by fastforce
  let ?l = "l3\<lparr>lv_batch := es, lv_feed := fd\<rparr>"
  have s: "?step l3 ?l" by (rule still_feed [OF l3(3) t])
  have "read_up ?l" using l3(2) by (simp add: read_up_def reading_def)
  then obtain l4 where l4: "?step\<^sup>*\<^sup>* ?l l4" "read_up l4" "lv_batch l4 = []" "lv_feed l4 = fd"
    using batch_sent [of ?l, OF _ assms(2)] by auto
  have r3: "?step\<^sup>*\<^sup>* l l3" using l1(1) l2(1) l3(1) by (meson rtranclp_trans)
  have r: "?step\<^sup>*\<^sup>* l l4"
    using rtranclp_trans [OF r3 converse_rtranclp_into_rtranclp [of "still_step keccak parse cap", OF s l4(1)]] .
  note ok3 = still_ok [OF r3 assms(1)] and ok = still_ok [OF r assms(1)]
  have h: "held_run base (lv_db l3)" "base \<le> fd_sent (lv_feed l3) + 1" "fd_sent (lv_feed l3) \<le> tip (lv_db l3)"
    using ok3 by (auto simp: live_ok_def feed_at_def)
  have db: "lv_db l3 = lv_db l" "lv_db l4 = lv_db l" using still_frame [OF r3] still_frame [OF r] by simp_all
  have "fd_sent fd = tip (lv_db l)" using feed_turn_nums [OF t h(1) _ h(2)] h(3) db(1) by simp
  then obtain f m where "shown l4 = run f m" "f + int m = tip (lv_db l) + 1" "0 < m" "base \<le> f"
    using read_up_shown [OF ok l4(2,3)] l4(4) db(2) by auto
  moreover obtain more where "shown l4 = shown l @ more" using still_frame [OF r] by (auto simp: shown_def)
  ultimately show ?thesis using r ok db(2) l4(2) by blast
qed

end
