(* ===== verification/Reaching.thy ===== *)
theory Reaching
  imports Draining Feed_Progress
begin

section \<open>The indexer reaches the head (\<open>src/indexer.rs\<close>)\<close>

text \<open>
  The parts of the indexer under one roof: against a node that answers, the forward loop can fetch what is
  missing, hand it over bundle by bundle as the queue drains, and the writer can write it, until the tables
  hold the chain up to the head the node announced. The lemmas take the steps in that order.
\<close>

subsection \<open>A chain with a hash for every height\<close>

definition hash_of :: "(rpc_call \<Rightarrow> json) \<Rightarrow> nat \<Rightarrow> blob" where
  "hash_of answer n = hex_blob (str_field (answer (block_call n)) ''hash'')"

text \<open>No two heights of the node's chain share a hash, and the rows stored are of that chain.\<close>

definition own_chain :: "(rpc_call \<Rightarrow> json) \<Rightarrow> nat \<Rightarrow> database \<Rightarrow> bool" where
  "own_chain answer head db \<longleftrightarrow>
     inj_on (hash_of answer) {..head} \<and> (\<forall>(n, r)\<in>set (blocks db). n \<in> int ` {..head} \<and> b_hash r = hash_of answer (nat n))"

text \<open>A bundle of the chain.\<close>

definition chain_bundle :: "int \<Rightarrow> (rpc_call \<Rightarrow> json) \<Rightarrow> nat \<Rightarrow> block_bundle \<Rightarrow> bool" where
  "chain_bundle now answer head b \<longleftrightarrow>
     (\<exists>n\<le>head. bundle_block b = parse_block now (answer (block_call n)) \<and> number_of b = int n)"

lemma chain_bundle_hash: "chain_bundle now answer head b \<Longrightarrow>
  number_of b \<in> int ` {..head} \<and> block_hash b = hash_of answer (nat (number_of b))"
  by (auto simp: chain_bundle_def block_hash_def hash_of_def parse_block_def Let_def)

lemma own_chain_hashes:
  assumes "own_chain answer head db" "\<forall>b\<in>set bs. chain_bundle now answer head b"
  shows "own_hashes db bs"
proof -
  have same: "m = n" if "m \<in> int ` {..head}" "n \<in> int ` {..head}" "hash_of answer (nat m) = hash_of answer (nat n)" for m n
    using that assms(1) by (auto simp: own_chain_def dest: inj_onD)
  have b: "number_of b \<in> int ` {..head}" "block_hash b = hash_of answer (nat (number_of b))" if "b \<in> set bs" for b
    using assms(2) that chain_bundle_hash by blast+
  have r: "n \<in> int ` {..head}" "b_hash r = hash_of answer (nat n)" if "(n, r) \<in> set (blocks db)" for n r
    using assms(1) that by (auto simp: own_chain_def)
  show ?thesis unfolding own_hashes_def
  proof (intro conjI ballI, clarify)
    fix b n r
    assume *: "b \<in> set bs" "(n, r) \<in> set (blocks db)" "b_hash r = block_hash b"
    show "n = number_of b" by (rule same [OF r(1) [OF *(2)] b(1) [OF *(1)]]) (use * b(2) r(2) in simp)
  next
    fix b b'
    assume *: "b \<in> set bs" "b' \<in> set bs"
    show "block_hash b = block_hash b' \<longrightarrow> number_of b = number_of b'"
      using same [OF b(1) [OF *(1)] b(1) [OF *(2)]] b(2) * by simp
  qed
qed

lemma parsed_range_chain:
  assumes "map bundle_block got = parsed_range now answer lo hi" "numbered answer" "int hi \<le> I64_MAX" "hi \<le> head" "b \<in> set got"
  shows "chain_bundle now answer head b"
proof -
  have "bundle_block b \<in> set (parsed_range now answer lo hi)" unfolding assms(1) [symmetric] using assms(5) by simp
  then obtain n where n: "n \<in> set [lo..<Suc hi]" "bundle_block b = parse_block now (answer (block_call n))"
    unfolding parsed_range_def by (auto simp del: upt_Suc)
  then have "int_field ''number'' (answer (block_call n)) = int n"
    using assms(2,3) by (auto simp: numbered_def i64_of_u64_def simp del: upt_Suc)
  then show ?thesis using n assms(4) unfolding chain_bundle_def by (intro exI [of _ n]) (auto simp: parse_block_number)
qed

subsection \<open>Fetching\<close>

lemma index_fetches:
  assumes "0 < batch" "int head \<le> I64_MAX"
    and full: "\<And>lo hi. hi \<le> head \<Longrightarrow> \<exists>got. got_of lo hi got \<and> map bundle_number got = [lo..<Suc hi] \<and> (\<forall>b\<in>set got. good b)"
    and at: "fw_at (ix_forward i) = Catching_Up head" "fw_heads (ix_forward i) = []" "fw_sent (ix_forward i) \<le> head"
  shows "\<exists>f. (index_step batch got_of)\<^sup>*\<^sup>* i (i\<lparr>ix_forward := f\<rparr>) \<and> fw_sent f = head \<and>
    map bundle_number (fw_out f) = map bundle_number (fw_out (ix_forward i)) @ [Suc (fw_sent (ix_forward i))..<Suc head] \<and>
    (\<forall>b\<in>set (fw_out f). b \<in> set (fw_out (ix_forward i)) \<or> good b)"
proof -
  let ?fetch = "\<lambda>lo hi got. got_of lo hi got \<and> (\<forall>b\<in>set got. good b)"
  let ?R = "\<lambda>f f'. index_step batch got_of (i\<lparr>ix_forward := f\<rparr>) (i\<lparr>ix_forward := f'\<rparr>) \<and> (\<forall>b\<in>set (fw_out f'). b \<in> set (fw_out f) \<or> good b)"
  have "\<exists>f. (?R ^^ windows_left batch (head - fw_sent (ix_forward i))) (ix_forward i) f \<and> fw_at f = Catching_Up head \<and> fw_sent f = head \<and>
      map bundle_number (fw_out f) = map bundle_number (fw_out (ix_forward i)) @ [Suc (fw_sent (ix_forward i))..<Suc head]"
  proof (rule forward_catch_up [OF assms(1) _ _ _ at, where fetch = ?fetch])
    show "head \<le> U64_MAX" using assms(2) by simp
    show "\<exists>got. ?fetch lo hi got \<and> map bundle_number got = [lo..<Suc hi]" if "hi \<le> head" for lo hi
      using full [OF that] by blast
  next
    fix s got e
    assume s: "fw_at s = Catching_Up head" "fw_heads s = []" "fw_sent s < head" "e \<le> head" "e = window_end batch (fw_sent s) head"
      "?fetch (Suc (fw_sent s)) e got" "fw_sent (forward_window got head s) = e" "fw_out (forward_window got head s) = fw_out s @ got"
    have "forward_step batch got_of s (forward_window got head s)"
      by (rule forward_step.window [OF s(1,3)]) (use s in \<open>simp add: drain_heads_def\<close>)
    then have "index_step batch got_of (i\<lparr>ix_forward := s\<rparr>) (i\<lparr>ix_forward := s\<rparr>\<lparr>ix_forward := forward_window got head s\<rparr>)"
      by (intro index_step.forward) (use s assms(2) in simp_all)
    then show "?R s (forward_window got head s)" using s(6,8) by auto
  qed
  then obtain f where f: "(?R ^^ windows_left batch (head - fw_sent (ix_forward i))) (ix_forward i) f" "fw_sent f = head"
    "map bundle_number (fw_out f) = map bundle_number (fw_out (ix_forward i)) @ [Suc (fw_sent (ix_forward i))..<Suc head]" by blast
  have "?R\<^sup>*\<^sup>* (ix_forward i) f" by (rule relpowp_imp_rtranclp [OF f(1)])
  then have "(index_step batch got_of)\<^sup>*\<^sup>* i (i\<lparr>ix_forward := f\<rparr>) \<and> (\<forall>b\<in>set (fw_out f). b \<in> set (fw_out (ix_forward i)) \<or> good b)"
  proof (induction rule: rtranclp_induct)
    case (step f f')
    then show ?case by (meson rtranclp.rtrancl_into_rtrancl)
  qed simp
  then show ?thesis using f(2,3) by blast
qed

subsection \<open>Handing over and writing\<close>

lemma index_drains:
  assumes "own_step\<^sup>*\<^sup>* (ix_writer i) w"
  shows "(index_step batch got_of)\<^sup>*\<^sup>* i (i\<lparr>ix_writer := w\<rparr>)"
  using assms
proof (induction rule: rtranclp_induct)
  case (step w w')
  have "index_step batch got_of (i\<lparr>ix_writer := w\<rparr>) (i\<lparr>ix_writer := w\<rparr>\<lparr>ix_writer := w'\<rparr>)"
    by (rule index_step.writes) (use step.hyps(2) in \<open>simp_all add: own_step_def\<close>)
  then show ?case using step.IH by simp
qed simp

definition idle :: "block_bundle list \<Rightarrow> writer \<Rightarrow> bool" where
  "idle bs w \<longleftrightarrow> wr_queue w = [] \<and> wr_batch w = [] \<and> \<not> wr_stopped w \<and> own_hashes (wr_db w) bs"

lemma index_sends_one:
  assumes "ix_forwarded i < length (fw_out (ix_forward i))" "b = fw_out (ix_forward i) ! ix_forwarded i" "is_i64 (number_of b)"
    "idle bs (ix_writer i)" "b \<in> set bs"
  shows "\<exists>i'. (index_step batch got_of)\<^sup>*\<^sup>* i i' \<and> ix_forward i' = ix_forward i \<and> ix_forwarded i' = Suc (ix_forwarded i)
    \<and> idle bs (ix_writer i') \<and> wr_written (ix_writer i') = wr_written (ix_writer i) @ [b]"
proof -
  let ?i = "i\<lparr>ix_forwarded := Suc (ix_forwarded i), ix_writer := hand_over b (ix_writer i)\<rparr>"
  have w: "wr_queue (ix_writer i) = []" "wr_batch (ix_writer i) = []" "\<not> wr_stopped (ix_writer i)" "own_hashes (wr_db (ix_writer i)) bs"
    using assms(4) by (simp_all add: idle_def)
  have s: "index_step batch got_of i ?i"
    by (rule index_step.forward_sends) (use assms w in \<open>simp_all add: QUEUE_CAP_def\<close>)
  obtain w' where d: "own_step\<^sup>*\<^sup>* (hand_over b (ix_writer i)) w'" "drained bs (hand_over b (ix_writer i)) w'"
    using queue_drains [of "hand_over b (ix_writer i)" bs] w assms(5) by (auto simp: hand_over_def)
  have "(index_step batch got_of)\<^sup>*\<^sup>* ?i (?i\<lparr>ix_writer := w'\<rparr>)" by (rule index_drains) (use d(1) in simp)
  then have "(index_step batch got_of)\<^sup>*\<^sup>* i (?i\<lparr>ix_writer := w'\<rparr>)" 
    by (rule converse_rtranclp_into_rtranclp [of "index_step batch got_of", OF s])
  moreover have "idle bs w'" "wr_written w' = wr_written (ix_writer i) @ [b]"
    using d(2) w by (simp_all add: drained_def idle_def hand_over_def)
  ultimately show ?thesis by (intro exI [of _ "?i\<lparr>ix_writer := w'\<rparr>"]) simp
qed

lemma index_sends_all:
  assumes "ix_forwarded i \<le> length (fw_out (ix_forward i))" "\<forall>b\<in>set (fw_out (ix_forward i)). is_i64 (number_of b) \<and> b \<in> set bs"
    "idle bs (ix_writer i)"
  shows "\<exists>i'. (index_step batch got_of)\<^sup>*\<^sup>* i i'
    \<and> wr_written (ix_writer i') = wr_written (ix_writer i) @ drop (ix_forwarded i) (fw_out (ix_forward i))"
  using assms
proof (induction "length (fw_out (ix_forward i)) - ix_forwarded i" arbitrary: i)
  case 0
  then show ?case by (intro exI [of _ i]) simp
next
  case (Suc k)
  let ?out = "fw_out (ix_forward i)" and ?n = "ix_forwarded i"
  have lt: "?n < length ?out" using Suc.hyps(2) by simp
  then have b: "is_i64 (number_of (?out ! ?n))" "?out ! ?n \<in> set bs" using Suc.prems(2) nth_mem by blast+
  obtain i1 where i1: "(index_step batch got_of)\<^sup>*\<^sup>* i i1" "ix_forward i1 = ix_forward i" "ix_forwarded i1 = Suc ?n"
      "idle bs (ix_writer i1)" "wr_written (ix_writer i1) = wr_written (ix_writer i) @ [?out ! ?n]"
    using index_sends_one [OF lt refl b(1) Suc.prems(3) b(2)] by blast
  have "\<exists>i'. (index_step batch got_of)\<^sup>*\<^sup>* i1 i'
      \<and> wr_written (ix_writer i') = wr_written (ix_writer i1) @ drop (ix_forwarded i1) (fw_out (ix_forward i1))"
    by (rule Suc.hyps(1)) (use Suc.hyps(2) Suc.prems lt i1 in simp_all)
  then obtain i' where "(index_step batch got_of)\<^sup>*\<^sup>* i1 i'"
      "wr_written (ix_writer i') = wr_written (ix_writer i) @ ?out ! ?n # drop (Suc ?n) ?out"
    using i1 by auto
  then show ?case using rtranclp_trans [OF i1(1)] Cons_nth_drop_Suc [OF lt] by auto
qed

subsection \<open>Up to the head\<close>

text \<open>Whatever the parts do, the invariant of the whole holds.\<close>

context range_fetching
begin

lemma index_reachable_ok:
  assumes "(index_step batch fetch)\<^sup>*\<^sup>* (index_start db) i" "start_ok base db"
  shows "index_ok db i"
  using assms(1)
proof (induction rule: rtranclp_induct)
  case base
  show ?case by (rule index_start_ok [OF assms(2)])
next
  case (step i i')
  show ?case by (rule conjunct1 [OF index_step_ok [OF step.hyps(2) step.IH assms(2)]])
qed

end

lemma indexer_keeps:
  assumes "(index_step batch (fetch_range tools now node fetch_meta))\<^sup>*\<^sup>* (index_start db) i" "honest node" "start_ok base db"
  shows "index_ok db i"
proof -
  have "(index_step batch (honest_range tools now node fetch_meta))\<^sup>*\<^sup>* (index_start db) i"
    using assms(1) by (subst honest_range_eq [OF assms(2)])
  from node_range.index_reachable_ok [OF this assms(3)] show ?thesis .
qed

text \<open>A head arrives and the loop wakes.\<close>

lemma index_wakes:
  assumes "start_ok base db" "tip db \<le> int head" "int head \<le> I64_MAX"
  shows "\<exists>i. (index_step batch got_of)\<^sup>*\<^sup>* (index_start db) i \<and> fw_at (ix_forward i) = Catching_Up head \<and> fw_heads (ix_forward i) = []
    \<and> fw_sent (ix_forward i) = upper_end db \<and> fw_out (ix_forward i) = [] \<and> ix_forwarded i = 0 \<and> ix_writer i = writer_start db"
proof -
  let ?i = "index_start db"
  let ?f = "(ix_forward ?i)\<lparr>fw_heads := fw_heads (ix_forward ?i) @ [head]\<rparr>"
  have run: "forward_run (Some (upper_end db)) (ix_forward ?i)"
    using index_start_ok [OF assms(1)] by (simp add: index_ok_def Let_def)
  have pos: "0 < upper_end db" using assms(1) by (simp add: upper_end_def start_ok_def)
  have f: "fw_out (ix_forward ?i) = []" "fw_heads (ix_forward ?i) = []" "fw_at (ix_forward ?i) = Waiting"
    by (simp_all add: index_start_def forward_start_def)
  have sent: "fw_sent (ix_forward ?i) = upper_end db" using run pos f(1) by (auto simp: forward_run_def split: if_splits)
  have small: "int (upper_end db) \<le> I64_MAX" using start_tip [OF assms(1)] by (simp add: is_i64_def)
  have "index_step batch got_of ?i (?i\<lparr>ix_forward := ?f\<rparr>)"
    by (intro index_step.forward forward_step.head_arrives) (use assms(3) sent small in simp_all)
  moreover have "index_step batch got_of (?i\<lparr>ix_forward := ?f\<rparr>) (?i\<lparr>ix_forward := ?f\<rparr>\<lparr>ix_forward := forward_receive 0 ?f\<rparr>)"
    by (intro index_step.forward, simp, rule forward_step.receive)
      (use f sent small pos in \<open>simp_all add: forward_receive_def drain_heads_def\<close>)
  ultimately have "(index_step batch got_of)\<^sup>*\<^sup>* ?i (?i\<lparr>ix_forward := forward_receive 0 ?f\<rparr>)" by simp
  then show ?thesis using f sent pos
    by (intro exI [of _ "?i\<lparr>ix_forward := forward_receive 0 ?f\<rparr>"])
      (simp add: forward_receive_def drain_heads_def index_start_def)
qed

text \<open>
  The indexer can reach the head: started on a file whose newest blocks are one run, against a node that
  refuses batches past some size, answers everything else and gives every height its own hash, there is a
  run of its parts after which the tables hold every block from the base of the run up to the head
  announced, with the books in order.
\<close>

lemma indexer_reaches_the_head:
  assumes "0 < batch" and "0 < cap" "healthy answer" "numbered answer" "\<And>w s. fetch_meta w s \<noteq> None"
    and "start_ok base db" "own_chain answer head db" "tip db \<le> int head" "int head \<le> I64_MAX"
  shows "\<exists>i. (index_step batch (fetch_range tools now (capped_node cap answer err) fetch_meta))\<^sup>*\<^sup>* (index_start db) i
    \<and> held_run base (wr_db (ix_writer i)) \<and> tip (wr_db (ix_writer i)) = int head \<and> db_ok (wr_db (ix_writer i))"
proof -
  let ?fetch = "fetch_range tools now (capped_node cap answer err) fetch_meta"
  let ?step = "index_step batch ?fetch"
  have full: "\<exists>got. ?fetch lo hi got \<and> map bundle_number got = [lo..<Suc hi] \<and> (\<forall>b\<in>set got. chain_bundle now answer head b)"
    if hi: "hi \<le> head" for lo hi
  proof -
    have small: "int hi \<le> I64_MAX" using hi assms(9) by simp
    obtain got where "?fetch lo hi got" "map bundle_block got = parsed_range now answer lo hi"
      using fetch_range_whole_blocks [OF assms(2-4) _ small, of fetch_meta tools now err lo] assms(5) by blast
    then show ?thesis
      using parsed_range_bundle_numbers [OF _ assms(4) small] parsed_range_chain [OF _ assms(4) small hi] by blast
  qed
  obtain i where i: "?step\<^sup>*\<^sup>* (index_start db) i" "fw_at (ix_forward i) = Catching_Up head" "fw_heads (ix_forward i) = []"
      "fw_sent (ix_forward i) = upper_end db" "fw_out (ix_forward i) = []" "ix_forwarded i = 0" "ix_writer i = writer_start db"
    using index_wakes [OF assms(6,8,9)] by blast
  have le: "fw_sent (ix_forward i) \<le> head" using i(4) assms(8) by (simp add: upper_end_def)
  obtain f where f: "?step\<^sup>*\<^sup>* i (i\<lparr>ix_forward := f\<rparr>)" "map bundle_number (fw_out f) = [Suc (upper_end db)..<Suc head]"
      "\<forall>b\<in>set (fw_out f). chain_bundle now answer head b"
    using index_fetches [OF assms(1,9) full i(2,3) le] i(4,5) by auto
  have idle: "idle (fw_out f) (ix_writer (i\<lparr>ix_forward := f\<rparr>))"
    using own_chain_hashes [OF assms(7) f(3)] i(7) by (simp add: idle_def writer_start_def)
  have small: "\<forall>b\<in>set (fw_out f). is_i64 (number_of b) \<and> b \<in> set (fw_out f)"
    using f(3) assms(9) by (auto simp: chain_bundle_def is_i64_def)
  obtain j where j: "?step\<^sup>*\<^sup>* (i\<lparr>ix_forward := f\<rparr>) j" "wr_written (ix_writer j) = fw_out f"
    using index_sends_all [of "i\<lparr>ix_forward := f\<rparr>" "fw_out f" batch ?fetch] small idle i(6,7) by (auto simp: writer_start_def)
  have run: "?step\<^sup>*\<^sup>* (index_start db) j" using i(1) f(1) j(1) by (meson rtranclp_trans)
  have ok: "index_ok db j" by (rule indexer_keeps [OF run numbered_honest [OF assms(4)] assms(6)])
  have t: "int (upper_end db) = tip db" "held_run base db" "0 < tip db" using start_tip(3) [OF assms(6)] assms(6) by (simp_all add: start_ok_def)
  have "upper_end db < bundle_number b" if "b \<in> set (fw_out f)" for b
  proof -
    have "bundle_number b \<in> set [Suc (upper_end db)..<Suc head]" unfolding f(2) [symmetric] using that by simp
    then show ?thesis by (simp add: Suc_le_eq split: if_splits del: upt_Suc)
  qed
  then have "above_written db j = fw_out f" unfolding above_written_def j(2) by (simp add: filter_id_conv)
  moreover have "length (fw_out f) = head - upper_end db" using arg_cong [OF f(2), of length] by (simp del: upt_Suc)
  ultimately have "tip (wr_db (ix_writer j)) = int head"
    using index_ok_held(2) [OF ok t(3,2)] t(1) assms(8) by simp
  moreover have "db_ok (wr_db (ix_writer j))" using ok by (simp add: index_ok_def Let_def writer_ok_def)
  ultimately show ?thesis using index_ok_held(1) [OF ok t(3,2)] run by blast
qed

subsection \<open>And the client is shown it\<close>

lemma explorer_keeps:
  assumes "(explorer_step keccak parse chan batch (fetch_range tools now node fetch_meta))\<^sup>*\<^sup>* (explorer_start db) x"
    and "honest node" "start_ok base db"
  shows "explorer_ok base db x"
proof -
  have "(explorer_step keccak parse chan batch (honest_range tools now node fetch_meta))\<^sup>*\<^sup>* (explorer_start db) x"
    using assms(1) by (subst honest_range_eq [OF assms(2)])
  from node_range.explorer_reachable_ok [OF this assms(3)] show ?thesis .
qed

lemma explorer_indexes:
  assumes "(index_step batch got_of)\<^sup>*\<^sup>* i i'"
  shows "(explorer_step keccak parse chan batch got_of)\<^sup>*\<^sup>*
    \<lparr> ex_index = i, ex_live = with_db i l \<rparr> \<lparr> ex_index = i', ex_live = with_db i' l \<rparr>"
  using assms
proof (induction rule: rtranclp_induct)
  case (step i1 i2)
  let ?x = "\<lparr> ex_index = i1, ex_live = with_db i1 l \<rparr>"
  have "explorer_step keccak parse chan batch got_of ?x \<lparr> ex_index = i2, ex_live = with_db i2 (ex_live ?x) \<rparr>"
    by (rule explorer_step.indexes) (use step.hyps(2) in simp)
  then show ?case using step.IH by (simp add: with_db_def)
qed simp

lemma explorer_serves:
  assumes "(still_step keccak parse chan)\<^sup>*\<^sup>* l l'" "lv_db l = wr_db (ix_writer i)"
  shows "(explorer_step keccak parse chan batch got_of)\<^sup>*\<^sup>* \<lparr> ex_index = i, ex_live = l \<rparr> \<lparr> ex_index = i, ex_live = l' \<rparr>"
  using assms(1)
proof (induction rule: rtranclp_induct)
  case (step l1 l2)
  let ?x = "\<lparr> ex_index = i, ex_live = l1 \<rparr>"
  have db: "lv_db l1 = wr_db (ix_writer i)" "lv_db l2 = wr_db (ix_writer i)"
    using still_frame [OF step.hyps(1)] still_frame [OF r_into_rtranclp [of "still_step keccak parse chan", OF step.hyps(2)]] assms(2) by simp_all
  have "live_step keccak parse chan (\<lambda>_ db'. db' = wr_db (ix_writer i)) l1 l2"
    by (rule live_step_env [OF step.hyps(2) [unfolded still_step_def]]) (simp add: db)
  then have "explorer_step keccak parse chan batch got_of ?x \<lparr> ex_index = i, ex_live = with_db i l2 \<rparr>"
    by (intro explorer_step.serves) simp_all
  moreover have "with_db i l2 = l2" using db(2) by (cases l2) (simp add: with_db_def)
  ultimately show ?case using step.IH by simp
qed simp

lemma run_extends:
  assumes "run f m @ later = run f' m'" "0 < m"
  shows "f = f'"
  using assms by (cases m; cases m') (simp_all add: run_Suc)

text \<open>
  C9. The explorer can reach the head and show it: started on a file whose newest blocks are one run,
  against a node that refuses batches past some size, answers everything else and gives every height its
  own hash, there is a run of the loops, the queue, the writer, the publisher and a client after which the
  tables hold every block from the base of the run up to the head announced, with the books in order, and
  the client has been sent every block from no later than the tip it found up to that head, each once.
\<close>

theorem explorer_reaches_and_shows:
  assumes "0 < batch" "0 < chan" and "0 < cap" "healthy answer" "numbered answer" "\<And>w s. fetch_meta w s \<noteq> None"
    and "start_ok base db" "own_chain answer head db" "tip db \<le> int head" "int head \<le> I64_MAX"
  shows "\<exists>x first n. (explorer_step keccak parse chan batch (fetch_range tools now (capped_node cap answer err) fetch_meta))\<^sup>*\<^sup>*
      (explorer_start db) x
    \<and> held_run base (wr_db (ix_writer (ex_index x))) \<and> tip (wr_db (ix_writer (ex_index x))) = int head
    \<and> db_ok (wr_db (ix_writer (ex_index x)))
    \<and> base \<le> first \<and> first \<le> tip db \<and> shown (ex_live x) = run first n \<and> first + int n = int head + 1"
proof -
  let ?fetch = "fetch_range tools now (capped_node cap answer err) fetch_meta"
  let ?step = "explorer_step keccak parse chan batch ?fetch"
  have start: "explorer_start db = \<lparr> ex_index = index_start db, ex_live = live_start db \<rparr>" by (simp add: explorer_start_def)
  have db0: "lv_db (live_start db) = wr_db (ix_writer (index_start db))" "lv_db (live_start db) = db"
    by (simp_all add: live_start_def index_start_def writer_start_def)
  have "held_run base db" using assms(7) by (simp add: start_ok_def)
  then have ok0: "live_ok base (live_start db)" by (rule live_start_ok)
  obtain l f m where l: "(still_step keccak parse chan)\<^sup>*\<^sup>* (live_start db) l" "lv_db l = db" "read_up l"
      "shown l = run f m" "f + int m = tip db + 1" "0 < m" "base \<le> f"
    using client_catches_up [OF ok0 assms(2), of keccak parse] db0(2) by (auto simp: live_start_def)
  obtain i where i: "(index_step batch ?fetch)\<^sup>*\<^sup>* (index_start db) i" "held_run base (wr_db (ix_writer i))"
      "tip (wr_db (ix_writer i)) = int head" "db_ok (wr_db (ix_writer i))"
    using indexer_reaches_the_head [OF assms(1,3-5) _ assms(7-10), of fetch_meta tools now err] assms(6) by blast
  have r1: "?step\<^sup>*\<^sup>* (explorer_start db) \<lparr> ex_index = index_start db, ex_live = l \<rparr>"
    unfolding start by (rule explorer_serves [OF l(1) db0(1)])
  have w: "with_db (index_start db) l = l" using l(2) db0 by (cases l) (simp add: with_db_def)
  have r2: "?step\<^sup>*\<^sup>* \<lparr> ex_index = index_start db, ex_live = l \<rparr> \<lparr> ex_index = i, ex_live = with_db i l \<rparr>"
    using explorer_indexes [OF i(1), of keccak parse chan l] w by simp
  have "explorer_ok base db \<lparr> ex_index = i, ex_live = with_db i l \<rparr>"
    by (rule explorer_keeps [OF rtranclp_trans [OF r1 r2] numbered_honest [OF assms(5)] assms(7)])
  then have ok: "live_ok base (with_db i l)" by (simp add: explorer_ok_def)
  have up: "lv_at (with_db i l) + chan < length (lv_channel (with_db i l)) \<Longrightarrow> in_reach chan (with_db i l)"
    using l(3) by (simp add: read_up_def with_db_def)
  obtain l' f' m' later where l': "(still_step keccak parse chan)\<^sup>*\<^sup>* (with_db i l) l'" "shown l' = run f' m'"
      "f' + int m' = int head + 1" "base \<le> f'" "shown l' = shown (with_db i l) @ later"
    using client_catches_up [OF ok assms(2) up, of keccak parse] i(3) by (auto simp: with_db_def)
  have r3: "?step\<^sup>*\<^sup>* \<lparr> ex_index = i, ex_live = with_db i l \<rparr> \<lparr> ex_index = i, ex_live = l' \<rparr>"
    by (rule explorer_serves [OF l'(1)]) (simp add: with_db_def)
  have "run f m @ later = run f' m'" using l'(2,5) l(4) by (simp add: shown_def with_db_def)
  then have "f = f'" using l(6) by (rule run_extends)
  then have "f' \<le> tip db" using l(5,6) by linarith
  then show ?thesis using r1 r2 r3 i l' by (intro exI [of _ "\<lparr> ex_index = i, ex_live = l' \<rparr>"] exI [of _ f'] exI [of _ m']) auto
qed

text \<open>A node of empty blocks whose hashes are their numbers.\<close>

definition hashed_blocks :: "rpc_call \<Rightarrow> json" where
  "hashed_blocks c =
     (case c of
        (method, JArr (n # _)) \<Rightarrow>
          if method = ''eth_getBlockByNumber'' then JObj [(''number'', n), (''hash'', if n = JStr ''0x5'' then JStr ''h'' else n)] else JArr []
      | _ \<Rightarrow> JArr [])"

lemma hashed_blocks_numbered: "numbered hashed_blocks"
  using parse_int_any_hex
  by (simp add: numbered_def hashed_blocks_def block_call_def int_field_def jget_def unwrap_or_def)

lemma hashed_blocks_healthy: "healthy hashed_blocks"
  by (simp add: healthy_def hashed_blocks_def block_call_def receipts_call_def)

lemma hashed_blocks_chain: "own_chain hashed_blocks 8 one_block"
proof -
  have n: "{..8::nat} = {0, 1, 2, 3, 4, 5, 6, 7, 8}" by auto
  have h: "map (hash_of hashed_blocks) [0, 1, 2, 3, 4, 5, 6, 7, 8] = [''0x0'', ''0x1'', ''0x2'', ''0x3'', ''0x4'', ''h'', ''0x6'', ''0x7'', ''0x8'']"
    by code_simp
  then have "inj_on (hash_of hashed_blocks) {..8}" unfolding n by simp
  then show ?thesis using h by (simp add: own_chain_def one_block_def empty_database_def sample_block_def)
qed

lemma explorer_reaches_and_shows_witness:
  "\<exists>x first n. (explorer_step (\<lambda>_. []) (\<lambda>_. None) 3 2
        (fetch_range plain_tools 0 (capped_node 2 hashed_blocks \<lparr>err_code = 1, err_message = [], err_data = None\<rparr>) no_metas))\<^sup>*\<^sup>*
        (explorer_start one_block) x \<and> tip (wr_db (ix_writer (ex_index x))) = 8 \<and> first \<le> 5
      \<and> shown (ex_live x) = run first n \<and> first + int n = 9"
proof -
  have t: "tip one_block = 5" by (simp add: tip_def one_block_def empty_database_def get_max_block_number_def)
  then have "tip one_block \<le> int 8" by simp
  from explorer_reaches_and_shows [OF _ _ _ hashed_blocks_healthy hashed_blocks_numbered _ one_block_start hashed_blocks_chain this,
      of 2 3 2 no_metas "\<lambda>_. []" "\<lambda>_. None" plain_tools 0 "\<lparr>err_code = 1, err_message = [], err_data = None\<rparr>"]
  show ?thesis using t by (simp add: no_metas_def) blast
qed

end
