(* ===== verification/Listings.thy ===== *)
theory Listings
  imports Web_Api
begin

section \<open>Listings read to their end (\<open>src/web/api.rs\<close>)\<close>

text \<open>
  What a client gets that follows \<open>next_page\<close>. The contract of a listing cut into pages is a locale, met by
  the listings the database pages; blocks, paged by height, are on their own.
\<close>

subsection \<open>Following a listing\<close>

text \<open>
  A client that reads page after page for as long as it is given the next: the rows it has read, or
  \<open>None\<close> should it never be done.
\<close>

partial_function (option) follow :: "(nat \<Rightarrow> listing) \<Rightarrow> nat \<Rightarrow> json list option" where
  "follow get page =
     (case get page of (items, next') \<Rightarrow>
        (case next' of
           None \<Rightarrow> Some items
         | Some p \<Rightarrow> Option.bind (follow get p) (\<lambda>rest. Some (items @ rest))))"

lemma page_after_Suc: "page < U32_MAX \<Longrightarrow> page_after page = page + 1"
  by (simp add: page_after_def)

subsection \<open>A paged listing\<close>

locale paged_listing =
  fixes get :: "nat \<Rightarrow> listing" and cell :: "'r \<Rightarrow> json" and rows :: "'r list"
  assumes get_page: "1 \<le> p \<Longrightarrow> p \<le> U32_MAX \<Longrightarrow> get p = listing_of (map cell (paged p PER_PAGE rows)) p"
begin

lemma page_rows: "1 \<le> p \<Longrightarrow> p \<le> U32_MAX \<Longrightarrow> fst (get p) = map cell (take PER_PAGE (drop ((p - 1) * PER_PAGE) rows))"
  by (simp add: get_page listing_of_def paged_def page_of_def nat_page_offset)

lemma read_on:
  assumes len: "length rows < PER_PAGE * U32_MAX" and p: "1 \<le> p" "p \<le> U32_MAX"
  shows "follow get p = Some (map cell (drop ((p - 1) * PER_PAGE) rows))"
  using p
proof (induction "length rows - (p - 1) * PER_PAGE" arbitrary: p rule: less_induct)
  case less
  let ?k = "(p - 1) * PER_PAGE"
  have items: "paged p PER_PAGE rows = take PER_PAGE (drop ?k rows)"
    by (simp add: paged_def page_of_def nat_page_offset)
  note page = get_page [OF less.prems]
  show ?case
  proof (cases "PER_PAGE \<le> length rows - ?k")
    case True
    have kp: "?k + PER_PAGE = p * PER_PAGE" using less.prems(1) by (cases p) (simp_all add: algebra_simps)
    have "p * PER_PAGE \<le> length rows" using True kp by (simp add: PER_PAGE_def)
    then have "p * PER_PAGE < PER_PAGE * U32_MAX" using len by linarith
    then have lt: "p < U32_MAX" by (simp add: PER_PAGE_def)
    have smaller: "length rows - (p + 1 - 1) * PER_PAGE < length rows - ?k"
      using True kp by (simp add: PER_PAGE_def)
    have "follow get (p + 1) = Some (map cell (drop ((p + 1 - 1) * PER_PAGE) rows))"
      by (rule less.hyps [OF smaller]) (use lt in auto)
    moreover have "take PER_PAGE (drop ?k rows) @ drop (p * PER_PAGE) rows = drop ?k rows"
      unfolding kp [symmetric] by (metis add.commute append_take_drop_id drop_drop)
    ultimately show ?thesis
      using True lt by (subst follow.simps) (simp add: page listing_of_def items page_after_Suc flip: map_append)
  next
    case False
    then show ?thesis by (subst follow.simps) (simp add: page listing_of_def items)
  qed
qed

lemma read_all: "length rows < PER_PAGE * U32_MAX \<Longrightarrow> follow get 1 = Some (map cell rows)"
  using read_on [of 1] by simp

end

subsection \<open>The tables' listings\<close>

text \<open>A listing behind a check of its address: nothing where that fails.\<close>

definition listed :: "api_error + listing \<Rightarrow> listing" where
  "listed r = (case r of Inl _ \<Rightarrow> ([], None) | Inr l \<Rightarrow> l)"

definition found_rows :: "'e + 'a \<Rightarrow> ('a \<Rightarrow> 'r list) \<Rightarrow> 'r list" where
  "found_rows r rows = (case r of Inl _ \<Rightarrow> [] | Inr x \<Rightarrow> rows x)"

lemma listing_of_Nil [simp]: "listing_of [] p = ([], None)"
  by (simp add: listing_of_def PER_PAGE_def)

lemma paged_Nil [simp]: "paged p n [] = []"
  by (simp add: paged_def page_of_def)

interpretation txs: paged_listing "api_txs w db" "tx_item w \<circ> read_tx (w_keccak w) List" "sort_key tx_newest (transactions db)"
  for w db
  by unfold_locales (simp add: api_txs_def get_transactions_def)

definition tokens_by_holders :: "database \<Rightarrow> (string \<times> token_metadata) list" where
  "tokens_by_holders db = sort_key (\<lambda>r. - k_holder_count (snd r)) (token_metas db)"

interpretation tokens: paged_listing "api_tokens w db" "token_json \<circ> row_to_token (w_keccak w) \<circ> snd" "tokens_by_holders db"
  for w db
  by unfold_locales (simp add: api_tokens_def get_all_tokens_def tokens_by_holders_def comp_assoc)

text \<open>Transfers: a page is sorted as the whole is.\<close>

definition transfer_cell :: "keccak \<Rightarrow> database \<Rightarrow> transfer_event \<Rightarrow> json" where
  "transfer_cell keccak db e = row_to_transfer_json keccak (e, map_of (transactions db) (e_tx_hash e))"

lemma transfer_page_paged:
  "transfer_page keccak db (paged page per_page (sort_key transfer_newest rows))
     = map (transfer_cell keccak db) (paged page per_page (sort_key transfer_newest rows))"
proof -
  have "sorted (map transfer_newest (sort_key transfer_newest rows))" by simp
  then have "sorted (map transfer_newest (paged page per_page (sort_key transfer_newest rows)))"
    unfolding sorted_map by (rule sorted_wrt_paged)
  then have "sort_key transfer_newest (paged page per_page (sort_key transfer_newest rows)) = paged page per_page (sort_key transfer_newest rows)"
    by (rule sort_key_id_if_sorted)
  then show ?thesis by (simp add: transfer_page_def transfer_cell_def)
qed

definition transfers_of_token :: "database \<Rightarrow> string \<Rightarrow> transfer_event list" where
  "transfers_of_token db token = sort_key transfer_newest (filter (\<lambda>e. e_token_addr e = hex_blob token) (transfer_events db))"

interpretation token_transfers: paged_listing "\<lambda>p. listed (api_token_transfers w db address p)" "transfer_cell (w_keccak w) db"
  "found_rows (indexed_token w db address) (\<lambda>m. transfers_of_token db (k_address m))" for w db address
  by unfold_locales
    (auto simp: listed_def found_rows_def api_token_transfers_def api_try_def get_token_transfers_def transfers_of_token_def
      transfer_page_paged split: sum.split)

text \<open>Holders: the rank goes on from page to page.\<close>

definition holders_of :: "database \<Rightarrow> string \<Rightarrow> ((blob \<times> blob) \<times> string \<times> int) list" where
  "holders_of db token = rev (sort_key (\<lambda>(_, balance, _). by_length balance)
     (filter (\<lambda>(k, balance, _). fst k = hex_blob token \<and> holding balance) (token_balances db)))"

definition holder_cell :: "keccak \<Rightarrow> token_metadata \<Rightarrow> nat \<times> ((blob \<times> blob) \<times> string \<times> int) \<Rightarrow> json" where
  "holder_cell keccak m row =
     (case row of (i, k, balance, _) \<Rightarrow> holder_row (big (k_total_supply m)) m 0 (i, blob_addr keccak (snd k), balance))"

lemma drop_enumerate: "drop k (enumerate i xs) = enumerate (i + k) (drop k xs)"
  by (induction xs arbitrary: i k) (auto simp: drop_Cons split: nat.split)

lemma take_enumerate: "take n (enumerate i xs) = enumerate i (take n xs)"
  by (induction xs arbitrary: i n) (auto simp: take_Cons split: nat.split)

lemma paged_enumerate:
  "paged page per_page (enumerate 0 rows) = enumerate (nat (page_offset page per_page)) (paged page per_page rows)"
  by (simp add: paged_def page_of_def drop_enumerate take_enumerate)

lemma holder_row_offset: "holder_row supply m (int k) (i, h) = holder_row supply m 0 (k + i, h)"
  by (simp add: holder_row_def)

lemma map_enumerate_offset: "map f (enumerate (k + i) xs) = map (\<lambda>(j, x). f (k + j, x)) (enumerate i xs)"
proof (induction xs arbitrary: i)
  case (Cons x xs)
  then show ?case using Cons.IH [of "Suc i"] by simp
qed simp

lemma map_enumerate_map: "map f (enumerate i (map g xs)) = map (\<lambda>(j, x). f (j, g x)) (enumerate i xs)"
  by (induction xs arbitrary: i) simp_all

lemma token_holders_cells:
  "token_holders w db token m page per_page
     = map (holder_cell (w_keccak w) m) (paged page per_page (enumerate 0 (holders_of db token)))"
proof -
  let ?k = "(page - 1) * per_page" and ?rows = "paged page per_page (holders_of db token)"
  let ?cell = "\<lambda>(k, balance, u :: int). (blob_addr (w_keccak w) (snd k), balance)"
  have k: "page_offset page per_page = int ?k" by (simp add: page_offset_def)
  have "get_token_holders (w_keccak w) db token page per_page = map ?cell ?rows"
    by (simp add: get_token_holders_def holders_of_def)
  then have "token_holders w db token m page per_page
      = map (holder_row (big (k_total_supply m)) m (int ?k)) (enumerate 0 (map ?cell ?rows))"
    unfolding token_holders_def k by (simp only:)
  also have "\<dots> = map (\<lambda>(j, x). holder_cell (w_keccak w) m (?k + j, x)) (enumerate 0 ?rows)"
    unfolding map_enumerate_map by (rule map_cong) (auto simp: holder_row_offset holder_cell_def simp del: of_nat_mult)
  also have "\<dots> = map (holder_cell (w_keccak w) m) (enumerate ?k ?rows)"
    using map_enumerate_offset [of "holder_cell (w_keccak w) m" ?k 0 ?rows] by simp
  finally show ?thesis by (simp add: paged_enumerate nat_page_offset)
qed

interpretation holders: paged_listing "\<lambda>p. listed (api_holders w db address p)"
  "\<lambda>(m, row). holder_cell (w_keccak w) m row"
  "found_rows (indexed_token w db address) (\<lambda>m. map (Pair m) (enumerate 0 (holders_of db (k_address m))))" for w db address
  by unfold_locales
    (auto simp: listed_def found_rows_def api_holders_def api_try_def token_holders_cells paged_def page_of_def take_map drop_map
      comp_def split: sum.split)

subsection \<open>Transfers with their tokens\<close>

text \<open>Rows stored under their address, as every write leaves them.\<close>

definition metas_keyed :: "database \<Rightarrow> bool" where
  "metas_keyed db \<longleftrightarrow> unique_keys (token_metas db) \<and> (\<forall>(k, m)\<in>set (token_metas db). k_address m = k)"

lemma fold_nested: "fold (\<lambda>c out. fold g (h c) out) cs out = fold g (concat (map h cs)) out"
  by (induction cs arbitrary: out) simp_all

lemma map_of_fold_update:
  assumes "\<And>r. r \<in> set rows \<Longrightarrow> key r = a \<Longrightarrow> r = v"
  shows "map_of (fold (\<lambda>r out. AList.update (key r) r out) rows out) a
    = (if a \<in> key ` set rows then Some v else map_of out a)"
  using assms by (induction rows arbitrary: out) (auto simp: update_conv')

lemma set_chunk_rows:
  fixes r :: 'b and cs :: "'c list"
  shows "r \<in> set (concat (map (\<lambda>c. map (f \<circ> snd) (filter (\<lambda>(k, _). P c k) t)) cs)) \<longleftrightarrow>
     (\<exists>k m. (k, m) \<in> set t \<and> r = f m \<and> (\<exists>c\<in>set cs. P c k))"
proof -
  have "r \<in> set (map (f \<circ> snd) (filter (\<lambda>(k, _). P c k) t)) \<longleftrightarrow> (\<exists>k m. (k, m) \<in> set t \<and> r = f m \<and> P c k)" for c
    by (auto simp: image_iff Bex_def)
  moreover have "r \<in> set (concat (map D cs)) \<longleftrightarrow> (\<exists>c\<in>set cs. r \<in> set (D c))" for D :: "'c \<Rightarrow> 'b list" by simp
  ultimately show ?thesis by (simp only:) blast
qed

lemma tokens_metadata_rows:
  obtains rows where "get_tokens_metadata keccak db addresses = fold (\<lambda>r out. AList.update (k_address r) r out) rows []"
    and "\<And>r. r \<in> set rows \<longleftrightarrow>
      (\<exists>k m. (k, m) \<in> set (token_metas db) \<and> r = row_to_token keccak m \<and> k \<in> hex_blob ` set addresses)"
proof
  let ?rows = "concat (map (\<lambda>chunk. map (row_to_token keccak \<circ> snd) (filter (\<lambda>(k, _). k \<in> hex_blob ` set chunk) (token_metas db)))
    (chunks 100 addresses))"
  show "get_tokens_metadata keccak db addresses = fold (\<lambda>r out. AList.update (k_address r) r out) ?rows []"
    by (simp add: get_tokens_metadata_def fold_nested)
  have "(\<exists>c\<in>set (chunks 100 addresses). k \<in> hex_blob ` set c) \<longleftrightarrow> k \<in> hex_blob ` set addresses" for k
  proof -
    have "set addresses = (\<Union>c\<in>set (chunks 100 addresses). set c)"
      by (subst concat_chunks [of 100 addresses, symmetric]) simp_all
    then show ?thesis by auto
  qed
  then show "r \<in> set ?rows \<longleftrightarrow>
      (\<exists>k m. (k, m) \<in> set (token_metas db) \<and> r = row_to_token keccak m \<and> k \<in> hex_blob ` set addresses)" for r
    by (simp only: set_chunk_rows)
qed

lemma map_of_tokens_metadata:
  assumes "metas_keyed db"
  shows "map_of (get_tokens_metadata keccak db addresses) (blob_addr keccak b)
    = (if b \<in> hex_blob ` set addresses then map_option (row_to_token keccak) (map_of (token_metas db) b) else None)"
proof -
  obtain rows where g: "get_tokens_metadata keccak db addresses = fold (\<lambda>r out. AList.update (k_address r) r out) rows []"
    and rows: "\<And>r. r \<in> set rows \<longleftrightarrow>
      (\<exists>k m. (k, m) \<in> set (token_metas db) \<and> r = row_to_token keccak m \<and> k \<in> hex_blob ` set addresses)"
    using tokens_metadata_rows [of keccak db addresses] by blast
  have key: "k_address (row_to_token keccak m) = blob_addr keccak k \<and> map_of (token_metas db) k = Some m"
    if "(k, m) \<in> set (token_metas db)" for k m
    using assms that by (auto simp: metas_keyed_def unique_keys_def row_to_token_def)
  have same: "k = b" if "blob_addr keccak k = blob_addr keccak b" for k
    using arg_cong [OF that, of hex_blob] by simp
  have row: "map_of (token_metas db) b = Some m \<and> r = row_to_token keccak m \<and> b \<in> hex_blob ` set addresses"
    if r: "r \<in> set rows" "k_address r = blob_addr keccak b" and m: "m = the (map_of (token_metas db) b)" for r m
  proof -
    obtain k n where k: "(k, n) \<in> set (token_metas db)" "r = row_to_token keccak n" "k \<in> hex_blob ` set addresses"
      using r(1) rows by blast
    then have "k = b" using r(2) key [OF k(1)] same by simp
    then show ?thesis using key [OF k(1)] k m by simp
  qed
  have "map_of (fold (\<lambda>r out. AList.update (k_address r) r out) rows []) (blob_addr keccak b)
      = (if blob_addr keccak b \<in> k_address ` set rows then Some (row_to_token keccak (the (map_of (token_metas db) b))) else None)"
    by (subst map_of_fold_update [where v = "row_to_token keccak (the (map_of (token_metas db) b))"]) (use row in auto)
  moreover have "blob_addr keccak b \<in> k_address ` set rows \<longleftrightarrow>
      b \<in> hex_blob ` set addresses \<and> map_of (token_metas db) b \<noteq> None"
  proof
    assume "blob_addr keccak b \<in> k_address ` set rows"
    then show "b \<in> hex_blob ` set addresses \<and> map_of (token_metas db) b \<noteq> None" using row by fastforce
  next
    assume b: "b \<in> hex_blob ` set addresses \<and> map_of (token_metas db) b \<noteq> None"
    then obtain m where m: "(b, m) \<in> set (token_metas db)" by (auto dest: map_of_SomeD)
    then have "row_to_token keccak m \<in> set rows" using rows b by blast
    then show "blob_addr keccak b \<in> k_address ` set rows" using key [OF m] by (metis image_eqI)
  qed
  ultimately show ?thesis unfolding g by auto
qed

lemma hex_blob_checksum_blob_addr [simp]: "hex_blob (checksum_address keccak (blob_addr keccak b)) = b"
proof (cases "length b = 20")
  case True
  have a: "is_address (blob_addr keccak b)"
    unfolding blob_addr_def by (rule is_address_checksum) (simp add: is_address_blob_hex True)
  show ?thesis
    using hex_blob_case [OF is_address_checksum [OF a, of keccak] a] lower_checksum_address [OF a, of keccak] by simp
next
  case False
  then show ?thesis by (simp add: blob_addr_def checksum_address_short)
qed

text \<open>What a page looks up for a transfer does not depend on the others of the page.\<close>

lemma token_metas_of_page:
  assumes "metas_keyed db" "b \<in> set bs"
  shows "map_of (token_metas_of w db (map (blob_addr (w_keccak w)) bs)) (blob_addr (w_keccak w) b)
    = map_of (token_metas_of w db [blob_addr (w_keccak w) b]) (blob_addr (w_keccak w) b)"
proof -
  let ?c = "\<lambda>b. checksum_address (w_keccak w) (blob_addr (w_keccak w) b)"
  have "b \<in> hex_blob ` {x \<in> ?c ` B. is_valid_address x} \<longleftrightarrow> is_valid_address (?c b)" if b: "b \<in> B" for B
  proof
    assume "b \<in> hex_blob ` {x \<in> ?c ` B. is_valid_address x}"
    then show "is_valid_address (?c b)" by auto
  next
    assume "is_valid_address (?c b)"
    then show "b \<in> hex_blob ` {x \<in> ?c ` B. is_valid_address x}" using b by (intro image_eqI [of _ _ "?c b"]) auto
  qed
  from this [of "set bs"] this [of "{b}"] show ?thesis using assms
    by (simp add: token_metas_of_def map_of_tokens_metadata image_image)
qed

definition enriched_cell :: "web_env \<Rightarrow> database \<Rightarrow> transfer_event \<Rightarrow> json" where
  "enriched_cell w db e =
     enrich_transfer (token_metas_of w db [blob_addr (w_keccak w) (e_token_addr e)]) (transfer_cell (w_keccak w) db e)"

lemma transfer_cell_token: "get_str ''token_addr'' (transfer_cell keccak db e) = Some (blob_addr keccak (e_token_addr e))"
  by (simp add: transfer_cell_def row_to_transfer_json_def Let_def row_to_transfer_def transfer_json_def get_str_def jget_def jset_def
      update_conv' as_str_def split: prod.split)

lemma enrich_transfers_cells:
  assumes "metas_keyed db"
  shows "enrich_transfers w db (map (transfer_cell (w_keccak w) db) es) = map (enriched_cell w db) es"
proof -
  have "List.map_filter (get_str ''token_addr'') (map (transfer_cell (w_keccak w) db) es) = map (blob_addr (w_keccak w)) (map e_token_addr es)"
    by (induction es) (simp_all add: map_filter_simps transfer_cell_token)
  then show ?thesis using token_metas_of_page [OF assms, of _ "map e_token_addr es" w]
    by (simp add: enrich_transfers_def enriched_cell_def enrich_transfer_def transfer_cell_token)
qed

definition transfers_of_address :: "database \<Rightarrow> string \<Rightarrow> transfer_event list" where
  "transfers_of_address db address = sort_key transfer_newest
     (filter (\<lambda>e. e_from_addr e = hex_blob address \<or> e_to_addr e = hex_blob address) (transfer_events db))"

lemma address_transfers_paged:
  assumes "distinct (map transfer_key (transfer_events db))" "metas_keyed db"
  shows "paged_listing (\<lambda>p. listed (api_address_transfers w db address p)) (enriched_cell w db)
    (found_rows (checked w address) (transfers_of_address db))"
proof
  fix p :: nat
  assume p: "1 \<le> p" "p \<le> U32_MAX"
  have "enrich_transfers w db (get_address_transfers (w_keccak w) db a p PER_PAGE)
      = map (enriched_cell w db) (paged p PER_PAGE (transfers_of_address db a))" for a
    using p by (simp add: address_transfers_merged [OF assms(1)] transfers_of_address_def transfer_page_paged
        enrich_transfers_cells [OF assms(2)] PER_PAGE_def)
  then show "listed (api_address_transfers w db address p)
      = listing_of (map (enriched_cell w db) (paged p PER_PAGE (found_rows (checked w address) (transfers_of_address db)))) p"
    by (simp add: listed_def found_rows_def api_address_transfers_def api_try_def split: sum.split)
qed

definition txs_of_address :: "database \<Rightarrow> string \<Rightarrow> (blob \<times> transaction) list" where
  "txs_of_address db address = sort_key tx_newest
     (filter (\<lambda>(_, t). t_from_addr t = hex_blob address \<or> t_to_addr t = Some (hex_blob address)) (transactions db))"

lemma address_txs_paged:
  assumes "distinct (map tx_newest (transactions db))"
  shows "paged_listing (\<lambda>p. listed (api_address_txs w db address p)) (tx_item w \<circ> read_tx (w_keccak w) List)
    (found_rows (checked w address) (txs_of_address db))"
proof
  fix p :: nat
  assume p: "1 \<le> p" "p \<le> U32_MAX"
  have "get_address_transactions (w_keccak w) db a p PER_PAGE List
      = map (read_tx (w_keccak w) List) (paged p PER_PAGE (txs_of_address db a))" for a
    using p by (subst get_address_transactions_page [OF distinct_map_filter [OF assms]])
      (simp_all add: txs_of_address_def paged_def page_of_def nat_page_offset PER_PAGE_def)
  then show "listed (api_address_txs w db address p) = listing_of (map (tx_item w \<circ> read_tx (w_keccak w) List)
      (paged p PER_PAGE (found_rows (checked w address) (txs_of_address db)))) p"
    by (simp add: listed_def found_rows_def api_address_txs_def api_try_def split: sum.split)
qed

subsection \<open>Blocks by height\<close>

lemma filter_split_desc:
  assumes "sorted_wrt (\<lambda>a b. key b \<le> key a) rows" and "(start :: int) \<le> end' + 1"
  shows "filter (\<lambda>r. start \<le> key r \<and> key r \<le> end') rows @ filter (\<lambda>r. key r \<le> start - 1) rows
    = filter (\<lambda>r. key r \<le> end') rows"
  using assms(1)
proof (induction rows)
  case (Cons r rows)
  show ?case
  proof (cases "start \<le> key r")
    case False
    then have "filter (\<lambda>r. start \<le> key r \<and> key r \<le> end') rows = []"
      using Cons.prems by (fastforce simp: filter_empty_conv)
    then show ?thesis using False Cons assms(2) by auto
  qed (use Cons assms(2) in auto)
qed simp

lemma follow_blocks:
  assumes keys: "\<forall>n\<in>fst ` set (blocks db). 0 \<le> n \<and> n < int (PER_PAGE * U32_MAX)"
    and top: "get_max_block_number db = Some t" and low: "get_min_block_number db = Some m"
    and p: "1 \<le> p" "p \<le> U32_MAX"
  shows "follow (api_blocks db) p =
    Some (map (block_json \<circ> row_to_block \<circ> snd) (filter (\<lambda>r. fst r \<le> t - (int p - 1) * int PER_PAGE) (blocks_newest db)))"
  using p
proof (induction "nat (t - (int p - 1) * int PER_PAGE)" arbitrary: p rule: less_induct)
  case less
  let ?last = "t - (int p - 1) * int PER_PAGE"
  let ?start = "max 0 (?last - int PER_PAGE + 1)"
  have m_eq: "blocks db \<noteq> []" "m = Min (fst ` set (blocks db))"
    using low by (auto simp: get_min_block_number_def split: if_splits)
  then have m: "m \<in> fst ` set (blocks db)" by simp
  have m_le: "m \<le> n" if "n \<in> fst ` set (blocks db)" for n
    unfolding m_eq(2) using that by (intro Min_le) auto
  have t: "t < int (PER_PAGE * U32_MAX)"
    using top keys Max_in [of "fst ` set (blocks db)"] by (auto simp: get_max_block_number_def split: if_splits)
  have page: "api_blocks db p =
      (map (block_json \<circ> row_to_block \<circ> snd) (filter (\<lambda>r. ?start \<le> fst r \<and> fst r \<le> ?last) (blocks_newest db)),
       if ?start > m then Some (page_after p) else None)"
    by (simp add: api_blocks_def Let_def top low get_blocks_in_range_def case_prod_unfold comp_assoc)
  show ?case
  proof (cases "?start > m")
    case True
    then have start: "?start = ?last - int PER_PAGE + 1" and pos: "0 < ?last - int PER_PAGE + 1" using m keys by force+
    have next_end: "t - (int (p + 1) - 1) * int PER_PAGE = ?start - 1"
      unfolding start by (simp add: algebra_simps)
    have lt: "p < U32_MAX"
    proof -
      have "int p * int PER_PAGE < t + 1" using pos by (simp add: algebra_simps)
      then have "int p * int PER_PAGE < int (PER_PAGE * U32_MAX)" using t by linarith
      then show ?thesis by (simp add: PER_PAGE_def)
    qed
    have "nat (t - (int (p + 1) - 1) * int PER_PAGE) < nat ?last"
      using pos unfolding next_end start by (simp add: PER_PAGE_def)
    then have ih: "follow (api_blocks db) (p + 1) =
        Some (map (block_json \<circ> row_to_block \<circ> snd) (filter (\<lambda>r. fst r \<le> ?start - 1) (blocks_newest db)))"
      using less.hyps [of "p + 1"] lt unfolding next_end by simp
    have "filter (\<lambda>r. ?start \<le> fst r \<and> fst r \<le> ?last) (blocks_newest db) @ filter (\<lambda>r. fst r \<le> ?start - 1) (blocks_newest db)
        = filter (\<lambda>r. fst r \<le> ?last) (blocks_newest db)"
      by (rule filter_split_desc [OF sorted_blocks_newest]) (use start in \<open>simp add: PER_PAGE_def\<close>)
    then show ?thesis
      using True ih by (subst follow.simps) (simp only: page page_after_Suc [OF lt] prod.case if_True option.case bind.simps map_append [symmetric])
  next
    case False
    have "filter (\<lambda>r. ?start \<le> fst r \<and> fst r \<le> ?last) (blocks_newest db) = filter (\<lambda>r. fst r \<le> ?last) (blocks_newest db)"
      by (rule filter_cong) (use False m_le in fastforce)+
    then show ?thesis using False by (subst follow.simps) (simp only: page prod.case if_False option.case)
  qed
qed

lemma follow_all_blocks:
  assumes "\<forall>n\<in>fst ` set (blocks db). 0 \<le> n \<and> n < int (PER_PAGE * U32_MAX)"
  shows "follow (api_blocks db) 1 = Some (map (block_json \<circ> row_to_block \<circ> snd) (blocks_newest db))"
proof (cases "blocks db = []")
  case True
  then show ?thesis
    by (subst follow.simps) (simp add: api_blocks_def get_max_block_number_def get_min_block_number_def
        get_blocks_in_range_def blocks_newest_def)
next
  case False
  then obtain t m where t: "get_max_block_number db = Some t" and m: "get_min_block_number db = Some m"
    by (simp add: get_max_block_number_def get_min_block_number_def)
  have "fst r \<le> t" if "r \<in> set (blocks db)" for r
    using t that False by (auto simp: get_max_block_number_def intro!: Max_ge)
  then have "filter (\<lambda>r. fst r \<le> t) (blocks_newest db) = blocks_newest db" by (simp add: filter_id_conv)
  then show ?thesis using follow_blocks [OF assms t m, of 1] by simp
qed

subsection \<open>Every listing\<close>

text \<open>The tables are no longer than a \<open>u32\<close> of pages, and no two transactions share a place in the chain.\<close>

definition listings_ok :: "database \<Rightarrow> bool" where
  "listings_ok db \<longleftrightarrow>
     (\<forall>n\<in>fst ` set (blocks db). 0 \<le> n \<and> n < int (PER_PAGE * U32_MAX))
     \<and> (\<forall>n\<in>{length (transactions db), length (token_metas db), length (transfer_events db), length (token_balances db)}.
          n < PER_PAGE * U32_MAX)
     \<and> distinct (map tx_newest (transactions db)) \<and> distinct (map transfer_key (transfer_events db)) \<and> metas_keyed db"

lemma found_rows_length: "(\<And>x. length (rows x) \<le> n) \<Longrightarrow> length (found_rows r rows) \<le> n"
  by (simp add: found_rows_def split: sum.split)

lemma rows_listed:
  "length (transfers_of_token db a) \<le> length (transfer_events db)" "length (holders_of db a) \<le> length (token_balances db)"
  "length (transfers_of_address db a) \<le> length (transfer_events db)" "length (txs_of_address db a) \<le> length (transactions db)"
  "length (tokens_by_holders db) = length (token_metas db)"
  by (simp_all add: transfers_of_token_def holders_of_def transfers_of_address_def txs_of_address_def tokens_by_holders_def)


lemma enriched_cell_amount: "get_str ''amount'' (enriched_cell w db e) = Some (e_amount e)"
  by (simp add: enriched_cell_def enrich_transfer_def transfer_cell_def row_to_transfer_json_def Let_def row_to_transfer_def
      transfer_json_def get_str_def jget_def jset_def update_conv' as_str_def split: prod.split option.split)

definition two_blocks :: database where
  "two_blocks = empty_database\<lparr>blocks := [(2, sample_block 2 ''a''), (90, sample_block 90 ''b'')]\<rparr>"

definition listed_address :: string where
  "listed_address = ''0x'' @ replicate 40 CHR ''0''"

definition listed_db :: database where
  "listed_db = two_blocks\<lparr>transfer_events :=
     [stored_transfer 1 (sample_transfer 3 listed_address listed_address ''5''),
      stored_transfer 2 (sample_transfer 4 ''0xaa'' listed_address ''7''), stored_transfer 3 (sample_transfer 6 ''0xaa'' ''0xbb'' ''9'')]\<rparr>"

lemma listed_address_checked: "checked plain_env listed_address = Inr listed_address"
  by code_simp


end
