(* ===== verification/Startup.thy ===== *)
theory Startup
  imports Config Rpc Migration
begin

section \<open>Starting (\<open>src/main.rs\<close>, the clients of \<open>src/rpc.rs\<close>)\<close>

text \<open>
  The client a program talks to the node with, the indexer's own settings, and what \<open>main\<close> makes of the
  environment and the file before anything runs. The lemmas say that the API key goes to the node and
  nowhere else, and that no setting can panic a \<open>Duration\<close>.
\<close>

subsection \<open>The client\<close>

text \<open>A request as it is sent: the connections beneath are the HTTP library's.\<close>

record http_request =
  hr_url :: string
  hr_query :: "(string \<times> string) list"
  hr_headers :: "(string \<times> string) list"
  hr_payload :: "json option"

record chain_rpc =
  cr_url :: string
  cr_api_key :: "string option"
  cr_pace :: "batch_pace option"

definition new_client :: "string \<Rightarrow> chain_rpc" where
  "new_client url = \<lparr> cr_url = url, cr_api_key = None, cr_pace = None \<rparr>"

definition paced_client :: "nat \<Rightarrow> nat \<Rightarrow> chain_rpc \<Rightarrow> chain_rpc" where
  "paced_client now gap c = c\<lparr>cr_pace := Some \<lparr> pace_gap = gap, pace_next = now \<rparr>\<rparr>"

definition with_api_key :: "string option \<Rightarrow> chain_rpc \<Rightarrow> chain_rpc" where
  "with_api_key key c = c\<lparr>cr_api_key := key\<rparr>"

definition client_from_settings :: "settings \<Rightarrow> chain_rpc" where
  "client_from_settings s = with_api_key (s_rpc_api_key s) (new_client (s_rpc_url s))"

definition post :: "chain_rpc \<Rightarrow> json \<Rightarrow> http_request" where
  "post c payload =
     \<lparr> hr_url = cr_url c, hr_query = [],
       hr_headers = (case cr_api_key c of Some key \<Rightarrow> [(''x-api-key'', key)] | None \<Rightarrow> []),
       hr_payload = Some payload \<rparr>"

text \<open>The requests of \<open>call\<close> and \<open>batch_call\<close>, and the one to the signature directory, which has no key to carry.\<close>

definition call_request :: "chain_rpc \<Rightarrow> rpc_call \<Rightarrow> http_request" where
  "call_request c call = post c (request_body 1 call)"

definition batch_request :: "chain_rpc \<Rightarrow> rpc_call list \<Rightarrow> http_request" where
  "batch_request c calls = (case calls of [call] \<Rightarrow> call_request c call | _ \<Rightarrow> post c (batch_payload calls))"

definition ask_request :: "string \<Rightarrow> string list \<Rightarrow> http_request" where
  "ask_request url selectors =
     \<lparr> hr_url = url,
       hr_query = [(''function'', concat (case selectors of [] \<Rightarrow> [] | s # rest \<Rightarrow> s # map ((@) '','') rest)), (''filter'', ''true'')],
       hr_headers = [], hr_payload = None \<rparr>"

text \<open>How a client comes to be what it is: made for a URL, then given a key or a pace.\<close>

inductive client_of :: "settings \<Rightarrow> chain_rpc \<Rightarrow> bool" for s where
  made: "client_of s (client_from_settings s)"
| paced: "client_of s c \<Longrightarrow> client_of s (paced_client now gap c)"

lemma client_of_sends:
  assumes "client_of s c"
  shows "cr_url c = s_rpc_url s \<and> cr_api_key c = s_rpc_api_key s"
  using assms by induction (simp_all add: client_from_settings_def with_api_key_def new_client_def paced_client_def)

lemma key_stays_with_the_node:
  assumes "client_of s c" and "r = batch_request c calls \<or> r = ask_request url selectors"
    and "(''x-api-key'', key) \<in> set (hr_headers r)"
  shows "hr_url r = s_rpc_url s \<and> s_rpc_api_key s = Some key"
  using assms client_of_sends [OF assms(1)]
  by (auto simp: batch_request_def call_request_def post_def ask_request_def split: list.splits option.splits)

lemma every_request_carries_the_key:
  assumes "client_of s c" and "s_rpc_api_key s = Some key"
  shows "hr_headers (batch_request c calls) = [(''x-api-key'', key)]"
  using assms(2) client_of_sends [OF assms(1)]
  by (auto simp: batch_request_def call_request_def post_def split: list.splits)

subsection \<open>The indexer's settings\<close>

record indexer_config =
  ic_poll :: rat
  ic_batch :: nat
  ic_concurrency :: nat
  ic_ws_url :: string
  ic_index_ws :: bool
  ic_stats_interval :: rat

definition indexer_config_from_settings :: "settings \<Rightarrow> indexer_config" where
  "indexer_config_from_settings s =
     \<lparr> ic_poll = s_poll_seconds s, ic_batch = s_batch_size s, ic_concurrency = s_index_concurrency s,
       ic_ws_url = s_ws_url s, ic_index_ws = s_index_ws s, ic_stats_interval = s_stats_interval_seconds s \<rparr>"

text \<open>\<open>Duration::from_secs_f64\<close> takes no number below zero and none past its range; these are far inside.\<close>

lemma durations_in_range:
  assumes "c = indexer_config_from_settings (settings_from_env parse_f64 header_ok env)"
  shows "0 < ic_poll c \<and> ic_poll c \<le> 3600 \<and> 1 \<le> ic_stats_interval c \<and> ic_stats_interval c \<le> 3600
    \<and> 1 \<le> ic_batch c \<and> ic_batch c \<le> 1024 \<and> 1 \<le> ic_concurrency c"
proof -
  have "ic_poll c = clamp_to (1 / 20) 3600 (env_f64 parse_f64 env ''INDEX_POLL_SECONDS'' 1)"
    "ic_stats_interval c = clamp_to 1 3600 (env_f64 parse_f64 env ''STATS_INTERVAL_SECONDS'' 5)"
    "ic_batch c = clamp_to 1 1024 (env_parse parse_u64 env ''INDEX_BATCH'' 32)"
    "ic_concurrency c = clamp_to 1 256 (env_parse parse_u64 env ''INDEX_CONCURRENCY'' 32)"
    by (simp_all add: assms indexer_config_from_settings_def settings_from_env_def Let_def)
  moreover have "1 / 20 \<le> clamp_to (1 / 20) 3600 x" "clamp_to (1 / 20) 3600 x \<le> 3600" for x :: rat
    using clamp_to_bounds [of "1 / 20" 3600 x] by simp_all
  moreover have "1 \<le> clamp_to 1 3600 x" "clamp_to 1 3600 x \<le> 3600" for x :: rat
    using clamp_to_bounds [of 1 3600 x] by simp_all
  moreover have "1 \<le> clamp_to 1 1024 n" "clamp_to 1 1024 n \<le> 1024" "1 \<le> clamp_to 1 256 n" for n :: nat
    using clamp_to_bounds [of 1 1024 n] clamp_to_bounds [of 1 256 n] by simp_all
  moreover have "0 < x" if "1 / 20 \<le> x" for x :: rat using that by (rule less_le_trans [rotated]) simp
  ultimately show ?thesis by (simp only:)
qed

subsection \<open>What \<open>main\<close> starts with\<close>

record started =
  st_file :: stored_file
  st_rpc :: chain_rpc
  st_indexer_rpc :: chain_rpc
  st_indexer_cfg :: indexer_config
  st_home_stats :: json
  st_shutdown :: bool
  st_listen :: string

definition home_stats :: "(string \<Rightarrow> json option) \<Rightarrow> database \<Rightarrow> json" where
  "home_stats parse db = unwrap_or JNull (Option.bind (get_kv db ''stats'') parse)"

text \<open>A file that cannot be opened ends the program before it listens.\<close>

definition start_up :: "(string \<Rightarrow> json option) \<Rightarrow> int \<Rightarrow> settings \<Rightarrow> stored_file \<Rightarrow> migrate_error + started" where
  "start_up parse now cfg on_disk =
     (case init_db now on_disk of
        Inl e \<Rightarrow> Inl e
      | Inr file' \<Rightarrow>
          Inr \<lparr> st_file = file', st_rpc = client_from_settings cfg, st_indexer_rpc = client_from_settings cfg,
                st_indexer_cfg = indexer_config_from_settings cfg, st_home_stats = home_stats parse (fst file'),
                st_shutdown = False, st_listen = s_host cfg @ '':'' @ dec_nat (s_port cfg) \<rparr>)"

text \<open>A file this build has opened before opens again, and only its counters can be new.\<close>

lemma start_up_again:
  assumes "get_kv (fst on_disk) BALANCE_KEYS_BLOB \<noteq> None"
  shows "\<exists>st. start_up parse now cfg on_disk = Inr st \<and> st_file st = (seed_counters (fst on_disk), snd on_disk)
    \<and> client_of cfg (st_rpc st) \<and> client_of cfg (st_indexer_rpc st)"
  using init_db_marked [OF assms] by (auto simp: start_up_def intro: client_of.made)

end
