(* ===== verification/Lifecycle.thy ===== *)
theory Lifecycle
  imports Explorer
begin

section \<open>Starting and stopping (\<open>src/main.rs\<close>)\<close>

text \<open>
  The process around the explorer: the server and the indexer run until a signal asks them to stop,
  connections get a few seconds and the indexer a few more, and a second signal ends it at once. Time is
  in milliseconds; a timer that is due fires before time goes on. The lemmas bound the shutdown, and
  show that what a stopped process leaves, however it was stopped, is what the next one starts from.
\<close>

definition GRACE_MS :: nat where
  "GRACE_MS = 5 * 1000"

definition FLUSH_MS :: nat where
  "FLUSH_MS = 10 * 1000"

subsection \<open>The process\<close>

text \<open>\<open>Serving\<close> is the \<open>select!\<close> over the server and the deadline, \<open>Flushing\<close> the wait for the indexer.\<close>

datatype phase = Serving | Flushing | Exited int

record process =
  pr_now :: nat
  pr_stop :: "nat option"
  pr_indexer_ended :: bool
  pr_phase :: phase

definition process_start :: process where
  "process_start = \<lparr> pr_now = 0, pr_stop = None, pr_indexer_ended = False, pr_phase = Serving \<rparr>"

definition after :: "nat \<Rightarrow> process \<Rightarrow> bool" where
  "after ms p \<longleftrightarrow> (\<exists>t. pr_stop p = Some t \<and> t + ms \<le> pr_now p)"

definition due :: "process \<Rightarrow> bool" where
  "due p \<longleftrightarrow> pr_phase p = Serving \<and> after GRACE_MS p \<or> pr_phase p = Flushing \<and> after FLUSH_MS p"

inductive process_step :: "process \<Rightarrow> process \<Rightarrow> bool" where
  tick: "pr_phase p \<in> {Serving, Flushing} \<Longrightarrow> \<not> due p \<Longrightarrow> process_step p (p\<lparr>pr_now := Suc (pr_now p)\<rparr>)"
| signal: "pr_phase p = Serving \<Longrightarrow> pr_stop p = None \<Longrightarrow> process_step p (p\<lparr>pr_stop := Some (pr_now p)\<rparr>)"
| second_signal: "pr_phase p \<in> {Serving, Flushing} \<Longrightarrow> pr_stop p = Some t \<Longrightarrow> process_step p (p\<lparr>pr_phase := Exited 130\<rparr>)"
| indexer_ends: "pr_phase p \<in> {Serving, Flushing} \<Longrightarrow> \<not> pr_indexer_ended p \<Longrightarrow> process_step p (p\<lparr>pr_indexer_ended := True\<rparr>)"
| connections_closed: "pr_phase p = Serving \<Longrightarrow> pr_stop p = Some t \<Longrightarrow> process_step p (p\<lparr>pr_phase := Flushing\<rparr>)"
| deadline: "pr_phase p = Serving \<Longrightarrow> after GRACE_MS p \<Longrightarrow> process_step p (p\<lparr>pr_phase := Flushing\<rparr>)"
| server_failed: "pr_phase p = Serving \<Longrightarrow> process_step p (p\<lparr>pr_phase := Exited 1\<rparr>)"
| stopped: "pr_phase p = Flushing \<Longrightarrow> pr_indexer_ended p \<or> after FLUSH_MS p \<Longrightarrow> process_step p (p\<lparr>pr_phase := Exited 0\<rparr>)"

subsection \<open>The shutdown is bounded\<close>

text \<open>Where time and phase can be once a signal has come.\<close>

definition in_time :: "process \<Rightarrow> bool" where
  "in_time p \<longleftrightarrow>
     (case pr_stop p of
        None \<Rightarrow> pr_phase p \<in> {Serving, Exited 1}
      | Some t \<Rightarrow> t \<le> pr_now p \<and> pr_now p \<le> t + FLUSH_MS \<and> (pr_phase p = Serving \<longrightarrow> pr_now p \<le> t + GRACE_MS)
          \<and> pr_phase p \<in> {Serving, Flushing, Exited 0, Exited 1, Exited 130}
          \<and> (pr_phase p = Exited 0 \<longrightarrow> pr_indexer_ended p \<or> pr_now p = t + FLUSH_MS))"

lemma in_time_step: "process_step p q \<Longrightarrow> in_time p \<Longrightarrow> in_time q"
  by (induction rule: process_step.induct)
    (auto simp: in_time_def due_def after_def GRACE_MS_def FLUSH_MS_def split: option.splits)

lemma in_time_reachable: "process_step\<^sup>*\<^sup>* process_start p \<Longrightarrow> in_time p"
proof (induction rule: rtranclp_induct)
  case base
  show ?case by (simp add: in_time_def process_start_def)
qed (rule in_time_step)

text \<open>How many steps are left after a signal: every one brings the end nearer.\<close>

definition steps_left :: "process \<Rightarrow> nat" where
  "steps_left p =
     (case pr_phase p of Exited _ \<Rightarrow> 0 | Flushing \<Rightarrow> 1 | Serving \<Rightarrow> 2)
     + (if pr_indexer_ended p then 0 else 1) + (the (pr_stop p) + FLUSH_MS - pr_now p)"

lemma steps_left_decrease:
  assumes "process_step p q" "in_time p" "pr_stop p \<noteq> None"
  shows "steps_left q < steps_left p \<and> pr_stop q = pr_stop p"
  using assms
  by (induction rule: process_step.induct)
    (auto simp: in_time_def due_def after_def steps_left_def GRACE_MS_def FLUSH_MS_def split: option.splits phase.splits)

text \<open>No help is needed: while the process runs, time goes on or a timer that is due moves it.\<close>

lemma process_progress:
  assumes "pr_phase p \<in> {Serving, Flushing}"
  shows "\<exists>q. process_step p q"
proof (cases "due p")
  case True
  then show ?thesis using process_step.deadline process_step.stopped by (auto simp: due_def)
next
  case False
  then show ?thesis using assms process_step.tick by blast
qed

lemma exited_stays: "process_step p q \<Longrightarrow> pr_phase p \<noteq> Exited code"
  by (induction rule: process_step.induct) auto

lemma steps_bounded:
  "(process_step ^^ n) p q \<Longrightarrow> in_time p \<Longrightarrow> pr_stop p \<noteq> None \<Longrightarrow> n + steps_left q \<le> steps_left p"
proof (induction n arbitrary: p)
  case (Suc n)
  obtain r where r: "process_step p r" "(process_step ^^ n) r q" using relpowp_Suc_D2 [OF Suc.prems(1)] by blast
  then have "steps_left r < steps_left p" "pr_stop r \<noteq> None" "in_time r"
    using steps_left_decrease in_time_step Suc.prems by auto
  then show ?case using Suc.IH [OF r(2)] by simp
qed simp

text \<open>
  C33. Stopping always ends, and in time: from the first signal the connections get five seconds and the
  indexer ten, whatever either does; no run goes on for ever, none gets stuck before the process has
  exited, and it exits in order only when the indexer has ended or its time is up.
\<close>

theorem shutdown_is_bounded:
  assumes "process_step\<^sup>*\<^sup>* process_start p" and "pr_stop p = Some t"
  shows "t \<le> pr_now p \<and> pr_now p \<le> t + FLUSH_MS \<and> (pr_phase p = Serving \<longrightarrow> pr_now p \<le> t + GRACE_MS)
    \<and> (pr_phase p = Exited 0 \<longrightarrow> pr_indexer_ended p \<or> pr_now p = t + FLUSH_MS)
    \<and> (\<forall>n q. (process_step ^^ n) p q \<longrightarrow> n \<le> FLUSH_MS + 3)
    \<and> ((\<exists>code. pr_phase p = Exited code) \<longleftrightarrow> \<not> (\<exists>q. process_step p q))"
proof -
  have ok: "in_time p" by (rule in_time_reachable [OF assms(1)])
  have "steps_left p \<le> FLUSH_MS + 3" using ok assms(2) by (auto simp: in_time_def steps_left_def split: phase.splits)
  then have "n \<le> FLUSH_MS + 3" if "(process_step ^^ n) p q" for n q
    using steps_bounded [OF that ok] assms(2) by simp
  moreover have "(\<exists>code. pr_phase p = Exited code) \<longleftrightarrow> \<not> (\<exists>q. process_step p q)"
    using process_progress [of p] exited_stays [of p] by (cases "pr_phase p") auto
  ultimately show ?thesis using ok assms(2) by (simp add: in_time_def)
qed

lemma shutdown_is_bounded_witness:
  "\<exists>p. pr_stop p = Some 0 \<and> (\<forall>n q. (process_step ^^ n) p q \<longrightarrow> n \<le> FLUSH_MS + 3) \<and> pr_now p \<le> FLUSH_MS"
proof -
  let ?p = "process_start\<lparr>pr_stop := Some (pr_now process_start)\<rparr>"
  have "process_step process_start ?p" by (rule process_step.signal) (simp_all add: process_start_def)
  then have r: "process_step\<^sup>*\<^sup>* process_start ?p" by blast
  have s: "pr_stop ?p = Some 0" by (simp add: process_start_def)
  show ?thesis using shutdown_is_bounded [OF r s] s by (intro exI [of _ ?p]) simp
qed

subsection \<open>The loops that pause\<close>

text \<open>
  \<open>sleep_or_shutdown\<close>: at \<open>start\<close>, with the signal at \<open>stop\<close>, it ends at a time with whether it was told to
  stop. When the timer and the signal are ready together either may win.
\<close>

inductive sleep_or_shutdown :: "nat option \<Rightarrow> nat \<Rightarrow> nat \<Rightarrow> nat \<Rightarrow> bool \<Rightarrow> bool" for stop start dur where
  slept: "\<forall>s. stop = Some s \<longrightarrow> start + dur \<le> max start s \<Longrightarrow> sleep_or_shutdown stop start dur (start + dur) False"
| told: "stop = Some s \<Longrightarrow> s \<le> start + dur \<Longrightarrow> sleep_or_shutdown stop start dur (max start s) True"

inductive_simps sleep_result: "sleep_or_shutdown stop start dur t res"

text \<open>A loop begins its passes at these times, each taking as long as it does, and ends.\<close>

inductive genesis_loop :: "nat option \<Rightarrow> nat \<Rightarrow> nat \<Rightarrow> nat list \<Rightarrow> nat \<Rightarrow> bool" for stop interval where
  last_pass: "start \<le> pass_end \<Longrightarrow> sleep_or_shutdown stop pass_end interval t True \<Longrightarrow> genesis_loop stop interval start [start] t"
| next_pass: "start \<le> pass_end \<Longrightarrow> sleep_or_shutdown stop pass_end interval t False \<Longrightarrow>
    genesis_loop stop interval t passes finish \<Longrightarrow> genesis_loop stop interval start (start # passes) finish"

inductive stats_loop :: "nat option \<Rightarrow> nat \<Rightarrow> nat \<Rightarrow> nat list \<Rightarrow> nat \<Rightarrow> bool" for stop interval where
  told: "stop = Some s \<Longrightarrow> s \<le> start \<Longrightarrow> stats_loop stop interval start [] start"
| last_pass: "\<forall>s. stop = Some s \<longrightarrow> start \<le> s \<Longrightarrow> start \<le> pass_end \<Longrightarrow>
    sleep_or_shutdown stop pass_end interval t True \<Longrightarrow> stats_loop stop interval start [start] t"
| next_pass: "\<forall>s. stop = Some s \<longrightarrow> start \<le> s \<Longrightarrow> start \<le> pass_end \<Longrightarrow>
    sleep_or_shutdown stop pass_end interval t False \<Longrightarrow> stats_loop stop interval t passes finish \<Longrightarrow>
    stats_loop stop interval start (start # passes) finish"

text \<open>Told to stop, a loop finishes the pass it is in and begins no other, and it has no more passes than pauses fit before the signal.\<close>

lemma genesis_loop_stops:
  assumes "genesis_loop (Some s) interval start passes finish" "0 < interval"
  shows "(\<forall>t\<in>set (tl passes). t \<le> s) \<and> (length passes - 1) * interval \<le> s - start \<and> passes \<noteq> [] \<and> hd passes = start"
  using assms(1)
proof (induction rule: genesis_loop.induct)
  case (next_pass start pass_end t passes finish)
  then have t: "t = pass_end + interval" "t \<le> max pass_end s" by (auto simp: sleep_result)
  then have s: "t \<le> s" using assms(2) by auto
  obtain rest where p: "passes = t # rest" using next_pass.IH by (cases passes) auto
  have "length rest * interval \<le> s - t" using next_pass.IH p by simp
  then show ?case using s t(1) next_pass.hyps(1) next_pass.IH p by auto
qed simp

lemma stats_loop_stops: "stats_loop (Some s) interval start passes finish \<Longrightarrow> \<forall>t\<in>set passes. t \<le> s"
  by (induction rule: stats_loop.induct) auto

text \<open>A loop that nobody stops does not end; one that is told can.\<close>

lemma genesis_loop_runs_on: "\<not> genesis_loop None interval start passes finish"
proof
  assume "genesis_loop None interval start passes finish"
  then show False by (induction rule: genesis_loop.induct) (auto simp: sleep_result)
qed

lemma stats_loop_runs_on: "\<not> stats_loop None interval start passes finish"
proof
  assume "stats_loop None interval start passes finish"
  then show False by (induction rule: stats_loop.induct) (auto simp: sleep_result)
qed

text \<open>
  \<open>wait_for_seed\<close> looks at the newest block every tenth of a second, or later, until \<open>limit\<close>, five seconds
  after it began.
\<close>

inductive wait_for_seed :: "(nat \<Rightarrow> block option) \<Rightarrow> nat \<Rightarrow> nat \<Rightarrow> nat \<Rightarrow> bool" for newest limit where
  found: "newest t = Some b \<Longrightarrow> wait_for_seed newest limit t (u64_of_i64 (b_number b))"
| gave_up: "newest t = None \<Longrightarrow> limit \<le> t \<Longrightarrow> wait_for_seed newest limit t 0"
| looks_again: "newest t = None \<Longrightarrow> t < limit \<Longrightarrow> t + 100 \<le> t' \<Longrightarrow> wait_for_seed newest limit t' n \<Longrightarrow> wait_for_seed newest limit t n"

text \<open>What it gives is a block that was stored then, or zero after no block was there to the end.\<close>

lemma wait_for_seed_gives:
  "wait_for_seed newest limit t n \<Longrightarrow>
     (\<exists>t'\<ge>t. \<exists>b. newest t' = Some b \<and> n = u64_of_i64 (b_number b)) \<or> n = 0 \<and> (\<exists>t'\<ge>t. limit \<le> t' \<and> newest t' = None)"
proof (induction rule: wait_for_seed.induct)
  case (looks_again t t' n)
  have "t \<le> t'" using looks_again.hyps(3) by simp
  then show ?case using looks_again.IH order_trans [of t t'] by blast
qed blast+

lemma wait_for_seed_ends: "\<exists>n. wait_for_seed newest limit t n"
proof (induction "limit - t" arbitrary: t rule: less_induct)
  case less
  show ?case
  proof (cases "newest t = None \<and> t < limit")
    case True
    then have "limit - (t + 100) < limit - t" by linarith
    from less.hyps [OF this] obtain n where "wait_for_seed newest limit (t + 100) n" ..
    then show ?thesis using True wait_for_seed.looks_again [of newest t limit "t + 100"] by auto
  next
    case False
    then have "newest t = None \<Longrightarrow> wait_for_seed newest limit t 0" by (intro wait_for_seed.gave_up) auto
    then show ?thesis by (cases "newest t") (blast intro: wait_for_seed.found)+
  qed
qed

subsection \<open>Stopping and starting again\<close>

text \<open>One life of the explorer on a file: opened, run for any number of steps, and stopped.\<close>

definition session ::
  "keccak \<Rightarrow> (string \<Rightarrow> json option) \<Rightarrow> nat \<Rightarrow> nat \<Rightarrow> range_fetch \<Rightarrow> database \<Rightarrow> database \<Rightarrow> bool" where
  "session keccak parse cap batch got_of db db' \<longleftrightarrow>
     (\<exists>x. (explorer_step keccak parse cap batch got_of)\<^sup>*\<^sup>* (explorer_start (seed_counters db)) x
        \<and> db' = wr_db (ix_writer (ex_index x)))"

lemma seed_counter_frame: "\<exists>cs. seed_counter t n db = db\<lparr>counters := cs\<rparr>"
proof (cases "map_of (counters db) t")
  case None
  then show ?thesis by (auto simp: seed_counter_def)
next
  case (Some v)
  then show ?thesis by (intro exI [of _ "counters db"]) (simp add: seed_counter_def)
qed

lemma seed_counters_frame:
  obtains cs where "seed_counters db = db\<lparr>counters := cs\<rparr>"
proof -
  obtain cs1 where 1: "seed_counter ''blocks'' (length (blocks db)) db = db\<lparr>counters := cs1\<rparr>"
    using seed_counter_frame by blast
  obtain cs2 where "seed_counter ''transactions'' (length (transactions db)) (db\<lparr>counters := cs1\<rparr>)
      = db\<lparr>counters := cs1\<rparr>\<lparr>counters := cs2\<rparr>"
    using seed_counter_frame by blast
  then show ?thesis using 1 that [of cs2] by (simp add: seed_counters_def)
qed

lemma tip_blocks: "blocks db' = blocks db \<Longrightarrow> tip db' = tip db"
  by (simp only: tip_def get_max_block_number_def)

lemma start_ok_seeded:
  assumes "start_ok base db"
  shows "start_ok base (seed_counters db)"
proof -
  obtain cs where cs: "seed_counters db = db\<lparr>counters := cs\<rparr>" by (rule seed_counters_frame)
  have "held_run base (db\<lparr>counters := cs\<rparr>) = held_run base db"
    by (simp only: held_run_def blocks_ok_def get_max_block_number_def) simp
  then show ?thesis unfolding cs using assms tip_blocks [of "db\<lparr>counters := cs\<rparr>" db]
    by (simp add: start_ok_def db_ok_counters)
qed

text \<open>What is stored at any moment is a file to start from: nothing written later is needed.\<close>

lemma index_ok_start:
  assumes "index_ok db0 i" "start_ok base db0"
  shows "start_ok base (wr_db (ix_writer i))" and "tip db0 \<le> tip (wr_db (ix_writer i))"
    and "numbers db0 \<subseteq> numbers (wr_db (ix_writer i))"
proof -
  have h: "held_run base db0" "0 < tip db0" using assms(2) by (simp_all add: start_ok_def)
  note held = index_ok_held [OF assms(1) h(2,1)]
  have n: "numbers (wr_db (ix_writer i)) = numbers db0 \<union> number_of ` set (wr_written (ix_writer i))"
    using assms(1) by (simp add: index_ok_def Let_def)
  have "number_of b = int (bundle_number b)" if "b \<in> set (wr_written (ix_writer i))" for b
    using assms(1) that by (intro number_of_bundle) (auto simp: index_ok_def Let_def writer_ok_def)
  then have "\<forall>x\<in>numbers (wr_db (ix_writer i)). 0 \<le> x" using n assms(2) by (auto simp: start_ok_def)
  moreover have "db_ok (wr_db (ix_writer i))" using assms(1) by (simp add: index_ok_def Let_def writer_ok_def)
  ultimately show "start_ok base (wr_db (ix_writer i))"
    using held h(2) assms(2) by (simp add: start_ok_def)
  show "tip db0 \<le> tip (wr_db (ix_writer i))" using held(2) by simp
  show "numbers db0 \<subseteq> numbers (wr_db (ix_writer i))" using n by simp
qed

context range_fetching
begin

lemma session_keeps:
  assumes "session keccak parse cap batch fetch db db'" "start_ok base db"
  shows "start_ok base db' \<and> tip db \<le> tip db' \<and> numbers db \<subseteq> numbers db'"
proof -
  obtain x where x: "(explorer_step keccak parse cap batch fetch)\<^sup>*\<^sup>* (explorer_start (seed_counters db)) x"
    "db' = wr_db (ix_writer (ex_index x))" using assms(1) by (auto simp: session_def)
  have ok: "start_ok base (seed_counters db)" by (rule start_ok_seeded [OF assms(2)])
  have "index_ok (seed_counters db) (ex_index x)"
    using explorer_reachable_ok [OF x(1) ok] by (simp add: explorer_ok_def)
  note r = index_ok_start [OF this ok]
  obtain cs where "seed_counters db = db\<lparr>counters := cs\<rparr>" by (rule seed_counters_frame)
  then show ?thesis using r x(2) tip_blocks [of "seed_counters db" db] by simp
qed

lemma sessions_keep:
  assumes "(session keccak parse cap batch fetch)\<^sup>*\<^sup>* db db'" "start_ok base db"
  shows "start_ok base db' \<and> tip db \<le> tip db' \<and> numbers db \<subseteq> numbers db'"
  using assms(1)
proof (induction rule: rtranclp_induct)
  case base
  then show ?case using assms(2) by simp
next
  case (step d e)
  have "start_ok base e \<and> tip d \<le> tip e \<and> numbers d \<subseteq> numbers e"
    by (rule session_keeps [OF step.hyps(2) conjunct1 [OF step.IH]])
  then show ?case using step.IH by (meson order_trans)
qed

end

text \<open>
  C0. However often and whenever the explorer is stopped - by a signal, by a crash between two commits - and
  started again on its file, the stored blocks stay one run from the same base with none lost, the tip
  never goes back, and every balance and holder count is that of the stored transfers.
\<close>

theorem restarts_keep_the_run:
  assumes "(session keccak parse cap batch (fetch_range tools now node fetch_meta))\<^sup>*\<^sup>* db db'"
    and "honest node" and "start_ok base db"
  shows "held_run base db' \<and> tip db \<le> tip db' \<and> numbers db \<subseteq> numbers db' \<and> db_ok db'"
proof -
  have "(session keccak parse cap batch (honest_range tools now node fetch_meta))\<^sup>*\<^sup>* db db'"
    using assms(1) by (subst honest_range_eq [OF assms(2)])
  from node_range.sessions_keep [OF this assms(3)]
  show ?thesis by (simp add: start_ok_def)
qed

lemma restarts_keep_the_run_witness:
  "\<exists>db. (session (\<lambda>_. []) (\<lambda>_. None) 1 2 (fetch_range plain_tools 0 small_node no_metas))\<^sup>*\<^sup>* one_block db
     \<and> db \<noteq> one_block \<and> held_run 5 db \<and> db_ok db"
proof -
  let ?step = "session (\<lambda>_. []) (\<lambda>_. None) 1 2 (fetch_range plain_tools 0 small_node no_metas)"
  let ?db = "wr_db (ix_writer (ex_index (explorer_start (seed_counters one_block))))"
  have "?step one_block ?db" unfolding session_def by blast
  then have r: "?step\<^sup>*\<^sup>* one_block ?db" by blast
  have "counters one_block = []" by (simp add: one_block_def empty_database_def)
  then have "?db \<noteq> one_block"
    by (auto simp: explorer_start_def index_start_def writer_start_def seed_counters_def seed_counter_def dest!: arg_cong [of _ _ counters])
  then show ?thesis using restarts_keep_the_run [OF r small_node_honest one_block_start] r by blast
qed

end
