(* ===== verification/Spec2Isabelle.thy ===== *)
theory Spec2Isabelle
  imports Rpc Models Ledger_Writes Ledger_Rewrite Ledger_Rebuild Tokens Storage_Reads Traces Indexer Loops Contracts
    Background Writer Tempo_Address Memo Anchoring Name_Search Config Signatures Heads Phrases Summary Feed
    Web_Pages Web_Anchoring Raw_Tx Web_Tx Web_Api Web_Search Stats
    Migration Web_Filters Pipeline Routes Explorer
    Draining Reaching Listings Startup Lifecycle
begin

text \<open>
  A verification library for the block explorer of the nvnm chain (Rust, the crate under
  \<open>src/src/\<close>).

  The program. An indexer follows the chain over JSON-RPC (\<open>rpc.rs\<close>, \<open>ws.rs\<close>), parses what the node
  answers (\<open>parse.rs\<close>, \<open>decoder.rs\<close>, \<open>tokens.rs\<close>), and writes whole blocks to SQLite (\<open>db.rs\<close>); the
  web server (\<open>web.rs\<close>) reads the tables and the node. Two loops fetch, one upwards from the newest
  stored block and one downwards to block 1; both hand bundles to one writer, beside which a few tasks
  repair and complete the tables.

  The theories, and the code each models.

  \<^item> \<open>Explorer_Prelude\<close>: tables with a unique key as association lists, counts and sums; the
    development's theorem collections.
  \<^item> \<open>Rust_Text\<close>, \<open>Rust_Numbers\<close>, \<open>Extern\<close>, \<open>Json\<close>, \<open>Paging\<close>: what the code uses of the standard library,
    \<open>hex\<close>, \<open>num_bigint\<close> and \<open>serde_json\<close>. A string is the list of its UTF-8 bytes; an \<open>i64\<close> is an \<open>int\<close>
    and a \<open>u64\<close> a \<open>nat\<close>, the casts and the saturating and checked operations written out.
  \<^item> \<open>Rpc\<close> (\<open>rpc.rs\<close>): one call, a batch with its retry and its pace, and the readers of hex and decimal
    values. The transport is the parameter \<open>send\<close>, a function of the request and of the state the world
    is in. Locale \<open>batch_client\<close> is what the callers of a batch rely on.
  \<^item> \<open>Models\<close> (\<open>models.rs\<close>), \<open>Address\<close> (addresses and blobs of \<open>decoder.rs\<close> and \<open>db.rs\<close>), \<open>Parse\<close>
    (\<open>parse.rs\<close>).
  \<^item> \<open>Storage\<close> (\<open>db.rs\<close>): the tables as a record of keyed lists and every write as a function on it.
    \<open>Ledger\<close>, \<open>Ledger_Writes\<close>, \<open>Ledger_Rewrite\<close> and \<open>Ledger_Rebuild\<close> relate them to the abstract ledger,
    the sums of the stored transfers and genesis balances: writing blocks keeps the balances and the
    holder counts equal to it, writing a block again changes nothing, rebuilding computes it.
  \<^item> \<open>Storage_Reads\<close> (\<open>db.rs\<close>): the queries of the pages, with the merged pages of an address against
    the page of the whole list.
  \<^item> \<open>Tokens\<close> (\<open>tokens.rs\<close>): a token's views and balances over raw call results; amounts.
  \<^item> \<open>Decoder\<close>, \<open>Traces\<close> (\<open>decoder.rs\<close>): the registry of declarations and every decoder over it; a
    flattened trace against its tree. The ABI codec is the parameter \<open>codec\<close>, Keccak \<open>keccak\<close>.
  \<^item> \<open>Contracts\<close> (\<open>contracts.rs\<close>): the known addresses, kinds of address and proxies.
  \<^item> \<open>Indexer\<close>, \<open>Fetching\<close>, \<open>Loops\<close>, \<open>Background\<close>, \<open>Writer\<close> (\<open>indexer.rs\<close>): a range fetched in one
    request, in halves and in chunks; a block and its receipts as rows; the forward and backfill loops
    as step machines in an environment that is free; the tasks that run beside them; and the writer,
    whose steps are transactions in any order. Locale \<open>range_fetching\<close> is what the loops rely on.

  \<^item> \<open>Config\<close> (\<open>config.rs\<close>): the settings read from the environment, every one in its range.
  \<^item> \<open>Heads\<close> (\<open>ws.rs\<close>): polling for the head, the WebSocket subscription and the pauses between its retries.
  \<^item> \<open>Signatures\<close> (\<open>signatures.rs\<close>): the cache of the signature directory against the memory it
    implements; a name is believed only when it hashes to its selector.
  \<^item> \<open>Tempo_Address\<close> (\<open>tempo_address.rs\<close>), \<open>Memo\<close> (\<open>memo.rs\<close>): virtual addresses and transfer memos,
    read back as they were built.
  \<^item> \<open>Anchoring\<close> (\<open>anchoring.rs\<close>), \<open>Name_Search\<close> (\<open>name_search.rs\<close>): the contract's registries, records
    and versions in pages, newest first, and the ranking of what the name index answers. The ABI of the
    contract is the record \<open>contract_codec\<close>.
  \<^item> \<open>Phrases\<close>, \<open>Summary\<close> (\<open>summary.rs\<close>): the table of sentences, what each log is told as, and the
    sentence a transaction is headed by.
  \<^item> \<open>Feed\<close> (\<open>web.rs\<close>): the publisher of new blocks and the event stream of a client; in whatever order
    commits, publisher and client take their turns, a client is sent consecutive heights.
  \<^item> \<open>Web_Base\<close>, \<open>Web_Pages\<close> (\<open>web.rs\<close>): answering as HTML or JSON, the rows as JSON, errors, page
    numbers, labels, and the pages of blocks, transactions, tokens and addresses. What the process holds
    that no handler changes is the record \<open>web_env\<close>; a rendered template is its \<open>w_render\<close>.
  \<^item> \<open>Raw_Tx\<close> (\<open>decoder.rs\<close>), \<open>Web_Tx\<close> (\<open>web.rs\<close>): the fields of a raw transaction, and the
    transaction page: its calls named, replayed and judged, the balances, fees and the summary.
  \<^item> \<open>Web_Anchoring\<close>, \<open>Web_Search\<close> (\<open>web.rs\<close>): the pages of the anchoring contract, its suggestions, and
    where a search leads; the index never sends a reader to a page that says not found.
  \<^item> \<open>Web_Api\<close> (\<open>web/api.rs\<close>): every route of the JSON API, and the API beside the pages, which refuse
    alike. \<open>Listings\<close>: its listings read to their end; locale \<open>paged_listing\<close> is the contract of those the
    database pages.
  \<^item> \<open>Stats\<close> (\<open>indexer.rs\<close>, \<open>web.rs\<close>): the statistics task and the home page; the operations of \<open>f64\<close> are
    the record \<open>f64_ops\<close>, the sums and the charts are integers and add up.
  \<^item> \<open>Web_Filters\<close> (\<open>web.rs\<close>): what \<open>build_tera\<close> registers for the templates; linking the accounts of a
    sentence puts nothing but links into a page.
  \<^item> \<open>Migration\<close> (\<open>db.rs\<close>): opening a file whose balances an older build keyed by text, refined to the
    tables of \<open>Storage\<close>.
  \<^item> \<open>Routes\<close> (\<open>web.rs\<close>, \<open>web/api.rs\<close>): the route table, the API as one function of a route, and the
    links of the suggestions, each to a page of its kind.
  \<^item> \<open>Pipeline\<close>, \<open>Explorer\<close>: the components together. A block the node describes is what the API answers;
    and with the two loops, the queue, the writer, the tasks beside it, the publisher and a client all
    taking their steps in any order, the client is shown every new block once and each is served. This
    discharges, for the indexer, what \<open>Feed\<close> asks of the writer.
  \<^item> \<open>Draining\<close> (\<open>indexer.rs\<close>): the writer can always catch up with what it was sent.
    \<open>Feed_Progress\<close>: and a client with the tip, whatever it has missed within a replay's reach. \<open>Reaching\<close>:
    with both the explorer can go on, from what is stored, until it holds and has shown the head.
  \<^item> \<open>Startup\<close>, \<open>Lifecycle\<close> (\<open>main.rs\<close>, \<open>rpc.rs\<close>, \<open>indexer.rs\<close>): what \<open>main\<close> makes of the environment and the
    file, with the clients and where their key goes; the process that serves, is told to stop and exits, in
    milliseconds; the pauses of the background loops; and one life of the process after another on its file.

  Loops and fuel. No definition takes fuel. A loop of the program that may not end is a
  \<open>partial_function\<close> whose value is \<open>None\<close> then, and its theorem says when there is a value; the others
  are total functions with a termination proof or step relations. A panic is \<open>None\<close> too where the code
  can reach it on some input; a timeout is a boolean of the handler that sets one.

  Not modelled: the text of the templates, markup that \<open>tera\<close> renders; the transport and the tasks as \<open>tokio\<close>
  and \<open>axum\<close> run them (the step relations take every order of them); SQL text (a query is the function it
  computes, a table the list of its rows, and every table can be read); logging. Time is modelled where a
  deadline or a pause depends on it (\<open>Heads\<close>, \<open>Lifecycle\<close>, the pace in \<open>Rpc\<close>), and a timeout of a handler is a
  boolean.
\<close>

end
